(* ===== verification/Prelude.thy ===== *)
theory Prelude
  imports Main "HOL-Library.Word"
begin

unbundle bit_operations_syntax

text \<open>
  Shared vocabulary of the development: the machine types of the C sources, the
  constants of \<^verbatim>\<open>kernel/include/omnios_kernel.h\<close> that several components use, the
  table-scanning loop that the kernel writes again and again
  (\<^verbatim>\<open>for (i = 0; i < N; i++) if (P(tab[i])) { ...; break; }\<close>), C strings held in
  fixed-size arrays, and the list and word lemmas the component proofs share.

  Arrays of a fixed size are functions on indices; the components prove that the
  indices they use are in range.
\<close>

section \<open>Machine types\<close>

type_synonym u8 = "8 word"
type_synonym u16 = "16 word"
type_synonym u32 = "32 word"
type_synonym u64 = "64 word"

named_theorems table_simps \<open>facts about tables of slots scanned by index\<close>
named_theorems ring_simps \<open>facts about ring buffers\<close>
named_theorems inv_intros \<open>preservation of the component invariants\<close>

abbreviation PAGE_SIZE :: u64 where "PAGE_SIZE \<equiv> 4096"

text \<open>Status codes of \<^verbatim>\<open>omnios_kernel.h\<close>.\<close>

datatype status_t =
    STATUS_SUCCESS | STATUS_ERROR | STATUS_TIMEOUT | STATUS_BUSY | STATUS_INVALID
  | STATUS_NOT_FOUND | STATUS_PERM_DENIED | STATUS_NO_MEMORY | STATUS_NOT_IMPLEMENTED
  | STATUS_ALREADY_EXISTS | STATUS_WOULD_BLOCK | STATUS_INTERRUPTED

fun status_code :: "status_t \<Rightarrow> int" where
  "status_code STATUS_SUCCESS = 0"
| "status_code STATUS_ERROR = -1"
| "status_code STATUS_TIMEOUT = -2"
| "status_code STATUS_BUSY = -3"
| "status_code STATUS_INVALID = -4"
| "status_code STATUS_NOT_FOUND = -5"
| "status_code STATUS_PERM_DENIED = -6"
| "status_code STATUS_NO_MEMORY = -7"
| "status_code STATUS_NOT_IMPLEMENTED = -8"
| "status_code STATUS_ALREADY_EXISTS = -9"
| "status_code STATUS_WOULD_BLOCK = -10"
| "status_code STATUS_INTERRUPTED = -11"

lemma status_code_inject: "status_code a = status_code b \<longleftrightarrow> a = b"
  by (cases a; cases b) simp_all

section \<open>Scanning a table for the first index that satisfies a test\<close>

function first_from :: "(nat \<Rightarrow> bool) \<Rightarrow> nat \<Rightarrow> nat \<Rightarrow> nat option" where
  "first_from P i n = (if i < n then (if P i then Some i else first_from P (Suc i) n) else None)"
  by pat_completeness auto
termination
  by (relation "measure (\<lambda>(P, i, n). n - i)") auto

declare first_from.simps [simp del]

definition first_idx :: "(nat \<Rightarrow> bool) \<Rightarrow> nat \<Rightarrow> nat option" where
  "first_idx P n = first_from P 0 n"

lemma first_from_Some_iff:
  "first_from P i n = Some k \<longleftrightarrow> i \<le> k \<and> k < n \<and> P k \<and> (\<forall>j. i \<le> j \<and> j < k \<longrightarrow> \<not> P j)"
proof (induction P i n rule: first_from.induct)
  case (1 P i n)
  have split: "(\<forall>j. i \<le> j \<and> j < k \<longrightarrow> \<not> P j) \<longleftrightarrow>
      (i < k \<longrightarrow> \<not> P i) \<and> (\<forall>j. Suc i \<le> j \<and> j < k \<longrightarrow> \<not> P j)"
    by (metis Suc_leD Suc_leI le_neq_implies_less order_refl)
  consider "\<not> i < n" | "i < n" "P i" | "i < n" "\<not> P i" by blast
  then show ?case
  proof cases
    case 1
    then show ?thesis by (simp add: first_from.simps [of P i n])
  next
    case 2
    then have "first_from P i n = Some i" by (simp add: first_from.simps [of P i n])
    with 2 show ?thesis by (metis le_neq_implies_less not_less_iff_gr_or_eq option.inject order_refl
        linorder_not_le)
  next
    case 3
    then have "first_from P i n = first_from P (Suc i) n" by (simp add: first_from.simps [of P i n])
    moreover have "i \<le> k \<and> P k \<longleftrightarrow> Suc i \<le> k \<and> P k"
      using 3 by (metis Suc_leD Suc_leI le_neq_implies_less)
    moreover note "1.IH" [OF 3] split
    ultimately show ?thesis using 3(2) by metis
  qed
qed

lemma first_from_None_iff:
  "first_from P i n = None \<longleftrightarrow> (\<forall>k. i \<le> k \<and> k < n \<longrightarrow> \<not> P k)"
proof (induction P i n rule: first_from.induct)
  case (1 P i n)
  show ?case
  proof (cases "i < n \<and> \<not> P i")
    case True
    with "1.IH" have IH: "first_from P (Suc i) n = None \<longleftrightarrow> (\<forall>k. Suc i \<le> k \<and> k < n \<longrightarrow> \<not> P k)"
      by blast
    have "first_from P i n = first_from P (Suc i) n"
      using True by (subst first_from.simps) simp
    moreover have "(\<forall>k. i \<le> k \<and> k < n \<longrightarrow> \<not> P k) \<longleftrightarrow> (\<forall>k. Suc i \<le> k \<and> k < n \<longrightarrow> \<not> P k)"
      using True by (metis Suc_leD Suc_leI le_neq_implies_less)
    ultimately show ?thesis using IH by simp
  next
    case False
    then show ?thesis by (subst first_from.simps) auto
  qed
qed

lemma first_idx_Some_iff [table_simps]:
  "first_idx P n = Some k \<longleftrightarrow> k < n \<and> P k \<and> (\<forall>j<k. \<not> P j)"
  by (auto simp: first_idx_def first_from_Some_iff)

lemma first_idx_None_iff [table_simps]:
  "first_idx P n = None \<longleftrightarrow> (\<forall>k<n. \<not> P k)"
  by (auto simp: first_idx_def first_from_None_iff)

lemma first_idx_SomeD: "first_idx P n = Some k \<Longrightarrow> k < n \<and> P k"
  by (simp add: first_idx_Some_iff)

lemma first_idx_0 [simp]: "0 < n \<Longrightarrow> P 0 \<Longrightarrow> first_idx P n = Some 0"
  by (simp add: first_idx_Some_iff)

lemma first_idx_exists: "k < n \<Longrightarrow> P k \<Longrightarrow> \<exists>j\<le>k. first_idx P n = Some j"
proof -
  assume "k < n" "P k"
  then obtain j where "first_idx P n = Some j"
    by (cases "first_idx P n") (auto simp: first_idx_None_iff)
  with \<open>P k\<close> show ?thesis by (metis first_idx_Some_iff not_le)
qed

lemma first_idx_unique:
  assumes "k < n" "P k" "\<And>j. j < n \<Longrightarrow> P j \<Longrightarrow> j = k"
  shows "first_idx P n = Some k"
proof -
  have "\<not> P j" if "j < k" for j
  proof
    assume "P j"
    with that assms(1) assms(3) [of j] have "j = k" by simp
    with that show False by simp
  qed
  with assms(1,2) show ?thesis by (simp add: first_idx_Some_iff)
qed

lemma first_idx_cong: "(\<And>i. i < n \<Longrightarrow> P i = Q i) \<Longrightarrow> first_idx P n = first_idx Q n"
proof -
  assume "\<And>i. i < n \<Longrightarrow> P i = Q i"
  then have "first_idx P n = Some k \<longleftrightarrow> first_idx Q n = Some k" for k
    by (auto simp: first_idx_Some_iff)
  then show ?thesis by (metis not_None_eq option.inject)
qed

section \<open>C strings in fixed-size arrays\<close>

text \<open>
  A \<^verbatim>\<open>char name[N]\<close> field that was zeroed and is only written by
  \<^verbatim>\<open>strncpy(name, s, N - 1)\<close> holds the first \<open>N - 1\<close> characters of \<open>s\<close>, followed
  by zero bytes: the last byte is never written. The model keeps the string the array
  holds.
\<close>

definition strncpy_str :: "nat \<Rightarrow> string \<Rightarrow> string" where
  "strncpy_str n s = take n s"

lemma strncpy_str_short [simp]: "length s \<le> n \<Longrightarrow> strncpy_str n s = s"
  by (simp add: strncpy_str_def)

lemma length_strncpy_str: "length (strncpy_str n s) \<le> n"
  by (simp add: strncpy_str_def)

section \<open>Counting the slots of a table that satisfy a test\<close>

definition count_slots :: "(nat \<Rightarrow> bool) \<Rightarrow> nat \<Rightarrow> nat" where
  "count_slots P n = card {i. i < n \<and> P i}"

lemma count_slots_le: "count_slots P n \<le> n"
proof -
  have "{i. i < n \<and> P i} \<subseteq> {..<n}" by auto
  then have "card {i. i < n \<and> P i} \<le> card {..<n}" by (rule card_mono [OF finite_lessThan])
  then show ?thesis by (simp add: count_slots_def)
qed

lemma count_slots_set:
  assumes "k < n" "\<not> P k"
  shows "count_slots (P(k := True)) n = Suc (count_slots P n)"
proof -
  have "{i. i < n \<and> (P(k := True)) i} = insert k {i. i < n \<and> P i}"
    using assms(1) by auto
  then show ?thesis using assms(2) by (simp add: count_slots_def)
qed

lemma count_slots_clear:
  assumes "k < n" "P k"
  shows "Suc (count_slots (P(k := False)) n) = count_slots P n"
proof -
  have "count_slots ((P(k := False))(k := True)) n = Suc (count_slots (P(k := False)) n)"
    using assms(1) by (rule count_slots_set) simp
  moreover have "(P(k := False))(k := True) = P" using assms(2) by (simp add: fun_upd_idem)
  ultimately show ?thesis by simp
qed

lemma count_slots_cong: "(\<And>i. i < n \<Longrightarrow> P i = Q i) \<Longrightarrow> count_slots P n = count_slots Q n"
  by (auto simp: count_slots_def intro!: arg_cong [where f = card])

lemma count_slots_full_iff: "count_slots P n = n \<longleftrightarrow> (\<forall>i<n. P i)"
proof
  assume "count_slots P n = n"
  then have "card {i. i < n \<and> P i} = card {..<n}" by (simp add: count_slots_def)
  moreover have "{i. i < n \<and> P i} \<subseteq> {..<n}" by auto
  ultimately have "{i. i < n \<and> P i} = {..<n}" by (simp add: card_subset_eq)
  then show "\<forall>i<n. P i" by auto
next
  assume "\<forall>i<n. P i"
  then have "{i. i < n \<and> P i} = {..<n}" by auto
  then show "count_slots P n = n" by (simp add: count_slots_def)
qed

lemma count_slots_less_iff: "count_slots P n < n \<longleftrightarrow> (\<exists>i<n. \<not> P i)"
  using count_slots_full_iff [of P n] count_slots_le [of P n] by (auto simp: le_less)

lemma count_slots_False [simp]: "count_slots (\<lambda>_. False) n = 0"
  by (simp add: count_slots_def)

section \<open>Words: powers of two and page alignment\<close>

lemma push_bit_1_u64: "push_bit n (1 :: u64) = 2 ^ n"
  by (simp add: push_bit_eq_mult)

lemma unat_2_power: "n < 64 \<Longrightarrow> unat ((2 :: u64) ^ n) = 2 ^ n"
proof -
  assume "n < 64"
  then have "(2 :: nat) ^ n < 2 ^ 64" by (rule power_strict_increasing) simp
  moreover have "(2 :: u64) ^ n = of_nat (2 ^ n)" by simp
  ultimately show ?thesis by (simp only: unat_of_nat) (simp add: take_bit_nat_eq_self)
qed

text \<open>\<^verbatim>\<open>a & ~(PAGE_SIZE - 1)\<close>\<close>

definition page_align_down :: "u64 \<Rightarrow> u64" where
  "page_align_down a = a AND NOT 0xFFF"

lemma and_not_mask_minus: "(a :: u64) AND NOT (mask n) = a - take_bit n a"
proof -
  have "a AND NOT (mask n) = push_bit n (drop_bit n a)"
    by (rule bit_eqI) (auto simp: bit_simps)
  then show ?thesis by (metis add_diff_cancel_right' bits_ident)
qed

lemma unat_and_not_mask: "unat ((a :: u64) AND NOT (mask n)) = unat a - unat a mod 2 ^ n"
proof -
  have t: "unat (take_bit n a) = unat a mod 2 ^ n" by (simp add: unsigned_take_bit_eq take_bit_nat_def)
  then have "take_bit n a \<le> a" by (simp add: word_le_nat_alt)
  then show ?thesis by (simp add: and_not_mask_minus unat_sub t)
qed

lemma page_align_down_minus: "page_align_down a = a - take_bit 12 a"
proof -
  have "(0xFFF :: u64) = mask 12" by (simp add: mask_eq_exp_minus_1)
  then show ?thesis by (simp only: page_align_down_def and_not_mask_minus)
qed

lemma unat_take_bit_12: "unat (take_bit 12 (a :: u64)) = unat a mod 4096"
  by (simp add: unsigned_take_bit_eq take_bit_nat_def)

lemma unat_page_align_down: "unat (page_align_down a) = unat a - unat a mod 4096"
proof -
  have "take_bit 12 a \<le> a" by (simp add: word_le_nat_alt unat_take_bit_12)
  then show ?thesis by (simp add: page_align_down_minus unat_sub unat_take_bit_12)
qed

lemma page_align_down_dvd: "4096 dvd unat (page_align_down a)"
  by (simp add: unat_page_align_down minus_mod_eq_mult_div)

lemma page_align_down_id: "4096 dvd unat a \<Longrightarrow> page_align_down a = a"
  by (simp add: word_unat_eq_iff unat_page_align_down dvd_imp_mod_0)

lemma page_align_down_le: "page_align_down a \<le> a"
  by (simp add: word_le_nat_alt unat_page_align_down)

lemma unat_u32_less: "unat (n :: u32) < 2 ^ 32"
  using unsigned_less [of n] by simp

lemma unat_inc_u32: "n \<noteq> 0xFFFFFFFF \<Longrightarrow> unat (n + 1 :: u32) = unat n + 1"
  using unat_u32_less [of n] by (simp add: unat_word_ariths word_unat_eq_iff)

lemma less_inc_u32: "n \<noteq> 0xFFFFFFFF \<Longrightarrow> x < n \<Longrightarrow> x < (n + 1 :: u32)" "n \<noteq> 0xFFFFFFFF \<Longrightarrow> n < (n + 1 :: u32)"
  by (simp_all add: word_less_nat_alt unat_inc_u32)

end
