(* ===== verification/Procfs.thy ===== *)
theory Procfs
  imports Prelude
begin

text \<open>
  The process file system \<^verbatim>\<open>kernel/fs/procfs.c\<close>: a table of named read functions. A read function
  is given the values it reports (memory, uptime, battery) and yields the full text;
  \<^verbatim>\<open>snprintf\<close> cuts it to the buffer and returns the length of the full text.
\<close>

abbreviation PROCFS_MAX_ENTRIES :: nat where "PROCFS_MAX_ENTRIES \<equiv> 32"

section \<open>Formatted numbers\<close>

fun dec :: "nat \<Rightarrow> string" where
  "dec n = (if n < 10 then [char_of (48 + n)] else dec (n div 10) @ [char_of (48 + n mod 10)])"

declare dec.simps [simp del]

definition pad_left :: "nat \<Rightarrow> char \<Rightarrow> string \<Rightarrow> string" where
  "pad_left w c s = replicate (w - length s) c @ s"

definition fmt_llu :: "u64 \<Rightarrow> string" where "fmt_llu x = dec (unat x)"

definition fmt_8llu :: "u64 \<Rightarrow> string" where "fmt_8llu x = pad_left 8 CHR '' '' (dec (unat x))"

definition fmt_02u :: "u32 \<Rightarrow> string" where "fmt_02u x = pad_left 2 CHR ''0'' (dec (unat x))"

definition fmt_d :: "int \<Rightarrow> string" where
  "fmt_d i = (if i < 0 then CHR ''-'' # dec (nat (-i)) else dec (nat i))"

text \<open>The bytes written to a buffer of \<open>n\<close> bytes, the closing NUL included, and the result.\<close>

definition snprintf :: "u64 \<Rightarrow> string \<Rightarrow> int \<times> string" where
  "snprintf n text = (int (length text), if n = 0 then [] else take (unat n - 1) text @ [CHR 0x00])"

section \<open>The entries\<close>

text \<open>What the read functions look up: the memory manager's counters, the uptime, and the battery
  state (charge, voltage, charging) when the kernel is built for ARM64.\<close>

record proc_env =
  env_total_memory :: u64
  env_free_count :: u64
  env_uptime_ms :: u64
  env_battery :: "(int \<times> int \<times> bool) option"

abbreviation NL :: string where "NL \<equiv> [CHR 0x0A]"
abbreviation TAB :: string where "TAB \<equiv> [CHR 0x09]"

definition proc_read_cpuinfo :: "proc_env \<Rightarrow> u64 \<Rightarrow> int \<times> string" where
  "proc_read_cpuinfo e n = snprintf n
     (''processor'' @ TAB @ '': 0'' @ NL @
      ''model name'' @ TAB @ '': OmniOS ARM64 Mobile'' @ NL @
      ''BogoMIPS'' @ TAB @ '': 100.00'' @ NL @
      ''Features'' @ TAB @ '': fp asimd evtstrm aes pmull sha1 sha2 crc32'' @ NL @
      ''CPU implementer'' @ TAB @ '': 0x51'' @ NL @
      ''CPU architecture: 8'' @ NL @
      ''CPU variant'' @ TAB @ '': 0x0'' @ NL @
      ''CPU part'' @ TAB @ '': 0x003'' @ NL @
      ''CPU revision'' @ TAB @ '': 0'' @ NL)"

definition proc_read_meminfo :: "proc_env \<Rightarrow> u64 \<Rightarrow> int \<times> string" where
  "proc_read_meminfo e n =
     (let total_kb = env_total_memory e div 1024;
          free_kb = env_free_count e * 4
      in snprintf n (''MemTotal:      '' @ fmt_8llu total_kb @ '' kB'' @ NL @
                     ''MemFree:       '' @ fmt_8llu free_kb @ '' kB'' @ NL @
                     ''MemAvailable:  '' @ fmt_8llu free_kb @ '' kB'' @ NL))"

definition proc_read_uptime :: "proc_env \<Rightarrow> u64 \<Rightarrow> int \<times> string" where
  "proc_read_uptime e n =
     (let ms = env_uptime_ms e
      in snprintf n (fmt_llu (ms div 1000) @ ''.'' @ fmt_02u (ucast (ms mod 1000) div 10) @ NL))"

definition proc_read_version :: "proc_env \<Rightarrow> u64 \<Rightarrow> int \<times> string" where
  "proc_read_version e n = snprintf n
     (''OmniOS version 1.0 (ARM64 Mobile)'' @ NL @ ''#1 SMP Tue Jun 30 2026'' @ NL)"

definition proc_read_battery :: "proc_env \<Rightarrow> u64 \<Rightarrow> int \<times> string" where
  "proc_read_battery e n =
     (case env_battery e of
        Some (soc, voltage, charging) \<Rightarrow>
          snprintf n (''capacity: '' @ fmt_d soc @ NL @ ''voltage: '' @ fmt_d voltage @ NL @
                      ''status: '' @ (if charging then ''Charging'' else ''Discharging'') @ NL)
      | None \<Rightarrow> snprintf n (''capacity: 0'' @ NL))"

type_synonym read_fn = "proc_env \<Rightarrow> u64 \<Rightarrow> int \<times> string"

record procfs_entry_t =
  pe_name :: string
  pe_read :: "read_fn option"

record procfs_t =
  procfs_entries :: "nat \<Rightarrow> procfs_entry_t"
  procfs_count :: nat
  procfs_initialized :: bool

definition procfs_add :: "string \<Rightarrow> read_fn option \<Rightarrow> procfs_t \<Rightarrow> int \<times> procfs_t" where
  "procfs_add name f s =
     (if \<not> procfs_initialized s \<or> procfs_count s \<ge> PROCFS_MAX_ENTRIES then (-1, s)
      else (0, s\<lparr>procfs_entries := (procfs_entries s)(procfs_count s := \<lparr>pe_name = strncpy_str 31 name, pe_read = f\<rparr>),
                 procfs_count := Suc (procfs_count s)\<rparr>))"

definition procfs_init :: procfs_t where
  "procfs_init =
     (let s = \<lparr>procfs_entries = (\<lambda>_. \<lparr>pe_name = '''', pe_read = None\<rparr>), procfs_count = 0, procfs_initialized = True\<rparr>;
          s = snd (procfs_add ''cpuinfo'' (Some proc_read_cpuinfo) s);
          s = snd (procfs_add ''meminfo'' (Some proc_read_meminfo) s);
          s = snd (procfs_add ''uptime'' (Some proc_read_uptime) s);
          s = snd (procfs_add ''version'' (Some proc_read_version) s)
      in snd (procfs_add ''battery'' (Some proc_read_battery) s))"

text \<open>The result and the bytes written, none when there is nothing to read.\<close>

definition procfs_read :: "proc_env \<Rightarrow> string \<Rightarrow> u64 \<Rightarrow> procfs_t \<Rightarrow> int \<times> string" where
  "procfs_read e name n s =
     (case first_idx (\<lambda>i. pe_name (procfs_entries s i) = name) (procfs_count s) of
        None \<Rightarrow> (-1, [])
      | Some i \<Rightarrow> (case pe_read (procfs_entries s i) of None \<Rightarrow> (0, []) | Some f \<Rightarrow> f e n))"

definition procfs_list :: "procfs_t \<Rightarrow> string list" where
  "procfs_list s = map (\<lambda>i. pe_name (procfs_entries s i)) [0..<procfs_count s]"

section \<open>Reading numbers back\<close>

definition undec :: "string \<Rightarrow> nat" where
  "undec s = foldl (\<lambda>a c. 10 * a + (of_char c - 48)) 0 s"

lemma undec_snoc [simp]: "undec (s @ [c]) = 10 * undec s + (of_char c - 48)"
  by (simp add: undec_def)

lemma undec_zero [simp]: "undec (CHR ''0'' # s) = undec s"
  by (simp add: undec_def)

lemma digit_value [simp]: "d < 10 \<Longrightarrow> of_char (char_of (48 + d)) = (48 + d :: nat)"
  by simp

lemma undec_dec [simp]: "undec (dec n) = n"
proof (induction n rule: dec.induct)
  case (1 n)
  show ?case
  proof (cases "n < 10")
    case True
    then show ?thesis by (subst dec.simps) (simp add: undec_def)
  next
    case False
    with 1 show ?thesis by (subst dec.simps) simp
  qed
qed

lemma dec_digits: "c \<in> set (dec n) \<Longrightarrow> 48 \<le> (of_char c :: nat) \<and> (of_char c :: nat) < 58"
proof (induction n rule: dec.induct)
  case (1 n)
  from 1(2) have "c \<in> set (if n < 10 then [char_of (48 + n)] else dec (n div 10) @ [char_of (48 + n mod 10)])"
    by (subst (asm) dec.simps)
  with 1(1) show ?case by (auto split: if_splits)
qed

lemma dec_not [simp]: "CHR ''.'' \<notin> set (dec n)" "CHR 0x0A \<notin> set (dec n)"
  using dec_digits [of "CHR ''.''" n] dec_digits [of "CHR 0x0A" n] by auto

lemma length_dec: "n < 10 ^ Suc k \<Longrightarrow> length (dec n) \<le> Suc k"
proof (induction k arbitrary: n)
  case 0
  then show ?case by (subst dec.simps) simp
next
  case (Suc k)
  then have "n div 10 < 10 ^ Suc k" by simp
  from Suc.IH [OF this] show ?case by (subst dec.simps) simp
qed

lemma length_dec_u64: "length (dec (unat (x :: u64))) \<le> 20"
  using unsigned_less [of x, where ?'a = nat] by (intro length_dec [of _ 19, simplified]) simp

lemma two_digits:
  assumes "n < 100"
  shows "length (pad_left 2 CHR ''0'' (dec n)) = 2" "undec (pad_left 2 CHR ''0'' (dec n)) = n"
    "CHR 0x0A \<notin> set (pad_left 2 CHR ''0'' (dec n))"
proof -
  have l: "length (dec n) \<le> 2" using length_dec [of n 1] assms by simp
  then show "length (pad_left 2 CHR ''0'' (dec n)) = 2" by (simp add: pad_left_def)
  have "undec (replicate k CHR ''0'' @ s) = undec s" for k s by (induction k) simp_all
  then show "undec (pad_left 2 CHR ''0'' (dec n)) = n" by (simp add: pad_left_def)
  show "CHR 0x0A \<notin> set (pad_left 2 CHR ''0'' (dec n))" by (simp add: pad_left_def)
qed

lemma snprintf_fits: "length text < unat n \<Longrightarrow> snprintf n text = (int (length text), text @ [CHR 0x00])"
  by (auto simp: snprintf_def)

lemma init_uptime: "procfs_read e ''uptime'' n procfs_init = proc_read_uptime e n"
  by (simp add: procfs_read_def procfs_init_def procfs_add_def Let_def first_idx_def first_from.simps)

lemma takeWhile_stop: "c \<notin> set s \<Longrightarrow> takeWhile (\<lambda>x. x \<noteq> c) (s @ c # t) = s"
  by (induction s) auto

text \<open>The uptime file is read back exactly: with a buffer of 32 bytes or more, reading uptime after
  procfs_init writes the whole text and its NUL, and its seconds and two-digit hundredths determine
  the uptime down to 10 ms.\<close>

theorem procfs_uptime_roundtrip:
  assumes "32 \<le> n"
  shows "\<exists>ret out. procfs_read e ''uptime'' n procfs_init = (ret, out) \<and> int (length out) = ret + 1
    \<and> (let secs = takeWhile (\<lambda>c. c \<noteq> CHR ''.'') out;
           cents = takeWhile (\<lambda>c. c \<noteq> CHR 0x0A) (drop (length secs + 1) out)
       in length cents = 2 \<and> 100 * undec secs + undec cents = unat (env_uptime_ms e) div 10)"
proof -
  let ?ms = "unat (env_uptime_ms e)"
  let ?s = "dec (?ms div 1000)" and ?c = "pad_left 2 CHR ''0'' (dec (?ms mod 1000 div 10))"
  have c: "unat (ucast (env_uptime_ms e mod 1000) div 10 :: u32) = ?ms mod 1000 div 10"
    by (simp add: unat_div_distrib unsigned_ucast_eq unat_mod_distrib take_bit_nat_eq_self)
  have "?ms mod 1000 div 10 < 100" by (simp add: less_mult_imp_div_less)
  note d = two_digits [OF this]
  have s: "length ?s \<le> 20" using length_dec_u64 [of "env_uptime_ms e div 1000"] by (simp add: unat_div_distrib)
  have "32 \<le> unat n" using assms by (simp add: word_le_nat_alt)
  then have r: "procfs_read e ''uptime'' n procfs_init = (int (length (?s @ ''.'' @ ?c @ NL)), (?s @ ''.'' @ ?c @ NL) @ [CHR 0x00])"
    unfolding init_uptime proc_read_uptime_def Let_def fmt_llu_def fmt_02u_def c
    using s d by (simp add: snprintf_fits unat_div_distrib)
  have t: "takeWhile (\<lambda>x. x \<noteq> CHR ''.'') ((?s @ ''.'' @ ?c @ NL) @ [CHR 0x00]) = ?s"
    "takeWhile (\<lambda>x. x \<noteq> CHR 0x0A) (?c @ NL @ [CHR 0x00]) = ?c" using d by (simp_all add: takeWhile_stop)
  have "100 * (x div 1000) + x mod 1000 div 10 = x div 10" for x :: nat
  proof -
    have "(x mod 1000 + 100 * (x div 1000) * 10) div 10 = 100 * (x div 1000) + x mod 1000 div 10"
      by (rule div_mult_self1) simp
    then show ?thesis by (simp add: mult.commute)
  qed
  then show ?thesis unfolding r using d t by (simp add: Let_def)
qed

theorem procfs_uptime_roundtrip_witness:
  "\<exists>ret out. procfs_read \<lparr>env_total_memory = 0, env_free_count = 0, env_uptime_ms = 12345, env_battery = None\<rparr> ''uptime'' 64 procfs_init
     = (ret, out) \<and> int (length out) = ret + 1"
  using procfs_uptime_roundtrip [of 64 "\<lparr>env_total_memory = 0, env_free_count = 0, env_uptime_ms = 12345, env_battery = None\<rparr>"]
  by (auto simp: Let_def)

text \<open>A buffer that is too small: the result is the length of the whole text, not of what was written.\<close>

lemma procfs_read_short: "procfs_read e ''version'' 8 procfs_init = (57, ''OmniOS '' @ [CHR 0x00])"
  by (simp add: procfs_read_def procfs_init_def procfs_add_def Let_def first_idx_def first_from.simps proc_read_version_def snprintf_def)

end
