(* ===== verification/App.thy ===== *)
theory App
  imports Procfs
begin

text \<open>
  The state and the services of the Dart application (\<^verbatim>\<open>src/omnios_app/lib\<close>): the catalogue of applications, the runtimes, the gestures,
  the shared state with its event log, and the state of the phone's frame.  A Dart string is the list of its UTF-8 bytes.  The
  catalogue's entries are constants, of which Dart keeps one object each, so that the identity that \<^verbatim>\<open>List.remove\<close> compares is
  equality.  The widgets, which the framework draws, are not modelled.
\<close>

section \<open>Applications\<close>

datatype app_platform = Android | Ios | Cross

record app_item =
  app_name :: string
  app_emoji :: string
  app_category :: string
  app_platform :: app_platform

fun platformLabel :: "app_platform \<Rightarrow> string" where
  "platformLabel Android = ''Android (ART)''"
| "platformLabel Ios = ''iOS (UIKit)''"
| "platformLabel Cross = ''OmniOS Native''"

fun platformColor :: "app_platform \<Rightarrow> string" where
  "platformColor Android = ''#3DDC84''"
| "platformColor Ios = ''#007AFF''"
| "platformColor Cross = ''#FF6B6B''"

fun apiLevel :: "app_platform \<Rightarrow> string" where
  "apiLevel Android = ''API 35''"
| "apiLevel Ios = ''API 18''"
| "apiLevel Cross = ''Native''"

definition crossApps :: "app_item list" where
  "crossApps =
     [app_item.make ''Phone'' [CHR 0xF0, CHR 0x9F, CHR 0x93, CHR 0x9E] ''communication'' Cross,
      app_item.make ''Settings'' [CHR 0xE2, CHR 0x9A, CHR 0x99, CHR 0xEF, CHR 0xB8, CHR 0x8F] ''system'' Cross,
      app_item.make ''Calculator'' [CHR 0xF0, CHR 0x9F, CHR 0x94, CHR 0xA2] ''tools'' Cross,
      app_item.make ''Calendar'' [CHR 0xF0, CHR 0x9F, CHR 0x93, CHR 0x85] ''productivity'' Cross,
      app_item.make ''Clock'' [CHR 0xE2, CHR 0x8F, CHR 0xB0] ''tools'' Cross,
      app_item.make ''Weather'' [CHR 0xF0, CHR 0x9F, CHR 0x8C, CHR 0xA4, CHR 0xEF, CHR 0xB8, CHR 0x8F] ''tools'' Cross]"

definition androidApps :: "app_item list" where
  "androidApps =
     [app_item.make ''Chrome'' [CHR 0xF0, CHR 0x9F, CHR 0x8C, CHR 0x90] ''internet'' Android,
      app_item.make ''Maps'' [CHR 0xF0, CHR 0x9F, CHR 0x97, CHR 0xBA, CHR 0xEF, CHR 0xB8, CHR 0x8F] ''navigation'' Android,
      app_item.make ''Gmail'' [CHR 0xE2, CHR 0x9C, CHR 0x89, CHR 0xEF, CHR 0xB8, CHR 0x8F] ''communication'' Android,
      app_item.make ''YouTube'' [CHR 0xE2, CHR 0x96, CHR 0xB6, CHR 0xEF, CHR 0xB8, CHR 0x8F] ''media'' Android,
      app_item.make ''Drive'' [CHR 0xF0, CHR 0x9F, CHR 0x93, CHR 0x81] ''productivity'' Android,
      app_item.make ''Photos'' [CHR 0xF0, CHR 0x9F, CHR 0x93, CHR 0xB8] ''media'' Android]"

definition iosApps :: "app_item list" where
  "iosApps =
     [app_item.make ''Safari'' [CHR 0xF0, CHR 0x9F, CHR 0x8C, CHR 0x90] ''internet'' Ios,
      app_item.make ''Messages'' [CHR 0xF0, CHR 0x9F, CHR 0x92, CHR 0xAC] ''communication'' Ios,
      app_item.make ''Camera'' [CHR 0xF0, CHR 0x9F, CHR 0x93, CHR 0xB7] ''media'' Ios,
      app_item.make ''Notes'' [CHR 0xF0, CHR 0x9F, CHR 0x93, CHR 0x9D] ''productivity'' Ios,
      app_item.make ''Music'' [CHR 0xF0, CHR 0x9F, CHR 0x8E, CHR 0xB5] ''media'' Ios,
      app_item.make ''Wallet'' [CHR 0xF0, CHR 0x9F, CHR 0x92, CHR 0xB3] ''finance'' Ios]"

definition getAll :: "app_item list" where
  "getAll = crossApps @ androidApps @ iosApps"

fun getByPlatform :: "app_platform \<Rightarrow> app_item list" where
  "getByPlatform Cross = crossApps"
| "getByPlatform Android = crossApps @ androidApps"
| "getByPlatform Ios = crossApps @ iosApps"

section \<open>Runtimes and compatibility\<close>

fun runtime_launch :: "app_platform \<Rightarrow> string \<Rightarrow> string" where
  "runtime_launch Android name = ''[Android ART] '' @ name @ '' baslatiliyor... (API 35)''"
| "runtime_launch Ios name = ''[iOS UIKit] '' @ name @ '' baslatiliyor... (API 18)''"
| "runtime_launch Cross name = ''[OmniOS Native] '' @ name @ '' baslatiliyor...''"

definition RuntimeManager_launch :: "app_item \<Rightarrow> string" where
  "RuntimeManager_launch app = runtime_launch (app_platform app) (app_name app)"

definition android_canRun :: "app_item \<Rightarrow> bool" where
  "android_canRun app \<longleftrightarrow> app_platform app = Android \<or> app_platform app = Cross"

definition ios_canRun :: "app_item \<Rightarrow> bool" where
  "ios_canRun app \<longleftrightarrow> app_platform app = Ios \<or> app_platform app = Cross"

definition canRun :: "app_item \<Rightarrow> bool" where
  "canRun app = (case app_platform app of Android \<Rightarrow> android_canRun app | Ios \<Rightarrow> ios_canRun app | Cross \<Rightarrow> True)"

definition androidApiNames :: "(string \<times> string) list" where
  "androidApiNames =
     [(''Chrome'', ''org.chromium.chrome''),
      (''Maps'', ''com.google.android.apps.maps''),
      (''Gmail'', ''com.google.android.gm''),
      (''YouTube'', ''com.google.android.youtube''),
      (''Drive'', ''com.google.android.apps.docs''),
      (''Photos'', ''com.google.android.apps.photos'')]"

definition iosApiNames :: "(string \<times> string) list" where
  "iosApiNames =
     [(''Safari'', ''com.apple.mobilesafari''),
      (''Messages'', ''com.apple.MobileSMS''),
      (''Camera'', ''com.apple.camera''),
      (''Notes'', ''com.apple.mobilenotes''),
      (''Music'', ''com.apple.mobilemusic''),
      (''Wallet'', ''com.apple.passbook'')]"

definition lower :: "char \<Rightarrow> char" where
  "lower c = (if 65 \<le> (of_char c :: nat) \<and> (of_char c :: nat) \<le> 90 then char_of (of_char c + 32 :: nat) else c)"

definition getBundleId :: "app_item \<Rightarrow> string" where
  "getBundleId app =
     (case app_platform app of
        Android \<Rightarrow> (case map_of androidApiNames (app_name app) of None \<Rightarrow> ''unknown.android'' | Some b \<Rightarrow> b)
      | Ios \<Rightarrow> (case map_of iosApiNames (app_name app) of None \<Rightarrow> ''unknown.ios'' | Some b \<Rightarrow> b)
      | Cross \<Rightarrow> ''com.omnios.'' @ map lower (app_name app))"

definition isFullyCompatible :: "app_item \<Rightarrow> bool" where
  "isFullyCompatible app =
     (case app_platform app of
        Cross \<Rightarrow> True
      | Android \<Rightarrow> map_of androidApiNames (app_name app) \<noteq> None
      | Ios \<Rightarrow> map_of iosApiNames (app_name app) \<noteq> None)"

section \<open>Gestures\<close>

definition normalActions :: "(string \<times> string \<times> string) list" where
  "normalActions =
     [(''swipe_up'', ''open_app_menu'', ''Uygulama menusu''),
      (''swipe_right'', ''open_recent_apps'', ''Son uygulamalar''),
      (''swipe_left'', ''open_notifications'', ''Bildirimler''),
      (''swipe_down'', ''open_quick_settings'', ''Hizli ayarlar''),
      (''double_tap'', ''go_home'', ''Ana ekran''),
      (''long_press'', ''voice_command'', ''Sesli komut''),
      (''pinch_out'', ''app_selector'', ''Uygulama secici'')]"

definition flowActions :: "(string \<times> string \<times> string) list" where
  "flowActions =
     [(''swipe_up'', ''open_app_menu'', ''Uygulama menusu''),
      (''swipe_right'', ''open_recent_apps'', ''Son uygulamalar''),
      (''swipe_left'', ''open_notifications'', ''Bildirimler''),
      (''swipe_down'', ''open_quick_settings'', ''Hizli ayarlar''),
      (''double_tap'', ''go_home'', ''Ana ekran''),
      (''long_press'', ''voice_command'', ''Sesli komut''),
      (''pinch_out'', ''app_selector_flow'', ''Coverflow secici'')]"

definition getAction :: "string \<Rightarrow> bool \<Rightarrow> (string \<times> string \<times> string) option" where
  "getAction gesture isFlow =
     (case map_of (if isFlow then flowActions else normalActions) gesture of
        None \<Rightarrow> None
      | Some (action, desc) \<Rightarrow> Some (gesture, action, desc))"

definition getHints :: "bool \<Rightarrow> (string \<times> string \<times> string) list" where
  "getHints isFlow = (if isFlow then flowActions else normalActions)"

definition supportedGestures :: "string list" where
  "supportedGestures = map fst normalActions"

section \<open>The shared state\<close>

datatype ui_mode = Normal | Flow
datatype system_state = IdleSys | RunningSys | Sleeping | Shutdown

record omni_state =
  currentMode :: ui_mode
  systemState :: system_state
  runningApps :: "app_item list"
  eventLog :: "string list"
  currentApp :: "app_item option"
  currentScreen :: string
  notified :: nat

definition omni_start :: omni_state where
  "omni_start = \<lparr>currentMode = Normal, systemState = IdleSys, runningApps = [], eventLog = [], currentApp = None, currentScreen = ''home'',
     notified = 0\<rparr>"

definition notifyListeners :: "omni_state \<Rightarrow> omni_state" where
  "notifyListeners s = s\<lparr>notified := notified s + 1\<rparr>"

definition logEvent :: "string \<Rightarrow> omni_state \<Rightarrow> omni_state" where
  "logEvent event s = (let l = eventLog s @ [event] in s\<lparr>eventLog := if length l > 100 then tl l else l\<rparr>)"

fun mode_name :: "ui_mode \<Rightarrow> string" where
  "mode_name Normal = ''normal''"
| "mode_name Flow = ''flow''"

definition toggleMode :: "omni_state \<Rightarrow> omni_state" where
  "toggleMode s =
     (let s = s\<lparr>currentMode := if currentMode s = Normal then Flow else Normal\<rparr>
      in notifyListeners (logEvent (''Mod degisti: '' @ mode_name (currentMode s)) s))"

definition setMode :: "ui_mode \<Rightarrow> omni_state \<Rightarrow> omni_state" where
  "setMode mode s =
     (if currentMode s \<noteq> mode then notifyListeners (logEvent (''Mod: '' @ mode_name mode) (s\<lparr>currentMode := mode\<rparr>)) else s)"

definition launchApp :: "app_item \<Rightarrow> omni_state \<Rightarrow> bool \<times> omni_state" where
  "launchApp app s =
     (if length (runningApps s) \<ge> 50 then (False, s)
      else
        let s = s\<lparr>runningApps := runningApps s @ [app], systemState := RunningSys, currentApp := Some app, currentScreen := ''detail''\<rparr>
        in (True, notifyListeners (logEvent (RuntimeManager_launch app) s)))"

definition killApp :: "app_item \<Rightarrow> omni_state \<Rightarrow> omni_state" where
  "killApp app s =
     (let s = s\<lparr>runningApps := remove1 app (runningApps s)\<rparr>;
          s = (if runningApps s = [] then s\<lparr>systemState := IdleSys\<rparr> else s)
      in notifyListeners s)"

definition goHome :: "omni_state \<Rightarrow> omni_state" where
  "goHome s = notifyListeners (s\<lparr>currentApp := None, currentScreen := ''home''\<rparr>)"

definition processGesture :: "string \<Rightarrow> omni_state \<Rightarrow> string \<times> omni_state" where
  "processGesture gesture s =
     (case getAction gesture (currentMode s = Flow) of
        None \<Rightarrow> (''unknown'', s)
      | Some (_, action, _) \<Rightarrow> (action, logEvent (''Jest: '' @ gesture @ '' -> '' @ action) s))"

definition getAppsByPlatform :: "string \<Rightarrow> app_item list" where
  "getAppsByPlatform platform =
     (if platform = ''android'' then getByPlatform Android
      else if platform = ''ios'' then getByPlatform Ios
      else getAll)"

definition getRecentEvents :: "nat \<Rightarrow> omni_state \<Rightarrow> string list" where
  "getRecentEvents n s = (if length (eventLog s) \<le> n then eventLog s else drop (length (eventLog s) - n) (eventLog s))"

section \<open>The system service\<close>

record service_t =
  startTime :: int
  sv_running :: "app_item list"

record system_info =
  si_state :: string
  si_mode :: string
  si_active :: nat
  si_total :: nat
  si_android :: bool
  si_ios :: bool
  si_uptime :: int

text \<open>\<^verbatim>\<open>~/\<close> truncates; the clock does not run backwards, so the difference is not negative.\<close>

definition getInfo :: "int \<Rightarrow> service_t \<Rightarrow> system_info" where
  "getInfo now v = \<lparr>si_state = if sv_running v = [] then ''IDLE'' else ''RUNNING'', si_mode = ''normal'', si_active = length (sv_running v),
     si_total = length getAll, si_android = True, si_ios = True, si_uptime = (now - startTime v) div 1000\<rparr>"

definition service_launch :: "app_item \<Rightarrow> service_t \<Rightarrow> bool \<times> service_t" where
  "service_launch app v =
     (if length (sv_running v) \<ge> 50 then (False, v) else (True, v\<lparr>sv_running := sv_running v @ [app]\<rparr>))"

definition service_kill :: "app_item \<Rightarrow> service_t \<Rightarrow> bool \<times> service_t" where
  "service_kill app v = (app \<in> set (sv_running v), v\<lparr>sv_running := remove1 app (sv_running v)\<rparr>)"

definition uptime :: "int \<Rightarrow> service_t \<Rightarrow> string" where
  "uptime now v =
     (let secs = (now - startTime v) div 1000; h = secs div 3600; m = (secs mod 3600) div 60; s = secs mod 60
      in fmt_d h @ ''h '' @ fmt_d m @ ''m '' @ fmt_d s @ ''s'')"

section \<open>The frame\<close>

record frame_t =
  fr_mode :: string
  fr_screen :: string
  fr_selected :: "app_item option"

definition frame_start :: frame_t where
  "frame_start = \<lparr>fr_mode = ''normal'', fr_screen = ''normal'', fr_selected = None\<rparr>"

definition frame_toggleMode :: "frame_t \<Rightarrow> frame_t" where
  "frame_toggleMode f =
     (let f = f\<lparr>fr_mode := if fr_mode f = ''normal'' then ''flow'' else ''normal''\<rparr>
      in f\<lparr>fr_screen := fr_mode f, fr_selected := None\<rparr>)"

definition frame_launchApp :: "app_item \<Rightarrow> frame_t \<Rightarrow> frame_t" where
  "frame_launchApp app f = f\<lparr>fr_selected := Some app, fr_screen := ''detail''\<rparr>"

definition frame_goHome :: "frame_t \<Rightarrow> frame_t" where
  "frame_goHome f = f\<lparr>fr_screen := fr_mode f, fr_selected := None\<rparr>"

definition frame_goBack :: "frame_t \<Rightarrow> frame_t" where
  "frame_goBack f = (if fr_screen f = ''detail'' then frame_goHome f else f)"

datatype screen = DetailScreen app_item | FlowScreen | NormalScreen

definition buildScreen :: "frame_t \<Rightarrow> screen" where
  "buildScreen f =
     (case fr_selected f of
        Some app \<Rightarrow> if fr_screen f = ''detail'' then DetailScreen app else if fr_mode f = ''flow'' then FlowScreen else NormalScreen
      | None \<Rightarrow> if fr_mode f = ''flow'' then FlowScreen else NormalScreen)"

section \<open>The catalogue\<close>

lemma catalogue_platform:
  "app \<in> set crossApps \<Longrightarrow> app_platform app = Cross"
  "app \<in> set androidApps \<Longrightarrow> app_platform app = Android"
  "app \<in> set iosApps \<Longrightarrow> app_platform app = Ios"
proof -
  have "list_all (\<lambda>a. app_platform a = Cross) crossApps" "list_all (\<lambda>a. app_platform a = Android) androidApps"
    "list_all (\<lambda>a. app_platform a = Ios) iosApps"
    by (simp_all add: crossApps_def androidApps_def iosApps_def app_item.make_def)
  then show "app \<in> set crossApps \<Longrightarrow> app_platform app = Cross" "app \<in> set androidApps \<Longrightarrow> app_platform app = Android"
    "app \<in> set iosApps \<Longrightarrow> app_platform app = Ios"
    by (simp_all add: list_all_iff)
qed

lemma catalogue_names: "map app_name androidApps = map fst androidApiNames" "map app_name iosApps = map fst iosApiNames"
  by (simp_all add: androidApps_def iosApps_def androidApiNames_def iosApiNames_def app_item.make_def)

text \<open>Every application of the catalogue can run and is fully compatible.\<close>

lemma catalogue_runs:
  assumes "app \<in> set getAll"
  shows "canRun app \<and> isFullyCompatible app"
proof -
  have a: "map_of androidApiNames (app_name app) \<noteq> None" if "app \<in> set androidApps"
    using that arg_cong [OF catalogue_names(1), of set] unfolding map_of_eq_None_iff by auto
  have i: "map_of iosApiNames (app_name app) \<noteq> None" if "app \<in> set iosApps"
    using that arg_cong [OF catalogue_names(2), of set] unfolding map_of_eq_None_iff by auto
  from assms consider "app \<in> set crossApps" | "app \<in> set androidApps" | "app \<in> set iosApps"
    unfolding getAll_def set_append by blast
  then show ?thesis
    by cases (use catalogue_platform [of app] a i in
        \<open>simp_all add: canRun_def isFullyCompatible_def android_canRun_def ios_canRun_def\<close>)
qed

text \<open>A look-up by platform gives the applications that the runtime of that platform can run.\<close>

lemma by_platform: "set (getByPlatform Android) = {app \<in> set getAll. android_canRun app}"
  "set (getByPlatform Ios) = {app \<in> set getAll. ios_canRun app}"
  unfolding getByPlatform.simps getAll_def set_append android_canRun_def ios_canRun_def
  using catalogue_platform by fastforce+

section \<open>The state over any use\<close>

datatype omni_op = ToggleMode | SetMode ui_mode | Launch app_item | Kill app_item | GoHome | Gesture string

fun apply_op :: "omni_op \<Rightarrow> omni_state \<Rightarrow> omni_state" where
  "apply_op ToggleMode s = toggleMode s"
| "apply_op (SetMode m) s = setMode m s"
| "apply_op (Launch app) s = snd (launchApp app s)"
| "apply_op (Kill app) s = killApp app s"
| "apply_op GoHome s = goHome s"
| "apply_op (Gesture g) s = snd (processGesture g s)"

text \<open>The events that an operation reports.\<close>

fun op_events :: "omni_op \<Rightarrow> omni_state \<Rightarrow> string list" where
  "op_events ToggleMode s = [''Mod degisti: '' @ mode_name (if currentMode s = Normal then Flow else Normal)]"
| "op_events (SetMode m) s = (if currentMode s \<noteq> m then [''Mod: '' @ mode_name m] else [])"
| "op_events (Launch app) s = (if length (runningApps s) < 50 then [RuntimeManager_launch app] else [])"
| "op_events (Kill app) s = []"
| "op_events GoHome s = []"
| "op_events (Gesture g) s =
     (case getAction g (currentMode s = Flow) of None \<Rightarrow> [] | Some (_, a, _) \<Rightarrow> [''Jest: '' @ g @ '' -> '' @ a])"

fun all_events :: "omni_op list \<Rightarrow> omni_state \<Rightarrow> string list" where
  "all_events [] s = []"
| "all_events (op # ops) s = op_events op s @ all_events ops (apply_op op s)"

definition latest :: "nat \<Rightarrow> 'a list \<Rightarrow> 'a list" where
  "latest n xs = drop (length xs - n) xs"

lemma latest_snoc: "latest 100 (xs @ [x]) = (let l = latest 100 xs @ [x] in if length l > 100 then tl l else l)"
proof (cases "length xs < 100")
  case False
  define k where "k = length xs - 100"
  have l: "latest 100 xs = drop k xs" and k: "length (xs @ [x]) - 100 = Suc k" "k < length xs"
    using False by (simp_all add: latest_def k_def)
  have "latest 100 (xs @ [x]) = drop (Suc k) xs @ [x]" using k by (simp add: latest_def)
  also have "\<dots> = tl (drop k xs @ [x])" using k(2) by (simp add: drop_Suc tl_drop)
  finally show ?thesis using False by (simp add: l k_def Let_def)
qed (simp add: latest_def Let_def)

lemma latest_latest: "latest n (latest n xs @ ys) = latest n (xs @ ys)"
  by (cases "length xs \<le> n") (auto simp: latest_def add.commute)

lemma log_latest: "eventLog (logEvent e s) = (let l = eventLog s @ [e] in if length l > 100 then tl l else l)"
  by (simp add: logEvent_def Let_def)

lemma op_log: "length (eventLog s) \<le> 100 \<Longrightarrow> eventLog (apply_op op s) = latest 100 (eventLog s @ op_events op s)"
proof -
  assume l: "length (eventLog s) \<le> 100"
  then have n: "latest 100 (eventLog s) = eventLog s" by (simp add: latest_def)
  have e: "latest 100 (eventLog s @ [x]) = (let l = eventLog s @ [x] in if length l > 100 then tl l else l)" for x
    using latest_snoc [of "eventLog s" x] by (simp only: n)
  show ?thesis
    by (cases op) (auto simp: toggleMode_def setMode_def launchApp_def killApp_def goHome_def processGesture_def notifyListeners_def
        logEvent_def Let_def n e split: option.splits)
qed

definition omni_ok :: "omni_state \<Rightarrow> bool" where
  "omni_ok s \<longleftrightarrow> length (runningApps s) \<le> 50 \<and> length (eventLog s) \<le> 100
     \<and> systemState s = (if runningApps s = [] then IdleSys else RunningSys)
     \<and> currentScreen s = (if currentApp s = None then ''home'' else ''detail'')"

lemma op_ok: "omni_ok s \<Longrightarrow> omni_ok (apply_op op s)"
  by (cases op) (auto simp: omni_ok_def toggleMode_def setMode_def launchApp_def killApp_def goHome_def processGesture_def
      notifyListeners_def logEvent_def Let_def length_remove1 split: option.splits)

lemma ops_log:
  "omni_ok s \<Longrightarrow> eventLog s = latest 100 es \<Longrightarrow>
     omni_ok (fold apply_op ops s) \<and> eventLog (fold apply_op ops s) = latest 100 (es @ all_events ops s)"
proof (induction ops arbitrary: s es)
  case (Cons op ops)
  have "eventLog (apply_op op s) = latest 100 (es @ op_events op s)"
    using op_log [of s op] Cons.prems by (simp add: omni_ok_def latest_latest)
  with Cons.IH [OF op_ok [OF Cons.prems(1)] this] show ?case by simp
qed simp

text \<open>C39: Whatever sequence of mode changes, launches, kills, returns to the home screen and gestures is performed from the start, at most 50
  applications run, the system counts as running exactly when one does, the detail screen is shown exactly when an application is
  current, and the event log holds the latest 100 events in order.\<close>

theorem app_state_consistent:
  fixes ops :: "omni_op list"
  defines "s \<equiv> fold apply_op ops omni_start"
  shows "length (runningApps s) \<le> 50 \<and> systemState s = (if runningApps s = [] then IdleSys else RunningSys)
    \<and> currentScreen s = (if currentApp s = None then ''home'' else ''detail'') \<and> eventLog s = latest 100 (all_events ops omni_start)"
proof -
  have "omni_ok omni_start" "eventLog omni_start = latest 100 []" by (simp_all add: omni_ok_def omni_start_def latest_def)
  from ops_log [OF this, of ops] show ?thesis by (simp add: s_def omni_ok_def)
qed

text \<open>Killing the current application leaves it current and its screen shown.\<close>

lemma kill_keeps_current: "currentApp (killApp app s) = currentApp s" "currentScreen (killApp app s) = currentScreen s"
  by (simp_all add: killApp_def notifyListeners_def Let_def)

text \<open>The information about the system counts the list of the service, which no operation of the state changes: it reports no process
  however many applications run.\<close>

lemma info_ignores_state:
  assumes "sv_running v = []"
  shows "si_state (getInfo now v) = ''IDLE'' \<and> si_active (getInfo now v) = 0"
  using assms by (simp add: getInfo_def)

section \<open>Gestures, time and the frame\<close>

lemma gesture_known: "getAction g flow \<noteq> None \<longleftrightarrow> g \<in> set supportedGestures"
proof -
  have "set (map fst flowActions) = set (map fst normalActions)" by (simp add: flowActions_def normalActions_def)
  moreover have "getAction g flow \<noteq> None \<longleftrightarrow> map_of (if flow then flowActions else normalActions) g \<noteq> None"
    by (simp add: getAction_def split: option.split)
  ultimately show ?thesis unfolding map_of_eq_None_iff by (cases flow) (auto simp: supportedGestures_def)
qed

lemma uptime_parts:
  assumes "startTime v \<le> now"
  shows "\<exists>h m s. uptime now v = fmt_d h @ ''h '' @ fmt_d m @ ''m '' @ fmt_d s @ ''s'' \<and> 0 \<le> h \<and> 0 \<le> m \<and> m < 60 \<and> 0 \<le> s \<and> s < 60
    \<and> (now - startTime v) div 1000 = h * 3600 + m * 60 + s"
proof -
  define t where "t = (now - startTime v) div 1000"
  have t: "0 \<le> t" using assms by (simp add: t_def pos_imp_zdiv_nonneg_iff)
  have "t mod 3600 mod 60 = t mod 60" by (rule mod_mod_cancel) simp
  then have e: "t = t div 3600 * 3600 + t mod 3600 div 60 * 60 + t mod 60"
    using div_mult_mod_eq [of t 3600] div_mult_mod_eq [of "t mod 3600" 60] by linarith
  have m: "0 \<le> t mod 3600" "t mod 3600 < 3600" "0 \<le> t mod 60" "t mod 60 < 60" by simp_all
  have "t mod 3600 div 60 < 60" using m(2) by (simp add: div_less_iff_less_mult)
  moreover have "0 \<le> t div 3600" "0 \<le> t mod 3600 div 60" using t m(1) by (simp_all add: pos_imp_zdiv_nonneg_iff)
  ultimately have "t = t div 3600 * 3600 + t mod 3600 div 60 * 60 + t mod 60 \<and> 0 \<le> t div 3600 \<and> 0 \<le> t mod 3600 div 60
      \<and> t mod 3600 div 60 < 60 \<and> 0 \<le> t mod 60 \<and> t mod 60 < 60"
    using e m by blast
  then show ?thesis unfolding uptime_def Let_def t_def [symmetric] by blast
qed

datatype frame_op = FToggle | FLaunch app_item | FHome | FBack

fun frame_step :: "frame_op \<Rightarrow> frame_t \<Rightarrow> frame_t" where
  "frame_step FToggle f = frame_toggleMode f"
| "frame_step (FLaunch app) f = frame_launchApp app f"
| "frame_step FHome f = frame_goHome f"
| "frame_step FBack f = frame_goBack f"

text \<open>After any use of the frame the detail screen shows the application selected last, and back leaves it for the screen of the mode.\<close>

lemma frame_shows_selection:
  fixes ops :: "frame_op list"
  defines "f \<equiv> fold frame_step ops frame_start"
  shows "buildScreen f = (case fr_selected f of Some app \<Rightarrow> DetailScreen app | None \<Rightarrow> if fr_mode f = ''flow'' then FlowScreen else NormalScreen)
    \<and> fr_selected (frame_goBack f) = None"
proof -
  have "fr_mode (fold frame_step ops g) \<in> {''normal'', ''flow''} \<and>
      fr_screen (fold frame_step ops g) = (if fr_selected (fold frame_step ops g) = None then fr_mode (fold frame_step ops g) else ''detail'')"
    if "fr_mode g \<in> {''normal'', ''flow''} \<and> fr_screen g = (if fr_selected g = None then fr_mode g else ''detail'')" for g
    using that
  proof (induction ops arbitrary: g)
    case (Cons op ops)
    show ?case unfolding fold_Cons o_apply
      by (rule Cons.IH, cases op)
        (use Cons.prems in \<open>auto simp: frame_toggleMode_def frame_launchApp_def frame_goHome_def frame_goBack_def Let_def\<close>)
  qed simp
  from this [of frame_start] show ?thesis
    by (auto simp: f_def frame_start_def buildScreen_def frame_goBack_def frame_goHome_def split: option.splits if_splits)
qed

end
