(* ===== verification/Json.thy ===== *)
theory Json
  imports Procfs
begin

text \<open>
  The JSON texts that the application and the embedder exchange: the encoder and the decoder of Dart's library, which the class
  \<^verbatim>\<open>JSONMessageCodec\<close> uses.  Strings hold characters below 256, and numbers are integers: the texts exchanged have no others.  The
  decoder works on a fuel that every step lowers; \<open>jsonDecode\<close> gives it the length of the text, and the round trip shows that this
  is enough.
\<close>

section \<open>Values and their text\<close>

datatype json = JNull | JBool bool | JNum int | JStr string | JArr "json list" | JObj "(string \<times> json) list"

abbreviation QUOTE :: char where "QUOTE \<equiv> CHR 0x22"
abbreviation BSLASH :: char where "BSLASH \<equiv> CHR 0x5C"

definition hex_digit :: "nat \<Rightarrow> char" where
  "hex_digit d = char_of (if d < 10 then 48 + d else 87 + d)"

definition escape :: "char \<Rightarrow> string" where
  "escape c =
     (if c = QUOTE \<or> c = BSLASH then [BSLASH, c]
      else if c = CHR 0x08 then [BSLASH, CHR ''b'']
      else if c = CHR 0x09 then [BSLASH, CHR ''t'']
      else if c = CHR 0x0A then [BSLASH, CHR ''n'']
      else if c = CHR 0x0C then [BSLASH, CHR ''f'']
      else if c = CHR 0x0D then [BSLASH, CHR ''r'']
      else if of_char c < (32 :: nat) then [BSLASH, CHR ''u'', CHR ''0'', CHR ''0'', hex_digit (of_char c div 16), hex_digit (of_char c mod 16)]
      else [c])"

definition print_string :: "string \<Rightarrow> string" where
  "print_string s = QUOTE # concat (map escape s) @ [QUOTE]"

fun jsonEncode :: "json \<Rightarrow> string" and print_items :: "json list \<Rightarrow> string" and print_members :: "(string \<times> json) list \<Rightarrow> string" where
  "jsonEncode JNull = ''null''"
| "jsonEncode (JBool b) = (if b then ''true'' else ''false'')"
| "jsonEncode (JNum i) = fmt_d i"
| "jsonEncode (JStr s) = print_string s"
| "jsonEncode (JArr vs) = CHR ''['' # print_items vs"
| "jsonEncode (JObj ms) = CHR ''{'' # print_members ms"
| "print_items [] = '']''"
| "print_items (v # vs) = jsonEncode v @ (if vs = [] then '']'' else CHR '','' # print_items vs)"
| "print_members [] = ''}''"
| "print_members ((k, v) # ms) = print_string k @ CHR '':'' # jsonEncode v @ (if ms = [] then ''}'' else CHR '','' # print_members ms)"

section \<open>Decoding\<close>

definition ws :: "char \<Rightarrow> bool" where
  "ws c \<longleftrightarrow> c = CHR '' '' \<or> c = CHR 0x09 \<or> c = CHR 0x0A \<or> c = CHR 0x0D"

definition skip :: "string \<Rightarrow> string" where "skip s = dropWhile ws s"

definition hex_value :: "char \<Rightarrow> nat option" where
  "hex_value c =
     (let n = of_char c :: nat
      in if 48 \<le> n \<and> n \<le> 57 then Some (n - 48)
         else if 97 \<le> n \<and> n \<le> 102 then Some (n - 87)
         else if 65 \<le> n \<and> n \<le> 70 then Some (n - 55)
         else None)"

definition unescape :: "char \<Rightarrow> char option" where
  "unescape e =
     (if e = QUOTE \<or> e = BSLASH \<or> e = CHR ''/'' then Some e
      else if e = CHR ''b'' then Some (CHR 0x08)
      else if e = CHR ''t'' then Some (CHR 0x09)
      else if e = CHR ''n'' then Some (CHR 0x0A)
      else if e = CHR ''f'' then Some (CHR 0x0C)
      else if e = CHR ''r'' then Some (CHR 0x0D)
      else None)"

definition hex4 :: "char \<Rightarrow> char \<Rightarrow> char \<Rightarrow> char \<Rightarrow> nat option" where
  "hex4 a b c d =
     (case (hex_value a, hex_value b, hex_value c, hex_value d) of
        (Some a, Some b, Some c, Some d) \<Rightarrow> Some (((a * 16 + b) * 16 + c) * 16 + d)
      | _ \<Rightarrow> None)"

definition cons_char :: "char \<Rightarrow> (string \<times> string) option \<Rightarrow> (string \<times> string) option" where
  "cons_char c r = map_option (\<lambda>(s, rest). (c # s, rest)) r"

text \<open>The rest of a string after its opening quote.\<close>

fun parse_string :: "string \<Rightarrow> (string \<times> string) option" where
  "parse_string [] = None"
| "parse_string (c # s) =
     (if c = QUOTE then Some ([], s)
      else if c = BSLASH then
        (case s of
           [] \<Rightarrow> None
         | e # s1 \<Rightarrow>
             if e = CHR ''u'' then
               (case s1 of
                  h1 # h2 # h3 # h4 # s2 \<Rightarrow>
                    (case hex4 h1 h2 h3 h4 of
                       None \<Rightarrow> None
                     | Some n \<Rightarrow> if n < 256 then cons_char (char_of n) (parse_string s2) else None)
                | _ \<Rightarrow> None)
             else (case unescape e of None \<Rightarrow> None | Some c \<Rightarrow> cons_char c (parse_string s1)))
      else if of_char c < (32 :: nat) then None
      else cons_char c (parse_string s))"

definition is_digit :: "char \<Rightarrow> bool" where
  "is_digit c \<longleftrightarrow> 48 \<le> (of_char c :: nat) \<and> (of_char c :: nat) \<le> 57"

definition parse_nat :: "string \<Rightarrow> (nat \<times> string) option" where
  "parse_nat s =
     (let ds = takeWhile is_digit s
      in if ds = [] \<or> (1 < length ds \<and> hd ds = CHR ''0'') then None else Some (undec ds, dropWhile is_digit s))"

definition parse_num :: "string \<Rightarrow> (json \<times> string) option" where
  "parse_num s =
     (case s of
        [] \<Rightarrow> None
      | c # s1 \<Rightarrow>
          if c = CHR ''-'' then map_option (\<lambda>(n, r). (JNum (- int n), r)) (parse_nat s1)
          else map_option (\<lambda>(n, r). (JNum (int n), r)) (parse_nat s))"

definition literal :: "string \<Rightarrow> json \<Rightarrow> string \<Rightarrow> (json \<times> string) option" where
  "literal w v s = (if take (length w) s = w then Some (v, drop (length w) s) else None)"

fun parse_value :: "nat \<Rightarrow> string \<Rightarrow> (json \<times> string) option"
  and parse_items :: "nat \<Rightarrow> string \<Rightarrow> (json list \<times> string) option"
  and parse_members :: "nat \<Rightarrow> string \<Rightarrow> ((string \<times> json) list \<times> string) option" where
  "parse_value 0 s = None"
| "parse_value (Suc n) s =
     (let s = skip s in
      case s of
        [] \<Rightarrow> None
      | c # s1 \<Rightarrow>
          if c = QUOTE then map_option (\<lambda>(t, r). (JStr t, r)) (parse_string s1)
          else if c = CHR ''['' then
            (case skip s1 of
               c1 # s2 \<Rightarrow> if c1 = CHR '']'' then Some (JArr [], s2) else map_option (\<lambda>(vs, r). (JArr vs, r)) (parse_items n s1)
             | [] \<Rightarrow> None)
          else if c = CHR ''{'' then
            (case skip s1 of
               c1 # s2 \<Rightarrow> if c1 = CHR ''}'' then Some (JObj [], s2) else map_option (\<lambda>(ms, r). (JObj ms, r)) (parse_members n s1)
             | [] \<Rightarrow> None)
          else if c = CHR ''n'' then literal ''null'' JNull s
          else if c = CHR ''t'' then literal ''true'' (JBool True) s
          else if c = CHR ''f'' then literal ''false'' (JBool False) s
          else parse_num s)"
| "parse_items 0 s = None"
| "parse_items (Suc n) s =
     (case parse_value n s of
        None \<Rightarrow> None
      | Some (v, r) \<Rightarrow>
          (case skip r of
             c # r1 \<Rightarrow>
               if c = CHR '']'' then Some ([v], r1)
               else if c = CHR '','' then map_option (\<lambda>(vs, r). (v # vs, r)) (parse_items n r1)
               else None
           | [] \<Rightarrow> None))"
| "parse_members 0 s = None"
| "parse_members (Suc n) s =
     (case skip s of
        c # s1 \<Rightarrow>
          if c \<noteq> QUOTE then None
          else
            (case parse_string s1 of
               None \<Rightarrow> None
             | Some (k, r) \<Rightarrow>
                 (case skip r of
                    c # r1 \<Rightarrow>
                      if c \<noteq> CHR '':'' then None
                      else
                        (case parse_value n r1 of
                           None \<Rightarrow> None
                         | Some (v, r2) \<Rightarrow>
                             (case skip r2 of
                                c # r3 \<Rightarrow>
                                  if c = CHR ''}'' then Some ([(k, v)], r3)
                                  else if c = CHR '','' then map_option (\<lambda>(ms, r). ((k, v) # ms, r)) (parse_members n r3)
                                  else None
                              | [] \<Rightarrow> None))
                  | [] \<Rightarrow> None))
      | [] \<Rightarrow> None)"

declare parse_value.simps [simp del] parse_items.simps [simp del] parse_members.simps [simp del]

definition jsonDecode :: "string \<Rightarrow> json option" where
  "jsonDecode s =
     (case parse_value (length s + 1) s of
        None \<Rightarrow> None
      | Some (v, r) \<Rightarrow> if skip r = [] then Some v else None)"

section \<open>The decoder reads what the encoder writes\<close>

lemma hex_value_digit: "d < 16 \<Longrightarrow> hex_value (hex_digit d) = Some d" "hex_value CHR ''0'' = Some 0"
  by (auto simp: hex_value_def hex_digit_def Let_def)

lemma hex_digits: "n < 32 \<Longrightarrow> hex4 CHR ''0'' CHR ''0'' (hex_digit (n div 16)) (hex_digit (n mod 16)) = Some n"
  by (simp add: hex4_def hex_value_digit)

lemma parse_escape: "parse_string (escape c @ r) = cons_char c (parse_string r)"
proof -
  consider "c = QUOTE \<or> c = BSLASH \<or> c = CHR 0x08 \<or> c = CHR 0x09 \<or> c = CHR 0x0A \<or> c = CHR 0x0C \<or> c = CHR 0x0D"
    | "c \<noteq> QUOTE" "c \<noteq> BSLASH" "c \<noteq> CHR 0x08" "c \<noteq> CHR 0x09" "c \<noteq> CHR 0x0A" "c \<noteq> CHR 0x0C" "c \<noteq> CHR 0x0D" "of_char c < (32 :: nat)"
    | "c \<noteq> QUOTE" "c \<noteq> BSLASH" "\<not> of_char c < (32 :: nat)" "c \<noteq> CHR 0x08" "c \<noteq> CHR 0x09" "c \<noteq> CHR 0x0A" "c \<noteq> CHR 0x0C" "c \<noteq> CHR 0x0D"
    by blast
  then show ?thesis
  proof cases
    case 1
    then show ?thesis by (auto simp: escape_def unescape_def)
  next
    case 2
    then show ?thesis using hex_digits [OF 2(8)] by (simp add: escape_def)
  next
    case 3
    then show ?thesis by (simp add: escape_def)
  qed
qed

lemma parse_string_print: "parse_string (concat (map escape s) @ QUOTE # rest) = Some (s, rest)"
  by (induction s) (simp_all add: parse_escape cons_char_def)

definition stops :: "string \<Rightarrow> bool" where
  "stops r \<longleftrightarrow> (case r of [] \<Rightarrow> True | c # _ \<Rightarrow> \<not> is_digit c)"

lemma dec_is_digit: "c \<in> set (dec n) \<Longrightarrow> is_digit c"
  using dec_digits [of c n] by (simp add: is_digit_def)

lemma dec_first: "\<exists>c r. dec n = c # r \<and> (r \<noteq> [] \<longrightarrow> c \<noteq> CHR ''0'')"
proof (induction n rule: dec.induct)
  case (1 n)
  show ?case
  proof (cases "n < 10")
    case True
    then show ?thesis by (subst dec.simps) simp
  next
    case False
    with 1 obtain c r where c: "dec (n div 10) = c # r" "r \<noteq> [] \<longrightarrow> c \<noteq> CHR ''0''" by blast
    have "c \<noteq> CHR ''0''"
    proof (cases "r = []")
      case True
      have "undec (dec (n div 10)) = n div 10" by simp
      with True c(1) have "of_char c - 48 = n div 10" by (simp add: undec_def)
      with False show ?thesis by auto
    qed (use c in simp)
    with c False show ?thesis by (subst dec.simps) simp
  qed
qed

lemma parse_nat_dec:
  assumes "stops rest"
  shows "parse_nat (dec n @ rest) = Some (n, rest)"
proof -
  have d: "\<forall>c\<in>set (dec n). is_digit c" using dec_is_digit by blast
  have "takeWhile is_digit (dec n @ rest) = dec n" "dropWhile is_digit (dec n @ rest) = rest"
    using d assms by (auto simp: stops_def split: list.splits)
  then show ?thesis using dec_first [of n] by (auto simp: parse_nat_def Let_def)
qed

lemma fmt_d_first: "\<exists>c r. fmt_d i = c # r \<and> (c = CHR ''-'' \<or> is_digit c)"
  using dec_first [of "nat i"] dec_is_digit [of _ "nat i"] by (auto simp: fmt_d_def)

lemma parse_num_print:
  assumes "stops rest"
  shows "parse_num (fmt_d i @ rest) = Some (JNum i, rest)"
proof (cases "i < 0")
  case True
  then show ?thesis using parse_nat_dec [OF assms, of "nat (- i)"] by (simp add: parse_num_def fmt_d_def)
next
  case False
  obtain c r where c: "dec (nat i) = c # r" using dec_first by blast
  then have "is_digit c" using dec_is_digit [of c "nat i"] by simp
  then have "c \<noteq> CHR ''-''" by (auto simp: is_digit_def)
  then show ?thesis using parse_nat_dec [OF assms, of "nat i"] False c by (simp add: parse_num_def fmt_d_def)
qed

lemma encode_first: "\<exists>c r. jsonEncode v = c # r \<and> \<not> ws c \<and> c \<noteq> CHR '']''"
proof (cases v)
  case (JNum i)
  from fmt_d_first [of i] show ?thesis by (auto simp: JNum ws_def is_digit_def)
qed (auto simp: print_string_def ws_def)

lemma skip_encode: "skip (jsonEncode v @ r) = jsonEncode v @ r" "skip (CHR '','' # r) = CHR '','' # r" "skip (CHR '']'' # r) = CHR '']'' # r"
  "skip (CHR ''}'' # r) = CHR ''}'' # r" "skip (CHR '':'' # r) = CHR '':'' # r" "skip (print_string k @ r) = print_string k @ r"
  using encode_first [of v] by (auto simp: skip_def ws_def print_string_def)

lemma stops_simps [simp]: "stops []" "stops (CHR '','' # r)" "stops (CHR '']'' # r)" "stops (CHR ''}'' # r)"
  by (simp_all add: stops_def is_digit_def)

lemma num_first: "parse_value (Suc n) (fmt_d i @ rest) = parse_num (fmt_d i @ rest)"
proof -
  obtain c r where c: "fmt_d i = c # r" "c = CHR ''-'' \<or> is_digit c" using fmt_d_first by blast
  then have "\<not> ws c" "c \<noteq> QUOTE" "c \<noteq> CHR ''[''" "c \<noteq> CHR ''{''" "c \<noteq> CHR ''n''" "c \<noteq> CHR ''t''" "c \<noteq> CHR ''f''"
    by (auto simp: ws_def is_digit_def)
  then show ?thesis by (simp add: parse_value.simps c(1) skip_def Let_def)
qed

lemma parse_print:
  "length (jsonEncode v) \<le> n \<Longrightarrow> stops rest \<Longrightarrow> parse_value n (jsonEncode v @ rest) = Some (v, rest)"
  "length (print_items vs) \<le> n \<Longrightarrow> vs \<noteq> [] \<Longrightarrow> parse_items n (print_items vs @ rest) = Some (vs, rest)"
  "length (print_members ms) \<le> n \<Longrightarrow> ms \<noteq> [] \<Longrightarrow> parse_members n (print_members ms @ rest) = Some (ms, rest)"
proof (induction v and vs and ms arbitrary: n rest and n rest and n rest rule: jsonEncode_print_items_print_members.induct)
  case 1
  then obtain k where "n = Suc k" by (cases n) auto
  then show ?case by (simp add: parse_value.simps skip_def ws_def literal_def)
next
  case (2 b)
  then obtain k where "n = Suc k" by (cases n) (auto split: if_splits)
  then show ?case by (simp add: parse_value.simps skip_def ws_def literal_def)
next
  case (3 i)
  then obtain k where "n = Suc k" using fmt_d_first [of i] by (cases n) auto
  then show ?case using 3(2) by (simp only: jsonEncode.simps num_first parse_num_print)
next
  case (4 s)
  then obtain k where "n = Suc k" by (cases n) (auto simp: print_string_def)
  then show ?case by (simp add: parse_value.simps print_string_def skip_def ws_def parse_string_print)
next
  case (5 vs)
  then obtain k where k: "n = Suc k" "length (print_items vs) \<le> k" by (cases n) auto
  show ?case
  proof (cases vs)
    case Nil
    then show ?thesis by (simp add: k(1) parse_value.simps skip_def ws_def)
  next
    case (Cons v ws)
    obtain c r where "jsonEncode v = c # r" "\<not> Json.ws c" "c \<noteq> CHR '']''" using encode_first by blast
    then obtain r' where "print_items vs @ rest = c # r'" by (simp add: Cons)
    then have "skip (print_items vs @ rest) = c # r'" using \<open>\<not> Json.ws c\<close> by (simp add: skip_def)
    with 5(1) [OF k(2), of rest] \<open>c \<noteq> CHR '']''\<close> Cons show ?thesis
      by (simp add: k(1) parse_value.simps skip_def ws_def)
  qed
next
  case (6 ms)
  then obtain k where k: "n = Suc k" "length (print_members ms) \<le> k" by (cases n) auto
  show ?case
  proof (cases ms)
    case Nil
    then show ?thesis by (simp add: k(1) parse_value.simps skip_def ws_def)
  next
    case (Cons m ms')
    obtain r' where "print_members ms @ rest = QUOTE # r'" by (cases m) (simp add: Cons print_string_def)
    moreover from this have "skip (print_members ms @ rest) = QUOTE # r'" by (simp add: skip_def ws_def)
    ultimately show ?thesis using 6(1) [OF k(2), of rest] Cons by (simp add: k(1) parse_value.simps skip_def ws_def)
  qed
next
  case 7
  then show ?case by simp
next
  case (8 v vs)
  then obtain k where k: "n = Suc k" using encode_first [of v] by (cases n) auto
  show ?case
  proof (cases "vs = []")
    case True
    then have "parse_value k (jsonEncode v @ CHR '']'' # rest) = Some (v, CHR '']'' # rest)" using 8 k by simp
    then show ?thesis using True k by (simp add: parse_items.simps skip_encode)
  next
    case False
    then have "parse_value k (jsonEncode v @ CHR '','' # print_items vs @ rest) = Some (v, CHR '','' # print_items vs @ rest)"
      "parse_items k (print_items vs @ rest) = Some (vs, rest)" using 8 k by simp_all
    then show ?thesis using False k by (simp add: parse_items.simps skip_encode)
  qed
next
  case 9
  then show ?case by simp
next
  case (10 key v ms)
  then obtain k where k: "n = Suc k" by (cases n) auto
  have s: "skip (print_string key @ r) = QUOTE # concat (map escape key) @ QUOTE # r" for r
    using skip_encode(6) [of key r] by (simp add: print_string_def)
  show ?case
  proof (cases "ms = []")
    case True
    then have "parse_value k (jsonEncode v @ CHR ''}'' # rest) = Some (v, CHR ''}'' # rest)" using 10 k by simp
    then show ?thesis using True k by (simp add: parse_members.simps s parse_string_print skip_encode(2-5))
  next
    case False
    then have "parse_value k (jsonEncode v @ CHR '','' # print_members ms @ rest) = Some (v, CHR '','' # print_members ms @ rest)"
      "parse_members k (print_members ms @ rest) = Some (ms, rest)" using 10 k by simp_all
    then show ?thesis using False k by (simp add: parse_members.simps s parse_string_print skip_encode(2-5))
  qed
qed

text \<open>Decoding the encoding of a value gives the value back, whatever strings, characters and nesting it has.\<close>

lemma json_roundtrip: "jsonDecode (jsonEncode v) = Some v"
proof -
  have "parse_value (length (jsonEncode v) + 1) (jsonEncode v @ []) = Some (v, [])" by (rule parse_print(1)) simp_all
  then show ?thesis by (simp add: jsonDecode_def skip_def)
qed

end
