(* ===== verification/Embedder.thy ===== *)
theory Embedder
  imports Procfs
begin

text \<open>
  The Flutter embedder (\<^verbatim>\<open>src/userspace/flutter-embedder/embedder.c\<close>): binding the Wayland globals,
  setting up the window and the renderer, the event loop, and the answers to platform messages.  Wayland, EGL and
  the Flutter engine are libraries: what their calls return, and the events they deliver during a call, are arguments.
\<close>

section \<open>State and events\<close>

record flutter_state =
  wl_display :: u64
  wl_compositor :: u64
  wl_surface :: u64
  egl_window :: u64
  wl_shell :: u64
  xdg_wm :: u64
  xdg_surface :: u64
  xdg_toplevel :: u64
  egl_display :: u64
  egl_context :: u64
  egl_surface :: u64
  fl_running :: bool
  fl_fullscreen :: bool
  fl_width :: int
  fl_height :: int

abbreviation FULLSCREEN :: u32 where "FULLSCREEN \<equiv> 2"

datatype wl_event =
    Global u32 string u64
  | GlobalRemove u32
  | Configure int int "u32 list"
  | CloseWindow

text \<open>The listeners.  A bound global carries the proxy that \<^verbatim>\<open>wl_registry_bind\<close> returns.\<close>

definition wl_registry_global :: "string \<Rightarrow> u64 \<Rightarrow> flutter_state \<Rightarrow> flutter_state" where
  "wl_registry_global interface proxy s =
     (if interface = ''wl_compositor'' then s\<lparr>wl_compositor := proxy\<rparr>
      else if interface = ''xdg_wm_base'' then s\<lparr>xdg_wm := proxy\<rparr>
      else if interface = ''wl_shell'' then s\<lparr>wl_shell := proxy\<rparr>
      else s)"

definition xdg_toplevel_configure :: "int \<Rightarrow> int \<Rightarrow> u32 list \<Rightarrow> flutter_state \<Rightarrow> flutter_state" where
  "xdg_toplevel_configure width height states s =
     (let s1 = s\<lparr>fl_fullscreen := False\<rparr>;
          s2 = fold (\<lambda>st s. if st = FULLSCREEN then s\<lparr>fl_fullscreen := True\<rparr> else s) states s1;
          s3 = (if width > 0 then s2\<lparr>fl_width := width\<rparr> else s2)
      in if height > 0 then s3\<lparr>fl_height := height\<rparr> else s3)"

definition xdg_toplevel_close :: "flutter_state \<Rightarrow> flutter_state" where
  "xdg_toplevel_close s = s\<lparr>fl_running := False\<rparr>"

fun deliver :: "wl_event \<Rightarrow> flutter_state \<Rightarrow> flutter_state" where
  "deliver (Global name interface proxy) s = wl_registry_global interface proxy s"
| "deliver (GlobalRemove name) s = s"
| "deliver (Configure w h states) s = xdg_toplevel_configure w h states s"
| "deliver CloseWindow s = xdg_toplevel_close s"

section \<open>Start-up\<close>

text \<open>The results of the library calls, 0 for NULL, and the events of the two round trips.\<close>

record wl_lib =
  lib_connect :: u64
  lib_globals :: "wl_event list"
  lib_surface :: u64
  lib_xdg_surface :: u64
  lib_toplevel :: u64
  lib_configures :: "wl_event list"
  lib_window :: "int \<Rightarrow> int \<Rightarrow> u64"

record egl_lib =
  lib_display_of :: "u64 \<Rightarrow> u64"
  lib_default_display :: u64
  lib_initialize :: bool
  lib_choose :: "bool \<times> int"
  lib_context :: u64
  lib_egl_surface :: u64
  lib_make_current :: bool

definition init_wayland :: "wl_lib \<Rightarrow> flutter_state \<Rightarrow> bool \<times> flutter_state" where
  "init_wayland lib s =
     (let s = s\<lparr>wl_display := lib_connect lib\<rparr> in
      if wl_display s = 0 then (False, s)
      else
        let s = fold deliver (lib_globals lib) s in
        if wl_compositor s = 0 then (False, s)
        else if xdg_wm s = 0 then (False, s)
        else
          let s = s\<lparr>wl_surface := lib_surface lib\<rparr> in
          if wl_surface s = 0 then (False, s)
          else
            let s = s\<lparr>xdg_surface := lib_xdg_surface lib\<rparr>;
                s = s\<lparr>xdg_toplevel := lib_toplevel lib\<rparr>;
                s = fold deliver (lib_configures lib) s;
                s = s\<lparr>egl_window := lib_window lib (if fl_width s \<noteq> 0 then fl_width s else 1280)
                        (if fl_height s \<noteq> 0 then fl_height s else 720)\<rparr>
            in (egl_window s \<noteq> 0, s))"

definition init_egl :: "egl_lib \<Rightarrow> flutter_state \<Rightarrow> bool \<times> flutter_state" where
  "init_egl lib s =
     (let s = s\<lparr>egl_display := lib_display_of lib (wl_display s)\<rparr>;
          s = (if egl_display s = 0 then s\<lparr>egl_display := lib_default_display lib\<rparr> else s) in
      if egl_display s = 0 then (False, s)
      else if \<not> lib_initialize lib then (False, s)
      else if \<not> fst (lib_choose lib) \<or> snd (lib_choose lib) = 0 then (False, s)
      else
        let s = s\<lparr>egl_context := lib_context lib\<rparr> in
        if egl_context s = 0 then (False, s)
        else
          let s = s\<lparr>egl_surface := lib_egl_surface lib\<rparr> in
          if egl_surface s = 0 then (False, s)
          else if \<not> lib_make_current lib then (False, s)
          else (True, s))"

text \<open>The event loop on the events that arrive: it stops at the first state that is not running, and none is
  the result when the events end before.  The result of \<^verbatim>\<open>main\<close> is its exit status.\<close>

fun event_loop :: "wl_event list \<Rightarrow> flutter_state \<Rightarrow> flutter_state option" where
  "event_loop evs s =
     (if \<not> fl_running s then Some s
      else case evs of [] \<Rightarrow> None | ev # rest \<Rightarrow> event_loop rest (deliver ev s))"

declare event_loop.simps [simp del]

definition embedder_main ::
  "wl_lib \<Rightarrow> egl_lib \<Rightarrow> bool \<Rightarrow> wl_event list \<Rightarrow> flutter_state \<Rightarrow> (int \<times> flutter_state) option" where
  "embedder_main wl egl engine_runs evs s =
     (let s = s\<lparr>fl_running := True, fl_width := 1280, fl_height := 720\<rparr>;
          (ok1, s) = init_wayland wl s in
      if \<not> ok1 then Some (1, s)
      else
        let (ok2, s) = init_egl egl s in
        if \<not> ok2 then Some (1, s)
        else if \<not> engine_runs then Some (1, s)
        else map_option (\<lambda>s. (0, s)) (event_loop evs s))"

section \<open>Platform messages\<close>

text \<open>The library's string searches return the rest of the string from the match on.\<close>

definition strchr :: "char \<Rightarrow> string \<Rightarrow> string option" where
  "strchr c s = (case dropWhile (\<lambda>x. x \<noteq> c) s of [] \<Rightarrow> None | r \<Rightarrow> Some r)"

fun strstr :: "string \<Rightarrow> string \<Rightarrow> string option" where
  "strstr key s =
     (if take (length key) s = key then Some s
      else case s of [] \<Rightarrow> None | _ # r \<Rightarrow> strstr key r)"

declare strstr.simps [simp del]

abbreviation Q :: char where "Q \<equiv> CHR 0x22"

definition quoted :: "string \<Rightarrow> string" where
  "quoted s = Q # s @ [Q]"

definition extract_method :: "string \<Rightarrow> string" where
  "extract_method req =
     (case strstr (quoted ''method'') req of None \<Rightarrow> ''''
      | Some m \<Rightarrow> (case strchr CHR '':'' (drop 7 m) of None \<Rightarrow> ''''
      | Some m \<Rightarrow> (case strchr Q m of None \<Rightarrow> ''''
      | Some m \<Rightarrow> (let m = tl m in
          case strchr Q m of None \<Rightarrow> ''''
          | Some stop \<Rightarrow> (let n = length m - length stop in if n < 63 then take n m else '''')))))"

definition system_response :: "int \<Rightarrow> string \<Rightarrow> string" where
  "system_response now method =
     (if method = ''getSystemInfo'' then
        ''{'' @ quoted ''uptime'' @ '':'' @ fmt_d now @ '','' @ quoted ''apps'' @ '':'' @ fmt_d 5 @ '','' @
        quoted ''memory'' @ '':'' @ quoted ''128M'' @ ''}''
      else if method = ''getDeviceName'' then ''{'' @ quoted ''name'' @ '':'' @ quoted ''OmniOS'' @ ''}''
      else if method = ''requestCapability'' then ''{'' @ quoted ''tokenId'' @ '':'' @ fmt_d 42 @ ''}''
      else if method = ''sendNotification'' then ''{'' @ quoted ''status'' @ '':'' @ quoted ''ok'' @ ''}''
      else if method = ''setClipboard'' then ''{'' @ quoted ''status'' @ '':'' @ quoted ''ok'' @ ''}''
      else if method = ''getClipboard'' then ''{'' @ quoted ''text'' @ '':'' @ quoted '''' @ ''}''
      else ''{'' @ quoted ''error'' @ '':'' @ quoted ''unknown'' @ ''}'')"

text \<open>The message as the code reads it: a string that ends at the first NUL, in the message or in the memory after it.
  The answer is the response, or none for the empty response to other channels.\<close>

definition platform_message_callback :: "int \<Rightarrow> string \<Rightarrow> string \<Rightarrow> string \<Rightarrow> string option" where
  "platform_message_callback now channel message beyond =
     (if channel = ''omnios/system'' then
        let req = takeWhile (\<lambda>c. c \<noteq> CHR 0x00) (message @ beyond);
            method = extract_method req;
            resp = snd (snprintf 512 (system_response now method))
        in Some (takeWhile (\<lambda>c. c \<noteq> CHR 0x00) resp)
      else None)"

section \<open>The method of a message\<close>

lemma strchr_skip: "c \<notin> set xs \<Longrightarrow> strchr c (xs @ c # ys) = Some (c # ys)"
  by (induction xs) (auto simp: strchr_def)

lemma strstr_here: "strstr key (key @ r) = Some (key @ r)"
  by (simp add: strstr.simps)

lemma strstr_skip: "key \<noteq> [] \<Longrightarrow> hd key \<notin> set xs \<Longrightarrow> strstr key (xs @ r) = strstr key r"
proof (induction xs)
  case (Cons x xs)
  then have "take (length key) (x # xs @ r) \<noteq> key" by (cases key) auto
  with Cons show ?case by (subst strstr.simps) simp
qed simp

definition blank :: "string \<Rightarrow> bool" where
  "blank ws \<longleftrightarrow> set ws \<subseteq> {CHR '' '', CHR 0x09, CHR 0x0A, CHR 0x0D}"

definition method_message :: "string \<Rightarrow> string \<Rightarrow> string \<Rightarrow> string \<Rightarrow> string" where
  "method_message w0 w1 w2 name = CHR ''{'' # w0 @ quoted ''method'' @ w1 @ CHR '':'' # w2 @ quoted name"

lemma extract_method_message:
  assumes "blank w0" "blank w1" "blank w2" "Q \<notin> set name"
  shows "extract_method (method_message w0 w1 w2 name @ rest) = (if length name < 63 then name else '''')"
proof -
  have w: "Q \<notin> set (CHR ''{'' # w0)" "CHR '':'' \<notin> set (Q # w1)" "Q \<notin> set (CHR '':'' # w2)"
    using assms(1-3) by (auto simp: blank_def)
  have 1: "strstr (quoted ''method'') (method_message w0 w1 w2 name @ rest) =
      Some (quoted ''method'' @ w1 @ CHR '':'' # w2 @ quoted name @ rest)"
  proof -
    let ?r = "w1 @ CHR '':'' # w2 @ quoted name @ rest"
    have "method_message w0 w1 w2 name @ rest = (CHR ''{'' # w0) @ quoted ''method'' @ ?r"
      by (simp add: method_message_def)
    moreover have "strstr (quoted ''method'') ((CHR ''{'' # w0) @ quoted ''method'' @ ?r) =
        strstr (quoted ''method'') (quoted ''method'' @ ?r)"
      using w(1) by (intro strstr_skip) (simp_all add: quoted_def)
    ultimately show ?thesis by (simp only: strstr_here)
  qed
  have 2: "strchr CHR '':'' (drop 7 (quoted ''method'' @ w1 @ CHR '':'' # w2 @ quoted name @ rest)) =
      Some (CHR '':'' # w2 @ quoted name @ rest)"
    using strchr_skip [OF w(2), of "w2 @ quoted name @ rest"] by (simp add: quoted_def)
  have 3: "strchr Q (CHR '':'' # w2 @ quoted name @ rest) = Some (Q # name @ Q # rest)"
    using strchr_skip [OF w(3), of "name @ Q # rest"] by (simp add: quoted_def)
  have 4: "strchr Q (name @ Q # rest) = Some (Q # rest)" using assms(4) by (rule strchr_skip)
  show ?thesis unfolding extract_method_def 1 option.case 2 3 by (simp add: 4)
qed

section \<open>Answers\<close>

lemma fmt_no_nul: "CHR 0x00 \<notin> set (fmt_d i)"
  using dec_digits [of "CHR 0x00" "nat i"] dec_digits [of "CHR 0x00" "nat (- i)"] by (auto simp: fmt_d_def)

lemma response_no_nul: "CHR 0x00 \<notin> set (system_response now m)"
  using fmt_no_nul by (auto simp: system_response_def quoted_def)

lemma takeWhile_nul: "CHR 0x00 \<notin> set xs \<Longrightarrow> takeWhile (\<lambda>c. c \<noteq> CHR 0x00) (xs @ ys) = xs @ takeWhile (\<lambda>c. c \<noteq> CHR 0x00) ys"
  by (induction xs) auto

lemma response_sent: "takeWhile (\<lambda>c. c \<noteq> CHR 0x00) (snd (snprintf 512 (system_response now m))) = take 511 (system_response now m)"
proof -
  have "CHR 0x00 \<notin> set (take 511 (system_response now m))" using response_no_nul by (metis in_set_takeD)
  from takeWhile_nul [OF this, of "[CHR 0x00]"] show ?thesis by (simp add: snprintf_def)
qed

text \<open>C38: A message on the system channel that names its method first, with any blanks around it and anything after it, is
  answered with the response of that method, whatever the rest of the message and the memory behind it hold; a name of 63
  characters or more counts as unknown. Every other channel gets the empty response.\<close>

theorem platform_message_answer:
  assumes "blank w0" "blank w1" "blank w2" "Q \<notin> set name" "CHR 0x00 \<notin> set name"
  shows "platform_message_callback now channel (method_message w0 w1 w2 name @ rest) beyond =
    (if channel = ''omnios/system'' then Some (take 511 (system_response now (if length name < 63 then name else '''')))
     else None)"
proof -
  have "CHR 0x00 \<notin> set (method_message w0 w1 w2 name)"
    using assms by (auto simp: method_message_def quoted_def blank_def)
  then have "takeWhile (\<lambda>c. c \<noteq> CHR 0x00) ((method_message w0 w1 w2 name @ rest) @ beyond) =
      method_message w0 w1 w2 name @ takeWhile (\<lambda>c. c \<noteq> CHR 0x00) (rest @ beyond)"
    by (simp add: takeWhile_nul)
  then show ?thesis
    unfolding platform_message_callback_def Let_def response_sent
    by (simp only: extract_method_message [OF assms(1-4)])
qed

theorem platform_message_answer_witness:
  "platform_message_callback 7 ''omnios/system'' (method_message '' '' '''' '' '' ''getDeviceName'' @ [CHR ''}'']) ''junk'' =
     Some (''{'' @ quoted ''name'' @ '':'' @ quoted ''OmniOS'' @ ''}'')"
proof -
  have "blank '' ''" "blank ''''" "Q \<notin> set ''getDeviceName''" "CHR 0x00 \<notin> set ''getDeviceName''" by (simp_all add: blank_def)
  from platform_message_answer [OF this(1,2,1,3,4), of 7 "''omnios/system''" "[CHR ''}'']" "''junk''"]
  show ?thesis by (simp add: system_response_def quoted_def)
qed

text \<open>The answer to a capability request is one fixed token, whoever asks and whatever is asked for.\<close>

lemma capability_is_constant: "system_response now ''requestCapability'' = ''{'' @ quoted ''tokenId'' @ '':42}''"
proof -
  have "fmt_d 42 = ''42''" by code_simp
  then show ?thesis by (simp add: system_response_def)
qed

section \<open>The event loop\<close>

lemma fold_fullscreen:
  fixes u :: flutter_state
  shows "fold (\<lambda>st s. if st = FULLSCREEN then s\<lparr>fl_fullscreen := True\<rparr> else s) states u =
    (if FULLSCREEN \<in> set states then u\<lparr>fl_fullscreen := True\<rparr> else u)"
  by (induction states arbitrary: u) auto

lemma deliver_running: "ev \<noteq> CloseWindow \<Longrightarrow> fl_running (deliver ev s) = fl_running s"
  by (cases ev) (simp_all add: wl_registry_global_def xdg_toplevel_configure_def fold_fullscreen Let_def)

text \<open>The loop handles every event up to the first request to close, and ends there.\<close>

lemma event_loop_ends:
  assumes "fl_running s" "CloseWindow \<notin> set evs"
  shows "event_loop (evs @ CloseWindow # rest) s = Some (fold deliver (evs @ [CloseWindow]) s)"
  using assms
proof (induction evs arbitrary: s)
  case Nil
  then show ?case by (subst event_loop.simps) (simp add: event_loop.simps xdg_toplevel_close_def)
next
  case (Cons ev evs)
  then show ?case using deliver_running [of ev s] by (subst event_loop.simps) auto
qed

text \<open>The window the embedder draws to always has a size: the last positive one that was configured, or the default.\<close>

lemma configure_size:
  "fl_width (xdg_toplevel_configure w h st s) = (if w > 0 then w else fl_width s)"
  "fl_height (xdg_toplevel_configure w h st s) = (if h > 0 then h else fl_height s)"
  "fl_fullscreen (xdg_toplevel_configure w h st s) \<longleftrightarrow> FULLSCREEN \<in> set st"
  by (simp_all add: xdg_toplevel_configure_def fold_fullscreen Let_def)

end
