(* ===== verification/Bridge.thy ===== *)
theory Bridge
  imports Json Embedder
begin

text \<open>
  The platform bridge of the application (\<^verbatim>\<open>src/omnios_app/lib/services/platform_bridge.dart\<close>) and its composition with the embedder's
  message callback: what a Dart method of the bridge returns when the embedder answers.  The channel is the function from the encoded
  message to the reply, none for an empty one.
\<close>

section \<open>The bridge\<close>

type_synonym channel = "string \<Rightarrow> string option"

definition bridge_message :: "string \<Rightarrow> json \<Rightarrow> json" where
  "bridge_message method args = JObj ((''method'', JStr method) # (if args \<noteq> JNull then [(''args'', args)] else []))"

text \<open>\<^verbatim>\<open>send\<close>: a failure to decode is caught and gives null, as does a reply that is neither a map nor a string.\<close>

definition bridge_send :: "channel \<Rightarrow> string \<Rightarrow> json \<Rightarrow> (string \<times> json) list option" where
  "bridge_send chan method args =
     (case chan (jsonEncode (bridge_message method args)) of
        None \<Rightarrow> None
      | Some reply \<Rightarrow>
          (case jsonDecode reply of
             Some (JObj m) \<Rightarrow> Some m
           | Some (JStr s) \<Rightarrow> (case jsonDecode s of Some (JObj m) \<Rightarrow> Some m | _ \<Rightarrow> None)
           | _ \<Rightarrow> None))"

text \<open>A look-up in a decoded map, where a later entry replaces an earlier one, and the casts to a nullable type: none for the
  exception that a value of another type raises.\<close>

definition lookup :: "(string \<times> json) list option \<Rightarrow> string \<Rightarrow> json" where
  "lookup r k = (case r of None \<Rightarrow> JNull | Some m \<Rightarrow> (case map_of (rev m) k of None \<Rightarrow> JNull | Some v \<Rightarrow> v))"

definition as_string :: "json \<Rightarrow> string option option" where
  "as_string v = (case v of JNull \<Rightarrow> Some None | JStr s \<Rightarrow> Some (Some s) | _ \<Rightarrow> None)"

definition as_int :: "json \<Rightarrow> int option option" where
  "as_int v = (case v of JNull \<Rightarrow> Some None | JNum i \<Rightarrow> Some (Some i) | _ \<Rightarrow> None)"

definition getSystemInfo :: "channel \<Rightarrow> (string \<times> json) list option" where
  "getSystemInfo chan = bridge_send chan ''getSystemInfo'' JNull"

definition getDeviceName :: "channel \<Rightarrow> string option option" where
  "getDeviceName chan = as_string (lookup (bridge_send chan ''getDeviceName'' JNull) ''name'')"

definition requestCapability :: "channel \<Rightarrow> string \<Rightarrow> int option option" where
  "requestCapability chan capability = as_int (lookup (bridge_send chan ''requestCapability'' (JStr capability)) ''tokenId'')"

section \<open>The bridge over the embedder\<close>

definition embedder_channel :: "int \<Rightarrow> string \<Rightarrow> channel" where
  "embedder_channel now beyond message = platform_message_callback now ''omnios/system'' message beyond"

definition response_members :: "int \<Rightarrow> string \<Rightarrow> (string \<times> json) list" where
  "response_members now method =
     (if method = ''getSystemInfo'' then [(''uptime'', JNum now), (''apps'', JNum 5), (''memory'', JStr ''128M'')]
      else if method = ''getDeviceName'' then [(''name'', JStr ''OmniOS'')]
      else if method = ''requestCapability'' then [(''tokenId'', JNum 42)]
      else if method = ''sendNotification'' then [(''status'', JStr ''ok'')]
      else if method = ''setClipboard'' then [(''status'', JStr ''ok'')]
      else if method = ''getClipboard'' then [(''text'', JStr [])]
      else [(''error'', JStr ''unknown'')])"

text \<open>Characters that are written as they are.\<close>

definition plain :: "char \<Rightarrow> bool" where
  "plain c \<longleftrightarrow> c \<noteq> QUOTE \<and> c \<noteq> BSLASH \<and> 32 \<le> (of_char c :: nat)"

lemma escape_plain: "plain c \<Longrightarrow> escape c = [c]"
  by (auto simp: plain_def escape_def)

lemma print_plain: "\<forall>c\<in>set s. plain c \<Longrightarrow> print_string s = quoted s"
proof -
  assume "\<forall>c\<in>set s. plain c"
  then have "concat (map escape s) = s" by (induction s) (simp_all add: escape_plain)
  then show ?thesis by (simp add: print_string_def quoted_def)
qed

text \<open>The texts that the embedder formats are the encodings of these maps.\<close>

lemma response_is_json: "system_response now m = jsonEncode (JObj (response_members now m))"
proof -
  have p: "print_string s = quoted s" if "list_all plain s" for s using that print_plain by (simp add: list_all_iff)
  show ?thesis by (simp add: system_response_def response_members_def p plain_def)
qed

lemma response_length:
  assumes "\<bar>now\<bar> < 10 ^ 19"
  shows "length (system_response now m) \<le> 511"
proof -
  have "length (dec (nat \<bar>now\<bar>)) \<le> Suc 18" using assms by (intro length_dec) (simp add: nat_less_iff)
  then have "length (fmt_d now) \<le> 20" by (auto simp: fmt_d_def)
  moreover have "length (fmt_d 5) \<le> 20" "length (fmt_d 42) \<le> 20" by code_simp+
  ultimately show ?thesis by (simp add: system_response_def quoted_def)
qed

lemma message_text:
  assumes "\<forall>c\<in>set m. plain c"
  shows "\<exists>rest. jsonEncode (bridge_message m args) = method_message '''' '''' '''' m @ rest"
proof -
  have k: "print_string ''method'' = quoted ''method''" by (rule print_plain) (simp add: plain_def)
  show ?thesis by (simp add: bridge_message_def method_message_def print_plain [OF assms] k)
qed

lemma channel_answers:
  assumes "\<forall>c\<in>set m. plain c" "\<bar>now\<bar> < 10 ^ 19"
  shows "bridge_send (embedder_channel now beyond) m args = Some (response_members now (if length m < 63 then m else ''''))"
proof -
  obtain rest where rest: "jsonEncode (bridge_message m args) = method_message '''' '''' '''' m @ rest"
    using message_text [OF assms(1)] by blast
  have "\<not> plain Q" "\<not> plain CHR 0x00" by (simp_all add: plain_def)
  then have q: "Q \<notin> set m" "CHR 0x00 \<notin> set m" using assms(1) by blast+
  let ?m = "if length m < 63 then m else ''''"
  have nul: "CHR 0x00 \<notin> set (method_message '''' '''' '''' m)" using q by (auto simp: method_message_def quoted_def)
  have b: "blank ''''" by (simp add: blank_def)
  have w: "takeWhile (\<lambda>c. c \<noteq> CHR 0x00) ((method_message '''' '''' '''' m @ rest) @ beyond) =
      method_message '''' '''' '''' m @ takeWhile (\<lambda>c. c \<noteq> CHR 0x00) (rest @ beyond)"
    by (simp only: append_assoc takeWhile_nul [OF nul])
  have "embedder_channel now beyond (jsonEncode (bridge_message m args)) = Some (take 511 (system_response now ?m))"
    by (simp only: embedder_channel_def platform_message_callback_def Let_def response_sent rest w extract_method_message [OF b b b q(1)]
        if_True refl)
  also have "take 511 (system_response now ?m) = system_response now ?m" by (rule take_all) (rule response_length [OF assms(2)])
  also have "\<dots> = jsonEncode (JObj (response_members now ?m))" by (rule response_is_json)
  finally have e: "embedder_channel now beyond (jsonEncode (bridge_message m args)) = Some (jsonEncode (JObj (response_members now ?m)))" .
  show ?thesis unfolding bridge_send_def e option.case json_roundtrip json.case ..
qed

text \<open>C36: A method of the application's platform bridge, sent through the channel with any arguments and answered by the embedder, returns
  the map of the embedder's answer: the message survives the encoding, the embedder's search for the method's name and the
  decoding of the answer. A name of 63 characters or more is answered as unknown.\<close>

theorem bridge_gets_answer:
  assumes "\<forall>c\<in>set m. plain c" "\<bar>now\<bar> < 10 ^ 19"
  shows "bridge_send (embedder_channel now beyond) m args = Some (response_members now (if length m < 63 then m else ''''))"
  using assms by (rule channel_answers)

theorem bridge_gets_answer_witness:
  "getDeviceName (embedder_channel 1700000000 ''x'') = Some (Some ''OmniOS'')"
proof -
  have "bridge_send (embedder_channel 1700000000 ''x'') ''getDeviceName'' JNull = Some [(''name'', JStr ''OmniOS'')]"
    by (subst bridge_gets_answer) (simp_all add: plain_def response_members_def)
  then show ?thesis by (simp add: getDeviceName_def lookup_def as_string_def)
qed

text \<open>Every request for a capability returns token 42, whatever capability is asked for.\<close>

lemma every_capability_is_42:
  assumes "\<bar>now\<bar> < 10 ^ 19"
  shows "requestCapability (embedder_channel now beyond) capability = Some (Some 42)"
proof -
  have "bridge_send (embedder_channel now beyond) ''requestCapability'' (JStr capability) = Some [(''tokenId'', JNum 42)]"
    using assms by (subst channel_answers) (simp_all add: plain_def response_members_def)
  then show ?thesis by (simp add: requestCapability_def lookup_def as_int_def)
qed

end
