(* ===== verification/Ring.thy ===== *)
theory Ring
  imports Prelude
begin

text \<open>
  Ring buffers. Four kernel components (\<^verbatim>\<open>ipc/pipe.c\<close>, \<^verbatim>\<open>drivers/tty.c\<close>,
  \<^verbatim>\<open>bsp/sm8250/drivers/input.c\<close> and \<^verbatim>\<open>klog.c\<close>) keep an array with a head index
  (next slot to write) and a tail index (next slot to read); the ring is empty when the
  two are equal and full when advancing the head would meet the tail, so one slot is
  always unused.

  \<open>ring_list\<close> is the abstraction: the elements from tail to head, in order. The two
  locales state what a client of such a ring relies on: \<open>bounded_queue\<close> for the rings
  that drop what does not fit, \<open>overwriting_queue\<close> for the log ring that drops its
  oldest element instead. What a run of puts and gets does is proved once, in the
  locales.
\<close>

section \<open>The elements between tail and head\<close>

definition ring_len :: "nat \<Rightarrow> nat \<Rightarrow> nat \<Rightarrow> nat" where
  "ring_len N h t = (if t \<le> h then h - t else h + N - t)"

definition ring_list :: "nat \<Rightarrow> (nat \<Rightarrow> 'a) \<Rightarrow> nat \<Rightarrow> nat \<Rightarrow> 'a list" where
  "ring_list N buf h t = map (\<lambda>i. buf ((t + i) mod N)) [0..<ring_len N h t]"

lemma length_ring_list [simp]: "length (ring_list N buf h t) = ring_len N h t"
  by (simp add: ring_list_def)

lemma ring_len_bound: "h < N \<Longrightarrow> t < N \<Longrightarrow> ring_len N h t < N"
  by (auto simp: ring_len_def)

lemma ring_list_same [simp]: "ring_list N buf h h = []"
  by (simp add: ring_list_def ring_len_def)

lemma ring_list_Nil_iff:
  assumes "h < N" "t < N"
  shows "ring_list N buf h t = [] \<longleftrightarrow> h = t"
  using assms by (auto simp: ring_list_def ring_len_def)

lemma Suc_mod_eq: "h < N \<Longrightarrow> Suc h mod N = (if Suc h = N then 0 else Suc h)"
  by auto

lemma ring_full_iff:
  assumes "h < N" "t < N"
  shows "Suc h mod N = t \<longleftrightarrow> ring_len N h t = N - 1"
  using assms by (auto simp: Suc_mod_eq ring_len_def)

lemma ring_len_put:
  assumes "h < N" "t < N" "Suc h mod N \<noteq> t"
  shows "ring_len N (Suc h mod N) t = Suc (ring_len N h t)"
  using assms by (auto simp: Suc_mod_eq ring_len_def)

lemma ring_len_get:
  assumes "h < N" "t < N" "t \<noteq> h"
  shows "ring_len N h t = Suc (ring_len N h (Suc t mod N))"
  using assms by (auto simp: Suc_mod_eq ring_len_def)

lemma ring_pos_head:
  assumes "h < N" "t < N"
  shows "(t + ring_len N h t) mod N = h"
  using assms by (auto simp: ring_len_def)

lemma ring_pos_neq_head:
  assumes "h < N" "t < N" "i < ring_len N h t"
  shows "(t + i) mod N \<noteq> h"
proof (cases "t + i < N")
  case True
  with assms show ?thesis by (auto simp: ring_len_def split: if_splits)
next
  case False
  with assms have "(t + i) mod N = t + i - N"
    by (auto simp: ring_len_def le_mod_geq split: if_splits)
  with False assms show ?thesis by (auto simp: ring_len_def split: if_splits)
qed

lemma ring_list_put:
  assumes "h < N" "t < N" "Suc h mod N \<noteq> t"
  shows "ring_list N (buf(h := x)) (Suc h mod N) t = ring_list N buf h t @ [x]"
proof -
  have "map (\<lambda>i. (buf(h := x)) ((t + i) mod N)) [0..<ring_len N h t]
      = map (\<lambda>i. buf ((t + i) mod N)) [0..<ring_len N h t]"
    using ring_pos_neq_head [OF assms(1,2)] by simp
  then show ?thesis
    by (simp add: ring_list_def ring_len_put [OF assms] ring_pos_head [OF assms(1,2)])
qed

lemma ring_list_get:
  assumes "h < N" "t < N" "t \<noteq> h"
  shows "ring_list N buf h t = buf t # ring_list N buf h (Suc t mod N)"
proof -
  have "(Suc t mod N + i) mod N = (t + Suc i) mod N" for i
    by (simp add: mod_simps)
  then have "ring_list N buf h t = map (\<lambda>i. buf ((t + i) mod N)) (0 # map Suc [0..<ring_len N h (Suc t mod N)])
      \<and> ring_list N buf h (Suc t mod N) = map (\<lambda>i. buf ((t + Suc i) mod N)) [0..<ring_len N h (Suc t mod N)]"
    unfolding ring_list_def ring_len_get [OF assms]
    by (simp only: upt_conv_Cons map_Suc_upt [symmetric] zero_less_Suc)
  with assms(2) show ?thesis by (simp add: comp_def)
qed

lemmas ring_list_simps [ring_simps] =
  ring_list_put ring_list_get ring_list_Nil_iff ring_full_iff ring_len_bound

section \<open>The contract of a queue that drops what does not fit\<close>

locale bounded_queue =
  fixes inv :: "'q \<Rightarrow> bool"
    and contents :: "'q \<Rightarrow> 'a list"
    and cap :: nat
    and put :: "'a \<Rightarrow> 'q \<Rightarrow> 'q"
    and get :: "'q \<Rightarrow> ('a \<times> 'q) option"
  assumes cap_bound: "inv q \<Longrightarrow> length (contents q) \<le> cap"
    and inv_put: "inv q \<Longrightarrow> inv (put x q)"
    and put_fits: "inv q \<Longrightarrow> length (contents q) < cap \<Longrightarrow> contents (put x q) = contents q @ [x]"
    and put_full: "inv q \<Longrightarrow> length (contents q) = cap \<Longrightarrow> put x q = q"
    and get_empty: "inv q \<Longrightarrow> contents q = [] \<Longrightarrow> get q = None"
    and get_next: "inv q \<Longrightarrow> contents q = x # xs \<Longrightarrow>
      \<exists>q'. get q = Some (x, q') \<and> inv q' \<and> contents q' = xs"
begin

text \<open>A run of puts keeps what fits, in order.\<close>

lemma fold_put:
  assumes "inv q"
  shows "inv (fold put xs q) \<and>
    contents (fold put xs q) = contents q @ take (cap - length (contents q)) xs"
  using assms
proof (induction xs arbitrary: q)
  case Nil
  then show ?case by simp
next
  case (Cons x xs)
  from Cons.prems have inv': "inv (put x q)" by (rule inv_put)
  note IH = Cons.IH [OF inv']
  show ?case
  proof (cases "length (contents q) < cap")
    case True
    with Cons.prems have c: "contents (put x q) = contents q @ [x]" by (rule put_fits)
    from True have "cap - length (contents q) = Suc (cap - Suc (length (contents q)))" by simp
    with IH c show ?thesis by simp
  next
    case False
    with cap_bound [OF Cons.prems] have "length (contents q) = cap" by simp
    with Cons.prems have "put x q = q" by (rule put_full)
    with IH \<open>length (contents q) = cap\<close> show ?thesis by simp
  qed
qed

lemma fold_put_full:
  assumes "inv q" "length (contents q) = cap"
  shows "fold put xs q = q"
  using put_full [OF assms] by (induction xs) simp_all

text \<open>Draining: the first \<open>n\<close> elements come out in order, the rest stay.\<close>

fun get_many :: "nat \<Rightarrow> 'q \<Rightarrow> 'a list \<times> 'q" where
  "get_many 0 q = ([], q)"
| "get_many (Suc n) q = (case get q of None \<Rightarrow> ([], q)
     | Some (x, q') \<Rightarrow> (let (xs, q'') = get_many n q' in (x # xs, q'')))"

lemma get_many_take:
  assumes "inv q"
  shows "fst (get_many n q) = take n (contents q) \<and> inv (snd (get_many n q)) \<and>
    contents (snd (get_many n q)) = drop n (contents q)"
  using assms
proof (induction n arbitrary: q)
  case 0
  then show ?case by simp
next
  case (Suc n)
  show ?case
  proof (cases "contents q")
    case Nil
    with Suc.prems show ?thesis by (simp add: get_empty)
  next
    case (Cons x xs)
    then obtain q' where "get q = Some (x, q')" "inv q'" "contents q' = xs"
      using get_next [OF Suc.prems] by blast
    with Suc.IH [of q'] Cons show ?thesis by (simp add: case_prod_unfold)
  qed
qed

text \<open>First in, first out: what was put into an empty queue comes back in order.\<close>

lemma fifo:
  assumes "inv q" "contents q = []" "length xs \<le> cap"
  shows "fst (get_many (length xs) (fold put xs q)) = xs"
  using fold_put [OF assms(1), of xs] get_many_take [of "fold put xs q" "length xs"] assms(2,3)
  by simp

end

section \<open>The contract of a queue that forgets its oldest element\<close>

locale overwriting_queue =
  fixes inv :: "'q \<Rightarrow> bool"
    and contents :: "'q \<Rightarrow> 'a list"
    and cap :: nat
    and put :: "'a \<Rightarrow> 'q \<Rightarrow> 'q"
  assumes cap_bound: "inv q \<Longrightarrow> length (contents q) \<le> cap"
    and cap_pos: "0 < cap"
    and inv_put: "inv q \<Longrightarrow> inv (put x q)"
    and put_fits: "inv q \<Longrightarrow> length (contents q) < cap \<Longrightarrow> contents (put x q) = contents q @ [x]"
    and put_full: "inv q \<Longrightarrow> length (contents q) = cap \<Longrightarrow> contents (put x q) = tl (contents q) @ [x]"
begin

lemma contents_put:
  assumes "inv q"
  shows "contents (put x q) = drop (Suc (length (contents q)) - cap) (contents q @ [x])"
proof (cases "length (contents q) < cap")
  case True
  with put_fits [OF assms] show ?thesis by simp
next
  case False
  with cap_bound [OF assms] have len: "length (contents q) = cap" by simp
  with cap_pos have "contents q \<noteq> []" by auto
  with put_full [OF assms len] len cap_pos show ?thesis
    by (cases "contents q") simp_all
qed

text \<open>A run of puts keeps the last \<open>cap\<close> elements of everything that was put.\<close>

lemma fold_put_last:
  assumes "inv q"
  shows "inv (fold put xs q) \<and>
    contents (fold put xs q)
      = drop (length (contents q) + length xs - cap) (contents q @ xs)"
  using assms
proof (induction xs arbitrary: q)
  case Nil
  with cap_bound [OF Nil] show ?case by simp
next
  case (Cons x xs)
  from Cons.prems have inv': "inv (put x q)" by (rule inv_put)
  let ?c = "contents q"
  have c: "contents (put x q) = drop (Suc (length ?c) - cap) (?c @ [x])"
    using Cons.prems by (rule contents_put)
  have "contents (fold put xs (put x q))
      = drop (length (contents (put x q)) + length xs - cap) (contents (put x q) @ xs)"
    using Cons.IH [OF inv'] by simp
  also have "contents (put x q) @ xs = drop (Suc (length ?c) - cap) (?c @ x # xs)"
    using cap_pos unfolding c by simp
  also have "drop (length (contents (put x q)) + length xs - cap)
      (drop (Suc (length ?c) - cap) (?c @ x # xs))
    = drop (length ?c + Suc (length xs) - cap) (?c @ x # xs)"
  proof -
    have "length (contents (put x q)) = Suc (length ?c) - (Suc (length ?c) - cap)"
      unfolding c by simp
    with cap_bound [OF Cons.prems] cap_pos
    have "length (contents (put x q)) + length xs - cap + (Suc (length ?c) - cap)
        = length ?c + Suc (length xs) - cap" by linarith
    then show ?thesis by (simp only: drop_drop)
  qed
  finally show ?case using Cons.IH [OF inv'] by simp
qed

end

end
