(* ===== verification/Proc_Types.thy ===== *)
theory Proc_Types
  imports Prelude
begin

text \<open>
  The process and thread control blocks of \<^verbatim>\<open>kernel/proc/process.h\<close>. Arrays
  (threads, file descriptors, signal handlers) are functions on indices, pointers are
  64-bit addresses with 0 for \<^verbatim>\<open>NULL\<close>, C strings in fixed arrays are \<open>string\<close>s.
\<close>

abbreviation MAX_PROCESSES :: nat where "MAX_PROCESSES \<equiv> 1024"
abbreviation MAX_THREADS :: nat where "MAX_THREADS \<equiv> 4096"
abbreviation PROC_NAME_LEN :: nat where "PROC_NAME_LEN \<equiv> 64"
abbreviation MAX_OPEN_FILES :: nat where "MAX_OPEN_FILES \<equiv> 128"
abbreviation MAX_PIPES :: nat where "MAX_PIPES \<equiv> 64"
abbreviation SIG_MAX :: nat where "SIG_MAX \<equiv> 32"
abbreviation SIG_KILL :: nat where "SIG_KILL \<equiv> 9"
abbreviation SIG_TERM :: nat where "SIG_TERM \<equiv> 15"
abbreviation SIG_CHLD :: nat where "SIG_CHLD \<equiv> 17"

datatype process_state_t =
    PROC_CREATED | PROC_RUNNING | PROC_READY | PROC_BLOCKED | PROC_SLEEPING
  | PROC_ZOMBIE | PROC_TERMINATED

record context_x86_64_t =
  r15 :: u64
  r14 :: u64
  r13 :: u64
  r12 :: u64
  r11 :: u64
  r10 :: u64
  r9 :: u64
  r8 :: u64
  rbp :: u64
  rdi :: u64
  rsi :: u64
  rdx :: u64
  rcx :: u64
  rbx :: u64
  rax :: u64
  rip :: u64
  cs :: u64
  rflags :: u64
  rsp :: u64
  ss :: u64

record context_arm64_t =
  arm_x :: "nat \<Rightarrow> u64"
  sp_el0 :: u64
  elr_el1 :: u64
  spsr_el1 :: u64

text \<open>\<^verbatim>\<open>context_t\<close> is one of the two, by \<^verbatim>\<open>#ifdef __aarch64__\<close>.\<close>

datatype context_t = X86_64 context_x86_64_t | ARM64 context_arm64_t

text \<open>A pointer to a thread is the pair of its process slot and its index in that slot's
  \<^verbatim>\<open>threads\<close> array.\<close>

type_synonym tref = "nat \<times> nat"

record file_descriptor_t =
  fd_fd :: int
  fd_type :: int
  fd_pipe_id :: int
  fd_private_data :: u64
  fd_flags :: int
  fd_in_use :: bool

record signal_info_t =
  sig_pending :: u64
  sig_blocked :: u64
  sig_handlers :: "nat \<Rightarrow> u64"
  sig_delivering :: int

record thread_t =
  th_tid :: u32
  th_pid :: u32
  th_context :: context_t
  th_kernel_stack :: u64
  th_kernel_stack_top :: u64
  th_user_stack :: u64
  th_user_stack_top :: u64
  th_state :: process_state_t
  th_priority :: int
  th_cpu_affinity :: int
  th_wakeup_time :: u64
  th_total_ticks :: u64
  th_sched_next :: u64
  th_signals :: signal_info_t
  th_used :: bool

record process_t =
  pr_pid :: u32
  pr_ppid :: u32
  pr_name :: string
  pr_state :: process_state_t
  pr_vm_space :: u64
  pr_thread_count :: u32
  pr_threads :: "nat \<Rightarrow> thread_t"
  pr_first_thread :: u32
  pr_start_time :: u64
  pr_cpu_time :: u64
  pr_uid :: u32
  pr_gid :: u32
  pr_exit_code :: int
  pr_fds :: "nat \<Rightarrow> file_descriptor_t"
  pr_signals :: signal_info_t
  pr_used :: bool

text \<open>The values \<^verbatim>\<open>memset(p, 0, sizeof *p)\<close> leaves.\<close>

definition zero_context :: context_x86_64_t where
  "zero_context = \<lparr>r15 = 0, r14 = 0, r13 = 0, r12 = 0, r11 = 0, r10 = 0, r9 = 0, r8 = 0,
     rbp = 0, rdi = 0, rsi = 0, rdx = 0, rcx = 0, rbx = 0, rax = 0,
     rip = 0, cs = 0, rflags = 0, rsp = 0, ss = 0\<rparr>"

definition zero_context_arm64 :: context_arm64_t where
  "zero_context_arm64 = \<lparr>arm_x = (\<lambda>_. 0), sp_el0 = 0, elr_el1 = 0, spsr_el1 = 0\<rparr>"

definition zero_fd :: file_descriptor_t where
  "zero_fd = \<lparr>fd_fd = 0, fd_type = 0, fd_pipe_id = 0, fd_private_data = 0, fd_flags = 0,
     fd_in_use = False\<rparr>"

definition zero_signals :: signal_info_t where
  "zero_signals = \<lparr>sig_pending = 0, sig_blocked = 0, sig_handlers = (\<lambda>_. 0), sig_delivering = 0\<rparr>"

definition zero_thread :: thread_t where
  "zero_thread = \<lparr>th_tid = 0, th_pid = 0, th_context = X86_64 zero_context, th_kernel_stack = 0,
     th_kernel_stack_top = 0, th_user_stack = 0, th_user_stack_top = 0, th_state = PROC_CREATED,
     th_priority = 0, th_cpu_affinity = 0, th_wakeup_time = 0, th_total_ticks = 0,
     th_sched_next = 0, th_signals = zero_signals, th_used = False\<rparr>"

definition zero_process :: process_t where
  "zero_process = \<lparr>pr_pid = 0, pr_ppid = 0, pr_name = '''', pr_state = PROC_CREATED,
     pr_vm_space = 0, pr_thread_count = 0, pr_threads = (\<lambda>_. zero_thread), pr_first_thread = 0,
     pr_start_time = 0, pr_cpu_time = 0, pr_uid = 0, pr_gid = 0, pr_exit_code = 0,
     pr_fds = (\<lambda>_. zero_fd), pr_signals = zero_signals, pr_used = False\<rparr>"

lemma zero_process_simps [simp]:
  "pr_pid zero_process = 0" "pr_used zero_process = False" "pr_fds zero_process i = zero_fd"
  "pr_threads zero_process t = zero_thread" "pr_signals zero_process = zero_signals"
  "pr_thread_count zero_process = 0" "pr_state zero_process = PROC_CREATED"
  "th_used zero_thread = False" "th_tid zero_thread = 0" "fd_in_use zero_fd = False"
  "sig_pending zero_signals = 0" "sig_blocked zero_signals = 0" "sig_handlers zero_signals k = 0"
  by (simp_all add: zero_process_def zero_thread_def zero_fd_def zero_signals_def)

end
