(* ===== verification/Sched.thy ===== *)
theory Sched
  imports Ring Proc_Types
begin

text \<open>
  The scheduler (\<^verbatim>\<open>kernel/sched/sched.c\<close>): one ring of at most 256 threads per CPU, kept
  with head, tail and count, and the thread each CPU runs. Threads live in the process
  table; \<^verbatim>\<open>thread_t *\<close> is a \<open>tref\<close>. The CPU that runs the code
  (\<^verbatim>\<open>smp_current_cpu()\<close>), the number of online CPUs and the uptime are arguments. Here
  \<open>sched_yield\<close> only changes which thread is current; the register switch it ends with (\<^verbatim>\<open>context_switch\<close>) is the
  subject of the theory Context.
\<close>

abbreviation MAX_RUNQUEUE_DEPTH :: nat where "MAX_RUNQUEUE_DEPTH \<equiv> 256"
abbreviation MAX_CPUS :: nat where "MAX_CPUS \<equiv> 256"

record runqueue_t =
  rq_queue :: "nat \<Rightarrow> tref option"
  rq_head :: nat
  rq_tail :: nat
  rq_count :: nat
  rq_total_ticks :: u64
  rq_cpu_index :: nat

text \<open>The static data of \<^verbatim>\<open>process.c\<close> and \<^verbatim>\<open>sched.c\<close>.\<close>

record kern_t =
  processes :: "nat \<Rightarrow> process_t"
  next_pid :: u32
  next_tid :: u32
  current_thread :: "tref option"
  runqueues :: "nat \<Rightarrow> runqueue_t"
  current_threads :: "nat \<Rightarrow> tref option"
  tick_counter :: u64

definition thread_at :: "kern_t \<Rightarrow> tref \<Rightarrow> thread_t" where
  "thread_at k t = pr_threads (processes k (fst t)) (snd t)"

definition upd_thread :: "tref \<Rightarrow> (thread_t \<Rightarrow> thread_t) \<Rightarrow> kern_t \<Rightarrow> kern_t" where
  "upd_thread t f k =
     k\<lparr>processes := (processes k)(fst t := (processes k (fst t))
        \<lparr>pr_threads := (pr_threads (processes k (fst t)))(snd t := f (thread_at k t))\<rparr>)\<rparr>"

definition set_state :: "tref \<Rightarrow> process_state_t \<Rightarrow> kern_t \<Rightarrow> kern_t" where
  "set_state t st k = upd_thread t (\<lambda>x. x\<lparr>th_state := st\<rparr>) k"

definition sched_get_current_pid :: "nat \<Rightarrow> kern_t \<Rightarrow> u32" where
  "sched_get_current_pid cpu k =
     (case current_threads k cpu of None \<Rightarrow> 0 | Some t \<Rightarrow> th_pid (thread_at k t))"

definition sched_get_current_tid :: "nat \<Rightarrow> kern_t \<Rightarrow> u32" where
  "sched_get_current_tid cpu k =
     (case current_threads k cpu of None \<Rightarrow> 0 | Some t \<Rightarrow> th_tid (thread_at k t))"

definition sched_current_thread :: "nat \<Rightarrow> kern_t \<Rightarrow> tref option" where
  "sched_current_thread cpu k = current_threads k cpu"

definition get_runqueue :: "nat \<Rightarrow> nat" where
  "get_runqueue cpu = (if cpu \<ge> MAX_CPUS then 0 else cpu)"

definition set_rq :: "nat \<Rightarrow> runqueue_t \<Rightarrow> kern_t \<Rightarrow> kern_t" where
  "set_rq c rq k = k\<lparr>runqueues := (runqueues k)(c := rq)\<rparr>"

definition rq_push :: "tref option \<Rightarrow> runqueue_t \<Rightarrow> runqueue_t" where
  "rq_push t rq =
     (if rq_count rq \<ge> MAX_RUNQUEUE_DEPTH then rq
      else rq\<lparr>rq_queue := (rq_queue rq)(rq_tail rq := t),
             rq_tail := (rq_tail rq + 1) mod MAX_RUNQUEUE_DEPTH, rq_count := rq_count rq + 1\<rparr>)"

definition sched_add_thread :: "nat \<Rightarrow> tref \<Rightarrow> kern_t \<Rightarrow> kern_t" where
  "sched_add_thread cpu t k =
     (let c = get_runqueue cpu; rq = runqueues k c in
      if rq_count rq \<ge> MAX_RUNQUEUE_DEPTH then k
      else set_state t PROC_READY (set_rq c (rq_push (Some t) rq) k))"

text \<open>The inner loop of \<^verbatim>\<open>sched_remove_thread\<close>, \<open>n\<close> rounds from index \<open>j\<close>.\<close>

fun rq_shift :: "nat \<Rightarrow> nat \<Rightarrow> nat \<Rightarrow> (nat \<Rightarrow> tref option) \<Rightarrow> nat \<Rightarrow> tref option" where
  "rq_shift h j 0 q = q"
| "rq_shift h j (Suc n) q =
     rq_shift h (Suc j) n (q((h + j) mod MAX_RUNQUEUE_DEPTH := q ((h + j + 1) mod MAX_RUNQUEUE_DEPTH)))"

definition rq_remove :: "tref \<Rightarrow> runqueue_t \<Rightarrow> runqueue_t" where
  "rq_remove t rq =
     (case first_idx (\<lambda>i. rq_queue rq ((rq_head rq + i) mod MAX_RUNQUEUE_DEPTH) = Some t) (rq_count rq) of
        None \<Rightarrow> rq
      | Some i \<Rightarrow> rq\<lparr>rq_queue := rq_shift (rq_head rq) i (rq_count rq - 1 - i) (rq_queue rq),
                   rq_tail := (rq_tail rq + MAX_RUNQUEUE_DEPTH - 1) mod MAX_RUNQUEUE_DEPTH,
                   rq_count := rq_count rq - 1\<rparr>)"

definition sched_remove_thread :: "nat \<Rightarrow> tref \<Rightarrow> kern_t \<Rightarrow> kern_t" where
  "sched_remove_thread cpu t k =
     (let c = get_runqueue cpu in set_rq c (rq_remove t (runqueues k c)) k)"

definition rq_pop :: "runqueue_t \<Rightarrow> (tref option \<times> runqueue_t) option" where
  "rq_pop rq =
     (if rq_count rq = 0 then None
      else Some (rq_queue rq (rq_head rq),
                 rq\<lparr>rq_head := (rq_head rq + 1) mod MAX_RUNQUEUE_DEPTH, rq_count := rq_count rq - 1\<rparr>))"

definition sched_pick_next :: "nat \<Rightarrow> kern_t \<Rightarrow> tref option \<times> kern_t" where
  "sched_pick_next cpu k =
     (let c = get_runqueue cpu in
      case rq_pop (runqueues k c) of None \<Rightarrow> (None, k)
      | Some (next, rq) \<Rightarrow>
          let k' = set_rq c rq k in
          case next of None \<Rightarrow> (None, k')
          | Some t \<Rightarrow> if th_state (thread_at k' t) = PROC_READY
                     then (Some t, set_state t PROC_RUNNING k') else (None, k'))"

definition sched_tick :: "nat \<Rightarrow> kern_t \<Rightarrow> kern_t" where
  "sched_tick cpu k =
     (let k1 = k\<lparr>tick_counter := tick_counter k + 1\<rparr>;
          k2 = set_rq cpu ((runqueues k1 cpu)\<lparr>rq_total_ticks := rq_total_ticks (runqueues k1 cpu) + 1\<rparr>) k1
      in case current_threads k2 cpu of None \<Rightarrow> k2
         | Some t \<Rightarrow> upd_thread t (\<lambda>x. x\<lparr>th_total_ticks := th_total_ticks x + 1\<rparr>) k2)"

definition sched_yield :: "nat \<Rightarrow> kern_t \<Rightarrow> kern_t" where
  "sched_yield cpu k =
     (let current = current_threads k cpu; (next, k1) = sched_pick_next cpu k in
      case next of
        None \<Rightarrow> (case current of None \<Rightarrow> k1 | Some c \<Rightarrow> set_state c PROC_RUNNING k1)
      | Some n \<Rightarrow>
          let k2 = (case current of None \<Rightarrow> k1
                    | Some c \<Rightarrow> if th_state (thread_at k1 c) = PROC_RUNNING
                               then sched_add_thread cpu c (set_state c PROC_READY k1) else k1)
          in k2\<lparr>current_threads := (current_threads k2)(cpu := Some n)\<rparr>)"

definition sched_sleep :: "nat \<Rightarrow> u64 \<Rightarrow> u64 \<Rightarrow> kern_t \<Rightarrow> kern_t" where
  "sched_sleep cpu uptime ms k =
     (case sched_current_thread cpu k of None \<Rightarrow> k
      | Some c \<Rightarrow> sched_yield cpu
          (upd_thread c (\<lambda>x. x\<lparr>th_wakeup_time := uptime + ms, th_state := PROC_SLEEPING\<rparr>) k))"

definition sched_wake :: "nat \<Rightarrow> tref option \<Rightarrow> kern_t \<Rightarrow> kern_t" where
  "sched_wake cpu thread k =
     (case thread of None \<Rightarrow> k
      | Some t \<Rightarrow> if th_state (thread_at k t) \<noteq> PROC_SLEEPING then k
                 else sched_add_thread cpu t (set_state t PROC_READY k))"

text \<open>\<^verbatim>\<open>sched_balance\<close> finds the most and the least loaded CPU; the migration itself is not written in
  the source, so both branches leave the state as it is.\<close>

definition balance_step :: "kern_t \<Rightarrow> nat \<Rightarrow> (u32 \<times> nat) \<times> u32 \<times> nat \<Rightarrow> (u32 \<times> nat) \<times> u32 \<times> nat" where
  "balance_step k i = (\<lambda>((max_count, max_cpu), min_count, min_cpu).
     let c = of_nat (rq_count (runqueues k i))
     in (if c > max_count then (c, i) else (max_count, max_cpu),
         if c < min_count then (c, i) else (min_count, min_cpu)))"

definition sched_balance :: "nat \<Rightarrow> kern_t \<Rightarrow> kern_t" where
  "sched_balance ncpus k =
     (case fold (balance_step k) [0..<ncpus] ((0, 0), 0xFFFFFFFF, 0) of
        ((max_count, max_cpu), min_count, min_cpu) \<Rightarrow>
          if max_count > min_count + 1 \<and> max_count > 0 \<and> min_cpu \<noteq> max_cpu then k else k)"

lemma sched_balance_id: "sched_balance ncpus k = k"
  by (simp add: sched_balance_def split: prod.split)

definition zero_rq :: runqueue_t where
  "zero_rq = \<lparr>rq_queue = (\<lambda>_. None), rq_head = 0, rq_tail = 0, rq_count = 0, rq_total_ticks = 0, rq_cpu_index = 0\<rparr>"

definition sched_init :: "nat \<Rightarrow> kern_t \<Rightarrow> kern_t" where
  "sched_init ncpus k =
     k\<lparr>runqueues := (\<lambda>i. if i < ncpus \<and> i < MAX_CPUS then zero_rq\<lparr>rq_cpu_index := i\<rparr> else zero_rq),
       current_threads := (\<lambda>_. None), tick_counter := 0\<rparr>"

section \<open>The run queue as a list\<close>

definition rq_inv :: "runqueue_t \<Rightarrow> bool" where
  "rq_inv rq \<longleftrightarrow> rq_head rq < MAX_RUNQUEUE_DEPTH \<and> rq_count rq \<le> MAX_RUNQUEUE_DEPTH
     \<and> rq_tail rq = (rq_head rq + rq_count rq) mod MAX_RUNQUEUE_DEPTH"

definition rq_list :: "runqueue_t \<Rightarrow> tref option list" where
  "rq_list rq = map (\<lambda>i. rq_queue rq ((rq_head rq + i) mod MAX_RUNQUEUE_DEPTH)) [0..<rq_count rq]"

lemma length_rq_list [simp]: "length (rq_list rq) = rq_count rq"
  by (simp add: rq_list_def)

lemma mod_add_inj:
  assumes "i < N" "j < N"
  shows "(h + i) mod N = (h + j) mod N \<longleftrightarrow> i = (j :: nat)"
proof -
  have *: "i = j" if "i \<le> j" "j < N" "(h + i) mod N = (h + j) mod N" for i j
  proof -
    from that have "N dvd (h + j) - (h + i)" by (metis mod_eq_dvd_iff_nat add_le_cancel_left)
    then have "N dvd j - i" by simp
    with that(1,2) show ?thesis by (metis dvd_imp_le le_antisym less_imp_diff_less not_le diff_is_0_eq zero_less_diff)
  qed
  show ?thesis using * [of i j] * [of j i] assms by (cases "i \<le> j") auto
qed

interpretation rqq: bounded_queue rq_inv rq_list 256 rq_push rq_pop
proof
  fix q x
  assume inv: "rq_inv q"
  then show "length (rq_list q) \<le> 256" by (simp add: rq_inv_def)
  from inv show "rq_inv (rq_push x q)"
    by (simp add: rq_inv_def rq_push_def mod_simps)
  show "rq_list (rq_push x q) = rq_list q @ [x]" if "length (rq_list q) < 256"
  proof -
    have "(rq_head q + i) mod 256 \<noteq> (rq_head q + rq_count q) mod 256" if "i < rq_count q" for i
      using that \<open>length (rq_list q) < 256\<close> by (simp add: mod_add_inj)
    with inv that show ?thesis by (simp add: rq_list_def rq_push_def rq_inv_def)
  qed
  show "rq_push x q = q" if "length (rq_list q) = 256" using that by (simp add: rq_push_def)
  show "rq_pop q = None" if "rq_list q = []" using that by (simp add: rq_pop_def rq_list_def)
  show "\<exists>q'. rq_pop q = Some (x, q') \<and> rq_inv q' \<and> rq_list q' = xs" if "rq_list q = x # xs" for xs
  proof -
    let ?f = "\<lambda>i. rq_queue q ((rq_head q + i) mod 256)"
    from that have "length (rq_list q) = Suc (length xs)" by simp
    then obtain n where n: "rq_count q = Suc n" by simp
    have "rq_list q = ?f 0 # map (\<lambda>i. ?f (Suc i)) [0..<n]"
      unfolding rq_list_def n by (simp add: upt_conv_Cons map_Suc_upt [symmetric] del: upt_Suc)
    with that inv n show ?thesis
      by (simp add: rq_pop_def rq_inv_def rq_list_def mod_simps)
  qed
qed

section \<open>Removing a thread\<close>

lemma rq_shift_at:
  assumes "j + n < N" "i < N" "N = MAX_RUNQUEUE_DEPTH"
  shows "rq_shift h j n q ((h + i) mod N)
    = (if j \<le> i \<and> i < j + n then q ((h + i + 1) mod N) else q ((h + i) mod N))"
  using assms(1)
proof (induction n arbitrary: j q)
  case (Suc n)
  define q' where "q' = q((h + j) mod N := q ((h + j + 1) mod N))"
  have above: "q' ((h + i + 1) mod N) = q ((h + i + 1) mod N)" if "Suc j \<le> i" "i < Suc j + n"
    using that Suc.prems mod_add_inj [of "Suc i" N j h] by (simp add: q'_def)
  have same: "q' ((h + i) mod N) = (if i = j then q ((h + i + 1) mod N) else q ((h + i) mod N))"
    using Suc.prems assms(2) mod_add_inj [of i N j h] by (simp add: q'_def)
  have "rq_shift h j (Suc n) q = rq_shift h (Suc j) n q'" by (simp add: assms(3) q'_def)
  moreover have "rq_shift h (Suc j) n q' ((h + i) mod N)
      = (if Suc j \<le> i \<and> i < Suc j + n then q' ((h + i + 1) mod N) else q' ((h + i) mod N))"
    using Suc.prems by (intro Suc.IH) simp
  ultimately show ?case using above same by auto
qed auto

lemma remove1_nth:
  "i < length xs \<Longrightarrow> xs ! i = x \<Longrightarrow> (\<forall>j<i. xs ! j \<noteq> x) \<Longrightarrow> remove1 x xs = take i xs @ drop (Suc i) xs"
proof (induction xs arbitrary: i)
  case (Cons y ys)
  then show ?case
  proof (cases i)
    case (Suc k)
    with Cons.prems have "y \<noteq> x" "\<forall>j<k. ys ! j \<noteq> x" by auto
    with Cons.IH [of k] Cons.prems Suc show ?thesis by simp
  qed simp
qed simp

lemma rq_remove_list:
  assumes inv: "rq_inv rq"
  shows "rq_list (rq_remove t rq) = remove1 (Some t) (rq_list rq)" "rq_inv (rq_remove t rq)"
proof -
  let ?h = "rq_head rq" and ?c = "rq_count rq"
  let ?P = "\<lambda>i. rq_queue rq ((?h + i) mod MAX_RUNQUEUE_DEPTH) = Some t"
  have nth: "rq_list rq ! i = rq_queue rq ((?h + i) mod MAX_RUNQUEUE_DEPTH)" if "i < ?c" for i
    using that by (simp add: rq_list_def)
  have "rq_list (rq_remove t rq) = remove1 (Some t) (rq_list rq) \<and> rq_inv (rq_remove t rq)"
  proof (cases "first_idx ?P ?c")
    case None
    then have "Some t \<notin> set (rq_list rq)" by (auto simp: first_idx_None_iff rq_list_def)
    with None inv show ?thesis by (simp add: rq_remove_def remove1_idem)
  next
    case (Some i)
    then have i: "i < ?c" "?P i" "\<forall>j<i. \<not> ?P j" by (auto simp: first_idx_Some_iff)
    have c: "?c \<le> 256" using inv by (simp add: rq_inv_def)
    have r: "remove1 (Some t) (rq_list rq) = take i (rq_list rq) @ drop (Suc i) (rq_list rq)"
      using i by (intro remove1_nth) (simp_all add: nth)
    have "rq_list (rq_remove t rq) = take i (rq_list rq) @ drop (Suc i) (rq_list rq)"
    proof (rule nth_equalityI)
      show "length (rq_list (rq_remove t rq)) = length (take i (rq_list rq) @ drop (Suc i) (rq_list rq))"
        using i Some by (simp add: rq_remove_def)
      fix k
      assume "k < length (rq_list (rq_remove t rq))"
      then have k: "k < ?c - 1" using Some by (simp add: rq_remove_def)
      have "rq_list (rq_remove t rq) ! k
          = rq_shift ?h i (?c - 1 - i) (rq_queue rq) ((?h + k) mod MAX_RUNQUEUE_DEPTH)"
        using k Some by (simp add: rq_remove_def rq_list_def)
      also have "\<dots> = (if i \<le> k then rq_list rq ! Suc k else rq_list rq ! k)"
        using k i c rq_shift_at [of i "?c - 1 - i" MAX_RUNQUEUE_DEPTH k ?h "rq_queue rq"]
        by (simp add: nth)
      finally show "rq_list (rq_remove t rq) ! k = (take i (rq_list rq) @ drop (Suc i) (rq_list rq)) ! k"
        using k i by (simp add: nth_append)
    qed
    moreover have "rq_inv (rq_remove t rq)"
    proof -
      have "((?h + ?c) mod 256 + 255) mod 256 = (?h + (?c - 1)) mod 256"
      proof -
        have "?h + ?c + 255 = ?h + (?c - 1) + 256" using i(1) by simp
        then show ?thesis by (metis mod_add_left_eq mod_add_self2)
      qed
      then have "(255 + (?h + ?c) mod 256) mod 256 = (?h + ?c - Suc 0) mod 256" using i(1) by (simp add: add.commute)
      with inv Some i(1) show ?thesis by (auto simp: rq_inv_def rq_remove_def)
    qed
    ultimately show ?thesis using r by simp
  qed
  then show "rq_list (rq_remove t rq) = remove1 (Some t) (rq_list rq)" "rq_inv (rq_remove t rq)" by simp_all
qed

section \<open>Threads and queues\<close>

lemma thread_at_upd [simp]:
  "thread_at (upd_thread t f k) u = (if u = t then f (thread_at k t) else thread_at k u)"
  by (cases t; cases u) (auto simp: thread_at_def upd_thread_def)

lemma upd_thread_fields [simp]:
  "runqueues (upd_thread t f k) = runqueues k" "current_threads (upd_thread t f k) = current_threads k"
  "current_thread (upd_thread t f k) = current_thread k" "next_pid (upd_thread t f k) = next_pid k"
  "next_tid (upd_thread t f k) = next_tid k" "tick_counter (upd_thread t f k) = tick_counter k"
  by (simp_all add: upd_thread_def)

lemma set_rq_fields [simp]:
  "thread_at (set_rq c rq k) u = thread_at k u" "runqueues (set_rq c rq k) = (runqueues k)(c := rq)"
  "current_threads (set_rq c rq k) = current_threads k" "processes (set_rq c rq k) = processes k"
  by (simp_all add: set_rq_def thread_at_def)

lemma thread_at_current [simp]: "thread_at (k\<lparr>current_threads := x\<rparr>) u = thread_at k u"
  by (simp add: thread_at_def)

abbreviation queue_of :: "nat \<Rightarrow> kern_t \<Rightarrow> tref option list" where
  "queue_of cpu k \<equiv> rq_list (runqueues k (get_runqueue cpu))"

abbreviation queues_ok :: "kern_t \<Rightarrow> bool" where
  "queues_ok k \<equiv> \<forall>c. rq_inv (runqueues k c)"

lemma add_thread_queue:
  assumes "queues_ok k"
  shows "queue_of cpu (sched_add_thread cpu t k)
      = (if length (queue_of cpu k) < 256 then queue_of cpu k @ [Some t] else queue_of cpu k)"
    and "queues_ok (sched_add_thread cpu t k)"
    and "c \<noteq> get_runqueue cpu \<Longrightarrow> runqueues (sched_add_thread cpu t k) c = runqueues k c"
  using assms rqq.put_fits [of "runqueues k (get_runqueue cpu)" "Some t"] rqq.inv_put
  by (auto simp: sched_add_thread_def set_state_def Let_def not_le)

lemma remove_thread_queue:
  assumes "queues_ok k"
  shows "queue_of cpu (sched_remove_thread cpu t k) = remove1 (Some t) (queue_of cpu k)"
    and "queues_ok (sched_remove_thread cpu t k)"
    and "c \<noteq> get_runqueue cpu \<Longrightarrow> runqueues (sched_remove_thread cpu t k) c = runqueues k c"
  using assms by (simp_all add: sched_remove_thread_def rq_remove_list Let_def)

lemma pick_next_queue:
  assumes "queues_ok k"
  shows "queue_of cpu (snd (sched_pick_next cpu k)) = tl (queue_of cpu k)"
    and "queues_ok (snd (sched_pick_next cpu k))"
    and "c \<noteq> get_runqueue cpu \<Longrightarrow> runqueues (snd (sched_pick_next cpu k)) c = runqueues k c"
    and "fst (sched_pick_next cpu k) = (case queue_of cpu k of
          Some n # _ \<Rightarrow> if th_state (thread_at k n) = PROC_READY then Some n else None | _ \<Rightarrow> None)"
    and "thread_at (snd (sched_pick_next cpu k)) u = (if fst (sched_pick_next cpu k) = Some u
          then (thread_at k u)\<lparr>th_state := PROC_RUNNING\<rparr> else thread_at k u)"
    and "current_threads (snd (sched_pick_next cpu k)) = current_threads k"
proof -
  let ?rq = "runqueues k (get_runqueue cpu)"
  have inv: "rq_inv ?rq" using assms by simp
  have "queue_of cpu (snd (sched_pick_next cpu k)) = tl (queue_of cpu k)
    \<and> queues_ok (snd (sched_pick_next cpu k))
    \<and> (c \<noteq> get_runqueue cpu \<longrightarrow> runqueues (snd (sched_pick_next cpu k)) c = runqueues k c)
    \<and> fst (sched_pick_next cpu k) = (case queue_of cpu k of
          Some n # _ \<Rightarrow> if th_state (thread_at k n) = PROC_READY then Some n else None | _ \<Rightarrow> None)
    \<and> thread_at (snd (sched_pick_next cpu k)) u = (if fst (sched_pick_next cpu k) = Some u
          then (thread_at k u)\<lparr>th_state := PROC_RUNNING\<rparr> else thread_at k u)
    \<and> current_threads (snd (sched_pick_next cpu k)) = current_threads k"
  proof (cases "rq_list ?rq")
    case Nil
    with rqq.get_empty [OF inv] assms show ?thesis by (simp add: sched_pick_next_def)
  next
    case (Cons x xs)
    with rqq.get_next [OF inv] obtain q' where "rq_pop ?rq = Some (x, q')" "rq_inv q'" "rq_list q' = xs" by blast
    with Cons assms show ?thesis
      by (cases x) (simp_all add: sched_pick_next_def set_state_def Let_def)
  qed
  then show "queue_of cpu (snd (sched_pick_next cpu k)) = tl (queue_of cpu k)"
    "queues_ok (snd (sched_pick_next cpu k))"
    "c \<noteq> get_runqueue cpu \<Longrightarrow> runqueues (snd (sched_pick_next cpu k)) c = runqueues k c"
    "fst (sched_pick_next cpu k) = (case queue_of cpu k of
          Some n # _ \<Rightarrow> if th_state (thread_at k n) = PROC_READY then Some n else None | _ \<Rightarrow> None)"
    "thread_at (snd (sched_pick_next cpu k)) u = (if fst (sched_pick_next cpu k) = Some u
          then (thread_at k u)\<lparr>th_state := PROC_RUNNING\<rparr> else thread_at k u)"
    "current_threads (snd (sched_pick_next cpu k)) = current_threads k" by blast+
qed

text \<open>C28: The ring of a CPU implements a first-in first-out list of at most 256 threads:
  sched_add_thread appends the thread when there is room and changes nothing when there is
  not; sched_remove_thread deletes the first occurrence of the thread and keeps the order of
  the others; sched_pick_next takes the head off and returns it exactly when it was ready. No
  operation touches the queue of another CPU.\<close>

theorem runqueue_refines_list:
  assumes "queues_ok k"
  shows "queue_of cpu (sched_add_thread cpu t k)
      = (if length (queue_of cpu k) < 256 then queue_of cpu k @ [Some t] else queue_of cpu k)
    \<and> queue_of cpu (sched_remove_thread cpu t k) = remove1 (Some t) (queue_of cpu k)
    \<and> queue_of cpu (snd (sched_pick_next cpu k)) = tl (queue_of cpu k)
    \<and> fst (sched_pick_next cpu k) = (case queue_of cpu k of
          Some n # _ \<Rightarrow> if th_state (thread_at k n) = PROC_READY then Some n else None | _ \<Rightarrow> None)
    \<and> queues_ok (sched_add_thread cpu t k) \<and> queues_ok (sched_remove_thread cpu t k)
    \<and> queues_ok (snd (sched_pick_next cpu k))
    \<and> (\<forall>c. c \<noteq> get_runqueue cpu \<longrightarrow> runqueues (sched_add_thread cpu t k) c = runqueues k c
         \<and> runqueues (sched_remove_thread cpu t k) c = runqueues k c
         \<and> runqueues (snd (sched_pick_next cpu k)) c = runqueues k c)"
  using add_thread_queue [OF assms, where cpu = cpu and t = t]
    pick_next_queue(1-4) [OF assms, where cpu = cpu]
    remove_thread_queue [OF assms, where cpu = cpu and t = t] by blast

definition kern_static :: kern_t where
  "kern_static = \<lparr>processes = (\<lambda>_. zero_process), next_pid = 1, next_tid = 1, current_thread = None,
     runqueues = (\<lambda>_. zero_rq), current_threads = (\<lambda>_. None), tick_counter = 0\<rparr>"

lemma kern_static_queues [simp]: "rq_inv (runqueues kern_static c)" "rq_list (runqueues kern_static c) = []"
  by (simp_all add: kern_static_def zero_rq_def rq_inv_def rq_list_def)

theorem runqueue_refines_list_witness:
  "queue_of 0 (sched_add_thread 0 (1, 0) kern_static) = [Some (1, 0)]"
  using runqueue_refines_list [of kern_static 0 "(1, 0)"] by simp

section \<open>Round robin\<close>

text \<open>CPU \<open>cpu\<close> runs the first thread of \<open>ts\<close> and the others wait in its queue in order.\<close>

definition sched_view :: "nat \<Rightarrow> kern_t \<Rightarrow> tref list \<Rightarrow> bool" where
  "sched_view cpu k ts \<longleftrightarrow> cpu < MAX_CPUS \<and> queues_ok k \<and> ts \<noteq> [] \<and> distinct ts
     \<and> current_threads k cpu = Some (hd ts) \<and> queue_of cpu k = map Some (tl ts)
     \<and> th_state (thread_at k (hd ts)) = PROC_RUNNING
     \<and> (\<forall>t\<in>set (tl ts). th_state (thread_at k t) = PROC_READY)"

lemma add_thread_state:
  "thread_at (sched_add_thread cpu t k) u = (if u = t \<and> rq_count (runqueues k (get_runqueue cpu)) < 256
     then (thread_at k u)\<lparr>th_state := PROC_READY\<rparr> else thread_at k u)"
  "current_threads (sched_add_thread cpu t k) = current_threads k"
  by (auto simp: sched_add_thread_def set_state_def Let_def)

lemma sched_yield_rotates:
  assumes "sched_view cpu k ts"
  shows "sched_view cpu (sched_yield cpu k) (rotate1 ts)"
proof -
  obtain c qs where ts: "ts = c # qs" using assms by (cases ts) (auto simp: sched_view_def)
  have v: "queues_ok k" "current_threads k cpu = Some c" "queue_of cpu k = map Some qs" "distinct (c # qs)"
    "th_state (thread_at k c) = PROC_RUNNING" "\<forall>t\<in>set qs. th_state (thread_at k t) = PROC_READY" "cpu < 256"
    using assms by (auto simp: sched_view_def ts)
  note p = pick_next_queue [OF v(1), of cpu]
  show ?thesis
  proof (cases qs)
    case Nil
    with p(4) v(3) have n: "fst (sched_pick_next cpu k) = None" by simp
    then have "sched_yield cpu k = set_state c PROC_RUNNING (snd (sched_pick_next cpu k))"
      by (simp add: sched_yield_def v(2) case_prod_unfold Let_def)
    with n p v Nil show ?thesis by (simp add: sched_view_def ts set_state_def)
  next
    case (Cons n rest)
    let ?k1 = "snd (sched_pick_next cpu k)"
    have n: "fst (sched_pick_next cpu k) = Some n" using p(4) v(3,6) Cons by simp
    have nc: "n \<noteq> c" using v(4) Cons by auto
    let ?k2 = "sched_add_thread cpu c (set_state c PROC_READY ?k1)"
    have y: "sched_yield cpu k = ?k2\<lparr>current_threads := (current_threads ?k2)(cpu := Some n)\<rparr>"
      using n p(5) v(2,5) nc by (simp add: sched_yield_def case_prod_unfold Let_def)
    have len: "length (queue_of cpu k) \<le> 256" using rqq.cap_bound v(1) by blast
    have q1: "queue_of cpu ?k1 = map Some rest" using p(1) v(3) Cons by simp
    have ok1: "queues_ok (set_state c PROC_READY ?k1)" using p(2) by (simp add: set_state_def)
    have small: "length (queue_of cpu (set_state c PROC_READY ?k1)) < 256"
      using len q1 v(3) Cons by (simp add: set_state_def flip: length_rq_list)
    have q2: "queue_of cpu ?k2 = map Some rest @ [Some c]"
      using add_thread_queue(1) [OF ok1, of cpu c] small q1 by (simp add: set_state_def)
    have ok2: "queues_ok ?k2" using add_thread_queue(2) [OF ok1] .
    have st: "thread_at ?k2 u = (if u = c then (thread_at ?k1 u)\<lparr>th_state := PROC_READY\<rparr> else thread_at ?k1 u)" for u
      using small by (auto simp: add_thread_state set_state_def)
    show ?thesis
      unfolding y sched_view_def ts Cons
      using v q2 ok2 st p(5) n nc Cons by (auto simp: get_runqueue_def)
  qed
qed

text \<open>C10: The scheduler is a fair round robin: as long as the threads on a CPU only yield, the
  k-th yield leaves the CPU running the k-th thread of the circular order in which they
  were queued, so every one of n runnable threads gets the CPU within n - 1 yields and none
  is ever lost or duplicated.\<close>

theorem sched_round_robin:
  assumes "sched_view cpu k ts"
  shows "sched_view cpu ((sched_yield cpu ^^ m) k) (rotate m ts)
    \<and> current_threads ((sched_yield cpu ^^ m) k) cpu = Some (ts ! (m mod length ts))
    \<and> (\<forall>t\<in>set ts. \<exists>j<length ts. current_threads ((sched_yield cpu ^^ j) k) cpu = Some t)"
proof -
  have view: "sched_view cpu ((sched_yield cpu ^^ j) k) (rotate j ts)" for j
    by (induction j) (simp_all add: assms sched_yield_rotates)
  have ne: "ts \<noteq> []" using assms by (simp add: sched_view_def)
  have cur: "current_threads ((sched_yield cpu ^^ j) k) cpu = Some (ts ! (j mod length ts))" for j
    using view [of j] ne by (simp add: sched_view_def hd_rotate_conv_nth)
  moreover have "\<exists>j<length ts. current_threads ((sched_yield cpu ^^ j) k) cpu = Some t" if "t \<in> set ts" for t
    using that cur by (metis in_set_conv_nth mod_less)
  ultimately show ?thesis using view by blast
qed

definition demo_kern :: kern_t where
  "demo_kern = sched_add_thread 0 (2, 0)
     ((set_state (1, 0) PROC_RUNNING kern_static)\<lparr>current_threads := (\<lambda>_. Some (1, 0))\<rparr>)"

lemma demo_kern_view: "sched_view 0 demo_kern [(1, 0), (2, 0)]"
proof -
  let ?k = "(set_state (1, 0) PROC_RUNNING kern_static)\<lparr>current_threads := (\<lambda>_. Some (1, 0))\<rparr>"
  have ok: "queues_ok ?k" by (simp add: set_state_def)
  have c: "rq_count (runqueues kern_static 0) = 0" by (simp add: kern_static_def zero_rq_def)
  have "queue_of 0 demo_kern = [Some (2, 0)]"
    using add_thread_queue(1) [OF ok, of 0 "(2, 0)"] by (simp add: demo_kern_def set_state_def get_runqueue_def c)
  moreover have "queues_ok demo_kern" unfolding demo_kern_def by (rule add_thread_queue(2) [OF ok])
  ultimately show ?thesis
    by (simp add: sched_view_def demo_kern_def add_thread_state set_state_def get_runqueue_def c)
qed

theorem sched_round_robin_witness:
  "current_threads ((sched_yield 0 ^^ 1) demo_kern) 0 = Some (2, 0)
   \<and> current_threads ((sched_yield 0 ^^ 2) demo_kern) 0 = Some (1, 0)"
  using sched_round_robin [OF demo_kern_view, of 1] sched_round_robin [OF demo_kern_view, of 2]
  by (simp add: numeral_2_eq_2)

text \<open>A thread that is alone on its CPU does not sleep: \<^verbatim>\<open>sched_yield\<close> finds no other thread
  and puts it back to running.\<close>

lemma sched_sleep_alone:
  assumes "sched_view cpu k [t]"
  shows "th_state (thread_at (sched_sleep cpu uptime ms k) t) = PROC_RUNNING"
proof -
  let ?k = "upd_thread t (\<lambda>x. x\<lparr>th_wakeup_time := uptime + ms, th_state := PROC_SLEEPING\<rparr>) k"
  have cur: "current_threads k cpu = Some t" and ok: "queues_ok ?k" and q: "queue_of cpu ?k = []"
    using assms by (simp_all add: sched_view_def)
  from pick_next_queue(4) [OF ok, of cpu] q have "fst (sched_pick_next cpu ?k) = None" by simp
  with cur show ?thesis
    by (simp add: sched_sleep_def sched_current_thread_def sched_yield_def set_state_def case_prod_unfold Let_def)
qed

text \<open>A queue head that is not ready is taken off and lost.\<close>

lemma pick_next_drops:
  assumes "queues_ok k" "queue_of cpu k = Some t # ts" "th_state (thread_at k t) \<noteq> PROC_READY"
  shows "fst (sched_pick_next cpu k) = None \<and> queue_of cpu (snd (sched_pick_next cpu k)) = ts"
  using pick_next_queue(1,4) [OF assms(1), of cpu] assms(2,3) by simp

end
