(* ===== verification/Signal.thy ===== *)
theory Signal
  imports Sched
begin

text \<open>
  Process lookup and termination of \<^verbatim>\<open>kernel/proc/process.c\<close> and signal delivery of
  \<^verbatim>\<open>kernel/proc/signal.c\<close>. A \<^verbatim>\<open>process_t *\<close> is the index of its slot, \<open>None\<close> for
  \<^verbatim>\<open>NULL\<close>. \<^verbatim>\<open>proc_exit\<close> ends in an infinite loop; \<open>Halts k\<close> is the state in which the
  processor then waits, \<open>Returns\<close> a normal return.
\<close>

datatype 'a run = Returns 'a | Halts kern_t

section \<open>Process lookup\<close>

definition proc_get :: "int \<Rightarrow> kern_t \<Rightarrow> nat option" where
  "proc_get pid k = first_idx (\<lambda>i. pr_used (processes k i) \<and> sint (pr_pid (processes k i)) = pid) MAX_PROCESSES"

definition proc_get_current :: "kern_t \<Rightarrow> nat option" where
  "proc_get_current k =
     (case current_thread k of None \<Rightarrow> None
      | Some t \<Rightarrow> first_idx (\<lambda>i. pr_used (processes k i) \<and> pr_pid (processes k i) = th_pid (thread_at k t)) MAX_PROCESSES)"

definition proc_set_current_thread :: "tref option \<Rightarrow> kern_t \<Rightarrow> kern_t" where
  "proc_set_current_thread t k = k\<lparr>current_thread := t\<rparr>"

text \<open>\<^verbatim>\<open>thread_get\<close> scans the used processes, and in each the used threads.\<close>

definition thread_in :: "int \<Rightarrow> kern_t \<Rightarrow> nat \<Rightarrow> nat option" where
  "thread_in tid k i =
     first_idx (\<lambda>j. th_used (thread_at k (i, j)) \<and> sint (th_tid (thread_at k (i, j))) = tid) MAX_THREADS"

definition thread_get :: "int \<Rightarrow> kern_t \<Rightarrow> tref option" where
  "thread_get tid k =
     (case first_idx (\<lambda>i. pr_used (processes k i) \<and> thread_in tid k i \<noteq> None) MAX_PROCESSES of
        None \<Rightarrow> None
      | Some i \<Rightarrow> map_option (Pair i) (thread_in tid k i))"

section \<open>Signals\<close>

definition upd_proc :: "nat \<Rightarrow> (process_t \<Rightarrow> process_t) \<Rightarrow> kern_t \<Rightarrow> kern_t" where
  "upd_proc p f k = k\<lparr>processes := (processes k)(p := f (processes k p))\<rparr>"

definition upd_signals :: "nat \<Rightarrow> (signal_info_t \<Rightarrow> signal_info_t) \<Rightarrow> kern_t \<Rightarrow> kern_t" where
  "upd_signals p f k = upd_proc p (\<lambda>pr. pr\<lparr>pr_signals := f (pr_signals pr)\<rparr>) k"

definition sig_bit :: "nat \<Rightarrow> u64" where
  "sig_bit sig = push_bit sig 1"

definition signal_init_process :: "nat option \<Rightarrow> kern_t \<Rightarrow> kern_t" where
  "signal_init_process proc k =
     (case proc of None \<Rightarrow> k
      | Some p \<Rightarrow> upd_signals p (\<lambda>_. zero_signals\<lparr>sig_pending := 0, sig_blocked := 0\<rparr>) k)"

definition signal_send :: "int \<Rightarrow> int \<Rightarrow> kern_t \<Rightarrow> kern_t" where
  "signal_send pid sig k =
     (if sig < 1 \<or> sig \<ge> int SIG_MAX then k
      else case proc_get pid k of None \<Rightarrow> k
        | Some p \<Rightarrow> upd_signals p (\<lambda>s. s\<lparr>sig_pending := sig_pending s OR sig_bit (nat sig)\<rparr>) k)"

text \<open>The state in which \<^verbatim>\<open>proc_exit\<close> stays forever.\<close>

definition proc_exit :: "int \<Rightarrow> kern_t \<Rightarrow> kern_t" where
  "proc_exit code k =
     (case proc_get_current k of None \<Rightarrow> k
      | Some p \<Rightarrow>
          let k1 = upd_proc p (\<lambda>pr. pr\<lparr>pr_state := PROC_TERMINATED, pr_exit_code := code\<rparr>) k
          in signal_send (sint (pr_ppid (processes k1 p))) (int SIG_CHLD) k1)"

text \<open>The loop of \<^verbatim>\<open>signal_check\<close> from signal number \<open>sig\<close> on.\<close>

function sig_loop :: "nat \<Rightarrow> nat \<Rightarrow> kern_t \<Rightarrow> (nat \<times> kern_t) run" where
  "sig_loop p sig k =
     (if sig < SIG_MAX then
        let si = pr_signals (processes k p)
        in if sig_pending si AND sig_bit sig = 0 then sig_loop p (Suc sig) k
           else if sig_blocked si AND sig_bit sig \<noteq> 0 then sig_loop p (Suc sig) k
           else
             let k' = upd_signals p (\<lambda>s. s\<lparr>sig_pending := sig_pending s AND NOT (sig_bit sig)\<rparr>) k;
                 handler = sig_handlers si sig
             in if handler = 1 then sig_loop p (Suc sig) k'
                else if handler = 0 then
                  (if sig = SIG_KILL \<or> sig = SIG_TERM then Halts (proc_exit (128 + int sig) k')
                   else sig_loop p (Suc sig) k')
                else Returns (sig, k')
      else Returns (0, k))"
  by pat_completeness auto
termination
  by (relation "measure (\<lambda>(p, sig, k). SIG_MAX - sig)") auto

declare sig_loop.simps [simp del]

definition signal_check :: "nat option \<Rightarrow> kern_t \<Rightarrow> (nat \<times> kern_t) run" where
  "signal_check proc k =
     (case proc of None \<Rightarrow> Returns (0, k)
      | Some p \<Rightarrow> if sig_pending (pr_signals (processes k p)) = 0 then Returns (0, k) else sig_loop p 1 k)"

definition signal_set_handler :: "nat option \<Rightarrow> int \<Rightarrow> u64 \<Rightarrow> kern_t \<Rightarrow> kern_t" where
  "signal_set_handler proc sig handler k =
     (case proc of None \<Rightarrow> k
      | Some p \<Rightarrow> if sig < 1 \<or> sig \<ge> int SIG_MAX then k
                 else upd_signals p (\<lambda>s. s\<lparr>sig_handlers := (sig_handlers s)(nat sig := handler)\<rparr>) k)"

definition signal_block :: "nat option \<Rightarrow> int \<Rightarrow> kern_t \<Rightarrow> kern_t" where
  "signal_block proc sig k =
     (case proc of None \<Rightarrow> k
      | Some p \<Rightarrow> if sig < 1 \<or> sig \<ge> int SIG_MAX then k
                 else upd_signals p (\<lambda>s. s\<lparr>sig_blocked := sig_blocked s OR sig_bit (nat sig)\<rparr>) k)"

definition signal_unblock :: "nat option \<Rightarrow> int \<Rightarrow> kern_t \<Rightarrow> kern_t" where
  "signal_unblock proc sig k =
     (case proc of None \<Rightarrow> k
      | Some p \<Rightarrow> if sig < 1 \<or> sig \<ge> int SIG_MAX then k
                 else upd_signals p (\<lambda>s. s\<lparr>sig_blocked := sig_blocked s AND NOT (sig_bit (nat sig))\<rparr>) k)"

section \<open>What a check delivers\<close>

definition deliverable :: "signal_info_t \<Rightarrow> nat \<Rightarrow> bool" where
  "deliverable si sig \<longleftrightarrow> bit (sig_pending si) sig \<and> \<not> bit (sig_blocked si) sig"

text \<open>A signal stops the loop when it is handled by the user or kills by default.\<close>

definition acting :: "signal_info_t \<Rightarrow> nat \<Rightarrow> bool" where
  "acting si sig \<longleftrightarrow> deliverable si sig \<and> sig_handlers si sig \<noteq> 1
     \<and> (sig_handlers si sig \<noteq> 0 \<or> sig = SIG_KILL \<or> sig = SIG_TERM)"

text \<open>The deliverable signals from \<open>a\<close> to \<open>b - 1\<close> are no longer pending.\<close>

definition consumed :: "nat \<Rightarrow> nat \<Rightarrow> signal_info_t \<Rightarrow> signal_info_t" where
  "consumed a b si = si\<lparr>sig_pending := sig_pending si AND NOT (mask b AND NOT (mask a) AND NOT (sig_blocked si))\<rparr>"

lemma sig_bit_tests:
  "v AND sig_bit sig = 0 \<longleftrightarrow> \<not> bit v sig" if "sig < 64"
  using that and_exp_eq_0_iff_not_bit [of v sig] by (simp add: sig_bit_def push_bit_eq_mult)

lemma bit_sig_bit: "bit (sig_bit sig) n \<longleftrightarrow> n = sig \<and> n < 64"
  by (auto simp: sig_bit_def bit_simps)

lemma bit_consumed:
  "bit (sig_pending (consumed a b si)) n \<longleftrightarrow> bit (sig_pending si) n \<and> \<not> (a \<le> n \<and> n < b \<and> \<not> bit (sig_blocked si) n)"
  by (auto simp: consumed_def bit_simps dest: bit_imp_le_length)

lemma consumed_fields [simp]:
  "sig_blocked (consumed a b si) = sig_blocked si" "sig_handlers (consumed a b si) = sig_handlers si"
  "sig_delivering (consumed a b si) = sig_delivering si"
  by (simp_all add: consumed_def)

lemma signal_eqI:
  fixes s t :: signal_info_t
  assumes "\<And>n. bit (sig_pending s) n = bit (sig_pending t) n" "sig_blocked s = sig_blocked t"
    "sig_handlers s = sig_handlers t" "sig_delivering s = sig_delivering t"
  shows "s = t"
  using assms bit_eqI [of "sig_pending s" "sig_pending t"] by simp

lemma consumed_skip: "\<not> deliverable si a \<Longrightarrow> a < b \<Longrightarrow> consumed a b si = consumed (Suc a) b si"
  by (rule signal_eqI) (auto simp: bit_consumed deliverable_def Suc_le_eq le_less)

lemma consumed_step:
  assumes "deliverable si a" "a < b"
  shows "consumed (Suc a) b (si\<lparr>sig_pending := sig_pending si AND NOT (sig_bit a)\<rparr>) = consumed a b si"
  using assms by (intro signal_eqI)
    (auto simp: bit_consumed deliverable_def bit_and_iff bit_not_iff bit_sig_bit Suc_le_eq le_less dest: bit_imp_le_length)

lemma consumed_empty [simp]: "b \<le> a \<Longrightarrow> consumed a b si = si"
  by (rule signal_eqI) (auto simp: bit_consumed)

lemma upd_signals_upd [simp]:
  "upd_signals p f (upd_signals p g k) = upd_signals p (\<lambda>s. f (g s)) k"
  "pr_signals (processes (upd_signals p f k) p) = f (pr_signals (processes k p))"
  by (simp_all add: upd_signals_def upd_proc_def)

lemma upd_signals_cong:
  "f (pr_signals (processes k p)) = g (pr_signals (processes k p)) \<Longrightarrow> upd_signals p f k = upd_signals p g k"
  by (simp add: upd_signals_def upd_proc_def)

lemma upd_signals_id: "f (pr_signals (processes k p)) = pr_signals (processes k p) \<Longrightarrow> upd_signals p f k = k"
  by (simp add: upd_signals_def upd_proc_def)

lemma first_from_cong: "(\<And>j. i \<le> j \<Longrightarrow> P j = Q j) \<Longrightarrow> first_from P i n = first_from Q i n"
proof -
  assume *: "\<And>j. i \<le> j \<Longrightarrow> P j = Q j"
  show ?thesis
  proof (cases "first_from Q i n")
    case None
    with * have "first_from P i n = None" by (simp add: first_from_None_iff)
    with None show ?thesis by simp
  next
    case (Some k)
    with * have "first_from P i n = Some k" by (simp add: first_from_Some_iff)
    with Some show ?thesis by simp
  qed
qed

definition sig_result :: "nat \<Rightarrow> nat \<Rightarrow> kern_t \<Rightarrow> nat option \<Rightarrow> (nat \<times> kern_t) run" where
  "sig_result p from k res =
     (case res of None \<Rightarrow> Returns (0, upd_signals p (consumed from SIG_MAX) k)
      | Some sig \<Rightarrow>
          let k' = upd_signals p (consumed from (Suc sig)) k
          in if sig_handlers (pr_signals (processes k p)) sig = 0 then Halts (proc_exit (128 + int sig) k')
             else Returns (sig, k'))"

lemma sig_result_step:
  assumes f: "f (pr_signals (processes k p)) = si'" "sig_handlers si' = sig_handlers (pr_signals (processes k p))"
    and c: "\<And>b. a < b \<Longrightarrow> consumed (Suc a) b si' = consumed a b (pr_signals (processes k p))"
    and r: "\<And>s. r = Some s \<Longrightarrow> a < s" and a: "a < SIG_MAX"
  shows "sig_result p (Suc a) (upd_signals p f k) r = sig_result p a k r"
proof -
  have u: "upd_signals p (\<lambda>s. consumed (Suc a) b (f s)) k = upd_signals p (consumed a b) k" if "a < b" for b
    by (rule upd_signals_cong) (simp only: f(1) c [OF that])
  show ?thesis
  proof (cases r)
    case None
    with u [OF a] show ?thesis by (simp add: sig_result_def)
  next
    case (Some s)
    with r have "a < Suc s" by (simp add: less_SucI)
    from u [OF this] Some f show ?thesis by (simp add: sig_result_def)
  qed
qed

lemma sig_loop_spec: "sig_loop p sig k = sig_result p sig k (first_from (acting (pr_signals (processes k p))) sig SIG_MAX)"
proof (induction p sig k rule: sig_loop.induct)
  case (1 p sig k)
  let ?si = "pr_signals (processes k p)"
  let ?clear = "\<lambda>s :: signal_info_t. s\<lparr>sig_pending := sig_pending s AND NOT (sig_bit sig)\<rparr>"
  let ?k' = "upd_signals p ?clear k"
  show ?case
  proof (cases "sig < SIG_MAX")
    case False
    then show ?thesis by (subst sig_loop.simps, subst first_from.simps) (simp add: sig_result_def upd_signals_id)
  next
    case lt: True
    then have t: "v AND sig_bit sig = 0 \<longleftrightarrow> \<not> bit v sig" for v by (intro sig_bit_tests) simp
    have later: "sig < s" if "first_from P (Suc sig) SIG_MAX = Some s" for P s
      using that by (simp add: first_from_Some_iff)
    consider "\<not> deliverable ?si sig" | "deliverable ?si sig" "\<not> acting ?si sig" | "acting ?si sig" by blast
    then show ?thesis
    proof cases
      case skip: 1
      then have e: "sig_loop p sig k = sig_loop p (Suc sig) k"
        using lt by (subst sig_loop.simps) (auto simp: t deliverable_def Let_def)
      have IH: "sig_loop p (Suc sig) k = sig_result p (Suc sig) k (first_from (acting ?si) (Suc sig) SIG_MAX)"
        using skip lt "1.IH"(1,2) by (auto simp: t deliverable_def)
      have "sig_result p (Suc sig) k r = sig_result p sig k r" if "\<And>s. r = Some s \<Longrightarrow> sig < s" for r
        using sig_result_step [of "\<lambda>s. s" k p ?si sig r] skip lt that consumed_skip [of ?si sig]
        by (simp add: upd_signals_id)
      moreover have "first_from (acting ?si) sig SIG_MAX = first_from (acting ?si) (Suc sig) SIG_MAX"
        using skip lt by (subst first_from.simps) (simp add: acting_def)
      ultimately show ?thesis using e IH later by simp
    next
      case ign: 2
      then have d: "bit (sig_pending ?si) sig" "\<not> bit (sig_blocked ?si) sig" by (simp_all add: deliverable_def)
      have h: "sig_handlers ?si sig = 1 \<or> sig_handlers ?si sig = 0 \<and> sig \<noteq> SIG_KILL \<and> sig \<noteq> SIG_TERM"
        using ign by (auto simp: acting_def)
      then have e: "sig_loop p sig k = sig_loop p (Suc sig) ?k'"
        using lt d by (subst sig_loop.simps) (auto simp: t Let_def)
      have IH: "sig_loop p (Suc sig) ?k' = sig_result p (Suc sig) ?k' (first_from (acting (?clear ?si)) (Suc sig) SIG_MAX)"
        using h lt d "1.IH"(3,4) by (auto simp: t)
      have "acting (?clear ?si) j = acting ?si j" if "Suc sig \<le> j" for j
        using that by (auto simp: acting_def deliverable_def bit_and_iff bit_not_iff bit_sig_bit dest: bit_imp_le_length)
      then have "first_from (acting (?clear ?si)) (Suc sig) SIG_MAX = first_from (acting ?si) (Suc sig) SIG_MAX"
        by (rule first_from_cong)
      also have "\<dots> = first_from (acting ?si) sig SIG_MAX"
        using ign lt by (subst (2) first_from.simps) simp
      finally have ff: "first_from (acting (?clear ?si)) (Suc sig) SIG_MAX = first_from (acting ?si) sig SIG_MAX" .
      have "sig < s" if "first_from (acting ?si) sig SIG_MAX = Some s" for s
        using later that by (simp only: ff [symmetric])
      then have "sig_result p (Suc sig) ?k' (first_from (acting ?si) sig SIG_MAX)
          = sig_result p sig k (first_from (acting ?si) sig SIG_MAX)"
        using sig_result_step [of ?clear k p "?clear ?si" sig] lt consumed_step [OF ign(1)] by simp
      then show ?thesis using e IH ff by simp
    next
      case act: 3
      then have d: "deliverable ?si sig" by (simp add: acting_def)
      have ff: "first_from (acting ?si) sig SIG_MAX = Some sig" using act lt by (subst first_from.simps) simp
      have "?k' = upd_signals p (consumed sig (Suc sig)) k"
        by (rule upd_signals_cong) (use consumed_step [OF d, of "Suc sig"] in simp)
      then show ?thesis unfolding ff
        using act lt by (subst sig_loop.simps) (auto simp: t acting_def deliverable_def sig_result_def Let_def)
    qed
  qed
qed

text \<open>C18: signal_check delivers the lowest-numbered pending, unblocked signal that is either handled
  by the user or is SIG_KILL or SIG_TERM with the default action. A user-handled one is
  returned; a default one terminates the current process with exit code 128 plus its
  number. If there is none, 0 is returned. The pending bits up to that signal, or all of
  them, are cleared, except those of blocked signals; nothing else of the kernel state changes.\<close>

theorem signal_check_delivers:
  "signal_check (Some p) k =
     (case first_from (acting (pr_signals (processes k p))) 1 SIG_MAX of
        None \<Rightarrow> Returns (0, upd_signals p (consumed 1 SIG_MAX) k)
      | Some sig \<Rightarrow>
          if sig_handlers (pr_signals (processes k p)) sig = 0
          then Halts (proc_exit (128 + int sig) (upd_signals p (consumed 1 (Suc sig)) k))
          else Returns (sig, upd_signals p (consumed 1 (Suc sig)) k))
   \<and> (bit (sig_pending (consumed 1 b si)) n \<longleftrightarrow>
       bit (sig_pending si) n \<and> (n < 1 \<or> b \<le> n \<or> bit (sig_blocked si) n))"
proof
  show "signal_check (Some p) k =
     (case first_from (acting (pr_signals (processes k p))) 1 SIG_MAX of
        None \<Rightarrow> Returns (0, upd_signals p (consumed 1 SIG_MAX) k)
      | Some sig \<Rightarrow>
          if sig_handlers (pr_signals (processes k p)) sig = 0
          then Halts (proc_exit (128 + int sig) (upd_signals p (consumed 1 (Suc sig)) k))
          else Returns (sig, upd_signals p (consumed 1 (Suc sig)) k))"
  proof (cases "sig_pending (pr_signals (processes k p)) = 0")
    case True
    then have "first_from (acting (pr_signals (processes k p))) 1 SIG_MAX = None"
      by (simp add: first_from_None_iff acting_def deliverable_def)
    moreover have "upd_signals p (consumed 1 SIG_MAX) k = k"
      using True by (intro upd_signals_id) (simp add: consumed_def)
    ultimately show ?thesis using True by (simp add: signal_check_def)
  next
    case False
    then show ?thesis
      by (simp add: signal_check_def sig_loop_spec sig_result_def Let_def split: option.split)
  qed
qed (auto simp: bit_consumed not_le)

text \<open>Termination marks the current process and leaves SIG_CHLD pending at its parent.\<close>

lemma proc_exit_current:
  assumes "proc_get_current k = Some p"
  shows "pr_state (processes (proc_exit code k) p) = PROC_TERMINATED"
    "pr_exit_code (processes (proc_exit code k) p) = code"
    "pr_used (processes (proc_exit code k) p) = pr_used (processes k p)"
  using assms by (auto simp: proc_exit_def signal_send_def upd_signals_def upd_proc_def Let_def split: option.split)

lemma proc_exit_parent:
  assumes p: "proc_get_current k = Some p" and q: "proc_get (sint (pr_ppid (processes k p))) k = Some q"
  shows "bit (sig_pending (pr_signals (processes (proc_exit code k) q))) SIG_CHLD"
proof -
  let ?k1 = "upd_proc p (\<lambda>pr. pr\<lparr>pr_state := PROC_TERMINATED, pr_exit_code := code\<rparr>) k"
  have "proc_get pid ?k1 = proc_get pid k" for pid
    unfolding proc_get_def by (rule first_idx_cong) (simp add: upd_proc_def)
  then show ?thesis using p q
    by (simp add: proc_exit_def signal_send_def Let_def) (simp add: upd_proc_def bit_or_iff bit_sig_bit)
qed

text \<open>The process that is terminated is the current one, not the one whose signals are checked.\<close>

lemma signal_check_terminates_current:
  assumes "first_from (acting (pr_signals (processes k p))) 1 SIG_MAX = Some sig"
    "sig_handlers (pr_signals (processes k p)) sig = 0"
    "proc_get_current k = Some q" "q \<noteq> p"
  shows "\<exists>k'. signal_check (Some p) k = Halts k' \<and> pr_state (processes k' q) = PROC_TERMINATED
    \<and> pr_state (processes k' p) = pr_state (processes k p)"
proof -
  let ?k1 = "upd_signals p (consumed 1 (Suc sig)) k"
  have "sig_pending (pr_signals (processes k p)) \<noteq> 0"
    using assms(1) by (auto simp: first_from_Some_iff acting_def deliverable_def)
  then have c: "signal_check (Some p) k = Halts (proc_exit (128 + int sig) ?k1)"
    using assms(1,2) by (simp add: signal_check_def sig_loop_spec sig_result_def)
  have same: "pr_used (processes ?k1 i) = pr_used (processes k i)" "pr_pid (processes ?k1 i) = pr_pid (processes k i)"
    "thread_at ?k1 t = thread_at k t" "current_thread ?k1 = current_thread k" for i t
    by (simp_all add: upd_signals_def upd_proc_def thread_at_def)
  have cur: "proc_get_current ?k1 = Some q" using assms(3) unfolding proc_get_current_def same .
  have "pr_state (processes (proc_exit code ?k1) p) = pr_state (processes k p)" for code
    using cur assms(4)
    by (auto simp: proc_exit_def signal_send_def upd_signals_def upd_proc_def Let_def split: option.split)
  with c proc_exit_current(1) [OF cur] show ?thesis by blast
qed

text \<open>SIG_KILL can be blocked like any other signal.\<close>

lemma kill_can_be_blocked:
  assumes "sig_pending (pr_signals (processes k p)) = sig_bit SIG_KILL"
  shows "\<exists>k'. signal_check (Some p) (signal_block (Some p) 9 k) = Returns (0, k')"
proof -
  let ?k = "signal_block (Some p) 9 k"
  have "\<not> acting (pr_signals (processes ?k p)) s" for s
    using assms by (auto simp: signal_block_def acting_def deliverable_def bit_or_iff bit_sig_bit)
  then have "first_from (acting (pr_signals (processes ?k p))) 1 SIG_MAX = None" by (simp add: first_from_None_iff)
  then show ?thesis by (simp add: signal_check_def sig_loop_spec sig_result_def)
qed

end
