(* ===== verification/Pmm.thy ===== *)
theory Pmm
  imports Prelude "HOL-Library.Multiset"
begin

unbundle bit_operations_syntax

text \<open>
  The physical memory manager (\<^verbatim>\<open>kernel/mm/pmm.c\<close>). A free block of order \<open>i\<close> is
  \<open>2 ^ i\<close> pages; the blocks of one order form a linked list whose \<^verbatim>\<open>next\<close> pointers live
  in the first word of the blocks themselves. \<open>pmm_mem\<close> is that memory: the word stored
  at an address. The loops of \<^verbatim>\<open>pmm_init\<close> and \<^verbatim>\<open>pmm_alloc_pages\<close> that count in machine
  words are \<open>partial_function\<close>s, so that not returning is \<open>None\<close>; calls that panic or index
  outside an array return the corresponding \<open>outcome\<close>.
\<close>

abbreviation PMM_MAX_ORDER :: nat where "PMM_MAX_ORDER \<equiv> 10"
abbreviation PMM_REGION_USABLE :: u32 where "PMM_REGION_USABLE \<equiv> 1"
abbreviation PAGE_SHIFT :: nat where "PAGE_SHIFT \<equiv> 12"

datatype 'a outcome = Ret 'a | KernelPanic | OutOfBounds

record memory_region_t =
  reg_base :: u64
  reg_length :: u64
  reg_type :: u32

record phys_zone_t =
  free_lists :: "nat \<Rightarrow> u64"
  free_count :: u64
  zone_total_pages :: u64
  node_id :: u32

record pmm_t =
  zones :: "nat \<Rightarrow> phys_zone_t"
  zone_count :: u32
  total_memory :: u64
  used_memory :: u64
  pmm_mem :: "u64 \<Rightarrow> u64"

definition zero_zone :: phys_zone_t where
  "zero_zone = \<lparr>free_lists = (\<lambda>_. 0), free_count = 0, zone_total_pages = 0, node_id = 0\<rparr>"

text \<open>The static variables before any call, over a given memory.\<close>

definition pmm_static :: "(u64 \<Rightarrow> u64) \<Rightarrow> pmm_t" where
  "pmm_static m = \<lparr>zones = (\<lambda>_. zero_zone), zone_count = 0, total_memory = 0, used_memory = 0, pmm_mem = m\<rparr>"

definition order_to_pages :: "nat \<Rightarrow> u64" where
  "order_to_pages order = push_bit order 1"

definition phys_to_order :: "u64 \<Rightarrow> nat" where
  "phys_to_order phys = 0"

definition page_to_block :: "u64 \<Rightarrow> nat \<Rightarrow> u64" where
  "page_to_block phys order = phys"

definition set_free_list :: "nat \<Rightarrow> nat \<Rightarrow> u64 \<Rightarrow> pmm_t \<Rightarrow> pmm_t" where
  "set_free_list z i a s =
     s\<lparr>zones := (zones s)(z := (zones s z)\<lparr>free_lists := (free_lists (zones s z))(i := a)\<rparr>)\<rparr>"

definition add_counts :: "nat \<Rightarrow> u64 \<Rightarrow> u64 \<Rightarrow> pmm_t \<Rightarrow> pmm_t" where
  "add_counts z df du s =
     s\<lparr>zones := (zones s)(z := (zones s z)\<lparr>free_count := free_count (zones s z) + df\<rparr>),
       used_memory := used_memory s + du\<rparr>"

definition mem_zero :: "u64 \<Rightarrow> u64 \<Rightarrow> (u64 \<Rightarrow> u64) \<Rightarrow> u64 \<Rightarrow> u64" where
  "mem_zero b len m = (\<lambda>a. if a - b < len then 0 else m a)"

text \<open>The splitting loop of \<^verbatim>\<open>buddy_alloc\<close>.\<close>

fun buddy_split :: "nat \<Rightarrow> nat \<Rightarrow> nat \<Rightarrow> u64 \<Rightarrow> pmm_t \<Rightarrow> pmm_t" where
  "buddy_split z order 0 block s = s"
| "buddy_split z order (Suc i) block s =
     (if Suc i > order then
        let buddy = block + push_bit (i + PAGE_SHIFT) 1;
            s1 = s\<lparr>pmm_mem := (pmm_mem s)(buddy := free_lists (zones s z) i)\<rparr>
        in buddy_split z order i block (set_free_list z i buddy s1)
      else s)"

definition buddy_alloc :: "nat \<Rightarrow> nat \<Rightarrow> pmm_t \<Rightarrow> u64 \<times> pmm_t" where
  "buddy_alloc z order s =
     (case first_from (\<lambda>i. free_lists (zones s z) i \<noteq> 0) order (Suc PMM_MAX_ORDER) of
        None \<Rightarrow> (0, s)
      | Some i \<Rightarrow>
          let block = free_lists (zones s z) i;
              s1 = set_free_list z i (pmm_mem s block) s;
              s2 = buddy_split z order i block s1;
              s3 = add_counts z (- order_to_pages order) (order_to_pages order * PAGE_SIZE) s2
          in (block, s3\<lparr>pmm_mem := mem_zero block (order_to_pages order * PAGE_SIZE) (pmm_mem s3)\<rparr>))"

definition buddy_free :: "nat \<Rightarrow> u64 \<Rightarrow> nat \<Rightarrow> pmm_t \<Rightarrow> pmm_t outcome" where
  "buddy_free z phys order s =
     (if order > PMM_MAX_ORDER then OutOfBounds
      else let s1 = s\<lparr>pmm_mem := (pmm_mem s)(phys := free_lists (zones s z) order)\<rparr>;
               s2 = set_free_list z order phys s1
           in Ret (add_counts z (order_to_pages order) (- (order_to_pages order * PAGE_SIZE)) s2))"

text \<open>Adding the pages of one region: the inner \<^verbatim>\<open>while\<close> of \<^verbatim>\<open>pmm_init\<close>.\<close>

partial_function (option) add_pages :: "u64 \<Rightarrow> u64 \<Rightarrow> pmm_t \<Rightarrow> pmm_t option" where
  "add_pages addr stop s =
     (if addr < stop then
        (case buddy_free 0 addr 0 s of Ret s' \<Rightarrow> add_pages (addr + PAGE_SIZE) stop s' | _ \<Rightarrow> None)
      else Some s)"

definition region_base :: "memory_region_t \<Rightarrow> u64" where
  "region_base r = page_align_down (reg_base r + PAGE_SIZE - 1)"

definition region_length :: "memory_region_t \<Rightarrow> u64" where
  "region_length r = page_align_down (reg_length r - (region_base r - reg_base r))"

definition add_region :: "memory_region_t \<Rightarrow> pmm_t \<Rightarrow> pmm_t option" where
  "add_region r s =
     (if reg_type r \<noteq> PMM_REGION_USABLE then Some s
      else if region_base r < 0x1000000 then Some s
      else add_pages (region_base r) (region_base r + region_length r)
             (s\<lparr>total_memory := total_memory s + region_length r\<rparr>))"

fun add_regions :: "memory_region_t list \<Rightarrow> pmm_t \<Rightarrow> pmm_t option" where
  "add_regions [] s = Some s"
| "add_regions (r # rs) s = (case add_region r s of None \<Rightarrow> None | Some s' \<Rightarrow> add_regions rs s')"

definition pmm_init :: "memory_region_t list \<Rightarrow> pmm_t \<Rightarrow> pmm_t option" where
  "pmm_init regions s =
     add_regions regions (s\<lparr>zones := (\<lambda>_. zero_zone), zone_count := 1\<rparr>)"

definition pmm_alloc_page :: "pmm_t \<Rightarrow> (u64 \<times> pmm_t) outcome" where
  "pmm_alloc_page s = (let (phys, s') = buddy_alloc 0 0 s in if phys = 0 then KernelPanic else Ret (phys, s'))"

text \<open>\<^verbatim>\<open>while (total < count) { total <<= 1; order++; }\<close>\<close>

partial_function (option) order_loop :: "u64 \<Rightarrow> nat \<Rightarrow> u64 \<Rightarrow> nat option" where
  "order_loop tot order cnt =
     (if tot < cnt then order_loop (push_bit 1 tot) (Suc order) cnt else Some order)"

definition pmm_alloc_pages :: "u64 \<Rightarrow> pmm_t \<Rightarrow> (u64 \<times> pmm_t) option" where
  "pmm_alloc_pages cnt s =
     (case order_loop 1 0 cnt of None \<Rightarrow> None | Some order \<Rightarrow> Some (buddy_alloc 0 order s))"

definition pmm_alloc_contiguous :: "u64 \<Rightarrow> pmm_t \<Rightarrow> (int \<times> u64 \<times> pmm_t) option" where
  "pmm_alloc_contiguous cnt s =
     (case pmm_alloc_pages cnt s of None \<Rightarrow> None
      | Some (r, s') \<Rightarrow> Some (if r \<noteq> 0 then 0 else -1, r, s'))"

definition pmm_free_page :: "u64 \<Rightarrow> pmm_t \<Rightarrow> pmm_t outcome" where
  "pmm_free_page phys s = (if phys = 0 then Ret s else buddy_free 0 (page_align_down phys) 0 s)"

definition pmm_free_pages :: "u64 \<Rightarrow> u64 \<Rightarrow> pmm_t \<Rightarrow> pmm_t outcome option" where
  "pmm_free_pages phys cnt s =
     (if phys = 0 then Some (Ret s)
      else case order_loop 1 0 cnt of None \<Rightarrow> None
        | Some order \<Rightarrow> Some (buddy_free 0 (page_align_down phys) order s))"

definition pmm_get_free_count :: "pmm_t \<Rightarrow> u64" where
  "pmm_get_free_count s = free_count (zones s 0)"

definition pmm_get_total_memory :: "pmm_t \<Rightarrow> u64" where
  "pmm_get_total_memory s = total_memory s"

definition pmm_node_for_address :: "u64 \<Rightarrow> u32" where
  "pmm_node_for_address phys = 0"

definition pmm_get_zone :: "u32 \<Rightarrow> pmm_t \<Rightarrow> phys_zone_t option" where
  "pmm_get_zone node s = (if node \<ge> zone_count s then None else Some (zones s (unat node)))"

section \<open>Abstraction: free lists as lists, blocks as page numbers\<close>

fun chain :: "(u64 \<Rightarrow> u64) \<Rightarrow> u64 \<Rightarrow> u64 list \<Rightarrow> bool" where
  "chain m a [] \<longleftrightarrow> a = 0"
| "chain m a (x # xs) \<longleftrightarrow> a = x \<and> x \<noteq> 0 \<and> chain m (m x) xs"

definition blk_pages :: "nat \<Rightarrow> u64 \<Rightarrow> nat list" where
  "blk_pages i a = [unat a div 4096..<unat a div 4096 + 2 ^ i]"

definition blk_ok :: "nat \<Rightarrow> u64 \<Rightarrow> bool" where
  "blk_ok i a \<longleftrightarrow> a \<noteq> 0 \<and> 4096 dvd unat a \<and> unat a + 2 ^ i * 4096 \<le> 2 ^ 64"

type_synonym free_view = "nat \<Rightarrow> u64 list"

definition free_pages :: "free_view \<Rightarrow> nat multiset" where
  "free_pages F = (\<Sum>i<11. \<Sum>a\<in>#mset (F i). mset (blk_pages i a))"

text \<open>All blocks on the lists are well formed, linked as the view says, and no page is in
  two of them or in \<open>held\<close>, the pages of blocks outside the lists.\<close>

definition lists_ok :: "pmm_t \<Rightarrow> free_view \<Rightarrow> nat multiset \<Rightarrow> bool" where
  "lists_ok s F held \<longleftrightarrow>
     (\<forall>i<11. chain (pmm_mem s) (free_lists (zones s 0) i) (F i) \<and> (\<forall>a\<in>set (F i). blk_ok i a))
     \<and> (\<forall>p. count (free_pages F + held) p \<le> 1)"

definition pmm_inv :: "pmm_t \<Rightarrow> free_view \<Rightarrow> nat multiset \<Rightarrow> bool" where
  "pmm_inv s F held \<longleftrightarrow> lists_ok s F held \<and> free_count (zones s 0) = of_nat (size (free_pages F))"

lemma chain_cong: "(\<And>x. x \<in> set xs \<Longrightarrow> m' x = m x) \<Longrightarrow> chain m' a xs = chain m a xs"
  by (induction xs arbitrary: a) simp_all

lemma free_pages_push:
  assumes "i < 11"
  shows "free_pages (F(i := a # F i)) = mset (blk_pages i a) + free_pages F"
proof -
  have "(\<Sum>j<11. \<Sum>b\<in>#mset ((F(i := a # F i)) j). mset (blk_pages j b))
      = (\<Sum>j<11. (if j = i then mset (blk_pages i a) else {#}) + (\<Sum>b\<in>#mset (F j). mset (blk_pages j b)))"
    by (rule sum.cong) simp_all
  with assms show ?thesis by (simp add: free_pages_def sum.distrib)
qed

lemma free_pages_pop:
  assumes "i < 11" "F i = a # xs"
  shows "free_pages F = mset (blk_pages i a) + free_pages (F(i := xs))"
  using free_pages_push [OF assms(1), of "F(i := xs)" a] assms(2)
  by (metis fun_upd_same fun_upd_upd fun_upd_triv)

lemma free_pages_mem:
  assumes "i < 11" "a \<in> set (F i)"
  shows "mset (blk_pages i a) \<subseteq># free_pages F"
proof -
  from assms(2) obtain ys zs where "F i = ys @ a # zs" by (meson split_list)
  then have "mset (blk_pages i a) \<subseteq># (\<Sum>b\<in>#mset (F i). mset (blk_pages i b))" by simp
  also have "free_pages F = (\<Sum>b\<in>#mset (F i). mset (blk_pages i b))
      + (\<Sum>j\<in>{..<11} - {i}. \<Sum>b\<in>#mset (F j). mset (blk_pages j b))"
    unfolding free_pages_def using assms(1) by (simp only: sum.remove lessThan_iff finite_lessThan)
  then have "(\<Sum>b\<in>#mset (F i). mset (blk_pages i b)) \<subseteq># free_pages F"
    by (simp only: mset_subset_eq_add_left)
  finally show ?thesis .
qed

lemma set_blk_pages: "p \<in> set (blk_pages i a) \<longleftrightarrow> unat a div 4096 \<le> p \<and> p < unat a div 4096 + 2 ^ i"
  by (simp add: blk_pages_def)

lemma head_page: "unat a div 4096 \<in> set (blk_pages i a)"
  by (simp add: set_blk_pages)

lemma distinct_blk_pages: "distinct (blk_pages i a)"
  by (simp add: blk_pages_def)

lemma size_blk_pages [simp]: "length (blk_pages i a) = 2 ^ i"
  by (simp add: blk_pages_def)

lemma blk_ok_order: "blk_ok i a \<Longrightarrow> i < 52"
proof (rule ccontr)
  assume "blk_ok i a" "\<not> i < 52"
  then have "0 < unat a" "unat a + 2 ^ i * 4096 \<le> 2 ^ 64" by (auto simp: blk_ok_def unat_gt_0)
  moreover from \<open>\<not> i < 52\<close> have "(2 :: nat) ^ 52 \<le> 2 ^ i" by (intro power_increasing) simp_all
  ultimately show False by simp
qed

lemma buddy_addr:
  assumes "blk_ok (Suc j) a"
  shows "unat (a + push_bit (j + PAGE_SHIFT) 1) = unat a + 2 ^ j * 4096"
    and "blk_ok j a" and "blk_ok j (a + push_bit (j + PAGE_SHIFT) 1)"
    and "blk_pages (Suc j) a = blk_pages j a @ blk_pages j (a + push_bit (j + PAGE_SHIFT) 1)"
proof -
  let ?b = "push_bit (j + PAGE_SHIFT) (1 :: u64)"
  have len64: "LENGTH(64) = 64" by simp
  have "j + 12 < 64" using blk_ok_order [OF assms] by simp
  then have pow: "unat ?b = 2 ^ j * 4096"
    by (simp only: push_bit_1_u64 unat_2_power) (simp add: power_add)
  have le: "unat a + 2 * (2 ^ j * 4096) \<le> 2 ^ 64" and dvd: "4096 dvd unat a" and nz: "a \<noteq> 0"
    using assms by (auto simp: blk_ok_def mult.assoc)
  have pos: "0 < (2 :: nat) ^ j * 4096" by simp
  from le pos have "unat a + unat ?b < 2 ^ LENGTH(64)" unfolding pow len64 by linarith
  then show un: "unat (a + ?b) = unat a + 2 ^ j * 4096" by (simp only: unat_add_lem [THEN iffD1] pow)
  from un dvd have dvd': "4096 dvd unat (a + ?b)" by simp
  from un pos have nz': "a + ?b \<noteq> 0" by (metis add_is_0 less_numeral_extra(3) unat_0)
  from nz dvd le show "blk_ok j a" by (simp add: blk_ok_def)
  from nz' dvd' le un show "blk_ok j (a + ?b)" by (simp add: blk_ok_def)
  have "unat (a + ?b) div 4096 = unat a div 4096 + 2 ^ j" unfolding un by simp
  then show "blk_pages (Suc j) a = blk_pages j a @ blk_pages j (a + ?b)"
    using upt_add_eq_append [of "unat a div 4096" "unat a div 4096 + 2 ^ j" "2 ^ j"]
    unfolding blk_pages_def by (simp add: add.assoc mult_2)
qed

section \<open>Lists and blocks that are held\<close>

lemma lists_ok_disj:
  assumes "lists_ok s F held" "i < 11" "b \<in> set (F i)" "p \<in> set (blk_pages i b)"
  shows "p \<notin># held"
proof
  assume "p \<in># held"
  from free_pages_mem [of i b F, OF assms(2,3)] assms(4) have "p \<in># free_pages F"
    by (meson mset_subset_eqD set_mset_mset in_multiset_in_set)
  with \<open>p \<in># held\<close> have "0 < count (free_pages F) p" "0 < count held p" by simp_all
  moreover from assms(1) have "count (free_pages F) p + count held p \<le> 1" by (simp add: lists_ok_def)
  ultimately show False by linarith
qed

lemma lists_ok_mem:
  assumes "lists_ok s F held" "\<And>a. unat a div 4096 \<notin># held \<Longrightarrow> m a = pmm_mem s a"
  shows "lists_ok (s\<lparr>pmm_mem := m\<rparr>) F held"
proof -
  have "chain m (free_lists (zones s 0) i) (F i) = chain (pmm_mem s) (free_lists (zones s 0) i) (F i)"
    if "i < 11" for i
    using lists_ok_disj [OF assms(1) that _ head_page] assms(2) by (intro chain_cong) blast
  with assms(1) show ?thesis by (simp add: lists_ok_def)
qed

lemma lists_ok_push:
  assumes ok: "lists_ok s F (mset (blk_pages i x) + held)" and x: "blk_ok i x" and i: "i < 11"
  shows "lists_ok (set_free_list 0 i x (s\<lparr>pmm_mem := (pmm_mem s)(x := free_lists (zones s 0) i)\<rparr>))
    (F(i := x # F i)) held"
proof -
  let ?m = "(pmm_mem s)(x := free_lists (zones s 0) i)"
  have "?m a = pmm_mem s a" if "unat a div 4096 \<notin># mset (blk_pages i x) + held" for a
    using that head_page [of x i] by auto
  with ok have ok': "lists_ok (s\<lparr>pmm_mem := ?m\<rparr>) F (mset (blk_pages i x) + held)"
    by (rule lists_ok_mem)
  from x have "x \<noteq> 0" by (simp add: blk_ok_def)
  with ok' x i show ?thesis
    by (auto simp: lists_ok_def set_free_list_def free_pages_push add_ac)
qed

lemma lists_ok_pop:
  assumes ok: "lists_ok s F held" and i: "i < 11" and F: "F i = x # xs"
  shows "lists_ok (set_free_list 0 i (pmm_mem s x) s) (F(i := xs)) (mset (blk_pages i x) + held)"
proof -
  from ok i F have "chain (pmm_mem s) (free_lists (zones s 0) i) (x # xs)" unfolding lists_ok_def by metis
  moreover from ok i F have "\<forall>a\<in>set xs. blk_ok i a" unfolding lists_ok_def by (metis list.set_intros(2))
  ultimately show ?thesis using ok free_pages_pop [of i F, OF i F]
    by (auto simp: lists_ok_def set_free_list_def add_ac)
qed

lemma set_free_list_fields [simp]:
  "free_count (zones (set_free_list z i a s) y) = free_count (zones s y)"
  "used_memory (set_free_list z i a s) = used_memory s"
  "total_memory (set_free_list z i a s) = total_memory s"
  "pmm_mem (set_free_list z i a s) = pmm_mem s"
  "zone_count (set_free_list z i a s) = zone_count s"
  by (simp_all add: set_free_list_def)

lemma buddy_split_fields [simp]:
  "free_count (zones (buddy_split z order i x s) y) = free_count (zones s y)"
  "used_memory (buddy_split z order i x s) = used_memory s"
  "total_memory (buddy_split z order i x s) = total_memory s"
  by (induction i arbitrary: s) (simp_all add: Let_def)

lemma buddy_split_ok:
  assumes "lists_ok s F (mset (blk_pages i x) + held)" "blk_ok i x" "i < 11" "order \<le> i"
  shows "\<exists>F'. lists_ok (buddy_split 0 order i x s) F' (mset (blk_pages order x) + held)
    \<and> free_pages F' + mset (blk_pages order x) = free_pages F + mset (blk_pages i x) \<and> blk_ok order x"
  using assms
proof (induction i arbitrary: s F)
  case 0
  then show ?case by auto
next
  case (Suc i)
  show ?case
  proof (cases "order = Suc i")
    case True
    with Suc.prems show ?thesis by auto
  next
    case False
    let ?b = "x + push_bit (i + PAGE_SHIFT) 1"
    let ?s = "set_free_list 0 i ?b (s\<lparr>pmm_mem := (pmm_mem s)(?b := free_lists (zones s 0) i)\<rparr>)"
    note b = buddy_addr [OF Suc.prems(2)]
    from Suc.prems(1) have "lists_ok s F (mset (blk_pages i ?b) + (mset (blk_pages i x) + held))"
      unfolding b(4) by (simp add: add_ac)
    from lists_ok_push [OF this b(3)] Suc.prems(3)
    have ok: "lists_ok ?s (F(i := ?b # F i)) (mset (blk_pages i x) + held)" by simp
    from Suc.prems(3,4) False have "i < 11" "order \<le> i" by simp_all
    from Suc.IH [OF ok b(2) this] obtain F' where
      "lists_ok (buddy_split 0 order i x ?s) F' (mset (blk_pages order x) + held)" "blk_ok order x"
      "free_pages F' + mset (blk_pages order x) = free_pages (F(i := ?b # F i)) + mset (blk_pages i x)"
      by blast
    then show ?thesis using False Suc.prems(3,4) unfolding b(4)
      by (intro exI [of _ F']) (simp add: Let_def free_pages_push add_ac)
  qed
qed

section \<open>Allocation and release of one block\<close>

lemma mem_zero_block:
  assumes "blk_ok i x" "i < 11"
  shows "mem_zero x (order_to_pages i * PAGE_SIZE) m a
    = (if unat a div 4096 \<in> set (blk_pages i x) then 0 else m a)"
proof -
  let ?L = "(2 :: nat) ^ i * 4096"
  have "(2 :: nat) ^ i \<le> 2 ^ 10" using assms(2) by (intro power_increasing) simp_all
  then have small: "?L < 2 ^ 64" by simp
  have "order_to_pages i * PAGE_SIZE = of_nat ?L" by (simp add: order_to_pages_def push_bit_1_u64)
  then have L: "unat (order_to_pages i * PAGE_SIZE) = ?L"
    using small by (simp only: unat_of_nat) (simp add: take_bit_nat_eq_self)
  from assms(1) have x: "4096 dvd unat x" "unat x + ?L \<le> 2 ^ 64" by (simp_all add: blk_ok_def)
  have "a - x < order_to_pages i * PAGE_SIZE \<longleftrightarrow> unat (a - x) < ?L" by (simp add: word_less_nat_alt L)
  also have "\<dots> \<longleftrightarrow> unat x \<le> unat a \<and> unat a < unat x + ?L"
  proof (cases "x \<le> a")
    case True
    then have "unat (a - x) = unat a - unat x" "unat x \<le> unat a"
      by (simp_all add: unat_sub word_le_nat_alt)
    then show ?thesis by auto
  next
    case False
    then have "unat (a - x) = 2 ^ 64 + unat a - unat x" "unat a < unat x"
      by (simp_all add: unat_sub_if_size word_size word_le_nat_alt)
    with x(2) show ?thesis by linarith
  qed
  also have "\<dots> \<longleftrightarrow> unat a div 4096 \<in> set (blk_pages i x)"
  proof -
    from x(1) obtain q where "unat x = 4096 * q" by (rule dvdE)
    then show ?thesis by (auto simp: set_blk_pages less_mult_imp_div_less div_le_mono)
  qed
  finally show ?thesis by (simp add: mem_zero_def)
qed

lemma add_counts_fields [simp]:
  "free_lists (zones (add_counts z df du s) y) = free_lists (zones s y)"
  "pmm_mem (add_counts z df du s) = pmm_mem s"
  "total_memory (add_counts z df du s) = total_memory s"
  "free_count (zones (add_counts z df du s) z) = free_count (zones s z) + df"
  "used_memory (add_counts z df du s) = used_memory s + du"
  by (simp_all add: add_counts_def)

lemma lists_ok_counts [simp]: "lists_ok (add_counts 0 df du s) F held = lists_ok s F held"
  by (simp add: lists_ok_def)

lemma of_nat_pages: "of_nat (2 ^ i) = order_to_pages i"
  by (simp add: order_to_pages_def push_bit_1_u64)

text \<open>The memory a free block of order \<open>order\<close> leaves behind when it is handed out.\<close>

lemma buddy_alloc_ok:
  assumes inv: "pmm_inv s F held" and order: "order < 11" and alloc: "buddy_alloc 0 order s = (r, s')"
    and r: "r \<noteq> 0"
  shows "\<exists>F'. pmm_inv s' F' (mset (blk_pages order r) + held) \<and> blk_ok order r
    \<and> free_pages F = free_pages F' + mset (blk_pages order r)
    \<and> used_memory s' = used_memory s + order_to_pages order * PAGE_SIZE
    \<and> total_memory s' = total_memory s
    \<and> (\<forall>a. unat a div 4096 \<in> set (blk_pages order r) \<longrightarrow> pmm_mem s' a = 0)"
proof -
  let ?z = "zones s 0"
  from alloc r obtain i where i: "first_from (\<lambda>i. free_lists ?z i \<noteq> 0) order 11 = Some i"
    by (auto simp: buddy_alloc_def split: option.splits)
  then have i': "order \<le> i" "i < 11" "free_lists ?z i \<noteq> 0" by (simp_all add: first_from_Some_iff)
  from inv have ok: "lists_ok s F held" by (simp add: pmm_inv_def)
  then have ch: "chain (pmm_mem s) (free_lists ?z i) (F i)" "\<forall>a\<in>set (F i). blk_ok i a"
    using i'(2) by (auto simp: lists_ok_def)
  with i'(3) obtain xs where F: "F i = free_lists ?z i # xs" by (cases "F i") auto
  let ?s1 = "set_free_list 0 i (pmm_mem s (free_lists ?z i)) s"
  from alloc i have eq: "r = free_lists ?z i"
    "s' = (let s3 = add_counts 0 (- order_to_pages order) (order_to_pages order * PAGE_SIZE)
             (buddy_split 0 order i r ?s1)
           in s3\<lparr>pmm_mem := mem_zero r (order_to_pages order * PAGE_SIZE) (pmm_mem s3)\<rparr>)"
    by (auto simp: buddy_alloc_def Let_def)
  have rok: "blk_ok i r" using ch F eq by auto
  from lists_ok_pop [OF ok i'(2) F] eq(1)
  have "lists_ok ?s1 (F(i := xs)) (mset (blk_pages i r) + held)" by simp
  from buddy_split_ok [OF this rok i'(2,1)] obtain F' where
    F': "lists_ok (buddy_split 0 order i r ?s1) F' (mset (blk_pages order r) + held)"
    "free_pages F' + mset (blk_pages order r) = free_pages (F(i := xs)) + mset (blk_pages i r)"
    "blk_ok order r" by blast
  have pages: "free_pages F = free_pages F' + mset (blk_pages order r)"
    using free_pages_pop [of i F, OF i'(2) F] F'(2) eq(1) by (simp add: add_ac)
  let ?s3 = "add_counts 0 (- order_to_pages order) (order_to_pages order * PAGE_SIZE)
    (buddy_split 0 order i r ?s1)"
  have "lists_ok (?s3\<lparr>pmm_mem := mem_zero r (order_to_pages order * PAGE_SIZE) (pmm_mem ?s3)\<rparr>) F'
    (mset (blk_pages order r) + held)"
    using F'(1) by (intro lists_ok_mem) (auto simp: mem_zero_block [OF F'(3) order])
  moreover have "free_count (zones s' 0) = of_nat (size (free_pages F'))"
    using inv unfolding eq(2) pmm_inv_def pages by (simp add: Let_def of_nat_pages flip: of_nat_power)
  ultimately show ?thesis using F'(3) pages eq(2) mem_zero_block [OF F'(3) order]
    by (intro exI [of _ F']) (auto simp: pmm_inv_def Let_def)
qed

lemma buddy_alloc_none:
  assumes inv: "pmm_inv s F held" and alloc: "buddy_alloc 0 order s = (0, s')"
  shows "s' = s \<and> (\<forall>i. order \<le> i \<and> i < 11 \<longrightarrow> F i = [])"
proof (cases "first_from (\<lambda>i. free_lists (zones s 0) i \<noteq> 0) order 11")
  case None
  then have z: "free_lists (zones s 0) i = 0" if "order \<le> i" "i < 11" for i
    using that by (simp add: first_from_None_iff)
  have "F i = []" if "order \<le> i" "i < 11" for i
    using inv z [OF that] that(2) unfolding pmm_inv_def lists_ok_def by (cases "F i") auto
  with None alloc show ?thesis by (simp add: buddy_alloc_def)
next
  case (Some i)
  with alloc show ?thesis by (simp add: buddy_alloc_def Let_def first_from_Some_iff)
qed

lemma buddy_alloc_large: "11 \<le> order \<Longrightarrow> buddy_alloc z order s = (0, s)"
  by (simp add: buddy_alloc_def first_from.simps)

lemma buddy_free_ok:
  assumes "pmm_inv s F (mset (blk_pages i x) + held)" "blk_ok i x" "i < 11"
  shows "\<exists>s'. buddy_free 0 x i s = Ret s' \<and> pmm_inv s' (F(i := x # F i)) held
    \<and> used_memory s' = used_memory s - order_to_pages i * PAGE_SIZE \<and> total_memory s' = total_memory s"
proof -
  let ?s2 = "set_free_list 0 i x (s\<lparr>pmm_mem := (pmm_mem s)(x := free_lists (zones s 0) i)\<rparr>)"
  from assms have "lists_ok ?s2 (F(i := x # F i)) held"
    unfolding pmm_inv_def by (blast intro: lists_ok_push)
  with assms(1,3) show ?thesis
    by (simp add: buddy_free_def Let_def pmm_inv_def free_pages_push of_nat_pages flip: of_nat_power)
qed

section \<open>The order of a request\<close>

lemma order_loop_exit: "\<not> tot < c \<Longrightarrow> order_loop tot k c = Some k"
  by (subst order_loop.simps) simp

lemma order_loop_round: "tot < c \<Longrightarrow> order_loop tot k c = order_loop (push_bit 1 tot) (Suc k) c"
  by (subst order_loop.simps) simp

lemma order_loop_returns:
  assumes "k < 64" "unat c \<le> 2 ^ 63" "k = 0 \<or> 2 ^ (k - 1) < unat c"
  shows "\<exists>n. order_loop (2 ^ k) k c = Some n \<and> n < 64 \<and> unat c \<le> 2 ^ n \<and> (n = 0 \<or> 2 ^ (n - 1) < unat c)"
  using assms
proof (induction "63 - k" arbitrary: k)
  case 0
  then have "k = 63" by simp
  then have "\<not> (2 :: u64) ^ k < c" using 0 by (simp only: word_less_nat_alt unat_2_power not_less)
  with 0 \<open>k = 63\<close> show ?case by (simp add: order_loop_exit)
next
  case (Suc d)
  show ?case
  proof (cases "(2 :: u64) ^ k < c")
    case True
    then have "2 ^ k < unat c" using Suc.prems(1) by (simp only: word_less_nat_alt unat_2_power)
    with Suc.hyps(1) [of "Suc k"] Suc.hyps(2) Suc.prems order_loop_round [OF True, of k] show ?thesis
      by (simp add: push_bit_eq_mult mult.commute)
  next
    case False
    then have "unat c \<le> 2 ^ k" using Suc.prems(1) by (simp only: word_less_nat_alt unat_2_power not_less)
    with False Suc.prems show ?thesis by (auto simp: order_loop_exit)
  qed
qed

definition order_of :: "u64 \<Rightarrow> nat" where
  "order_of c = the (order_loop 1 0 c)"

lemma order_of_spec:
  assumes "unat c \<le> 2 ^ 63"
  shows "order_loop 1 0 c = Some (order_of c)" "unat c \<le> 2 ^ order_of c"
    "order_of c = 0 \<or> 2 ^ (order_of c - 1) < unat c"
proof -
  from order_loop_returns [of 0 c] assms obtain n where
    "order_loop 1 0 c = Some n" "unat c \<le> 2 ^ n" "n = 0 \<or> 2 ^ (n - 1) < unat c" by auto
  then show "order_loop 1 0 c = Some (order_of c)" "unat c \<le> 2 ^ order_of c"
    "order_of c = 0 \<or> 2 ^ (order_of c - 1) < unat c" by (simp_all add: order_of_def)
qed

lemma order_of_small: "unat c \<le> 1024 \<Longrightarrow> order_of c < 11"
proof (rule ccontr)
  assume c: "unat c \<le> 1024" and "\<not> order_of c < 11"
  then have "(2 :: nat) ^ 10 \<le> 2 ^ (order_of c - 1)" by (intro power_increasing) simp_all
  with order_of_spec(3) [of c] c \<open>\<not> order_of c < 11\<close> show False by auto
qed

text \<open>Beyond \<open>2 ^ 63\<close> pages the doubling overflows to 0 and the loop never ends.\<close>

definition doubling :: "u64 \<Rightarrow> bool" where
  "doubling t \<longleftrightarrow> t = 0 \<or> (\<exists>j<64. t = 2 ^ j)"

lemma doubling_step: "doubling t \<Longrightarrow> doubling (push_bit 1 t)"
proof -
  assume "doubling t"
  then consider "t = 0" | j where "j < 63" "t = 2 ^ j" | "t = 2 ^ 63"
    unfolding doubling_def by (metis less_antisym numeral_eq_Suc pred_numeral_simps(2) semiring_norm(26) semiring_norm(27) semiring_norm(28))
  then show ?thesis
  proof cases
    case 2
    then have "push_bit 1 t = 2 ^ Suc j" "Suc j < 64" by (simp_all add: push_bit_eq_mult)
    then show ?thesis unfolding doubling_def by blast
  next
    case 3
    then have "push_bit 1 t = 0" by (simp add: push_bit_eq_mult)
    then show ?thesis by (simp add: doubling_def)
  qed (simp add: doubling_def)
qed

lemma doubling_less: "doubling t \<Longrightarrow> 2 ^ 63 < unat c \<Longrightarrow> t < c"
proof -
  assume d: "doubling t" and c: "2 ^ 63 < unat c"
  have "unat t \<le> 2 ^ 63"
  proof (cases "t = 0")
    case False
    with d obtain j where j: "j < 64" "t = 2 ^ j" by (auto simp: doubling_def)
    then have "unat t = 2 ^ j" by (simp only: unat_2_power)
    moreover have "(2 :: nat) ^ j \<le> 2 ^ 63" using j(1) by (intro power_increasing) simp_all
    ultimately show ?thesis by simp
  qed simp
  with c show ?thesis unfolding word_less_nat_alt by linarith
qed

lemma order_loop_diverges:
  assumes "2 ^ 63 < unat c"
  shows "order_loop 1 0 c = None"
proof -
  have "doubling t \<longrightarrow> \<not> 2 ^ 63 < unat c'" if "order_loop t k c' = Some n" for t k c' n
    using that
  proof (rule order_loop.raw_induct [rotated])
    fix f :: "u64 \<Rightarrow> nat \<Rightarrow> u64 \<Rightarrow> nat option" and t k c' n
    assume IH: "\<And>t k c' n. f t k c' = Some n \<Longrightarrow> doubling t \<longrightarrow> \<not> 2 ^ 63 < unat c'"
      and eq: "(if t < c' then f (push_bit 1 t) (Suc k) c' else Some k) = Some n"
    show "doubling t \<longrightarrow> \<not> 2 ^ 63 < unat c'"
      using IH [of "push_bit 1 t" "Suc k" c' n] eq doubling_step [of t] doubling_less [of t c']
      by (auto split: if_splits)
  qed
  moreover have "doubling 1" unfolding doubling_def by (intro disjI2 exI [of _ 0]) simp
  ultimately show ?thesis using assms by (cases "order_loop 1 0 c") blast+
qed

section \<open>Running the allocator\<close>

definition live_pages :: "(u64 \<times> u64) list \<Rightarrow> nat multiset" where
  "live_pages live = (\<Sum>(r, c)\<leftarrow>live. mset (blk_pages (order_of c) r))"

lemma live_pages_simps [simp]:
  "live_pages [] = {#}"
  "live_pages ((r, c) # live) = mset (blk_pages (order_of c) r) + live_pages live"
  "live_pages (xs @ ys) = live_pages xs + live_pages ys"
  by (simp_all add: live_pages_def)

text \<open>Clients allocate and free in any order; \<open>live\<close> are the blocks they hold, with the
  page count they asked for. A client frees only blocks it holds, with the count it
  allocated them with.\<close>

inductive pmm_steps :: "pmm_t \<Rightarrow> pmm_t \<Rightarrow> (u64 \<times> u64) list \<Rightarrow> bool" for s0 where
  start: "pmm_steps s0 s0 []"
| alloc: "pmm_steps s0 s live \<Longrightarrow> pmm_alloc_pages c s = Some (r, s') \<Longrightarrow> r \<noteq> 0
    \<Longrightarrow> pmm_steps s0 s' ((r, c) # live)"
| alloc_fail: "pmm_steps s0 s live \<Longrightarrow> pmm_alloc_pages c s = Some (0, s') \<Longrightarrow> pmm_steps s0 s' live"
| alloc_page: "pmm_steps s0 s live \<Longrightarrow> pmm_alloc_page s = Ret (r, s')
    \<Longrightarrow> pmm_steps s0 s' ((r, 1) # live)"
| free: "pmm_steps s0 s (xs @ (r, c) # ys) \<Longrightarrow> pmm_free_pages r c s = Some (Ret s')
    \<Longrightarrow> pmm_steps s0 s' (xs @ ys)"
| free_page: "pmm_steps s0 s (xs @ (r, 1) # ys) \<Longrightarrow> pmm_free_page r s = Ret s'
    \<Longrightarrow> pmm_steps s0 s' (xs @ ys)"

definition live_ok :: "(u64 \<times> u64) list \<Rightarrow> bool" where
  "live_ok live \<longleftrightarrow> (\<forall>(r, c)\<in>set live. blk_ok (order_of c) r \<and> order_of c < 11 \<and> unat c \<le> 2 ^ order_of c)"

text \<open>Bytes in use plus bytes free, in the code's own 64-bit counters.\<close>

definition accounted :: "pmm_t \<Rightarrow> u64" where
  "accounted s = used_memory s + free_count (zones s 0) * PAGE_SIZE"

text \<open>What stays true along a run: the allocator's own invariant, no page lost or handed out
  twice, and the byte accounting.\<close>

definition run_inv :: "pmm_t \<Rightarrow> free_view \<Rightarrow> pmm_t \<Rightarrow> (u64 \<times> u64) list \<Rightarrow> bool" where
  "run_inv s0 F0 s live \<longleftrightarrow>
     (\<exists>F. pmm_inv s F (live_pages live) \<and> free_pages F + live_pages live = free_pages F0)
     \<and> live_ok live
     \<and> accounted s = accounted s0"

lemma order_of_1: "order_loop 1 0 1 = Some 0" "order_of 1 = 0"
  by (simp_all add: order_of_def order_loop_exit)

lemma buddy_alloc_run:
  assumes run: "run_inv s0 F0 s live" and a: "buddy_alloc 0 (order_of c) s = (r, s')" and r: "r \<noteq> 0"
    and c: "unat c \<le> 2 ^ order_of c"
  shows "run_inv s0 F0 s' ((r, c) # live)"
proof -
  from a r have o: "order_of c < 11" using buddy_alloc_large [of "order_of c" 0 s] by (cases "order_of c < 11") auto
  from run obtain F where F: "pmm_inv s F (live_pages live)" "free_pages F + live_pages live = free_pages F0"
    by (auto simp: run_inv_def)
  from buddy_alloc_ok [OF F(1) o a r] obtain F' where
    F': "pmm_inv s' F' (live_pages ((r, c) # live))" "blk_ok (order_of c) r"
    "free_pages F = free_pages F' + mset (blk_pages (order_of c) r)"
    "used_memory s' = used_memory s + order_to_pages (order_of c) * PAGE_SIZE" by auto
  then have "free_count (zones s 0) = free_count (zones s' 0) + order_to_pages (order_of c)"
    using F(1) by (simp add: pmm_inv_def of_nat_pages flip: of_nat_power)
  with run F'(4) have "accounted s' = accounted s0"
    by (simp add: run_inv_def accounted_def algebra_simps)
  moreover have "free_pages F' + live_pages ((r, c) # live) = free_pages F0"
    using F(2) F'(3) by (simp add: add_ac)
  ultimately show ?thesis using run F'(1,2) o c by (auto simp: run_inv_def live_ok_def)
qed

lemma buddy_free_run:
  assumes run: "run_inv s0 F0 s (xs @ (r, c) # ys)" and f: "buddy_free 0 r (order_of c) s = Ret s'"
  shows "run_inv s0 F0 s' (xs @ ys)"
proof -
  let ?i = "order_of c"
  from run obtain F where F: "pmm_inv s F (mset (blk_pages ?i r) + live_pages (xs @ ys))"
    "free_pages F + (mset (blk_pages ?i r) + live_pages (xs @ ys)) = free_pages F0"
    by (auto simp: run_inv_def add_ac)
  from run have ok: "blk_ok ?i r" "?i < 11" by (auto simp: run_inv_def live_ok_def)
  from buddy_free_ok [OF F(1) ok] f have s': "pmm_inv s' (F(?i := r # F ?i)) (live_pages (xs @ ys))"
    "used_memory s' = used_memory s - order_to_pages ?i * PAGE_SIZE" by auto
  then have "free_count (zones s' 0) = free_count (zones s 0) + order_to_pages ?i"
    using F(1) ok(2) by (simp add: pmm_inv_def free_pages_push of_nat_pages flip: of_nat_power)
  with s'(2) have "accounted s' = accounted s" by (simp add: accounted_def algebra_simps)
  moreover have "free_pages (F(?i := r # F ?i)) + live_pages (xs @ ys) = free_pages F0"
    using F(2) ok(2) by (simp add: free_pages_push add_ac)
  ultimately show ?thesis using run s'(1) by (auto simp: run_inv_def live_ok_def)
qed

lemma pmm_steps_inv:
  assumes "pmm_steps s0 s live" "pmm_inv s0 F0 {#}"
  shows "run_inv s0 F0 s live"
  using assms
proof (induction rule: pmm_steps.induct)
  case start
  then show ?case by (auto simp: run_inv_def live_ok_def)
next
  case (alloc s live c r s')
  then have "buddy_alloc 0 (order_of c) s = (r, s')"
    by (auto simp: pmm_alloc_pages_def order_of_def split: option.splits)
  moreover have "unat c \<le> 2 ^ order_of c"
    using alloc.hyps(2) order_loop_diverges [of c] order_of_spec(2) [of c]
    by (cases "unat c \<le> 2 ^ 63") (auto simp: pmm_alloc_pages_def)
  ultimately show ?case using alloc by (blast intro: buddy_alloc_run)
next
  case (alloc_fail s live c s')
  then have "buddy_alloc 0 (order_of c) s = (0, s')"
    by (auto simp: pmm_alloc_pages_def order_of_def split: option.splits)
  moreover from alloc_fail obtain F where "pmm_inv s F (live_pages live)" by (auto simp: run_inv_def)
  ultimately have "s' = s" using buddy_alloc_none by blast
  with alloc_fail show ?case by simp
next
  case (alloc_page s live r s')
  then have "buddy_alloc 0 (order_of 1) s = (r, s')" "r \<noteq> 0"
    by (auto simp: pmm_alloc_page_def order_of_1 split: prod.splits if_splits)
  moreover have "unat (1 :: u64) \<le> 2 ^ order_of 1" by simp
  ultimately show ?case using alloc_page by (blast intro: buddy_alloc_run)
next
  case (free s xs r c ys s')
  then have "run_inv s0 F0 s (xs @ (r, c) # ys)" by simp
  moreover from this have "blk_ok (order_of c) r" by (auto simp: run_inv_def live_ok_def)
  with free.hyps have "buddy_free 0 r (order_of c) s = Ret s'"
    by (auto simp: pmm_free_pages_def order_of_def blk_ok_def page_align_down_id split: option.splits)
  ultimately show ?case by (rule buddy_free_run)
next
  case (free_page s xs r ys s')
  then have "run_inv s0 F0 s (xs @ (r, 1) # ys)" by simp
  moreover from this have "blk_ok (order_of 1) r" by (auto simp: run_inv_def live_ok_def)
  with free_page.hyps have "buddy_free 0 r (order_of 1) s = Ret s'"
    by (auto simp: pmm_free_page_def order_of_1 blk_ok_def page_align_down_id)
  ultimately show ?case by (rule buddy_free_run)
qed

section \<open>Initialisation\<close>

text \<open>The whole pages of a usable region at or above 16 MB, as page numbers.\<close>

definition usable_pages :: "memory_region_t \<Rightarrow> nat list" where
  "usable_pages r =
     (if reg_type r = PMM_REGION_USABLE \<and> 4096 \<le> (unat (reg_base r) + 4095) div 4096
      then [(unat (reg_base r) + 4095) div 4096..<(unat (reg_base r) + unat (reg_length r)) div 4096]
      else [])"

text \<open>A memory map the loop is meant for: usable regions do not reach the end of the address
  space, contain a page boundary, and do not share pages.\<close>

definition region_wf :: "memory_region_t \<Rightarrow> bool" where
  "region_wf r \<longleftrightarrow> unat (reg_base r) + unat (reg_length r) + 4096 < 2 ^ 64
     \<and> (unat (reg_base r) + 4095) div 4096 * 4096 \<le> unat (reg_base r) + unat (reg_length r)"

definition map_pages :: "memory_region_t list \<Rightarrow> nat multiset" where
  "map_pages regions = mset (concat (map usable_pages regions))"

definition regions_wf :: "memory_region_t list \<Rightarrow> bool" where
  "regions_wf regions \<longleftrightarrow> (\<forall>r\<in>set regions. region_wf r) \<and> distinct (concat (map usable_pages regions))"

lemma le_round_up: "(b :: nat) \<le> (b + 4095) div 4096 * 4096"
proof -
  have "b + 4095 = (b + 4095) div 4096 * 4096 + (b + 4095) mod 4096" by (rule div_mult_mod_eq [symmetric])
  moreover have "(b + 4095) mod 4096 < 4096" by simp
  ultimately show ?thesis by linarith
qed

lemma div_diff_pages: "q * 4096 \<le> (x :: nat) \<Longrightarrow> (x - q * 4096) div 4096 = x div 4096 - q"
proof -
  assume "q * 4096 \<le> x"
  then obtain y where "x = q * 4096 + y" by (auto simp: le_iff_add)
  then show ?thesis by simp
qed

lemma region_base_length:
  assumes "region_wf r"
  shows "unat (region_base r) = (unat (reg_base r) + 4095) div 4096 * 4096"
    and "unat (region_length r) = ((unat (reg_base r) + unat (reg_length r)) div 4096
      - (unat (reg_base r) + 4095) div 4096) * 4096"
proof -
  let ?b = "unat (reg_base r)" and ?l = "unat (reg_length r)"
  from assms have wf: "?b + ?l + 4096 < 2 ^ 64" "(?b + 4095) div 4096 * 4096 \<le> ?b + ?l"
    by (simp_all add: region_wf_def)
  have "reg_base r + PAGE_SIZE - 1 = of_nat (?b + 4095)" by simp
  then have "unat (reg_base r + PAGE_SIZE - 1) = ?b + 4095"
    using wf(1) by (simp only: unat_of_nat) (simp add: take_bit_nat_eq_self)
  then show base: "unat (region_base r) = (?b + 4095) div 4096 * 4096"
    by (simp add: region_base_def unat_page_align_down minus_mod_eq_div_mult)
  have le: "?b \<le> (?b + 4095) div 4096 * 4096" by (rule le_round_up)
  then have "reg_base r \<le> region_base r" by (simp add: word_le_nat_alt base)
  then have gap: "unat (region_base r - reg_base r) = (?b + 4095) div 4096 * 4096 - ?b"
    by (simp add: unat_sub base)
  with wf(2) have "region_base r - reg_base r \<le> reg_length r" by (simp add: word_le_nat_alt)
  then have "unat (reg_length r - (region_base r - reg_base r)) = ?b + ?l - (?b + 4095) div 4096 * 4096"
    using wf(2) le by (simp add: unat_sub gap)
  then have "unat (region_length r) = (?b + ?l - (?b + 4095) div 4096 * 4096) div 4096 * 4096"
    by (simp add: region_length_def unat_page_align_down minus_mod_eq_div_mult)
  also have "(?b + ?l - (?b + 4095) div 4096 * 4096) div 4096 = (?b + ?l) div 4096 - (?b + 4095) div 4096"
    using wf(2) by (rule div_diff_pages)
  finally show "unat (region_length r) = ((?b + ?l) div 4096 - (?b + 4095) div 4096) * 4096" .
qed

lemma add_pages_exit: "\<not> a < stop \<Longrightarrow> add_pages a stop s = Some s"
  by (subst add_pages.simps) simp

lemma add_pages_round:
  "a < stop \<Longrightarrow> buddy_free 0 a 0 s = Ret s' \<Longrightarrow> add_pages a stop s = add_pages (a + PAGE_SIZE) stop s'"
  by (subst add_pages.simps) simp

text \<open>Only the list of single pages grows.\<close>

definition single_pages :: "free_view \<Rightarrow> bool" where
  "single_pages F \<longleftrightarrow> (\<forall>i>0. F i = [])"

lemma buddy_free_accounted: "buddy_free 0 x i s = Ret s' \<Longrightarrow> accounted s' = accounted s"
  by (auto simp: buddy_free_def accounted_def Let_def algebra_simps split: if_splits)

lemma next_page:
  assumes "unat a + 4096 * Suc n < 2 ^ 64"
  shows "unat (a + PAGE_SIZE) = unat a + 4096"
proof -
  have "unat a + unat PAGE_SIZE < 2 ^ LENGTH(64)" using assms by simp
  then show ?thesis by (simp only: unat_add_lem [THEN iffD1]) simp
qed

lemma add_pages_ok:
  assumes "pmm_inv s F (mset [unat a div 4096..<unat a div 4096 + n] + held)" "a \<noteq> 0"
    "4096 dvd unat a" "unat a + 4096 * n < 2 ^ 64" "unat stop = unat a + 4096 * n" "single_pages F"
  shows "\<exists>s' F'. add_pages a stop s = Some s' \<and> pmm_inv s' F' held \<and> single_pages F'
    \<and> accounted s' = accounted s
    \<and> free_pages F' = free_pages F + mset [unat a div 4096..<unat a div 4096 + n]
    \<and> total_memory s' = total_memory s"
  using assms
proof (induction n arbitrary: a s F)
  case 0
  then have "\<not> a < stop" by (simp add: word_less_nat_alt)
  with 0 show ?case by (auto simp: add_pages_exit)
next
  case (Suc n)
  let ?p = "unat a div 4096"
  let ?a = "a + PAGE_SIZE"
  have lt: "a < stop" using Suc.prems(5) by (simp add: word_less_nat_alt)
  have un: "unat ?a = unat a + 4096" using Suc.prems(4) by (rule next_page)
  then have p: "unat ?a div 4096 = Suc ?p" by simp
  have nz: "?a \<noteq> 0" using un by (metis add_is_0 unat_0 zero_neq_numeral)
  have ok: "blk_ok 0 a" using Suc.prems(2,3,4) by (simp add: blk_ok_def)
  have upt: "[?p..<?p + Suc n] = ?p # [Suc ?p..<Suc ?p + n]" by (simp add: upt_conv_Cons del: upt_Suc)
  have "pmm_inv s F (mset (blk_pages 0 a) + (mset [Suc ?p..<Suc ?p + n] + held))"
    using Suc.prems(1) unfolding upt by (simp add: blk_pages_def)
  from buddy_free_ok [OF this ok] obtain s1 where s1: "buddy_free 0 a 0 s = Ret s1"
    "pmm_inv s1 (F(0 := a # F 0)) (mset [Suc ?p..<Suc ?p + n] + held)" "total_memory s1 = total_memory s"
    by auto
  have acc: "accounted s1 = accounted s" using Suc.prems(1) s1(1) by (simp add: buddy_free_accounted)
  have single: "single_pages (F(0 := a # F 0))" using Suc.prems(6) by (simp add: single_pages_def)
  have "4096 dvd unat ?a" "unat ?a + 4096 * n < 2 ^ 64" "unat stop = unat ?a + 4096 * n"
    using Suc.prems(3,4,5) unfolding un by simp_all
  from Suc.IH [of s1 "F(0 := a # F 0)" ?a, unfolded p, OF s1(2) nz this single] obtain s' F' where
    s': "add_pages ?a stop s1 = Some s'" "pmm_inv s' F' held" "single_pages F'" "accounted s' = accounted s1"
    "free_pages F' = free_pages (F(0 := a # F 0)) + mset [Suc ?p..<Suc ?p + n]"
    "total_memory s' = total_memory s1"
    by blast
  moreover have "free_pages (F(0 := a # F 0)) + mset [Suc ?p..<Suc ?p + n]
      = free_pages F + mset [?p..<?p + Suc n]"
    unfolding upt by (simp add: free_pages_push blk_pages_def del: upt_Suc)
  ultimately show ?case using add_pages_round [OF lt s1(1)] s1(3) acc by metis
qed

lemma usable_region:
  assumes "region_wf r" "reg_type r = PMM_REGION_USABLE" "\<not> region_base r < 0x1000000"
  shows "usable_pages r = [unat (region_base r) div 4096..<unat (region_base r) div 4096 + unat (region_length r) div 4096]"
    and "4096 dvd unat (region_base r)" "region_base r \<noteq> 0"
    and "unat (region_base r + region_length r) = unat (region_base r) + 4096 * (unat (region_length r) div 4096)"
    and "unat (region_base r) + 4096 * (unat (region_length r) div 4096) < 2 ^ 64"
proof -
  note bl = region_base_length [OF assms(1)]
  let ?b = "unat (reg_base r)" and ?l = "unat (reg_length r)"
  let ?q = "(?b + 4095) div 4096" and ?e = "(?b + ?l) div 4096"
  have "unat (0x1000000 :: u64) \<le> unat (region_base r)" using assms(3) by (simp add: word_less_nat_alt)
  then have high: "4096 \<le> ?q" unfolding bl(1) by simp
  from assms(1) have "?q * 4096 div 4096 \<le> ?e" unfolding region_wf_def by (intro div_le_mono) simp
  then have qe: "?q \<le> ?e" by simp
  show "4096 dvd unat (region_base r)" unfolding bl(1) by simp
  show "region_base r \<noteq> 0" using high bl(1) by auto
  from high qe assms(2) show "usable_pages r =
    [unat (region_base r) div 4096..<unat (region_base r) div 4096 + unat (region_length r) div 4096]"
    unfolding bl by (simp add: usable_pages_def)
  have "?e * 4096 \<le> ?b + ?l" by simp
  moreover from assms(1) have "?b + ?l + 4096 < 2 ^ 64" unfolding region_wf_def by (rule conjunct1)
  ultimately have "?e * 4096 < 2 ^ 64" by linarith
  with qe show lt: "unat (region_base r) + 4096 * (unat (region_length r) div 4096) < 2 ^ 64"
    unfolding bl by (simp add: algebra_simps)
  then have "unat (region_base r) + unat (region_length r) < 2 ^ LENGTH(64)"
    unfolding bl by (simp add: mult.commute)
  then show "unat (region_base r + region_length r) = unat (region_base r) + 4096 * (unat (region_length r) div 4096)"
    by (simp only: unat_add_lem [THEN iffD1]) (simp add: bl)
qed

lemma add_region_ok:
  assumes inv: "pmm_inv s F (mset (usable_pages r) + held)" "single_pages F" and wf: "region_wf r"
  shows "\<exists>s' F'. add_region r s = Some s' \<and> pmm_inv s' F' held \<and> single_pages F'
    \<and> accounted s' = accounted s
    \<and> free_pages F' = free_pages F + mset (usable_pages r)
    \<and> total_memory s' = total_memory s + of_nat (4096 * length (usable_pages r))"
proof (cases "reg_type r = PMM_REGION_USABLE \<and> \<not> region_base r < 0x1000000")
  case True
  note u = usable_region [OF wf conjunct1 [OF True] conjunct2 [OF True]]
  let ?s = "s\<lparr>total_memory := total_memory s + region_length r\<rparr>"
  from inv(1) have "pmm_inv ?s F (mset [unat (region_base r) div 4096..<unat (region_base r) div 4096
      + unat (region_length r) div 4096] + held)"
    unfolding u(1) by (simp add: pmm_inv_def lists_ok_def)
  from add_pages_ok [OF this u(3,2,5,4) inv(2)] u(1)
  obtain s' F' where s': "add_pages (region_base r) (region_base r + region_length r) ?s = Some s'"
    "pmm_inv s' F' held" "single_pages F'" "free_pages F' = free_pages F + mset (usable_pages r)"
    "total_memory s' = total_memory ?s" "accounted s' = accounted s" by (auto simp: accounted_def)
  have "4096 dvd unat (region_length r)" unfolding region_base_length [OF wf] by simp
  then have "4096 * length (usable_pages r) = unat (region_length r)" unfolding u(1) by simp
  then have "of_nat (4096 * length (usable_pages r)) = region_length r" by (simp del: of_nat_mult)
  with s' True show ?thesis by (auto simp: add_region_def)
next
  case False
  have "usable_pages r = []"
  proof (cases "reg_type r = PMM_REGION_USABLE")
    case True
    with False have "unat (region_base r) < 4096 * 4096" by (simp add: word_less_nat_alt)
    then have "(unat (reg_base r) + 4095) div 4096 < 4096"
      unfolding region_base_length [OF wf] by simp
    then show ?thesis by (simp add: usable_pages_def)
  qed (simp add: usable_pages_def)
  with False inv show ?thesis by (auto simp: add_region_def)
qed

lemma add_regions_ok:
  assumes "pmm_inv s F (map_pages rs)" "single_pages F" "\<forall>r\<in>set rs. region_wf r"
  shows "\<exists>s' F'. add_regions rs s = Some s' \<and> pmm_inv s' F' {#} \<and> single_pages F'
    \<and> accounted s' = accounted s
    \<and> free_pages F' = free_pages F + map_pages rs
    \<and> total_memory s' = total_memory s + of_nat (4096 * size (map_pages rs))"
  using assms
proof (induction rs arbitrary: s F)
  case Nil
  then show ?case by (auto simp: map_pages_def)
next
  case (Cons r rs)
  have m: "map_pages (r # rs) = mset (usable_pages r) + map_pages rs" by (simp add: map_pages_def)
  from add_region_ok [of s F r "map_pages rs"] Cons.prems obtain s1 F1 where
    1: "add_region r s = Some s1" "pmm_inv s1 F1 (map_pages rs)" "single_pages F1"
    "free_pages F1 = free_pages F + mset (usable_pages r)"
    "total_memory s1 = total_memory s + of_nat (4096 * length (usable_pages r))"
    "accounted s1 = accounted s"
    unfolding m by auto
  from Cons.IH [OF 1(2,3)] Cons.prems(3) 1 m show ?case by (auto simp: algebra_simps)
qed

lemma pmm_inv_empty: "distinct (concat (map usable_pages rs)) \<Longrightarrow> zones s 0 = zero_zone \<Longrightarrow>
  pmm_inv s (\<lambda>_. []) (map_pages rs)"
  by (simp add: pmm_inv_def lists_ok_def free_pages_def zero_zone_def map_pages_def distinct_count_atmost_1)

lemma pmm_init_view:
  assumes "regions_wf rs"
  shows "\<exists>s F. pmm_init rs s0 = Some s \<and> pmm_inv s F {#} \<and> single_pages F \<and> free_pages F = map_pages rs
    \<and> accounted s = used_memory s0 \<and> total_memory s = total_memory s0 + of_nat (4096 * size (map_pages rs))"
proof -
  let ?s = "s0\<lparr>zones := (\<lambda>_. zero_zone), zone_count := 1\<rparr>"
  have "pmm_inv ?s (\<lambda>_. []) (map_pages rs)" using assms by (intro pmm_inv_empty) (simp_all add: regions_wf_def)
  moreover have "single_pages (\<lambda>_. [])" "free_pages (\<lambda>_. []) = {#}" "accounted ?s = used_memory s0"
    by (simp_all add: single_pages_def free_pages_def accounted_def zero_zone_def)
  ultimately show ?thesis using add_regions_ok [of ?s "\<lambda>_. []" rs] assms
    by (auto simp: pmm_init_def regions_wf_def)
qed

section \<open>Properties\<close>


definition demo_map :: "memory_region_t list" where
  "demo_map = [\<lparr>reg_base = 0x1000000, reg_length = 0x2000, reg_type = 1\<rparr>]"

lemma demo_map_wf: "regions_wf demo_map"
  by (simp add: demo_map_def regions_wf_def region_wf_def usable_pages_def)

lemma demo_map_pages: "map_pages demo_map = {#4096, 4097#}"
  by (simp add: demo_map_def map_pages_def usable_pages_def upt_conv_Cons)


text \<open>C22: A request for at most 1024 pages always returns: it fails, changing nothing, exactly
  when no free list of its order or above has a block, and otherwise hands out a block whose
  memory is zeroed and whose pages leave the free lists while every other free page stays.\<close>

theorem pmm_alloc_pages_spec:
  assumes "pmm_inv s F held" "unat c \<le> 1024"
  shows "\<exists>r s'. pmm_alloc_pages c s = Some (r, s')
    \<and> (r = 0 \<longleftrightarrow> (\<forall>i. order_of c \<le> i \<and> i \<le> PMM_MAX_ORDER \<longrightarrow> F i = []))
    \<and> (r = 0 \<longrightarrow> s' = s)
    \<and> (r \<noteq> 0 \<longrightarrow> (\<forall>a. unat a div 4096 \<in> set (blk_pages (order_of c) r) \<longrightarrow> pmm_mem s' a = 0)
        \<and> (\<exists>F'. pmm_inv s' F' (mset (blk_pages (order_of c) r) + held)
             \<and> free_pages F = free_pages F' + mset (blk_pages (order_of c) r)))"
proof -
  have o: "order_of c < 11" using assms(2) by (rule order_of_small)
  obtain r s' where a: "buddy_alloc 0 (order_of c) s = (r, s')" by fastforce
  have "order_loop 1 0 c = Some (order_of c)" using assms(2) by (intro order_of_spec) simp
  then have p: "pmm_alloc_pages c s = Some (r, s')" by (simp add: pmm_alloc_pages_def a)
  show ?thesis
  proof (cases "r = 0")
    case True
    with buddy_alloc_none [OF assms(1)] a p show ?thesis by (auto simp: less_Suc_eq_le)
  next
    case False
    have "\<exists>i. order_of c \<le> i \<and> i \<le> PMM_MAX_ORDER \<and> F i \<noteq> []"
    proof (rule ccontr)
      assume empty: "\<not> ?thesis"
      have "free_lists (zones s 0) i = 0" if "order_of c \<le> i" "i < 11" for i
      proof -
        from empty that have "F i = []" by auto
        with assms(1) that(2) show ?thesis unfolding pmm_inv_def lists_ok_def by (metis chain.simps(1))
      qed
      then have "first_from (\<lambda>i. free_lists (zones s 0) i \<noteq> 0) (order_of c) 11 = None"
        by (simp add: first_from_None_iff)
      with a False show False by (simp add: buddy_alloc_def)
    qed
    with buddy_alloc_ok [OF assms(1) o a False] p False show ?thesis by blast
  qed
qed

theorem pmm_alloc_pages_spec_witness:
  "pmm_inv (pmm_static (\<lambda>_. 0)) (\<lambda>_. []) {#} \<and>
   fst (the (pmm_alloc_pages 4 (pmm_static (\<lambda>_. 0)))) = 0"
proof -
  have inv: "pmm_inv (pmm_static (\<lambda>_. 0)) (\<lambda>_. []) {#}"
    by (simp add: pmm_inv_def lists_ok_def free_pages_def pmm_static_def zero_zone_def)
  from pmm_alloc_pages_spec [OF inv, of 4] inv show ?thesis by auto
qed



text \<open>The map the kernel boots with has one usable region at 1 MB, below the 16 MB limit.\<close>

lemma pmm_init_low_region:
  assumes "reg_type r = PMM_REGION_USABLE" "reg_base r = 0x100000"
  shows "\<exists>s. pmm_init [r] (pmm_static m) = Some s \<and> pmm_alloc_page s = KernelPanic"
proof -
  have "page_align_down (0x100000 + PAGE_SIZE - 1) = 0x100000"
    by (simp add: page_align_down_def)
  then have "add_region r s = Some s" for s
    using assms by (simp add: add_region_def region_base_def)
  then show ?thesis
    by (simp add: pmm_init_def pmm_alloc_page_def buddy_alloc_def first_from.simps zero_zone_def
        first_from_None_iff)
qed

lemma pmm_free_pages_out_of_bounds:
  "phys \<noteq> 0 \<Longrightarrow> pmm_free_pages phys 2048 s = Some OutOfBounds"
proof -
  assume "phys \<noteq> 0"
  have o: "order_loop 1 0 2048 = Some (order_of 2048)" "unat (2048 :: u64) \<le> 2 ^ order_of 2048"
    using order_of_spec(1,2) [of 2048] by simp_all
  have "\<not> order_of 2048 < 11"
  proof
    assume "order_of 2048 < 11"
    then have "(2 :: nat) ^ order_of 2048 \<le> 2 ^ 10" by (intro power_increasing) simp_all
    with o(2) show False by simp
  qed
  with \<open>phys \<noteq> 0\<close> o(1) show ?thesis by (simp add: pmm_free_pages_def buddy_free_def)
qed

end
