(* ===== verification/Radix.thy ===== *)
theory Radix
  imports Prelude
begin

text \<open>
  Page tables as radix trees. Both ports walk tables of 512 entries level by level, creating
  missing tables on the way (\<^verbatim>\<open>walk\<close> of \<^verbatim>\<open>arch/x86_64/paging.c\<close>,
  \<^verbatim>\<open>pt_map_page\<close> of \<^verbatim>\<open>arch/arm64/arm64.c\<close>). \<open>pt_walk\<close> is that walk over an arbitrary
  memory (\<open>get\<close>, \<open>put\<close>, \<open>alloc\<close>) and an arbitrary entry format (\<open>pres\<close>, \<open>nxt\<close>,
  \<open>mk\<close>). The locale states what the walk relies on and shows once that creating a path changes no
  existing translation, and that writing one entry changes exactly one translation.
\<close>

fun pt_walk ::
  "('s \<Rightarrow> u64 \<Rightarrow> nat \<Rightarrow> u64) \<Rightarrow> (u64 \<Rightarrow> nat \<Rightarrow> u64 \<Rightarrow> 's \<Rightarrow> 's) \<Rightarrow> ('s \<Rightarrow> (u64 \<times> 's) option) \<Rightarrow>
   (u64 \<Rightarrow> bool) \<Rightarrow> (u64 \<Rightarrow> u64) \<Rightarrow> (u64 \<Rightarrow> u64) \<Rightarrow> bool \<Rightarrow> nat list \<Rightarrow> u64 \<Rightarrow> 's \<Rightarrow>
   (u64 option \<times> 's) option" where
  "pt_walk get put alloc pres nxt mk create [] b s = Some (Some b, s)"
| "pt_walk get put alloc pres nxt mk create (i # is) b s =
     (if pres (get s b i) then pt_walk get put alloc pres nxt mk create is (nxt (get s b i)) s
      else if create then
        (case alloc s of None \<Rightarrow> None
         | Some (n, s1) \<Rightarrow>
             let s2 = put b i (mk n) s1
             in pt_walk get put alloc pres nxt mk create is (nxt (get s2 b i)) s2)
      else Some (None, s))"

fun pt_node :: "('s \<Rightarrow> u64 \<Rightarrow> nat \<Rightarrow> u64) \<Rightarrow> (u64 \<Rightarrow> bool) \<Rightarrow> (u64 \<Rightarrow> u64) \<Rightarrow> 's \<Rightarrow> u64 \<Rightarrow> nat list \<Rightarrow> u64 option" where
  "pt_node get pres nxt s b [] = Some b"
| "pt_node get pres nxt s b (i # is) =
     (if pres (get s b i) then pt_node get pres nxt s (nxt (get s b i)) is else None)"

definition idx_ok :: "nat list \<Rightarrow> bool" where
  "idx_ok p \<longleftrightarrow> (\<forall>i\<in>set p. i < 512)"

lemma idx_ok_simps [simp]:
  "idx_ok []" "idx_ok (i # p) \<longleftrightarrow> i < 512 \<and> idx_ok p" "idx_ok (p @ q) \<longleftrightarrow> idx_ok p \<and> idx_ok q"
  by (auto simp: idx_ok_def)

lemma pt_node_append:
  "pt_node get pres nxt s b (p @ q) =
     (case pt_node get pres nxt s b p of None \<Rightarrow> None | Some c \<Rightarrow> pt_node get pres nxt s c q)"
  by (induction p arbitrary: b) simp_all

lemma pt_walk_lookup:
  "pt_walk get put alloc pres nxt mk False p b s = Some (pt_node get pres nxt s b p, s)"
  by (induction p arbitrary: b) simp_all

locale radix_tables =
  fixes inv :: "'s \<Rightarrow> u64 set \<Rightarrow> bool"
    and get :: "'s \<Rightarrow> u64 \<Rightarrow> nat \<Rightarrow> u64"
    and put :: "u64 \<Rightarrow> nat \<Rightarrow> u64 \<Rightarrow> 's \<Rightarrow> 's"
    and alloc :: "'s \<Rightarrow> (u64 \<times> 's) option"
    and pres :: "u64 \<Rightarrow> bool"
    and nxt :: "u64 \<Rightarrow> u64"
    and mk :: "u64 \<Rightarrow> u64"
    and addr_ok :: "u64 \<Rightarrow> bool"
  assumes get_put: "inv s A \<Longrightarrow> b \<in> A \<Longrightarrow> i < 512 \<Longrightarrow> c \<in> A \<Longrightarrow> j < 512 \<Longrightarrow>
      get (put b i v s) c j = (if c = b \<and> j = i then v else get s c j)"
    and inv_put: "inv s A \<Longrightarrow> b \<in> A \<Longrightarrow> i < 512 \<Longrightarrow> inv (put b i v s) A"
    and alloc_fresh: "inv s A \<Longrightarrow> alloc s = Some (n, s') \<Longrightarrow> n \<notin> A \<and> addr_ok n \<and> inv s' (insert n A)"
    and alloc_zero: "inv s A \<Longrightarrow> alloc s = Some (n, s') \<Longrightarrow> i < 512 \<Longrightarrow> get s' n i = 0"
    and alloc_frame: "inv s A \<Longrightarrow> alloc s = Some (n, s') \<Longrightarrow> b \<in> A \<Longrightarrow> i < 512 \<Longrightarrow> get s' b i = get s b i"
    and zero_absent: "\<not> pres 0"
    and mk_present: "addr_ok n \<Longrightarrow> pres (mk n)"
    and nxt_mk: "addr_ok n \<Longrightarrow> nxt (mk n) = n"
begin

abbreviation node :: "'s \<Rightarrow> u64 \<Rightarrow> nat list \<Rightarrow> u64 option" where
  "node \<equiv> pt_node get pres nxt"

text \<open>The tables reachable from the root \<open>r\<close> in at most three steps are owned pages, and no
  table is reached along two paths.\<close>

definition tree :: "'s \<Rightarrow> u64 set \<Rightarrow> u64 \<Rightarrow> bool" where
  "tree s A r \<longleftrightarrow> inv s A \<and> r \<in> A
     \<and> (\<forall>p b. idx_ok p \<longrightarrow> length p \<le> 3 \<longrightarrow> node s r p = Some b \<longrightarrow> b \<in> A)
     \<and> (\<forall>p q b. idx_ok p \<longrightarrow> idx_ok q \<longrightarrow> length p \<le> 3 \<longrightarrow> length q \<le> 3 \<longrightarrow>
          node s r p = Some b \<longrightarrow> node s r q = Some b \<longrightarrow> p = q)"

text \<open>The entry that the path \<open>p\<close> and the last index \<open>j\<close> lead to; 0, which is not present, when
  a table is missing.\<close>

definition entry :: "'s \<Rightarrow> u64 \<Rightarrow> nat list \<Rightarrow> nat \<Rightarrow> u64" where
  "entry s r p j = (case node s r p of None \<Rightarrow> 0 | Some b \<Rightarrow> get s b j)"

lemma treeD:
  assumes "tree s A r"
  shows "inv s A" "r \<in> A"
    "\<And>p b. idx_ok p \<Longrightarrow> length p \<le> 3 \<Longrightarrow> node s r p = Some b \<Longrightarrow> b \<in> A"
    "\<And>p q b. idx_ok p \<Longrightarrow> idx_ok q \<Longrightarrow> length p \<le> 3 \<Longrightarrow> length q \<le> 3 \<Longrightarrow>
       node s r p = Some b \<Longrightarrow> node s r q = Some b \<Longrightarrow> p = q"
  using assms unfolding tree_def by blast+

lemma node_snoc:
  "node s r (p @ [j]) = (case node s r p of None \<Rightarrow> None
     | Some b \<Rightarrow> if pres (get s b j) then Some (nxt (get s b j)) else None)"
  by (simp add: pt_node_append split: option.splits)

text \<open>Writing a last-level entry leaves the tree as it is and changes one translation.\<close>

lemma put_leaf_node:
  assumes t: "tree s A r" and p: "idx_ok p" "length p = 3" "node s r p = Some b" and j: "j < 512"
    and q: "idx_ok q" "length q \<le> 3"
  shows "node (put b j v s) r q = node s r q"
  using q
proof (induction q rule: rev_induct)
  case (snoc k q)
  then have IH: "node (put b j v s) r q = node s r q" by simp
  show ?case
  proof (cases "node s r q")
    case None
    with IH show ?thesis by (simp add: node_snoc)
  next
    case (Some c)
    have "c \<in> A" "b \<in> A" using treeD(3) [OF t] Some p snoc.prems by auto
    moreover have "c \<noteq> b" using treeD(4) [OF t, of q p c] Some p snoc.prems by auto
    ultimately have "get (put b j v s) c k = get s c k"
      using get_put [OF treeD(1) [OF t], of b j c k v] j snoc.prems by simp
    with IH Some show ?thesis by (simp add: node_snoc)
  qed
qed simp

lemma put_leaf:
  assumes t: "tree s A r" and p: "idx_ok p" "length p = 3" "node s r p = Some b" and j: "j < 512"
  shows "tree (put b j v s) A r"
    and "idx_ok q \<Longrightarrow> length q = 3 \<Longrightarrow> k < 512 \<Longrightarrow>
      entry (put b j v s) r q k = (if q = p \<and> k = j then v else entry s r q k)"
proof -
  note n = put_leaf_node [OF t p j]
  have b: "b \<in> A" using treeD(3) [OF t] p by auto
  show "tree (put b j v s) A r"
    using t n inv_put [OF treeD(1) [OF t] b j] unfolding tree_def by simp
  show "entry (put b j v s) r q k = (if q = p \<and> k = j then v else entry s r q k)"
    if q: "idx_ok q" "length q = 3" "k < 512"
  proof (cases "node s r q")
    case None
    with n [of q] q p show ?thesis by (auto simp: entry_def)
  next
    case (Some c)
    have "c \<in> A" using treeD(3) [OF t] Some q by auto
    moreover have "c = b \<longleftrightarrow> q = p" using treeD(4) [OF t, of q p c] Some p q by auto
    ultimately show ?thesis
      using get_put [OF treeD(1) [OF t] b j, of c k v] n [of q] Some q by (auto simp: entry_def)
  qed
qed

end

definition extends :: "nat list \<Rightarrow> nat \<Rightarrow> nat list \<Rightarrow> bool" where
  "extends p i q \<longleftrightarrow> (\<exists>r. q = p @ i # r)"

lemma extends_snoc: "extends p i (q @ [k]) \<longleftrightarrow> extends p i q \<or> q = p \<and> k = i"
proof
  assume "extends p i (q @ [k])"
  then obtain r where r: "q @ [k] = p @ i # r" by (auto simp: extends_def)
  then show "extends p i q \<or> q = p \<and> k = i"
    by (cases r rule: rev_cases) (auto simp: extends_def)
qed (auto simp: extends_def)

lemma extends_not_self [simp]: "\<not> extends p i p" "\<not> extends p i []"
  by (auto simp: extends_def)

context radix_tables
begin

text \<open>One creation step: under the table at path \<open>p\<close>, entry \<open>i\<close> is absent and gets a new table.\<close>

lemma create_get:
  assumes t: "tree s A r" and b: "b \<in> A" and i: "i < 512" and a: "alloc s = Some (n, s1)"
    and c: "c \<in> insert n A" "j < 512"
  shows "get (put b i (mk n) s1) c j = (if c = b \<and> j = i then mk n else if c = n then 0 else get s c j)"
proof -
  note inv = treeD(1) [OF t]
  have "inv s1 (insert n A)" "n \<notin> A" using alloc_fresh [OF inv a] by auto
  with get_put [of s1 "insert n A" b i c j "mk n"] alloc_zero [OF inv a c(2)]
    alloc_frame [OF inv a _ c(2)] b i c show ?thesis by auto
qed

lemma create_node:
  assumes t: "tree s A r" and p: "idx_ok p" "length p \<le> 2" "node s r p = Some b"
    and i: "i < 512" "\<not> pres (get s b i)" and a: "alloc s = Some (n, s1)"
    and q: "idx_ok q" "length q \<le> 3"
  shows "node (put b i (mk n) s1) r q =
    (if extends p i q then (if q = p @ [i] then Some n else None) else node s r q)"
  using q
proof (induction q rule: rev_induct)
  case (snoc k q)
  let ?s2 = "put b i (mk n) s1"
  have b: "b \<in> A" using treeD(3) [OF t] p by auto
  note g = create_get [OF t b i(1) a]
  have fresh: "n \<notin> A" "addr_ok n" using alloc_fresh [OF treeD(1) [OF t] a] by auto
  have k: "k < 512" "idx_ok q" "length q \<le> 2" using snoc.prems by auto
  have IH: "node ?s2 r q = (if extends p i q then (if q = p @ [i] then Some n else None) else node s r q)"
    using snoc.IH k by simp
  consider (inside) "extends p i q" | (new) "q = p" "k = i" | (outside) "\<not> extends p i q" "\<not> (q = p \<and> k = i)"
    by blast
  then show ?case
  proof cases
    case inside
    have "get ?s2 n k = 0" using g [of n k] k(1) fresh(1) b by auto
    with inside IH zero_absent show ?thesis
      by (auto simp: node_snoc extends_snoc split: if_splits)
  next
    case new
    with IH p(3) g [of b i] b i(1) fresh(2) show ?thesis
      by (simp add: node_snoc extends_snoc mk_present nxt_mk)
  next
    case outside
    have "get ?s2 c k = get s c k" if "node s r q = Some c" for c
    proof -
      have "c \<in> A" using treeD(3) [OF t] that k by auto
      moreover have "c = b \<Longrightarrow> q = p" using treeD(4) [OF t, of q p c] that p k by auto
      ultimately show ?thesis using g [of c k] k(1) fresh(1) outside(2) by auto
    qed
    with outside IH show ?thesis by (auto simp: node_snoc extends_snoc split: option.splits)
  qed
qed simp

lemma create_step:
  assumes t: "tree s A r" and p: "idx_ok p" "length p \<le> 2" "node s r p = Some b"
    and i: "i < 512" "\<not> pres (get s b i)" and a: "alloc s = Some (n, s1)"
  shows "tree (put b i (mk n) s1) (insert n A) r" (is "tree ?s2 _ _")
    "node (put b i (mk n) s1) r (p @ [i]) = Some n" "nxt (get (put b i (mk n) s1) b i) = n"
    "idx_ok q \<Longrightarrow> length q = 3 \<Longrightarrow> k < 512 \<Longrightarrow> entry (put b i (mk n) s1) r q k = entry s r q k"
proof -
  have b: "b \<in> A" using treeD(3) [OF t] p by auto
  note nd = create_node [OF t p i a] and g = create_get [OF t b i(1) a]
  have fresh: "n \<notin> A" "addr_ok n" "inv s1 (insert n A)" using alloc_fresh [OF treeD(1) [OF t] a] by auto
  have inv2: "inv ?s2 (insert n A)" using inv_put [OF fresh(3)] b i(1) by simp
  show "node ?s2 r (p @ [i]) = Some n" using nd [of "p @ [i]"] p i(1) by (simp add: extends_def)
  show "nxt (get ?s2 b i) = n" using g [of b i] b i(1) fresh(2) by (simp add: nxt_mk)
  have cases: "(q = p @ [i] \<and> c = n) \<or> (\<not> extends p i q \<and> node s r q = Some c \<and> c \<in> A)"
    if "idx_ok q" "length q \<le> 3" "node ?s2 r q = Some c" for q c
    using nd [OF that(1,2)] that treeD(3) [OF t, of q c] by (auto split: if_splits)
  show "tree ?s2 (insert n A) r"
    unfolding tree_def
  proof (intro conjI allI impI inv2)
    show "r \<in> insert n A" using treeD(2) [OF t] by simp
    show "c \<in> insert n A" if "idx_ok q" "length q \<le> 3" "node ?s2 r q = Some c" for q c
      using cases [OF that] by auto
    show "q = q'" if "idx_ok q" "idx_ok q'" "length q \<le> 3" "length q' \<le> 3"
      "node ?s2 r q = Some c" "node ?s2 r q' = Some c" for q q' c
      using cases [OF that(1,3,5)] cases [OF that(2,4,6)] fresh(1) treeD(4) [OF t, of q q' c] that by auto
  qed
  show "entry ?s2 r q k = entry s r q k" if q: "idx_ok q" "length q = 3" "k < 512"
  proof (cases "extends p i q")
    case True
    then obtain q' where q': "q = (p @ [i]) @ q'" by (auto simp: extends_def)
    have "node s r (p @ [i]) = None" using p(3) i(2) by (simp add: node_snoc)
    then have "node s r q = None" unfolding q' by (subst pt_node_append) simp
    moreover have "get ?s2 n k = 0" using g [of n k] q(3) fresh(1) b by auto
    ultimately show ?thesis using nd [of q] q True by (simp add: entry_def)
  next
    case False
    have "get ?s2 c k = get s c k" if "node s r q = Some c" for c
    proof -
      have "c \<in> A" using treeD(3) [OF t] that q by auto
      moreover have "c \<noteq> b" using treeD(4) [OF t, of q p c] that p q by auto
      ultimately show ?thesis using g [of c k] q(3) fresh(1) by auto
    qed
    with nd [of q] q False show ?thesis by (auto simp: entry_def split: option.splits)
  qed
qed

text \<open>The creating walk ends in the table of the requested path and changes no translation.\<close>

lemma walk_create:
  assumes "tree s A r" "idx_ok (p @ is)" "length (p @ is) \<le> 3" "node s r p = Some b"
    "pt_walk get put alloc pres nxt mk True is b s = Some (res, s')"
  shows "\<exists>A' b'. res = Some b' \<and> tree s' A' r \<and> node s' r (p @ is) = Some b'
    \<and> (\<forall>q k. idx_ok q \<longrightarrow> length q = 3 \<longrightarrow> k < 512 \<longrightarrow> entry s' r q k = entry s r q k)"
  using assms
proof (induction "is" arbitrary: p b s A)
  case Nil
  then show ?case by (intro exI [of _ A] exI [of _ b]) simp
next
  case (Cons i "is")
  show ?case
  proof (cases "pres (get s b i)")
    case True
    with Cons.prems(4) have "node s r (p @ [i]) = Some (nxt (get s b i))" by (simp add: node_snoc)
    with Cons.IH [of s A "p @ [i]" "nxt (get s b i)"] Cons.prems True show ?thesis by simp
  next
    case False
    with Cons.prems(5) obtain n s1 where a: "alloc s = Some (n, s1)" by (cases "alloc s") auto
    have p: "idx_ok p" "length p \<le> 2" "i < 512" using Cons.prems(2,3) by auto
    note c = create_step [OF Cons.prems(1) p(1,2) Cons.prems(4) p(3) False a]
    from Cons.prems(5) False a c(3)
    have w: "pt_walk get put alloc pres nxt mk True is n (put b i (mk n) s1) = Some (res, s')"
      by (simp add: Let_def)
    from Cons.IH [of "put b i (mk n) s1" "insert n A" "p @ [i]" n, OF c(1) _ _ c(2) w] Cons.prems(2,3) c(4)
    show ?thesis by simp
  qed
qed

text \<open>The tree depends only on the entries of its pages.\<close>

lemma tree_cong:
  assumes t: "tree s A r" and inv: "inv s' B" "A \<subseteq> B" and g: "\<And>b i. b \<in> A \<Longrightarrow> i < 512 \<Longrightarrow> get s' b i = get s b i"
  shows "tree s' B r" "idx_ok q \<Longrightarrow> length q = 3 \<Longrightarrow> k < 512 \<Longrightarrow> entry s' r q k = entry s r q k"
proof -
  have nd: "node s' r p = node s r p" if "idx_ok p" "length p \<le> 3" for p
    using that
  proof (induction p rule: rev_induct)
    case (snoc i p)
    then have IH: "node s' r p = node s r p" by simp
    have "get s' b i = get s b i" if "node s r p = Some b" for b
      using g treeD(3) [OF t, of p b] that snoc.prems by simp
    with IH show ?case by (auto simp: node_snoc split: option.splits)
  qed simp
  show "tree s' B r" using t inv nd unfolding tree_def by (auto simp: subset_iff)
  show "entry s' r q k = entry s r q k" if "idx_ok q" "length q = 3" "k < 512"
    using nd [of q] that g treeD(3) [OF t, of q] by (auto simp: entry_def split: option.splits)
qed

end

end
