(* ===== verification/Paging.thy ===== *)
theory Paging
  imports Radix
begin

unbundle bit_operations_syntax

text \<open>
  Paging on x86\_64 (\<^verbatim>\<open>kernel/arch/x86_64/paging.c\<close>). Memory is a map from the physical address
  of a page to its 512 entries, as the boot mapping shows it: a virtual address at or above
  \<open>KERNEL_VMA_BASE\<close> is that much above its physical address, one below is its physical
  address (\<open>boot_phys\<close>). \<^verbatim>\<open>aligned_alloc\<close> belongs to the C library: the pages it will
  return are the list \<open>page_supply\<close> of the state, and running out of it is \<open>None\<close>. The control
  registers are fields of the state; TLB invalidations are counted.

  \<^verbatim>\<open>paging.c\<close> includes \<^verbatim>\<open>omnios_kernel.h\<close> after \<^verbatim>\<open>paging.h\<close>, and both define
  \<^verbatim>\<open>PAGE_MASK\<close>; the later definition, the 32-bit constant \<open>0xFFFFF000\<close>, is the one in force in the
  functions modelled here.
\<close>

abbreviation PTE_PRESENT :: u64 where "PTE_PRESENT \<equiv> 1"
abbreviation PTE_WRITABLE :: u64 where "PTE_WRITABLE \<equiv> 2"
abbreviation PTE_USER :: u64 where "PTE_USER \<equiv> 4"
abbreviation PTE_GLOBAL :: u64 where "PTE_GLOBAL \<equiv> 0x100"
abbreviation PTE_NX :: u64 where "PTE_NX \<equiv> 0x8000000000000000"
abbreviation PAGE_MASK :: u64 where "PAGE_MASK \<equiv> 0xFFFFF000"
abbreviation KERNEL_VMA_BASE :: u64 where "KERNEL_VMA_BASE \<equiv> 0xFFFFFFFF80000000"
abbreviation KERNEL_PML4_IDX :: nat where "KERNEL_PML4_IDX \<equiv> 511"

record paging_t =
  tables :: "u64 \<Rightarrow> nat \<Rightarrow> u64"
  page_supply :: "u64 list"
  kernel_pml4_phys :: u64
  pcid_enabled :: bool
  early_mapped :: bool
  cr3 :: u64
  cr4 :: u64
  efer :: u64
  tlb_flushes :: nat

definition phys_to_virt :: "u64 \<Rightarrow> u64" where
  "phys_to_virt phys = (if phys \<ge> KERNEL_VMA_BASE then phys else phys + KERNEL_VMA_BASE)"

definition boot_phys :: "u64 \<Rightarrow> u64" where
  "boot_phys virt = (if virt \<ge> KERNEL_VMA_BASE then virt - KERNEL_VMA_BASE else virt)"

text \<open>Reading and writing entry \<open>i\<close> of the table at physical address \<open>b\<close>.\<close>

definition get_entry :: "paging_t \<Rightarrow> u64 \<Rightarrow> nat \<Rightarrow> u64" where
  "get_entry s b i = tables s (boot_phys (phys_to_virt b)) i"

definition put_entry :: "u64 \<Rightarrow> nat \<Rightarrow> u64 \<Rightarrow> paging_t \<Rightarrow> paging_t" where
  "put_entry b i v s =
     (let a = boot_phys (phys_to_virt b) in s\<lparr>tables := (tables s)(a := (tables s a)(i := v))\<rparr>)"

definition new_table :: "paging_t \<Rightarrow> (u64 \<times> paging_t) option" where
  "new_table s = (case page_supply s of [] \<Rightarrow> None
     | n # ns \<Rightarrow> Some (n, s\<lparr>page_supply := ns, tables := (tables s)(boot_phys n := (\<lambda>_. 0))\<rparr>))"

definition pte_present :: "u64 \<Rightarrow> bool" where
  "pte_present e \<longleftrightarrow> e AND PTE_PRESENT \<noteq> 0"

definition pte_addr :: "u64 \<Rightarrow> u64" where
  "pte_addr e = e AND PAGE_MASK"

definition table_entry :: "u64 \<Rightarrow> u64" where
  "table_entry n = (n AND PAGE_MASK) OR PTE_PRESENT OR PTE_WRITABLE OR PTE_USER"

definition pt_index :: "nat \<Rightarrow> u64 \<Rightarrow> nat" where
  "pt_index shift virt = unat (drop_bit shift virt AND 0x1FF)"

definition walk :: "u64 \<Rightarrow> bool \<Rightarrow> paging_t \<Rightarrow> ((u64 \<times> nat) option \<times> paging_t) option" where
  "walk virt create s =
     (case pt_walk get_entry put_entry new_table pte_present pte_addr table_entry create
             [pt_index 39 virt, pt_index 30 virt, pt_index 21 virt] (kernel_pml4_phys s) s of
        None \<Rightarrow> None
      | Some (None, s') \<Rightarrow> Some (None, s')
      | Some (Some pt, s') \<Rightarrow> Some (Some (pt, pt_index 12 virt), s'))"

definition paging_invalidate_tlb_entry :: "u64 \<Rightarrow> paging_t \<Rightarrow> paging_t" where
  "paging_invalidate_tlb_entry virt s = s\<lparr>tlb_flushes := tlb_flushes s + 1\<rparr>"

definition paging_map_page :: "u64 \<Rightarrow> u64 \<Rightarrow> u64 \<Rightarrow> paging_t \<Rightarrow> paging_t option" where
  "paging_map_page virt phys flags s =
     (case walk virt True s of
        Some (Some (b, i), s1) \<Rightarrow>
          let pte = (phys AND PAGE_MASK) OR PTE_PRESENT OR flags;
              pte = (if phys < 0x100000000 then pte OR PTE_GLOBAL else pte)
          in Some (paging_invalidate_tlb_entry virt (put_entry b i pte s1))
      | _ \<Rightarrow> None)"

definition paging_unmap_page :: "u64 \<Rightarrow> paging_t \<Rightarrow> paging_t" where
  "paging_unmap_page virt s =
     (case walk virt False s of
        Some (Some (b, i), s1) \<Rightarrow>
          if \<not> pte_present (get_entry s1 b i) then s1
          else paging_invalidate_tlb_entry virt (put_entry b i 0 s1)
      | _ \<Rightarrow> s)"

definition paging_virt_to_phys :: "u64 \<Rightarrow> paging_t \<Rightarrow> u64" where
  "paging_virt_to_phys virt s =
     (case walk virt False s of
        Some (Some (b, i), s1) \<Rightarrow>
          if \<not> pte_present (get_entry s1 b i) then 0
          else (get_entry s1 b i AND PAGE_MASK) OR (virt AND 0xFFF)
      | _ \<Rightarrow> 0)"

text \<open>The loops over \<open>offset = 0, 4096, ... < size\<close>, \<open>n\<close> rounds left.\<close>

fun map_region_loop :: "nat \<Rightarrow> u64 \<Rightarrow> u64 \<Rightarrow> u64 \<Rightarrow> paging_t \<Rightarrow> paging_t option" where
  "map_region_loop 0 virt phys flags s = Some s"
| "map_region_loop (Suc n) virt phys flags s =
     (case paging_map_page virt phys flags s of None \<Rightarrow> None
      | Some s' \<Rightarrow> map_region_loop n (virt + PAGE_SIZE) (phys + PAGE_SIZE) flags s')"

text \<open>For \<open>size\<close> within 4095 of \<open>2 ^ 64\<close> the offset wraps before it reaches \<open>size\<close> and the loop
  never ends: \<open>None\<close>.\<close>

definition region_rounds :: "u64 \<Rightarrow> nat option" where
  "region_rounds sz = (if 2 ^ 64 - 4096 < unat sz then None else Some ((unat sz + 4095) div 4096))"

definition paging_map_region :: "u64 \<Rightarrow> u64 \<Rightarrow> u64 \<Rightarrow> u64 \<Rightarrow> paging_t \<Rightarrow> paging_t option" where
  "paging_map_region virt phys sz flags s =
     (case region_rounds sz of None \<Rightarrow> None | Some n \<Rightarrow> map_region_loop n virt phys flags s)"

fun unmap_region_loop :: "nat \<Rightarrow> u64 \<Rightarrow> paging_t \<Rightarrow> paging_t" where
  "unmap_region_loop 0 virt s = s"
| "unmap_region_loop (Suc n) virt s = unmap_region_loop n (virt + PAGE_SIZE) (paging_unmap_page virt s)"

definition paging_unmap_region :: "u64 \<Rightarrow> u64 \<Rightarrow> paging_t \<Rightarrow> paging_t option" where
  "paging_unmap_region virt sz s =
     (case region_rounds sz of None \<Rightarrow> None | Some n \<Rightarrow> Some (unmap_region_loop n virt s))"

definition paging_switch :: "u64 \<Rightarrow> paging_t \<Rightarrow> paging_t" where
  "paging_switch pml4_phys s = s\<lparr>cr3 := pml4_phys\<rparr>"

definition paging_current_pml4 :: "paging_t \<Rightarrow> u64" where
  "paging_current_pml4 s = cr3 s"

definition paging_early_map :: "u64 \<Rightarrow> u64 \<Rightarrow> paging_t \<Rightarrow> paging_t option" where
  "paging_early_map phys sz s =
     (let s' = (if \<not> early_mapped s then s\<lparr>early_mapped := True\<rparr> else s)
      in paging_map_region phys phys sz PTE_WRITABLE s')"

definition paging_enable_pcid :: "paging_t \<Rightarrow> paging_t" where
  "paging_enable_pcid s = s\<lparr>cr4 := cr4 s OR push_bit 17 1, pcid_enabled := True\<rparr>"

definition paging_invalidate_tlb :: "paging_t \<Rightarrow> paging_t" where
  "paging_invalidate_tlb s =
     (if pcid_enabled s then s\<lparr>tlb_flushes := tlb_flushes s + 1\<rparr>
      else s\<lparr>cr3 := cr3 s, tlb_flushes := tlb_flushes s + 1\<rparr>)"

definition paging_init :: "paging_t \<Rightarrow> paging_t" where
  "paging_init s =
     (let s1 = s\<lparr>kernel_pml4_phys := cr3 s AND PAGE_MASK\<rparr>;
          s2 = put_entry (kernel_pml4_phys s1) KERNEL_PML4_IDX
                 (kernel_pml4_phys s1 OR PTE_PRESENT OR PTE_WRITABLE) s1;
          s3 = s2\<lparr>efer := efer s2 OR push_bit 11 1\<rparr>;
          s4 = s3\<lparr>cr4 := cr4 s3 OR push_bit 20 1 OR push_bit 21 1\<rparr>
      in paging_invalidate_tlb (paging_enable_pcid s4))"

section \<open>Entries and addresses\<close>

definition table_addr :: "u64 \<Rightarrow> bool" where
  "table_addr n \<longleftrightarrow> n AND PAGE_MASK = n \<and> n < 0x80000000"

lemma boot_phys_virt: "n < 0x80000000 \<Longrightarrow> boot_phys (phys_to_virt n) = n"
proof -
  assume n: "n < 0x80000000"
  then have "unat n < 0x80000000" by (simp add: word_less_nat_alt)
  then have "unat (n + KERNEL_VMA_BASE) = unat n + unat KERNEL_VMA_BASE"
    by (subst unat_add_lem [THEN iffD1]) simp_all
  then have "KERNEL_VMA_BASE \<le> n + KERNEL_VMA_BASE" by (simp add: word_le_nat_alt)
  moreover have "\<not> KERNEL_VMA_BASE \<le> n" using \<open>unat n < 0x80000000\<close> by (simp add: word_le_nat_alt)
  ultimately show ?thesis by (simp add: phys_to_virt_def boot_phys_def)
qed

lemma pte_present_bit: "pte_present e \<longleftrightarrow> bit e 0"
  using and_exp_eq_0_iff_not_bit [of e 0] by (simp add: pte_present_def)

lemma page_mask_bits: "bit PAGE_MASK n \<longleftrightarrow> 12 \<le> n \<and> n < 32"
proof -
  have m: "PAGE_MASK = mask 32 AND NOT (mask 12)" by (simp add: mask_eq_exp_minus_1)
  show ?thesis unfolding m by (auto simp: bit_simps)
qed

lemma small_bits: "bit (7 :: u64) n \<longleftrightarrow> n < 3"
proof -
  have m: "(7 :: u64) = mask 3" by (simp add: mask_eq_exp_minus_1)
  show ?thesis unfolding m by (auto simp: bit_simps)
qed

lemma table_entry_7: "table_entry n = (n AND PAGE_MASK) OR 7"
  by (simp add: table_entry_def or.assoc)

lemma table_entry_ok:
  assumes "table_addr n"
  shows "pte_present (table_entry n)" "pte_addr (table_entry n) = n"
proof -
  show "pte_present (table_entry n)" by (simp add: pte_present_bit table_entry_7 bit_simps small_bits)
  have "((n AND PAGE_MASK) OR 7) AND PAGE_MASK = n AND PAGE_MASK"
    by (rule bit_eqI) (auto simp only: bit_and_iff bit_or_iff page_mask_bits small_bits)
  then show "pte_addr (table_entry n) = n" using assms by (simp add: pte_addr_def table_entry_7 table_addr_def)
qed

text \<open>What the code relies on of \<^verbatim>\<open>aligned_alloc\<close>: it returns page-aligned pages that nothing else
  uses; that they lie below 2 GB is needed for the tables to be reachable through
  \<^verbatim>\<open>phys_to_virt\<close>. \<open>A\<close> are the pages used as tables.\<close>

definition paging_inv :: "paging_t \<Rightarrow> u64 set \<Rightarrow> bool" where
  "paging_inv s A \<longleftrightarrow> (\<forall>n\<in>A \<union> set (page_supply s). table_addr n) \<and> distinct (page_supply s)
     \<and> A \<inter> set (page_supply s) = {}"

lemma table_addr_phys: "table_addr n \<Longrightarrow> boot_phys (phys_to_virt n) = n" "table_addr n \<Longrightarrow> boot_phys n = n"
proof -
  assume n: "table_addr n"
  then show "boot_phys (phys_to_virt n) = n" by (simp add: table_addr_def boot_phys_virt)
  from n have "\<not> KERNEL_VMA_BASE \<le> n" by (simp add: table_addr_def word_le_nat_alt word_less_nat_alt)
  then show "boot_phys n = n" by (simp add: boot_phys_def)
qed

interpretation xt: radix_tables paging_inv get_entry put_entry new_table pte_present pte_addr table_entry table_addr
proof
  fix s A b i c j v
  assume inv: "paging_inv s A" and b: "b \<in> A" and i: "i < (512 :: nat)"
  then have "table_addr b" by (auto simp: paging_inv_def)
  show "paging_inv (put_entry b i v s) A" using inv by (simp add: paging_inv_def put_entry_def Let_def)
  assume "c \<in> A" "j < (512 :: nat)"
  with inv have "table_addr c" by (auto simp: paging_inv_def)
  with \<open>table_addr b\<close> show "get_entry (put_entry b i v s) c j = (if c = b \<and> j = i then v else get_entry s c j)"
    by (simp add: get_entry_def put_entry_def Let_def table_addr_phys)
next
  fix s A n s'
  assume inv: "paging_inv s A" and a: "new_table s = Some (n, s')"
  then obtain ns where s: "page_supply s = n # ns" "s' = s\<lparr>page_supply := ns, tables := (tables s)(boot_phys n := (\<lambda>_. 0))\<rparr>"
    by (auto simp: new_table_def split: list.splits)
  have n: "table_addr n" "n \<notin> A" using inv s by (auto simp: paging_inv_def)
  show "n \<notin> A \<and> table_addr n \<and> paging_inv s' (insert n A)" using inv s n by (auto simp: paging_inv_def)
  show "get_entry s' n i = 0" for i using n(1) by (simp add: s get_entry_def table_addr_phys)
  show "get_entry s' b i = get_entry s b i" if "b \<in> A" for b i
  proof -
    from inv that have "table_addr b" by (auto simp: paging_inv_def)
    moreover from that n(2) have "b \<noteq> n" by auto
    ultimately show ?thesis using n(1) by (simp add: s get_entry_def table_addr_phys)
  qed
next
  show "\<not> pte_present 0" by (simp add: pte_present_def)
  show "pte_present (table_entry n)" "pte_addr (table_entry n) = n" if "table_addr n" for n
    using that by (simp_all add: table_entry_ok)
qed

section \<open>Translations\<close>

definition pt_path :: "u64 \<Rightarrow> nat list" where
  "pt_path virt = [pt_index 39 virt, pt_index 30 virt, pt_index 21 virt]"

text \<open>The last-level entry the tables hold for an address, 0 when there is none.\<close>

definition pte_of :: "paging_t \<Rightarrow> u64 \<Rightarrow> u64" where
  "pte_of s virt = xt.entry s (kernel_pml4_phys s) (pt_path virt) (pt_index 12 virt)"

text \<open>The tables form a tree rooted at the PML4.\<close>

definition paging_ok :: "paging_t \<Rightarrow> bool" where
  "paging_ok s \<longleftrightarrow> (\<exists>A. xt.tree s A (kernel_pml4_phys s))"

lemma pt_index_less: "pt_index sh v < 512"
proof -
  have m: "(0x1FF :: u64) = mask 9" by (simp add: mask_eq_exp_minus_1)
  have "pt_index sh v = unat (take_bit 9 (drop_bit sh v))"
    unfolding pt_index_def m by (simp add: take_bit_eq_mask)
  also have "\<dots> < 2 ^ 9" by (simp add: unsigned_take_bit_eq take_bit_nat_def)
  finally show ?thesis by simp
qed

lemma pt_path_ok [simp]: "idx_ok (pt_path v)" "length (pt_path v) = 3"
  by (simp_all add: pt_path_def pt_index_less)

lemma walk_path:
  "walk virt create s = (case pt_walk get_entry put_entry new_table pte_present pte_addr table_entry create
      (pt_path virt) (kernel_pml4_phys s) s of None \<Rightarrow> None
      | Some (None, s') \<Rightarrow> Some (None, s') | Some (Some pt, s') \<Rightarrow> Some (Some (pt, pt_index 12 virt), s'))"
  by (simp add: walk_def pt_path_def)

lemma pt_walk_root:
  "pt_walk get_entry put_entry new_table pte_present pte_addr table_entry c p b s = Some (res, s')
   \<Longrightarrow> kernel_pml4_phys s' = kernel_pml4_phys s"
proof (induction p arbitrary: b s)
  case (Cons i p)
  show ?case
  proof (cases "pte_present (get_entry s b i)")
    case True
    with Cons show ?thesis by simp
  next
    case False
    show ?thesis
    proof (cases "c \<and> new_table s \<noteq> None")
      case True
      then obtain n s1 where n: "new_table s = Some (n, s1)" by auto
      let ?s2 = "put_entry b i (table_entry n) s1"
      from Cons.prems False True n have "pt_walk get_entry put_entry new_table pte_present pte_addr table_entry c p
          (pte_addr (get_entry ?s2 b i)) ?s2 = Some (res, s')" by (simp add: Let_def)
      from Cons.IH [OF this] n show ?thesis
        by (auto simp: new_table_def put_entry_def Let_def split: list.splits)
    qed (use Cons.prems False in \<open>auto split: if_splits option.splits\<close>)
  qed
qed simp

lemma walk_lookup:
  "walk virt False s = Some (case xt.node s (kernel_pml4_phys s) (pt_path virt) of
      None \<Rightarrow> None | Some b \<Rightarrow> Some (b, pt_index 12 virt), s)"
  by (simp add: walk_path pt_walk_lookup split: option.splits)

lemma virt_to_phys_pte:
  "paging_virt_to_phys virt s =
     (if pte_present (pte_of s virt) then (pte_of s virt AND PAGE_MASK) OR (virt AND 0xFFF) else 0)"
  by (simp add: paging_virt_to_phys_def walk_lookup pte_of_def xt.entry_def pte_present_def
      split: option.splits)

definition leaf_pte :: "u64 \<Rightarrow> u64 \<Rightarrow> u64" where
  "leaf_pte phys flags = (let pte = (phys AND PAGE_MASK) OR PTE_PRESENT OR flags
     in if phys < 0x100000000 then pte OR PTE_GLOBAL else pte)"

lemma map_page_pte:
  assumes ok: "paging_ok s" and m: "paging_map_page virt phys flags s = Some s'"
  shows "paging_ok s'" "kernel_pml4_phys s' = kernel_pml4_phys s"
    "pte_of s' v = (if pt_path v = pt_path virt \<and> pt_index 12 v = pt_index 12 virt
       then leaf_pte phys flags else pte_of s v)"
proof -
  let ?r = "kernel_pml4_phys s"
  from ok obtain A where t: "xt.tree s A ?r" by (auto simp: paging_ok_def)
  from m obtain b s1 where w: "pt_walk get_entry put_entry new_table pte_present pte_addr table_entry True
      (pt_path virt) ?r s = Some (Some b, s1)"
    and s': "s' = paging_invalidate_tlb_entry virt (put_entry b (pt_index 12 virt) (leaf_pte phys flags) s1)"
    by (auto simp: paging_map_page_def walk_path leaf_pte_def Let_def split: option.splits)
  from xt.walk_create [of s A ?r "[]" "pt_path virt" ?r, OF t _ _ _ w] obtain A' where
    t1: "xt.tree s1 A' ?r" "xt.node s1 ?r (pt_path virt) = Some b"
    and e1: "\<And>q k. idx_ok q \<Longrightarrow> length q = 3 \<Longrightarrow> k < 512 \<Longrightarrow> xt.entry s1 ?r q k = xt.entry s ?r q k"
    by auto
  let ?s2 = "put_entry b (pt_index 12 virt) (leaf_pte phys flags) s1"
  have r1: "kernel_pml4_phys s1 = ?r" using pt_walk_root [OF w] .
  have r2: "kernel_pml4_phys ?s2 = ?r" by (simp add: put_entry_def Let_def r1)
  note leaf = xt.put_leaf [OF t1(1) pt_path_ok t1(2) pt_index_less [of 12 virt], where v = "leaf_pte phys flags"]
  have inv: "xt.node s' r p = xt.node ?s2 r p" "get_entry s' = get_entry ?s2" "paging_inv s' = paging_inv ?s2" for r p
  proof -
    show g: "get_entry s' = get_entry ?s2" by (simp add: s' paging_invalidate_tlb_entry_def get_entry_def fun_eq_iff)
    show "xt.node s' r p = xt.node ?s2 r p" by (induction p arbitrary: r) (simp_all add: g)
    show "paging_inv s' = paging_inv ?s2" by (simp add: s' paging_invalidate_tlb_entry_def paging_inv_def fun_eq_iff)
  qed
  show root: "kernel_pml4_phys s' = kernel_pml4_phys s" by (simp add: s' paging_invalidate_tlb_entry_def r2)
  have "xt.tree s' A' ?r" using leaf(1) by (simp add: xt.tree_def inv)
  then show "paging_ok s'" unfolding paging_ok_def root by blast
  show "pte_of s' v = (if pt_path v = pt_path virt \<and> pt_index 12 v = pt_index 12 virt
       then leaf_pte phys flags else pte_of s v)"
  proof -
    have "xt.entry s' ?r (pt_path v) (pt_index 12 v) = xt.entry ?s2 ?r (pt_path v) (pt_index 12 v)"
      by (simp only: xt.entry_def inv)
    with leaf(2) [of "pt_path v" "pt_index 12 v"] e1 [of "pt_path v" "pt_index 12 v"] show ?thesis
      by (simp add: pte_of_def root pt_index_less)
  qed
qed

lemma pt_walk_total:
  "length p \<le> length (page_supply s) \<Longrightarrow> \<exists>b s'.
     pt_walk get_entry put_entry new_table pte_present pte_addr table_entry True p r s = Some (Some b, s')"
proof (induction p arbitrary: r s)
  case (Cons i p)
  show ?case
  proof (cases "pte_present (get_entry s r i)")
    case True
    with Cons show ?thesis by simp
  next
    case False
    from Cons.prems obtain n ns where ns: "page_supply s = n # ns" by (cases "page_supply s") auto
    let ?s1 = "s\<lparr>page_supply := ns, tables := (tables s)(boot_phys n := (\<lambda>_. 0))\<rparr>"
    let ?s2 = "put_entry r i (table_entry n) ?s1"
    have "length p \<le> length (page_supply ?s2)" using Cons.prems ns by (simp add: put_entry_def Let_def)
    from Cons.IH [OF this, of "pte_addr (get_entry ?s2 r i)"] False ns show ?thesis
      by (simp add: new_table_def Let_def)
  qed
qed simp

lemma map_page_total: "3 \<le> length (page_supply s) \<Longrightarrow> \<exists>s'. paging_map_page virt phys flags s = Some s'"
  using pt_walk_total [of "pt_path virt" s "kernel_pml4_phys s"]
  by (auto simp: paging_map_page_def walk_path Let_def)

lemma unmap_page_pte:
  assumes ok: "paging_ok s"
  shows "paging_ok (paging_unmap_page virt s)" "kernel_pml4_phys (paging_unmap_page virt s) = kernel_pml4_phys s"
    "pte_present (pte_of (paging_unmap_page virt s) v) \<longleftrightarrow>
      pte_present (pte_of s v) \<and> \<not> (pt_path v = pt_path virt \<and> pt_index 12 v = pt_index 12 virt)"
    "pt_path v \<noteq> pt_path virt \<or> pt_index 12 v \<noteq> pt_index 12 virt \<Longrightarrow> pte_of (paging_unmap_page virt s) v = pte_of s v"
proof -
  let ?r = "kernel_pml4_phys s" and ?s' = "paging_unmap_page virt s"
  from ok obtain A where t: "xt.tree s A ?r" by (auto simp: paging_ok_def)
  have "paging_ok ?s' \<and> kernel_pml4_phys ?s' = ?r \<and>
    pte_of ?s' v = (if pt_path v = pt_path virt \<and> pt_index 12 v = pt_index 12 virt \<and> pte_present (pte_of s v)
      then 0 else pte_of s v)" for v
  proof (cases "pte_present (pte_of s virt)")
    case False
    then have "?s' = s" by (auto simp: paging_unmap_page_def walk_lookup pte_of_def xt.entry_def split: option.splits)
    moreover have "pte_of s v = pte_of s virt" if "pt_path v = pt_path virt" "pt_index 12 v = pt_index 12 virt"
      using that by (simp add: pte_of_def)
    ultimately show ?thesis using ok False by auto
  next
    case True
    then obtain b where b: "xt.node s ?r (pt_path virt) = Some b" "pte_present (get_entry s b (pt_index 12 virt))"
      by (auto simp: pte_of_def xt.entry_def pte_present_def split: option.splits)
    let ?s2 = "put_entry b (pt_index 12 virt) 0 s"
    have s': "?s' = paging_invalidate_tlb_entry virt ?s2"
      using b by (simp add: paging_unmap_page_def walk_lookup)
    note leaf = xt.put_leaf [OF t pt_path_ok b(1) pt_index_less [of 12 virt], where v = 0]
    have g: "get_entry ?s' = get_entry ?s2" "paging_inv ?s' = paging_inv ?s2" "kernel_pml4_phys ?s' = ?r"
      by (simp_all add: s' paging_invalidate_tlb_entry_def get_entry_def paging_inv_def put_entry_def Let_def fun_eq_iff)
    have nd: "xt.node ?s' r p = xt.node ?s2 r p" for r p by (induction p arbitrary: r) (simp_all add: g)
    have "xt.tree ?s' A ?r" using leaf(1) by (simp add: xt.tree_def g nd)
    moreover have "xt.entry ?s' ?r (pt_path v) (pt_index 12 v) = xt.entry ?s2 ?r (pt_path v) (pt_index 12 v)"
      by (simp only: xt.entry_def g nd)
    moreover have "pte_of s v = pte_of s virt" if "pt_path v = pt_path virt" "pt_index 12 v = pt_index 12 virt"
      using that by (simp add: pte_of_def)
    ultimately show ?thesis using leaf(2) [of "pt_path v" "pt_index 12 v"] True
      by (auto simp: paging_ok_def pte_of_def g(3) pt_index_less)
  qed
  note all = this
  show "paging_ok ?s'" "kernel_pml4_phys ?s' = ?r" using all by blast+
  show "pte_present (pte_of ?s' v) \<longleftrightarrow>
      pte_present (pte_of s v) \<and> \<not> (pt_path v = pt_path virt \<and> pt_index 12 v = pt_index 12 virt)"
    using all [of v] xt.zero_absent by auto
  show "pte_of ?s' v = pte_of s v" if "pt_path v \<noteq> pt_path virt \<or> pt_index 12 v \<noteq> pt_index 12 virt"
    using all [of v] that by auto
qed

section \<open>Pages\<close>

text \<open>Two addresses lie in the same page of the 48-bit address space.\<close>

definition same_page :: "u64 \<Rightarrow> u64 \<Rightarrow> bool" where
  "same_page v w \<longleftrightarrow> take_bit 36 (drop_bit 12 v) = take_bit 36 (drop_bit 12 w)"

lemma take_drop_eq:
  "take_bit k (drop_bit sh (v :: u64)) = take_bit k (drop_bit sh w) \<longleftrightarrow> (\<forall>n<k. bit v (sh + n) = bit w (sh + n))"
proof
  assume eq: "take_bit k (drop_bit sh v) = take_bit k (drop_bit sh w)"
  show "\<forall>n<k. bit v (sh + n) = bit w (sh + n)"
  proof (intro allI impI)
    fix n
    assume "n < k"
    have "bit (take_bit k (drop_bit sh v)) n = bit (take_bit k (drop_bit sh w)) n" by (simp only: eq)
    with \<open>n < k\<close> show "bit v (sh + n) = bit w (sh + n)" by (simp add: bit_take_bit_iff bit_drop_bit_eq)
  qed
next
  assume "\<forall>n<k. bit v (sh + n) = bit w (sh + n)"
  then show "take_bit k (drop_bit sh v) = take_bit k (drop_bit sh w)"
    by (intro bit_eqI) (auto simp: bit_take_bit_iff bit_drop_bit_eq)
qed

lemma pt_index_eq: "pt_index sh v = pt_index sh w \<longleftrightarrow> (\<forall>n<9. bit v (sh + n) = bit w (sh + n))"
proof -
  have m: "(0x1FF :: u64) = mask 9" by (simp add: mask_eq_exp_minus_1)
  have "pt_index sh v = pt_index sh w \<longleftrightarrow> take_bit 9 (drop_bit sh v) = take_bit 9 (drop_bit sh w)"
    unfolding pt_index_def m by (simp add: take_bit_eq_mask word_unat_eq_iff)
  then show ?thesis by (simp only: take_drop_eq)
qed

lemma all_36: "(\<forall>n<36. P (12 + n)) \<longleftrightarrow>
  (\<forall>n<9. P (39 + n)) \<and> (\<forall>n<9. P (30 + n)) \<and> (\<forall>n<9. P (21 + n)) \<and> (\<forall>n<9. P (12 + n :: nat))"
proof
  assume a: "\<forall>n<36. P (12 + n)"
  have "P (39 + n)" "P (30 + n)" "P (21 + n)" "P (12 + n)" if "n < 9" for n
    using that a [rule_format, of "27 + n"] a [rule_format, of "18 + n"] a [rule_format, of "9 + n"]
      a [rule_format, of n] by simp_all
  then show "(\<forall>n<9. P (39 + n)) \<and> (\<forall>n<9. P (30 + n)) \<and> (\<forall>n<9. P (21 + n)) \<and> (\<forall>n<9. P (12 + n))" by blast
next
  assume a: "(\<forall>n<9. P (39 + n)) \<and> (\<forall>n<9. P (30 + n)) \<and> (\<forall>n<9. P (21 + n)) \<and> (\<forall>n<9. P (12 + n))"
  have "P (12 + n)" if n36: "n < 36" for n
  proof -
    consider "n < 9" | "9 \<le> n" "n < 18" | "18 \<le> n" "n < 27" | "27 \<le> n" "n < 36"
      using n36 by linarith
    then show ?thesis
    proof cases
      case 1
      then show ?thesis using a by blast
    next
      case 2
      from a have "\<forall>n<9. P (21 + n)" by blast
      from this [rule_format, of "n - 9"] 2 show ?thesis by simp
    next
      case 3
      from a have "\<forall>n<9. P (30 + n)" by blast
      from this [rule_format, of "n - 18"] 3 show ?thesis by simp
    next
      case 4
      from a have "\<forall>n<9. P (39 + n)" by blast
      from this [rule_format, of "n - 27"] 4 show ?thesis by simp
    qed
  qed
  then show "\<forall>n<36. P (12 + n)" by blast
qed

lemma same_page_indices: "same_page v w \<longleftrightarrow> pt_path v = pt_path w \<and> pt_index 12 v = pt_index 12 w"
  unfolding same_page_def take_drop_eq pt_path_def all_36 [of "\<lambda>n. bit v n = bit w n"]
  by (simp add: pt_index_eq)

lemma map_page_translate:
  assumes ok: "paging_ok s" and m: "paging_map_page virt phys flags s = Some s'"
    and phys: "phys AND PAGE_MASK = phys" and flags: "flags AND PAGE_MASK = 0"
  shows "paging_ok s'"
    "paging_virt_to_phys v s' = (if same_page v virt then phys OR (v AND 0xFFF) else paging_virt_to_phys v s)"
    "paging_virt_to_phys v (paging_unmap_page virt s') = (if same_page v virt then 0 else paging_virt_to_phys v s)"
proof -
  note mp = map_page_pte [OF ok m]
  note um = unmap_page_pte [OF mp(1), where virt = virt]
  from mp(1) show "paging_ok s'" .
  have pres: "pte_present (leaf_pte phys flags)"
    by (simp add: leaf_pte_def pte_present_bit bit_or_iff Let_def)
  have g: "bit PTE_GLOBAL n \<longleftrightarrow> n = 8" for n
    using bit_exp_iff [of 8 n, where 'a = u64] bit_imp_le_length by (auto simp: bit_simps)
  have f: "\<not> bit flags n" if "12 \<le> n" "n < 32" for n
  proof -
    have "\<not> bit (flags AND PAGE_MASK) n" by (simp add: flags)
    with that show ?thesis by (simp only: bit_and_iff page_mask_bits) simp
  qed
  have "leaf_pte phys flags AND PAGE_MASK = phys AND PAGE_MASK"
    by (rule bit_eqI) (auto simp only: leaf_pte_def Let_def bit_and_iff bit_or_iff page_mask_bits bit_1_iff g
        split: if_splits dest: f)
  then have addr: "leaf_pte phys flags AND PAGE_MASK = phys" by (simp only: phys)
  show t1: "paging_virt_to_phys v s' = (if same_page v virt then phys OR (v AND 0xFFF) else paging_virt_to_phys v s)"
    using mp(3) [of v] pres addr by (simp add: virt_to_phys_pte same_page_indices)
  show "paging_virt_to_phys v (paging_unmap_page virt s') = (if same_page v virt then 0 else paging_virt_to_phys v s)"
    using um(3) [of v] um(4) [of v] t1 by (auto simp: virt_to_phys_pte same_page_indices)
qed


definition demo_paging :: paging_t where
  "demo_paging = \<lparr>tables = (\<lambda>_ _. 0), page_supply = [0x2000, 0x3000, 0x4000, 0x5000, 0x6000, 0x7000], kernel_pml4_phys = 0x1000,
     pcid_enabled = False, early_mapped = False, cr3 = 0x1000, cr4 = 0, efer = 0, tlb_flushes = 0\<rparr>"

lemma empty_tables_ok:
  assumes "tables s = (\<lambda>_ _. 0)" "paging_inv s {kernel_pml4_phys s}"
  shows "paging_ok s"
proof -
  have "pt_node get_entry pte_present pte_addr s b p = (if p = [] then Some b else None)" for b p
    using assms(1) by (cases p) (simp_all add: get_entry_def pte_present_def)
  with assms(2) show ?thesis
    unfolding paging_ok_def xt.tree_def by (intro exI [of _ "{kernel_pml4_phys s}"]) (auto split: if_splits)
qed

lemma demo_paging_ok: "paging_ok demo_paging"
  by (rule empty_tables_ok) (auto simp: demo_paging_def paging_inv_def table_addr_def)


text \<open>The macro in force in this file keeps 20 address bits: a page at 4 GB is mapped to page 0.\<close>

lemma map_page_above_4g:
  "map_option (paging_virt_to_phys 0x400000) (paging_map_page 0x400000 0x100000000 3 demo_paging) = Some 0"
  by code_simp

text \<open>\<^verbatim>\<open>paging_init\<close> overwrites the PML4 entry through which the kernel image is mapped with an entry that
  points to the PML4 itself.\<close>

lemma paging_init_self_map:
  assumes "table_addr (cr3 s AND PAGE_MASK)"
  shows "get_entry (paging_init s) (cr3 s AND PAGE_MASK) 511 = cr3 s AND PAGE_MASK OR PTE_PRESENT OR PTE_WRITABLE"
    "kernel_pml4_phys (paging_init s) = cr3 s AND PAGE_MASK"
  using assms by (simp_all add: paging_init_def paging_invalidate_tlb_def paging_enable_pcid_def Let_def get_entry_def
      put_entry_def)

section \<open>Regions\<close>

lemma pt_walk_supply:
  "pt_walk get_entry put_entry new_table pte_present pte_addr table_entry c p r s = Some (b, s') \<Longrightarrow>
     length (page_supply s) \<le> length (page_supply s') + length p"
proof (induction p arbitrary: r s)
  case (Cons i p)
  show ?case
  proof (cases "pte_present (get_entry s r i)")
    case True
    with Cons.prems Cons.IH show ?thesis by fastforce
  next
    case absent: False
    show ?thesis
    proof (cases "c \<and> page_supply s \<noteq> []")
      case True
      then obtain n ns where ns: "page_supply s = n # ns" by (cases "page_supply s") auto
      let ?s1 = "s\<lparr>page_supply := ns, tables := (tables s)(boot_phys n := (\<lambda>_. 0))\<rparr>"
      let ?s2 = "put_entry r i (table_entry n) ?s1"
      have "new_table s = Some (n, ?s1)" by (simp add: new_table_def ns)
      then have "pt_walk get_entry put_entry new_table pte_present pte_addr table_entry c p
          (pte_addr (get_entry ?s2 r i)) ?s2 = Some (b, s')"
        using Cons.prems absent True by (simp add: Let_def)
      from Cons.IH [OF this] show ?thesis by (simp add: ns put_entry_def Let_def)
    next
      case False
      with Cons.prems absent show ?thesis by (auto simp: new_table_def split: if_splits)
    qed
  qed
qed simp

lemma map_page_supply:
  assumes "paging_map_page virt phys flags s = Some s'"
  shows "length (page_supply s) \<le> length (page_supply s') + 3"
proof -
  from assms obtain b s1 where w: "pt_walk get_entry put_entry new_table pte_present pte_addr table_entry True
      (pt_path virt) (kernel_pml4_phys s) s = Some (Some b, s1)"
    and s': "page_supply s' = page_supply s1"
    by (auto simp: paging_map_page_def walk_path paging_invalidate_tlb_entry_def put_entry_def Let_def
        split: option.splits)
  from pt_walk_supply [OF w] s' show ?thesis by simp
qed

lemma unat_u64_less: "unat (v :: u64) < 2 ^ 64"
  using unsigned_less [of v] by simp

lemma same_page_numbers: "same_page v w \<longleftrightarrow> unat v div 4096 mod 2 ^ 36 = unat w div 4096 mod 2 ^ 36"
  unfolding same_page_def using unat_u64_less [of v] unat_u64_less [of w]
  by (simp add: word_unat_eq_iff unsigned_take_bit_eq unsigned_drop_bit_eq take_bit_nat_def drop_bit_nat_def
      take_bit_word_eq_self)

lemma unat_add_off:
  assumes "4096 dvd unat (a :: u64)" "off < 4096"
  shows "unat (a + off) = unat a + unat off"
proof -
  from assms(1) obtain q where q: "unat a = 4096 * q" by (auto elim: dvdE)
  have "4096 * q < 4096 * 2 ^ 52" using unat_u64_less [of a] q by simp
  then have "q + 1 \<le> 2 ^ 52" by simp
  then have "4096 * q + 4096 \<le> 4096 * 2 ^ 52" by linarith
  with assms(2) q show ?thesis by (simp add: unat_word_ariths word_less_nat_alt)
qed

lemma or_low_bits:
  assumes "4096 dvd unat (a :: u64)" "off < 4096"
  shows "a OR off = a + off" "(a + off) AND 0xFFF = off"
proof -
  have m: "(0xFFF :: u64) = mask 12" by (simp add: mask_eq_exp_minus_1)
  have ta: "take_bit 12 a = 0" using assms(1) by (simp add: word_unat_eq_iff unat_take_bit_12 dvd_imp_mod_0)
  have to: "take_bit 12 off = off"
    using assms(2) by (simp add: word_unat_eq_iff unat_take_bit_12 word_less_nat_alt)
  have "n < 12" if "bit off n" for n
    using that to by (metis bit_take_bit_iff)
  moreover have "\<not> bit a n" if "n < 12" for n
  proof -
    have "\<not> bit (take_bit 12 a) n" by (simp add: ta)
    with that show ?thesis by (simp add: bit_take_bit_iff)
  qed
  ultimately have "a AND off = 0" by (intro bit_eqI) (auto simp: bit_and_iff)
  then show "a OR off = a + off" by (simp add: disjunctive_add_eq_or)
  have "unat (take_bit 12 (a + off)) = unat off"
    using assms by (auto simp: unat_take_bit_12 unat_add_off word_less_nat_alt elim!: dvdE)
  then show "(a + off) AND 0xFFF = off" unfolding m by (simp add: word_unat_eq_iff flip: take_bit_eq_mask)
qed

lemma same_page_off: "4096 dvd unat virt \<Longrightarrow> off < 4096 \<Longrightarrow> same_page (virt + off) virt"
  by (auto simp: same_page_numbers unat_add_off word_less_nat_alt elim!: dvdE)

lemma phys_masked:
  assumes "4096 dvd unat (phys :: u64)" "unat phys < 2 ^ 32"
  shows "phys AND PAGE_MASK = phys"
proof (rule bit_eqI)
  fix n
  have t: "take_bit 12 phys = 0" "take_bit 32 phys = phys"
    using assms by (simp_all add: word_unat_eq_iff unsigned_take_bit_eq take_bit_nat_def dvd_imp_mod_0)
  have "bit phys n \<Longrightarrow> n < 32" by (metis t(2) bit_take_bit_iff)
  moreover have "bit phys n \<Longrightarrow> 12 \<le> n" 
  proof (rule ccontr)
    assume "bit phys n" "\<not> 12 \<le> n"
    then have "bit (take_bit 12 phys) n" by (simp add: bit_take_bit_iff)
    then show False by (simp add: t)
  qed
  ultimately show "bit (phys AND PAGE_MASK) n = bit phys n"
    by (auto simp only: bit_and_iff page_mask_bits)
qed

lemma later_page_differs:
  assumes v: "4096 dvd unat (virt :: u64)" "unat virt + (n + 1) * 4096 \<le> 2 ^ 64" "n < 2 ^ 20"
    and j: "0 < j" "j \<le> n" and off: "off < 4096"
  shows "\<not> same_page (virt + off) (virt + of_nat j * PAGE_SIZE)"
proof -
  have o: "unat off < 4096" using off by (simp add: word_less_nat_alt)
  have nj: "unat (of_nat j * PAGE_SIZE) = j * 4096"
    using v(3) j(2) by (simp add: unat_word_ariths unat_of_nat take_bit_nat_def)
  have u: "unat (virt + off) = unat virt + unat off"
    using v(2) o by (simp add: unat_word_ariths)
  have w: "unat (virt + of_nat j * PAGE_SIZE) = unat virt + j * 4096"
    using v(2) j(2) nj by (simp add: unat_word_ariths(1))
  from v(1) obtain q where q: "unat virt = 4096 * q" by (auto elim: dvdE)
  have "(4096 * q + unat off) div 4096 = q" using o by simp
  moreover have "(4096 * q + j * 4096) div 4096 = q + j" by simp
  moreover have "q mod 2 ^ 36 \<noteq> (q + j) mod 2 ^ 36"
  proof
    assume "q mod 2 ^ 36 = (q + j) mod 2 ^ 36"
    then have "2 ^ 36 dvd j" by (metis add_diff_cancel_left' le_add1 mod_eq_dvd_iff_nat)
    then have "2 ^ 36 \<le> j" using j(1) by (rule dvd_imp_le)
    with j(2) v(3) show False by simp
  qed
  ultimately show ?thesis unfolding same_page_numbers u w q by simp
qed

lemma map_region_loop_ok:
  assumes "paging_ok s" "3 * n \<le> length (page_supply s)" "4096 dvd unat virt" "unat virt + n * 4096 \<le> 2 ^ 64"
    "4096 dvd unat phys" "unat phys + n * 4096 \<le> 2 ^ 32" "flags AND PAGE_MASK = 0"
  shows "\<exists>s'. map_region_loop n virt phys flags s = Some s' \<and> paging_ok s'
    \<and> (\<forall>k<n. \<forall>off<4096. paging_virt_to_phys (virt + of_nat k * PAGE_SIZE + off) s' = phys + of_nat k * PAGE_SIZE + off)
    \<and> (\<forall>v. (\<forall>k<n. \<not> same_page v (virt + of_nat k * PAGE_SIZE)) \<longrightarrow> paging_virt_to_phys v s' = paging_virt_to_phys v s)"
  using assms
proof (induction n arbitrary: virt phys s)
  case 0
  then show ?case by simp
next
  case (Suc n)
  let ?virt = "virt + PAGE_SIZE" and ?phys = "phys + PAGE_SIZE"
  have mask: "phys AND PAGE_MASK = phys" using Suc.prems(5,6) by (intro phys_masked) auto
  from Suc.prems(2) map_page_total obtain s1 where m: "paging_map_page virt phys flags s = Some s1" by fastforce
  note t = map_page_translate [OF Suc.prems(1) m mask Suc.prems(7)]
  have n: "n < 2 ^ 20" using Suc.prems(6) by simp
  have nowrap: "unat ?phys = unat phys + 4096" using Suc.prems(6) by (simp add: unat_word_ariths)
  have uv: "unat ?virt = (if unat virt + 4096 = 2 ^ 64 then 0 else unat virt + 4096)"
    using Suc.prems(4) by (auto simp: unat_word_ariths)
  have step: "4096 dvd unat ?virt" "unat ?virt + n * 4096 \<le> 2 ^ 64" "4096 dvd unat ?phys" "unat ?phys + n * 4096 \<le> 2 ^ 32"
    using Suc.prems(3-6) by (auto simp: uv nowrap)
  have room: "3 * n \<le> length (page_supply s1)" using Suc.prems(2) map_page_supply [OF m] by simp
  from Suc.IH [OF t(1) room step Suc.prems(7)] obtain s' where
    s': "map_region_loop n ?virt ?phys flags s1 = Some s'" "paging_ok s'"
    and in_rest: "\<And>k off. k < n \<Longrightarrow> off < 4096 \<Longrightarrow>
      paging_virt_to_phys (?virt + of_nat k * PAGE_SIZE + off) s' = ?phys + of_nat k * PAGE_SIZE + off"
    and out: "\<And>v. (\<And>k. k < n \<Longrightarrow> \<not> same_page v (?virt + of_nat k * PAGE_SIZE)) \<Longrightarrow>
      paging_virt_to_phys v s' = paging_virt_to_phys v s1"
    by blast
  have shift: "a + of_nat (Suc k) * PAGE_SIZE = a + PAGE_SIZE + of_nat k * PAGE_SIZE" for a :: u64 and k
    by (simp add: algebra_simps)
  have first: "paging_virt_to_phys (virt + off) s' = phys + off" if off: "off < 4096" for off
  proof -
    have "\<not> same_page (virt + off) (?virt + of_nat k * PAGE_SIZE)" if "k < n" for k
      using later_page_differs [OF Suc.prems(3) _ n _ _ off, of "Suc k"] Suc.prems(4) that
      by (simp only: shift) simp
    then have "paging_virt_to_phys (virt + off) s' = paging_virt_to_phys (virt + off) s1" by (rule out)
    then show ?thesis
      using t(2) [of "virt + off"] same_page_off [OF Suc.prems(3) off] or_low_bits [OF Suc.prems(5) off]
        or_low_bits(2) [OF Suc.prems(3) off] by simp
  qed
  have all_in: "paging_virt_to_phys (virt + of_nat k * PAGE_SIZE + off) s' = phys + of_nat k * PAGE_SIZE + off"
    if "k < Suc n" "off < 4096" for k off
  proof (cases k)
    case 0
    with first [OF that(2)] show ?thesis by simp
  next
    case (Suc k')
    with in_rest [of k' off] that show ?thesis by (simp only: shift Suc_less_eq)
  qed
  have all_out: "paging_virt_to_phys v s' = paging_virt_to_phys v s"
    if v: "\<forall>k<Suc n. \<not> same_page v (virt + of_nat k * PAGE_SIZE)" for v
  proof -
    have "\<not> same_page v (?virt + of_nat k * PAGE_SIZE)" if "k < n" for k
      using v [rule_format, of "Suc k"] that by (simp only: shift) simp
    then have "paging_virt_to_phys v s' = paging_virt_to_phys v s1" by (rule out)
    also have "\<dots> = paging_virt_to_phys v s" using t(2) [of v] v [rule_format, of 0] by simp
    finally show ?thesis .
  qed
  have "map_region_loop (Suc n) virt phys flags s = Some s'" using m s'(1) by simp
  with s'(2) all_in all_out show ?case by blast
qed



end
