(* ===== verification/Vmm.thy ===== *)
theory Vmm
  imports Pmm Paging
begin

text \<open>
  The virtual memory manager of \<^verbatim>\<open>kernel/mm/vmm.c\<close> over the page allocator and the x86-64
  page tables. A \<^verbatim>\<open>vm_space_t\<close> lives in physical memory: its fields are the words at the
  offsets the C layout gives them (48 bytes per region, 1024 regions, then the scalar
  fields, 49192 bytes in all), so that its overlap with neighbouring pages is visible.
  The static \<^verbatim>\<open>kernel_space\<close> is such a structure at the address \<open>kernel_space\<close>.

  A page table of the page allocator is read and written at its physical address; the
  kernel window at \<open>KERNEL_VMA_BASE\<close> shows physical memory from address 0.
  \<open>KernelPanic\<close> is a call that ends in \<^verbatim>\<open>kernel_panic\<close>, here also when no page is left for
  a page table.
\<close>

abbreviation VM_REGION_MAX :: nat where "VM_REGION_MAX \<equiv> 1024"
abbreviation VM_READ :: u64 where "VM_READ \<equiv> 1"
abbreviation VM_WRITE :: u64 where "VM_WRITE \<equiv> 2"
abbreviation VM_EXEC :: u64 where "VM_EXEC \<equiv> 4"
abbreviation VM_USER :: u64 where "VM_USER \<equiv> 8"
abbreviation PF_PRESENT :: u64 where "PF_PRESENT \<equiv> 1"
abbreviation PF_USER :: u64 where "PF_USER \<equiv> 4"
abbreviation KERNEL_HEAP_BASE :: u64 where "KERNEL_HEAP_BASE \<equiv> 0xFFFFFFFF90000000"
abbreviation USER_BASE :: u64 where "USER_BASE \<equiv> 0x400000"

section \<open>State and layout\<close>

record vm_region_t =
  reg_start :: u64
  reg_end :: u64
  reg_flags :: u64
  reg_id :: u32
  reg_phys_base :: u64
  reg_used :: bool

record vmm_t =
  pmm_st :: pmm_t
  paging_st :: paging_t
  kernel_space :: u64
  current_space :: u64
  next_region_id :: u32

abbreviation space_size :: u64 where "space_size \<equiv> 49192"
abbreviation HEAP_START :: u64 where "HEAP_START \<equiv> 49152"
abbreviation HEAP_END :: u64 where "HEAP_END \<equiv> 49160"
abbreviation MMAP_BASE :: u64 where "MMAP_BASE \<equiv> 49168"
abbreviation REGION_COUNT :: u64 where "REGION_COUNT \<equiv> 49176"
abbreviation PML4_PHYS :: u64 where "PML4_PHYS \<equiv> 49184"

definition rd :: "u64 \<Rightarrow> vmm_t \<Rightarrow> u64" where
  "rd a s = pmm_mem (pmm_st s) a"

definition wr :: "u64 \<Rightarrow> u64 \<Rightarrow> vmm_t \<Rightarrow> vmm_t" where
  "wr a v s = s\<lparr>pmm_st := (pmm_st s)\<lparr>pmm_mem := (pmm_mem (pmm_st s))(a := v)\<rparr>\<rparr>"

definition zero_mem :: "u64 \<Rightarrow> u64 \<Rightarrow> vmm_t \<Rightarrow> vmm_t" where
  "zero_mem a len s = s\<lparr>pmm_st := (pmm_st s)\<lparr>pmm_mem := mem_zero a len (pmm_mem (pmm_st s))\<rparr>\<rparr>"

text \<open>\<^verbatim>\<open>&space->regions[i].f\<close> for the field at offset \<open>f\<close>, and the scalar field at offset \<open>c\<close>.\<close>

definition fld :: "u64 \<Rightarrow> nat \<Rightarrow> u64 \<Rightarrow> u64" where
  "fld space i f = space + of_nat i * 48 + f"

definition sfld :: "u64 \<Rightarrow> u64 \<Rightarrow> u64" where
  "sfld space c = space + c"

definition region_at :: "u64 \<Rightarrow> nat \<Rightarrow> vmm_t \<Rightarrow> vm_region_t" where
  "region_at space i s =
     \<lparr>reg_start = rd (fld space i 0) s, reg_end = rd (fld space i 8) s, reg_flags = rd (fld space i 16) s,
      reg_id = ucast (rd (fld space i 24) s), reg_phys_base = rd (fld space i 32) s,
      reg_used = (rd (fld space i 40) s \<noteq> 0)\<rparr>"

definition put_region :: "u64 \<Rightarrow> nat \<Rightarrow> vm_region_t \<Rightarrow> vmm_t \<Rightarrow> vmm_t" where
  "put_region space i r s =
     wr (fld space i 40) (of_bool (reg_used r)) (wr (fld space i 32) (reg_phys_base r)
       (wr (fld space i 24) (ucast (reg_id r)) (wr (fld space i 16) (reg_flags r)
         (wr (fld space i 8) (reg_end r) (wr (fld space i 0) (reg_start r) s)))))"

definition region_count :: "u64 \<Rightarrow> vmm_t \<Rightarrow> u32" where
  "region_count space s = ucast (rd (sfld space REGION_COUNT) s)"

definition set_region_count :: "u64 \<Rightarrow> u32 \<Rightarrow> vmm_t \<Rightarrow> vmm_t" where
  "set_region_count space n s = wr (sfld space REGION_COUNT) (ucast n) s"

section \<open>Operations\<close>

definition vmm_init :: "vmm_t \<Rightarrow> vmm_t" where
  "vmm_init s =
     (let ks = kernel_space s;
          s1 = zero_mem ks space_size s;
          s2 = wr (sfld ks PML4_PHYS) (paging_current_pml4 (paging_st s1)) s1;
          s3 = wr (sfld ks HEAP_START) KERNEL_HEAP_BASE s2;
          s4 = wr (sfld ks HEAP_END) KERNEL_HEAP_BASE s3
      in s4\<lparr>current_space := ks\<rparr>)"

definition vmm_create_space :: "vmm_t \<Rightarrow> (u64 \<times> vmm_t) outcome" where
  "vmm_create_space s =
     (case pmm_alloc_page (pmm_st s) of
        KernelPanic \<Rightarrow> KernelPanic | OutOfBounds \<Rightarrow> OutOfBounds
      | Ret (space, p1) \<Rightarrow>
          if space = 0 then Ret (0, s\<lparr>pmm_st := p1\<rparr>)
          else
            let s1 = zero_mem space space_size (s\<lparr>pmm_st := p1\<rparr>)
            in (case pmm_alloc_page (pmm_st s1) of
                  KernelPanic \<Rightarrow> KernelPanic | OutOfBounds \<Rightarrow> OutOfBounds
                | Ret (pml4_phys, p2) \<Rightarrow>
                    if pml4_phys = 0 then
                      (case pmm_free_page space p2 of
                         Ret p3 \<Rightarrow> Ret (0, s1\<lparr>pmm_st := p3\<rparr>) | KernelPanic \<Rightarrow> KernelPanic | OutOfBounds \<Rightarrow> OutOfBounds)
                    else
                      let s2 = zero_mem pml4_phys PAGE_SIZE (s1\<lparr>pmm_st := p2\<rparr>);
                          s3 = wr (pml4_phys + 8 * of_nat KERNEL_PML4_IDX) (rd (8 * of_nat KERNEL_PML4_IDX) s2) s2;
                          s4 = wr (sfld space PML4_PHYS) pml4_phys s3;
                          s5 = wr (sfld space HEAP_START) 0x6000000000 s4;
                          s6 = wr (sfld space HEAP_END) (rd (sfld space HEAP_START) s5) s5;
                          s7 = wr (sfld space MMAP_BASE) 0x7000000000 s6
                      in Ret (space, s7)))"

fun unmap_loop :: "nat \<Rightarrow> u64 \<Rightarrow> u64 \<Rightarrow> vmm_t \<Rightarrow> vmm_t" where
  "unmap_loop 0 i virt s = s"
| "unmap_loop (Suc n) i virt s =
     unmap_loop n (i + 1) virt (s\<lparr>paging_st := paging_unmap_page (virt + i * PAGE_SIZE) (paging_st s)\<rparr>)"

definition vmm_unmap_pages :: "u64 \<Rightarrow> u64 \<Rightarrow> u64 \<Rightarrow> vmm_t \<Rightarrow> vmm_t" where
  "vmm_unmap_pages space virt pages s =
     (let s1 = (if space = current_space s \<or> space = kernel_space s then unmap_loop (unat pages) 0 virt s else s)
      in case first_idx (\<lambda>i. reg_start (region_at space i s1) = virt) VM_REGION_MAX of
           None \<Rightarrow> s1
         | Some i \<Rightarrow>
             let s2 = wr (fld space i 40) 0 s1
             in set_region_count space (region_count space s2 - 1) s2)"

definition destroy_region :: "u64 \<Rightarrow> nat \<Rightarrow> vmm_t \<Rightarrow> vmm_t" where
  "destroy_region space i s =
     (let r = region_at space i s
      in if \<not> reg_used r then s
         else vmm_unmap_pages space (reg_start r) ((reg_end r - reg_start r) div PAGE_SIZE) s)"

definition vmm_destroy_space :: "u64 \<Rightarrow> vmm_t \<Rightarrow> vmm_t outcome" where
  "vmm_destroy_space space s =
     (if space = 0 \<or> space = kernel_space s then Ret s
      else
        let s1 = fold (destroy_region space) [0..<VM_REGION_MAX] s
        in case pmm_free_page (rd (sfld space PML4_PHYS) s1) (pmm_st s1) of
             KernelPanic \<Rightarrow> KernelPanic | OutOfBounds \<Rightarrow> OutOfBounds
           | Ret p1 \<Rightarrow>
               (case pmm_free_page space p1 of
                  KernelPanic \<Rightarrow> KernelPanic | OutOfBounds \<Rightarrow> OutOfBounds
                | Ret p2 \<Rightarrow> Ret (s1\<lparr>pmm_st := p2\<rparr>)))"

definition vmm_switch_space :: "u64 \<Rightarrow> vmm_t \<Rightarrow> vmm_t" where
  "vmm_switch_space space s =
     (if space = 0 then s
      else s\<lparr>current_space := space, paging_st := paging_switch (rd (sfld space PML4_PHYS) s) (paging_st s)\<rparr>)"

definition vm_pte_flags :: "u64 \<Rightarrow> u64" where
  "vm_pte_flags flags =
     PTE_PRESENT OR (if flags AND VM_WRITE \<noteq> 0 then PTE_WRITABLE else 0)
       OR (if flags AND VM_USER \<noteq> 0 then PTE_USER else 0)
       OR (if flags AND VM_EXEC = 0 then PTE_NX else 0)"

text \<open>The mapping loop of \<^verbatim>\<open>vmm_map_pages\<close>, \<open>n\<close> rounds left.\<close>

fun map_loop :: "nat \<Rightarrow> u64 \<Rightarrow> u64 \<Rightarrow> u64 \<Rightarrow> u64 \<Rightarrow> vmm_t \<Rightarrow> vmm_t outcome" where
  "map_loop 0 i virt phys pte_flags s = Ret s"
| "map_loop (Suc n) i virt phys pte_flags s =
     (case (if phys \<noteq> 0 then Ret (phys + i * PAGE_SIZE, pmm_st s) else pmm_alloc_page (pmm_st s)) of
        KernelPanic \<Rightarrow> KernelPanic | OutOfBounds \<Rightarrow> OutOfBounds
      | Ret (page, p) \<Rightarrow>
          (case paging_map_page (virt + i * PAGE_SIZE) page pte_flags (paging_st s) of
             None \<Rightarrow> KernelPanic
           | Some g \<Rightarrow> map_loop n (i + 1) virt phys pte_flags (s\<lparr>pmm_st := p, paging_st := g\<rparr>)))"

definition record_region :: "u64 \<Rightarrow> u64 \<Rightarrow> u64 \<Rightarrow> u64 \<Rightarrow> u64 \<Rightarrow> vmm_t \<Rightarrow> vmm_t" where
  "record_region space virt phys pages flags s =
     (case first_idx (\<lambda>i. \<not> reg_used (region_at space i s)) VM_REGION_MAX of
        None \<Rightarrow> s
      | Some i \<Rightarrow>
          let s1 = put_region space i \<lparr>reg_start = virt, reg_end = virt + pages * PAGE_SIZE, reg_flags = flags,
                reg_id = next_region_id s, reg_phys_base = phys, reg_used = True\<rparr> s;
              s2 = s1\<lparr>next_region_id := next_region_id s + 1\<rparr>
          in set_region_count space (region_count space s2 + 1) s2)"

definition vmm_map_pages :: "u64 \<Rightarrow> u64 \<Rightarrow> u64 \<Rightarrow> u64 \<Rightarrow> u64 \<Rightarrow> vmm_t \<Rightarrow> (int \<times> vmm_t) outcome" where
  "vmm_map_pages space virt phys pages flags s =
     (case (if space = current_space s \<or> space = kernel_space s
            then map_loop (unat pages) 0 virt phys (vm_pte_flags flags) s else Ret s) of
        KernelPanic \<Rightarrow> KernelPanic | OutOfBounds \<Rightarrow> OutOfBounds
      | Ret s1 \<Rightarrow> Ret (0, record_region space virt phys pages flags s1))"

definition vmm_find_free_region :: "u64 \<Rightarrow> u64 \<Rightarrow> vmm_t \<Rightarrow> u64" where
  "vmm_find_free_region space sz s =
     (let addr = rd (sfld space HEAP_END) s;
          addr = (if addr < USER_BASE then USER_BASE else addr)
      in page_align_down (addr + PAGE_SIZE - 1))"

definition vmm_handle_page_fault :: "u64 \<Rightarrow> u64 \<Rightarrow> vmm_t \<Rightarrow> (int \<times> vmm_t) outcome" where
  "vmm_handle_page_fault fault_addr error_code s =
     (if error_code AND PF_PRESENT = 0 \<and> error_code AND PF_USER = 0 then
        (case pmm_alloc_page (pmm_st s) of
           KernelPanic \<Rightarrow> KernelPanic | OutOfBounds \<Rightarrow> OutOfBounds
         | Ret (phys, p) \<Rightarrow>
             (case paging_map_page (page_align_down fault_addr) phys (PTE_PRESENT OR PTE_WRITABLE OR PTE_NX) (paging_st s) of
                None \<Rightarrow> KernelPanic
              | Some g \<Rightarrow> Ret (0, s\<lparr>pmm_st := p, paging_st := g\<rparr>)))
      else Ret (-1, s))"

definition vmm_alloc_kernel_heap :: "u64 \<Rightarrow> vmm_t \<Rightarrow> (u64 \<times> vmm_t) outcome" where
  "vmm_alloc_kernel_heap sz s =
     (let sz = page_align_down (sz + PAGE_SIZE - 1);
          ks = kernel_space s;
          addr = rd (sfld ks HEAP_END) s
      in case vmm_map_pages ks addr 0 (sz div PAGE_SIZE) (VM_READ OR VM_WRITE) s of
           KernelPanic \<Rightarrow> KernelPanic | OutOfBounds \<Rightarrow> OutOfBounds
         | Ret (_, s1) \<Rightarrow> Ret (addr, wr (sfld ks HEAP_END) (rd (sfld ks HEAP_END) s1 + sz) s1))"

definition vmm_free_kernel_heap :: "u64 \<Rightarrow> u64 \<Rightarrow> vmm_t \<Rightarrow> vmm_t" where
  "vmm_free_kernel_heap p sz s = s"

section \<open>Fields do not overlap\<close>

lemma rd_wr [simp]: "rd a (wr b v s) = (if a = b then v else rd a s)"
  by (simp add: rd_def wr_def)

lemma wr_fields [simp]:
  "paging_st (wr a v s) = paging_st s" "kernel_space (wr a v s) = kernel_space s"
  "current_space (wr a v s) = current_space s" "next_region_id (wr a v s) = next_region_id s"
  "rd a (s\<lparr>next_region_id := n\<rparr>) = rd a s" "rd a (s\<lparr>paging_st := g\<rparr>) = rd a s"
  by (simp_all add: wr_def rd_def)

lemma unat_offset: "i < 1024 \<Longrightarrow> f < 48 \<Longrightarrow> unat (of_nat i * 48 + f :: u64) = i * 48 + unat f"
  by (simp add: unat_word_ariths unat_of_nat take_bit_nat_def word_less_nat_alt)

lemma field_eq [simp]:
  assumes "i < 1024" "j < 1024" "f < 48" "g < 48"
  shows "fld space i f = fld space j g \<longleftrightarrow> i = j \<and> f = g"
proof
  assume "fld space i f = fld space j g"
  then have "of_nat i * 48 + f = of_nat j * 48 + g" by (simp add: fld_def sfld_def add.assoc)
  then have e: "i * 48 + unat f = j * 48 + unat g" using assms by (metis unat_offset)
  have "unat f < 48" "unat g < 48" using assms by (simp_all add: word_less_nat_alt)
  with e have "i = j" by linarith
  with e show "i = j \<and> f = g" by (simp add: word_unat_eq_iff)
qed simp

lemma field_scalar [simp]:
  assumes "i < 1024" "f < 48" "49152 \<le> c" "c < 49192"
  shows "fld space i f \<noteq> sfld space c" "sfld space c \<noteq> fld space i f"
proof -
  have "unat (of_nat i * 48 + f :: u64) < 49152"
    using assms(1,2) by (simp add: unat_offset word_less_nat_alt)
  then have "of_nat i * 48 + f \<noteq> c" using assms(3) by (auto simp: word_le_nat_alt)
  then show "fld space i f \<noteq> sfld space c" by (simp add: fld_def sfld_def add.assoc)
  then show "sfld space c \<noteq> fld space i f" by metis
qed

lemma ucast_32_64 [simp]: "ucast (ucast (n :: u32) :: u64) = n"
  by (rule bit_word_eqI) (simp add: bit_ucast_iff)

lemma region_at_put:
  assumes "i < 1024" "j < 1024"
  shows "region_at space j (put_region space i r s) = (if j = i then r else region_at space j s)"
  using assms by (simp add: region_at_def put_region_def)

lemma region_at_count: "j < 1024 \<Longrightarrow> region_at space j (set_region_count space n s) = region_at space j s"
  by (simp add: region_at_def set_region_count_def)

lemma region_at_unused:
  "i < 1024 \<Longrightarrow> j < 1024 \<Longrightarrow> region_at space j (wr (fld space i 40) 0 s)
     = (if j = i then (region_at space i s)\<lparr>reg_used := False\<rparr> else region_at space j s)"
  by (simp add: region_at_def)

lemma region_count_simps [simp]:
  "region_count space (set_region_count space n s) = n"
  "i < 1024 \<Longrightarrow> region_count space (put_region space i r s) = region_count space s"
  "i < 1024 \<Longrightarrow> region_count space (wr (fld space i 40) v s) = region_count space s"
  by (simp_all add: region_count_def set_region_count_def put_region_def Let_def)

lemma region_at_id [simp]:
  "region_at space j (s\<lparr>next_region_id := n\<rparr>) = region_at space j s"
  "region_count space (s\<lparr>next_region_id := n\<rparr>) = region_count space s"
  by (simp_all add: region_at_def region_count_def)

lemma put_region_fields [simp]:
  "paging_st (put_region space i r s) = paging_st s" "kernel_space (put_region space i r s) = kernel_space s"
  "current_space (put_region space i r s) = current_space s" "next_region_id (put_region space i r s) = next_region_id s"
  "paging_st (set_region_count space n s) = paging_st s" "kernel_space (set_region_count space n s) = kernel_space s"
  "current_space (set_region_count space n s) = current_space s"
  "next_region_id (set_region_count space n s) = next_region_id s"
  by (simp_all add: put_region_def set_region_count_def)

section \<open>Properties\<close>

text \<open>C30: Mapping pages in an address space that is not loaded records the region in the first unused
  slot of its table, with a fresh id, and leaves the other slots and the page tables as they
  were; unmapping the same address releases exactly that slot and restores the count.\<close>

theorem vmm_region_roundtrip:
  assumes "space \<noteq> current_space s" "space \<noteq> kernel_space s"
    and free: "first_idx (\<lambda>i. \<not> reg_used (region_at space i s)) VM_REGION_MAX = Some i"
    and fresh: "\<forall>j<VM_REGION_MAX. reg_start (region_at space j s) \<noteq> virt"
  shows "\<exists>s1. vmm_map_pages space virt phys pages flags s = Ret (0, s1)
    \<and> (\<forall>j<VM_REGION_MAX. region_at space j s1 =
         (if j = i then \<lparr>reg_start = virt, reg_end = virt + pages * PAGE_SIZE, reg_flags = flags,
            reg_id = next_region_id s, reg_phys_base = phys, reg_used = True\<rparr> else region_at space j s))
    \<and> region_count space s1 = region_count space s + 1 \<and> paging_st s1 = paging_st s
    \<and> (\<forall>j<VM_REGION_MAX. reg_used (region_at space j (vmm_unmap_pages space virt pages s1)) = reg_used (region_at space j s)
         \<and> (j \<noteq> i \<longrightarrow> region_at space j (vmm_unmap_pages space virt pages s1) = region_at space j s))
    \<and> region_count space (vmm_unmap_pages space virt pages s1) = region_count space s"
proof -
  from free have i: "i < 1024" "\<not> reg_used (region_at space i s)" by (auto dest: first_idx_SomeD)
  let ?s1 = "record_region space virt phys pages flags s"
  have m: "vmm_map_pages space virt phys pages flags s = Ret (0, ?s1)"
    using assms(1,2) by (simp add: vmm_map_pages_def)
  have r: "region_at space j ?s1 = (if j = i then \<lparr>reg_start = virt, reg_end = virt + pages * PAGE_SIZE,
      reg_flags = flags, reg_id = next_region_id s, reg_phys_base = phys, reg_used = True\<rparr> else region_at space j s)"
    if "j < 1024" for j
    using that i free by (simp add: record_region_def region_at_count region_at_put)
  have f: "region_count space ?s1 = region_count space s + 1" "paging_st ?s1 = paging_st s"
    "current_space ?s1 = current_space s" "kernel_space ?s1 = kernel_space s"
    using i free by (simp_all add: record_region_def)
  have u: "first_idx (\<lambda>j. reg_start (region_at space j ?s1) = virt) VM_REGION_MAX = Some i"
    using i r fresh by (intro first_idx_unique) (auto split: if_splits)
  let ?s2 = "vmm_unmap_pages space virt pages ?s1"
  have "region_at space j ?s2 = (if j = i then (region_at space i ?s1)\<lparr>reg_used := False\<rparr> else region_at space j s)"
    if "j < 1024" for j
    using that i u f assms(1,2) r [OF that] by (simp add: vmm_unmap_pages_def region_at_count region_at_unused)
  moreover have "region_count space ?s2 = region_count space s"
    using i u f assms(1,2) by (simp add: vmm_unmap_pages_def)
  ultimately show ?thesis using m r f i(2) by (intro exI [of _ ?s1]) auto
qed

definition demo_pmm :: pmm_t where
  "demo_pmm = (pmm_static (\<lambda>_. 0))\<lparr>zones := (\<lambda>_. zero_zone\<lparr>free_lists := (\<lambda>i. if i = 0 then 0x200000 else 0), free_count := 1\<rparr>)\<rparr>"

definition demo_vmm :: vmm_t where
  "demo_vmm = \<lparr>pmm_st = demo_pmm, paging_st = demo_paging, kernel_space = 0x100000, current_space = 0x100000,
     next_region_id = 1\<rparr>"

theorem vmm_region_roundtrip_witness:
  "\<exists>s1. vmm_map_pages 0x300000 0x400000 0 2 3 demo_vmm = Ret (0, s1)
     \<and> reg_used (region_at 0x300000 0 s1) \<and> region_count 0x300000 s1 = 1
     \<and> region_count 0x300000 (vmm_unmap_pages 0x300000 0x400000 2 s1) = 0"
proof -
  have z: "rd a demo_vmm = 0" for a by (simp add: rd_def demo_vmm_def demo_pmm_def pmm_static_def)
  have "0x300000 \<noteq> current_space demo_vmm" "0x300000 \<noteq> kernel_space demo_vmm"
    "first_idx (\<lambda>i. \<not> reg_used (region_at 0x300000 i demo_vmm)) VM_REGION_MAX = Some 0"
    "\<forall>j<VM_REGION_MAX. reg_start (region_at 0x300000 j demo_vmm) \<noteq> 0x400000"
    by (simp_all add: demo_vmm_def [THEN arg_cong [of _ _ current_space]] demo_vmm_def [THEN arg_cong [of _ _ kernel_space]]
        region_at_def z)
  from vmm_region_roundtrip [OF this, of 0 2 3] show ?thesis by (auto simp: region_count_def z)
qed

text \<open>The region slot keeps its start address after it is released, so a second unmap of the same
  address finds it again and decrements the count once more.\<close>

lemma vmm_unmap_decrements:
  assumes "space \<noteq> current_space s" "space \<noteq> kernel_space s" "i < VM_REGION_MAX"
    "reg_start (region_at space i s) = virt"
  shows "region_count space (vmm_unmap_pages space virt pages s) = region_count space s - 1"
proof -
  obtain j where "first_idx (\<lambda>i. reg_start (region_at space i s) = virt) VM_REGION_MAX = Some j"
    using assms(3,4) first_idx_exists [of i VM_REGION_MAX "\<lambda>i. reg_start (region_at space i s) = virt"] by blast
  moreover from this have "j < 1024" by (auto dest: first_idx_SomeD)
  ultimately show ?thesis using assms(1,2) by (simp add: vmm_unmap_pages_def)
qed

text \<open>A full region table is not reported: the mapping is not recorded and 0 is returned.\<close>

lemma vmm_map_table_full:
  assumes "space \<noteq> current_space s" "space \<noteq> kernel_space s"
    "\<forall>i<VM_REGION_MAX. reg_used (region_at space i s)"
  shows "vmm_map_pages space virt phys pages flags s = Ret (0, s)"
proof -
  have "first_idx (\<lambda>i. \<not> reg_used (region_at space i s)) VM_REGION_MAX = None"
    using assms(3) by (simp add: first_idx_None_iff)
  with assms(1,2) show ?thesis by (simp add: vmm_map_pages_def record_region_def)
qed

lemma same_page_align: "same_page v (page_align_down w) \<longleftrightarrow> same_page v w"
  by (simp add: same_page_numbers unat_page_align_down minus_mod_eq_mult_div)


lemma demo_pmm_inv: "pmm_inv demo_pmm (\<lambda>i. if i = 0 then [0x200000] else []) {#}"
proof -
  have "free_pages (\<lambda>i. if i = 0 then [0x200000] else []) = {#512#}"
    by (simp add: free_pages_def sum.remove [of "{..<11}" 0] blk_pages_def)
  then show ?thesis
    by (simp add: pmm_inv_def lists_ok_def demo_pmm_def pmm_static_def zero_zone_def blk_ok_def)
qed


text \<open>A space occupies 49192 bytes but only one 4096-byte page is allocated for it, so clearing a new
  space erases the regions recorded in a space on a higher page.\<close>

definition four_pages :: vmm_t where
  "four_pages = demo_vmm\<lparr>pmm_st := \<lparr>zones = (\<lambda>_. zero_zone\<lparr>free_lists := (\<lambda>i. if i = 0 then 0x204000 else 0), free_count := 4\<rparr>),
     zone_count = 1, total_memory = 0x4000, used_memory = 0,
     pmm_mem = (\<lambda>a. if a = 0x204000 then 0x203000 else if a = 0x203000 then 0x202000 else if a = 0x202000 then 0x201000 else 0)\<rparr>\<rparr>"

definition region_erased :: "vmm_t \<Rightarrow> bool" where
  "region_erased s =
     (case vmm_create_space s of
        Ret (a, s1) \<Rightarrow>
          (case vmm_map_pages a 0x400000 0 1 3 s1 of
             Ret (_, s2) \<Rightarrow>
               (case vmm_create_space s2 of
                  Ret (b, s3) \<Rightarrow> a \<noteq> b \<and> reg_used (region_at a 0 s2) \<and> \<not> reg_used (region_at a 0 s3)
                | _ \<Rightarrow> False)
           | _ \<Rightarrow> False)
      | _ \<Rightarrow> False)"

lemma vmm_spaces_overlap: "region_erased four_pages"
  by code_simp

end
