(* ===== verification/Process.thy ===== *)
theory Process
  imports Signal Vmm
begin

text \<open>
  Process creation, fork, user-mode set-up and waiting of \<^verbatim>\<open>kernel/proc/process.c\<close>, over the
  process table and scheduler (\<open>kern\<close>) and the memory managers (\<open>vm\<close>). The flag \<open>arm\<close> is
  the preprocessor's choice of \<^verbatim>\<open>__aarch64__\<close>. \<open>None\<close> is a call that does not return: a kernel
  panic, or a wait that keeps spinning.
\<close>

record sys_t =
  kern :: kern_t
  vm :: vmm_t

definition zero_ctx :: "bool \<Rightarrow> context_t" where
  "zero_ctx arm = (if arm then ARM64 zero_context_arm64 else X86_64 zero_context)"

definition zero_thread_of :: "bool \<Rightarrow> thread_t" where
  "zero_thread_of arm = zero_thread\<lparr>th_context := zero_ctx arm\<rparr>"

definition zero_process_of :: "bool \<Rightarrow> process_t" where
  "zero_process_of arm = zero_process\<lparr>pr_threads := (\<lambda>_. zero_thread_of arm)\<rparr>"

definition start_context :: "bool \<Rightarrow> u64 \<Rightarrow> u64 \<Rightarrow> u64 \<Rightarrow> context_t" where
  "start_context arm entry arg stack =
     (if arm then ARM64 (zero_context_arm64\<lparr>elr_el1 := entry, spsr_el1 := 0x3C5, sp_el0 := 0,
                           arm_x := (\<lambda>_. 0)(0 := arg)\<rparr>)
      else X86_64 (zero_context\<lparr>rip := entry, cs := 0x08, ss := 0x10, rsp := stack, rflags := 0x202, rdi := arg\<rparr>))"

definition free_slot :: "kern_t \<Rightarrow> nat option" where
  "free_slot k = first_idx (\<lambda>i. \<not> pr_used (processes k i)) MAX_PROCESSES"

definition proc_create :: "nat \<Rightarrow> bool \<Rightarrow> u64 \<Rightarrow> string option \<Rightarrow> u64 \<Rightarrow> u64 \<Rightarrow> int \<Rightarrow> sys_t \<Rightarrow> (int \<times> sys_t) option" where
  "proc_create cpu arm uptime name entry arg priority s =
     (let k = kern s in
      case free_slot k of None \<Rightarrow> Some (-1, s)
      | Some p \<Rightarrow>
          let pid = next_pid k;
              proc = (zero_process_of arm)\<lparr>pr_pid := pid, pr_state := PROC_READY,
                pr_name := take (PROC_NAME_LEN - 1) (case name of None \<Rightarrow> ''unnamed'' | Some n \<Rightarrow> n)\<rparr>
          in (case vmm_create_space (vm s) of
                Ret (space, vm1) \<Rightarrow>
                  let thread = (zero_thread_of arm)\<lparr>th_tid := next_tid k, th_pid := pid, th_state := PROC_READY,
                        th_priority := priority\<rparr>;
                      proc1 = proc\<lparr>pr_vm_space := space, pr_threads := (pr_threads proc)(0 := thread)\<rparr>;
                      k1 = k\<lparr>processes := (processes k)(p := proc1), next_pid := next_pid k + 1, next_tid := next_tid k + 1\<rparr>
                  in (case pmm_alloc_pages 4 (pmm_st vm1) of None \<Rightarrow> None
                      | Some (stack, p1) \<Rightarrow>
                          let vm2 = vm1\<lparr>pmm_st := p1\<rparr> in
                          if stack = 0 then Some (-1, \<lparr>kern = k1, vm = vm2\<rparr>)
                          else
                            let top = stack + 4 * PAGE_SIZE;
                                thread2 = thread\<lparr>th_kernel_stack_top := stack, th_kernel_stack := top,
                                  th_context := start_context arm entry arg top, th_used := True\<rparr>;
                                proc2 = proc1\<lparr>pr_threads := (pr_threads proc1)(0 := thread2), pr_thread_count := 1,
                                  pr_first_thread := 0, pr_used := True, pr_start_time := uptime\<rparr>;
                                k2 = signal_init_process (Some p) (k1\<lparr>processes := (processes k1)(p := proc2)\<rparr>)
                            in Some (sint pid, \<lparr>kern = sched_add_thread cpu (p, 0) k2, vm = vm2\<rparr>))
              | _ \<Rightarrow> None))"

definition proc_wait :: "int \<Rightarrow> kern_t \<Rightarrow> int option" where
  "proc_wait pid k =
     (case proc_get pid k of None \<Rightarrow> Some (-1)
      | Some p \<Rightarrow> if pr_state (processes k p) = PROC_TERMINATED then Some 0 else None)"

text \<open>\<^verbatim>\<open>context.x[0] = 0\<close>; the x86-64 context has no member \<^verbatim>\<open>x\<close>, so only the ARM64 variant compiles.\<close>

fun clear_x0 :: "context_t \<Rightarrow> context_t" where
  "clear_x0 (ARM64 c) = ARM64 (c\<lparr>arm_x := (arm_x c)(0 := 0)\<rparr>)"
| "clear_x0 (X86_64 c) = X86_64 c"

definition proc_fork :: "nat \<Rightarrow> bool \<Rightarrow> u64 \<Rightarrow> sys_t \<Rightarrow> (int \<times> sys_t) option" where
  "proc_fork cpu arm uptime s =
     (let k = kern s in
      case proc_get_current k of None \<Rightarrow> Some (-1, s)
      | Some q \<Rightarrow>
          (case free_slot k of None \<Rightarrow> Some (-1, s)
           | Some p \<Rightarrow>
               (case vmm_create_space (vm s) of
                  Ret (space, vm1) \<Rightarrow>
                    let parent = processes k q;
                        pid = next_pid k;
                        t0 = (pr_threads parent 0)\<lparr>th_tid := next_tid k, th_pid := pid,
                          th_context := clear_x0 (th_context (pr_threads parent 0))\<rparr>;
                        child = parent\<lparr>pr_pid := pid, pr_ppid := pr_pid parent, pr_state := PROC_READY, pr_used := True,
                          pr_thread_count := 1, pr_start_time := uptime, pr_vm_space := space,
                          pr_threads := (\<lambda>_. zero_thread_of arm)(0 := t0)\<rparr>;
                        k1 = k\<lparr>processes := (processes k)(p := child), next_pid := next_pid k + 1, next_tid := next_tid k + 1\<rparr>
                    in Some (sint pid, \<lparr>kern = sched_add_thread cpu (p, 0) k1, vm = vm1\<rparr>)
                | _ \<Rightarrow> None)))"

definition proc_setup_userspace :: "bool \<Rightarrow> nat option \<Rightarrow> u64 \<Rightarrow> u64 \<Rightarrow> u64 \<Rightarrow> sys_t \<Rightarrow> int \<times> sys_t" where
  "proc_setup_userspace arm proc entry stack ttbr0 s =
     (case proc of None \<Rightarrow> (-1, s)
      | Some p \<Rightarrow>
          if \<not> th_used (thread_at (kern s) (p, 0)) then (-1, s)
          else
            let setup = (\<lambda>c. case c of
                    ARM64 a \<Rightarrow> ARM64 (a\<lparr>elr_el1 := entry, spsr_el1 := 0x3C0, sp_el0 := stack\<rparr>)
                  | X86_64 x \<Rightarrow> X86_64 (x\<lparr>rip := entry, cs := 0x23, ss := 0x1B, rsp := stack, rflags := 0x202\<rparr>));
                k1 = upd_thread (p, 0) (\<lambda>t. t\<lparr>th_user_stack := stack, th_user_stack_top := stack + 0x10000,
                       th_context := setup (th_context t)\<rparr>) (kern s);
                space = pr_vm_space (processes k1 p);
                vm1 = (if arm \<and> space \<noteq> 0 then wr (sfld space PML4_PHYS) ttbr0 (vm s) else vm s)
            in (0, \<lparr>kern = k1, vm = vm1\<rparr>))"

definition proc_init :: "bool \<Rightarrow> kern_t \<Rightarrow> kern_t" where
  "proc_init arm k = k\<lparr>processes := (\<lambda>_. zero_process_of arm), current_thread := None\<rparr>"

section \<open>Process identifiers\<close>

definition pid_inv :: "kern_t \<Rightarrow> bool" where
  "pid_inv k \<longleftrightarrow>
     (\<forall>i<MAX_PROCESSES. pr_used (processes k i) \<longrightarrow> 0 < pr_pid (processes k i) \<and> pr_pid (processes k i) < next_pid k)
     \<and> (\<forall>i<MAX_PROCESSES. \<forall>j<MAX_PROCESSES. pr_used (processes k i) \<longrightarrow> pr_used (processes k j) \<longrightarrow>
          pr_pid (processes k i) = pr_pid (processes k j) \<longrightarrow> i = j)
     \<and> 0 < next_pid k"

text \<open>Two states agree on the slots in use and on the process identifiers.\<close>

definition same_ids :: "kern_t \<Rightarrow> kern_t \<Rightarrow> bool" where
  "same_ids k k' \<longleftrightarrow> (\<forall>i. pr_used (processes k' i) = pr_used (processes k i)
     \<and> pr_pid (processes k' i) = pr_pid (processes k i)) \<and> next_pid k' = next_pid k"

lemma same_ids_refl [simp]: "same_ids k k"
  by (simp add: same_ids_def)

lemma same_ids_inv: "same_ids k k' \<Longrightarrow> pid_inv k \<Longrightarrow> pid_inv k'"
  by (simp add: same_ids_def pid_inv_def)

lemma same_ids_cong:
  "(\<And>i. pr_used (processes k2 i) = pr_used (processes k1 i)) \<Longrightarrow> (\<And>i. pr_pid (processes k2 i) = pr_pid (processes k1 i)) \<Longrightarrow>
    next_pid k2 = next_pid k1 \<Longrightarrow> same_ids k k2 = same_ids k k1"
  by (simp add: same_ids_def)

lemma same_ids_basic [simp]:
  "same_ids k (upd_thread t f k') = same_ids k k'" "same_ids k (set_state t st k') = same_ids k k'"
  "same_ids k (set_rq c rq k') = same_ids k k'" "same_ids k (upd_signals p g k') = same_ids k k'"
  "same_ids k (k'\<lparr>current_threads := x\<rparr>) = same_ids k k'" "same_ids k (proc_set_current_thread u k') = same_ids k k'"
  by (rule same_ids_cong; simp add: upd_thread_def set_state_def set_rq_def upd_signals_def upd_proc_def
      proc_set_current_thread_def)+

lemma same_ids_add [simp]: "same_ids k (sched_add_thread cpu t k') = same_ids k k'"
  by (simp add: sched_add_thread_def Let_def)

lemma same_ids_send [simp]: "same_ids k (signal_send pid sig k') = same_ids k k'"
  by (simp add: signal_send_def split: option.split)

lemma same_ids_exit [simp]: "same_ids k (proc_exit code k') = same_ids k k'"
proof -
  have "same_ids k (upd_proc p (\<lambda>pr. pr\<lparr>pr_state := PROC_TERMINATED, pr_exit_code := code\<rparr>) k') = same_ids k k'" for p
    by (rule same_ids_cong; simp add: upd_proc_def)
  then show ?thesis by (simp add: proc_exit_def Let_def split: option.split)
qed

lemma same_ids_pick: "sched_pick_next cpu k' = (n, k1) \<Longrightarrow> same_ids k k1 = same_ids k k'"
  by (auto simp: sched_pick_next_def Let_def split: option.splits if_splits)

lemma same_ids_yield [simp]: "same_ids k (sched_yield cpu k') = same_ids k k'"
proof -
  obtain n k1 where p: "sched_pick_next cpu k' = (n, k1)" by fastforce
  then have "same_ids k (sched_yield cpu k') = same_ids k k1"
    by (simp add: sched_yield_def Let_def split: option.split)
  with same_ids_pick [OF p] show ?thesis by simp
qed

lemma pid_inv_new:
  assumes "pid_inv k" "\<not> pr_used (processes k p)" "next_pid k < 0x80000000"
    and new: "\<And>i. i \<noteq> p \<Longrightarrow> pr_used (processes k' i) = pr_used (processes k i) \<and> pr_pid (processes k' i) = pr_pid (processes k i)"
      "pr_pid (processes k' p) = next_pid k" "next_pid k' = next_pid k + 1"
  shows "pid_inv k'"
proof -
  have n: "x < next_pid k \<Longrightarrow> x < next_pid k + 1" "next_pid k < next_pid k + 1" "0 < next_pid k + 1" for x
    using assms(3) by (simp_all add: word_less_nat_alt unat_word_ariths)
  have inv: "\<And>i. i < MAX_PROCESSES \<Longrightarrow> pr_used (processes k i) \<Longrightarrow> 0 < pr_pid (processes k i) \<and> pr_pid (processes k i) < next_pid k"
    "\<And>i j. i < MAX_PROCESSES \<Longrightarrow> j < MAX_PROCESSES \<Longrightarrow> pr_used (processes k i) \<Longrightarrow> pr_used (processes k j) \<Longrightarrow>
       pr_pid (processes k i) = pr_pid (processes k j) \<Longrightarrow> i = j" "0 < next_pid k"
    using assms(1) by (auto simp: pid_inv_def)
  have a: "0 < pr_pid (processes k' i) \<and> pr_pid (processes k' i) < next_pid k'" if "i < MAX_PROCESSES" "pr_used (processes k' i)" for i
    using that inv(1) [of i] inv(3) new(1) [of i] new(2,3) n by (cases "i = p") auto
  have b: "i = j" if "i < MAX_PROCESSES" "j < MAX_PROCESSES" "pr_used (processes k' i)" "pr_used (processes k' j)"
    "pr_pid (processes k' i) = pr_pid (processes k' j)" for i j
  proof (cases "i = p \<or> j = p")
    case False
    with that inv(2) [of i j] new(1) [of i] new(1) [of j] show ?thesis by simp
  next
    case True
    have "x = p" if "x < MAX_PROCESSES" "pr_used (processes k' x)" "pr_pid (processes k' x) = next_pid k" for x
      using that inv(1) [of x] new(1) [of x] by (cases "x = p") auto
    with True that new(2) show ?thesis by metis
  qed
  from a b n(3) new(3) show ?thesis unfolding pid_inv_def by auto
qed

lemma ids_add [simp]:
  "pr_used (processes (sched_add_thread cpu t k) i) = pr_used (processes k i)"
  "pr_pid (processes (sched_add_thread cpu t k) i) = pr_pid (processes k i)"
  "next_pid (sched_add_thread cpu t k) = next_pid k"
  using same_ids_add [of k cpu t k] by (simp_all add: same_ids_def)

lemma ids_signal_init [simp]:
  "pr_used (processes (signal_init_process q k) i) = pr_used (processes k i)"
  "pr_pid (processes (signal_init_process q k) i) = pr_pid (processes k i)"
  "next_pid (signal_init_process q k) = next_pid k"
  by (auto simp: signal_init_process_def upd_signals_def upd_proc_def split: option.split)

lemma free_slot_unused: "free_slot k = Some p \<Longrightarrow> p < MAX_PROCESSES \<and> \<not> pr_used (processes k p)"
  unfolding free_slot_def by (auto dest: first_idx_SomeD)

lemma create_pid_inv:
  assumes "proc_create cpu arm uptime name entry arg priority s = Some (r, s')" "pid_inv (kern s)"
    "next_pid (kern s) < 0x80000000"
  shows "pid_inv (kern s')"
proof (cases "free_slot (kern s)")
  case None
  with assms show ?thesis by (simp add: proc_create_def)
next
  case (Some p)
  with assms(1) show ?thesis
    by (intro pid_inv_new [OF assms(2) conjunct2 [OF free_slot_unused [OF Some]] assms(3)])
      (auto simp: proc_create_def Let_def zero_process_of_def split: outcome.splits option.splits if_splits)
qed

lemma fork_pid_inv:
  assumes "proc_fork cpu arm uptime s = Some (r, s')" "pid_inv (kern s)" "next_pid (kern s) < 0x80000000"
  shows "pid_inv (kern s')"
proof (cases "proc_get_current (kern s) = None \<or> free_slot (kern s) = None")
  case True
  with assms show ?thesis by (auto simp: proc_fork_def Let_def split: option.splits)
next
  case False
  then obtain p where p: "free_slot (kern s) = Some p" by blast
  with False assms(1) show ?thesis
    by (intro pid_inv_new [OF assms(2) conjunct2 [OF free_slot_unused [OF p]] assms(3)])
      (auto simp: proc_fork_def Let_def split: outcome.splits option.splits if_splits)
qed

text \<open>Runs of the process manager: processes are created, forked and terminated, send signals and
  are scheduled, in any order, as long as fewer than \<open>2 ^ 31\<close> identifiers have been given out.\<close>

inductive proc_steps :: "sys_t \<Rightarrow> sys_t \<Rightarrow> bool" for s0 :: sys_t where
  start: "proc_steps s0 s0"
| create: "proc_steps s0 s \<Longrightarrow> next_pid (kern s) < 0x80000000 \<Longrightarrow>
    proc_create cpu arm uptime name entry arg priority s = Some (r, s') \<Longrightarrow> proc_steps s0 s'"
| fork: "proc_steps s0 s \<Longrightarrow> next_pid (kern s) < 0x80000000 \<Longrightarrow>
    proc_fork cpu arm uptime s = Some (r, s') \<Longrightarrow> proc_steps s0 s'"
| exit: "proc_steps s0 s \<Longrightarrow> proc_steps s0 (s\<lparr>kern := proc_exit code (kern s)\<rparr>)"
| send: "proc_steps s0 s \<Longrightarrow> proc_steps s0 (s\<lparr>kern := signal_send pid sig (kern s)\<rparr>)"
| set_current: "proc_steps s0 s \<Longrightarrow> proc_steps s0 (s\<lparr>kern := proc_set_current_thread t (kern s)\<rparr>)"
| yield: "proc_steps s0 s \<Longrightarrow> proc_steps s0 (s\<lparr>kern := sched_yield cpu (kern s)\<rparr>)"

lemma same_ids_keeps: "pid_inv k \<Longrightarrow> same_ids k k' \<Longrightarrow> pid_inv k'"
  by (rule same_ids_inv)

lemma proc_steps_inv: "proc_steps s0 s \<Longrightarrow> pid_inv (kern s0) \<Longrightarrow> pid_inv (kern s)"
proof (induction rule: proc_steps.induct)
  case create
  then show ?case by (blast intro: create_pid_inv)
next
  case fork
  then show ?case by (blast intro: fork_pid_inv)
qed (simp_all add: same_ids_keeps [where k = "kern s" for s])

lemma pid_inv_proc_get:
  assumes "pid_inv k" "i < MAX_PROCESSES" "pr_used (processes k i)"
  shows "proc_get (sint (pr_pid (processes k i))) k = Some i"
  unfolding proc_get_def
proof (rule first_idx_unique [OF assms(2)])
  fix j
  assume "j < MAX_PROCESSES" "pr_used (processes k j) \<and> sint (pr_pid (processes k j)) = sint (pr_pid (processes k i))"
  then have "j < MAX_PROCESSES" "pr_used (processes k j)" "pr_pid (processes k j) = pr_pid (processes k i)"
    by (auto intro: signed_word_eqI)
  with assms show "j = i" unfolding pid_inv_def by blast
qed (use assms in simp)

text \<open>C12: Along any run of the process manager from boot, until 2^31 identifiers have been given out,
  every process in use has a non-zero identifier that no other process has, and proc_get of
  that identifier finds exactly its slot.\<close>

theorem proc_pids_unique:
  assumes "proc_steps \<lparr>kern = proc_init arm (k\<lparr>next_pid := 1\<rparr>), vm = v\<rparr> s"
  shows "\<forall>i<MAX_PROCESSES. pr_used (processes (kern s) i) \<longrightarrow>
    pr_pid (processes (kern s) i) \<noteq> 0 \<and> proc_get (sint (pr_pid (processes (kern s) i))) (kern s) = Some i
    \<and> (\<forall>j<MAX_PROCESSES. pr_used (processes (kern s) j) \<longrightarrow>
         pr_pid (processes (kern s) j) = pr_pid (processes (kern s) i) \<longrightarrow> j = i)"
proof -
  have "pid_inv (proc_init arm (k\<lparr>next_pid := 1\<rparr>))" by (simp add: pid_inv_def proc_init_def zero_process_of_def)
  with assms have inv: "pid_inv (kern s)" using proc_steps_inv by fastforce
  then show ?thesis using pid_inv_proc_get [OF inv] unfolding pid_inv_def by (metis word_gt_0_no less_irrefl)
qed

definition demo_sys :: sys_t where
  "demo_sys = \<lparr>kern = proc_init False (kern_static\<lparr>next_pid := 1\<rparr>),
     vm = demo_vmm\<lparr>pmm_st := \<lparr>zones = (\<lambda>_. zero_zone\<lparr>free_lists := (\<lambda>i. if i = 0 then 0x204000 else if i = 2 then 0x300000 else 0),
         free_count := 6\<rparr>),
       zone_count = 1, total_memory = 0x6000, used_memory = 0,
       pmm_mem = (\<lambda>a. if a = 0x204000 then 0x203000 else 0)\<rparr>\<rparr>\<rparr>"

lemma pmm_alloc_pages_4: "pmm_alloc_pages 4 p = Some (buddy_alloc 0 2 p)"
proof -
  have "order_loop 4 2 4 = Some 2" by (subst order_loop.simps) simp
  moreover have "Suc 1 = 2" "push_bit 1 (2 :: u64) = 4" by simp_all
  ultimately have "order_loop 2 1 4 = Some 2" by (subst order_loop.simps) (simp del: One_nat_def)
  then have "order_loop 1 0 4 = Some 2" by (subst order_loop.simps) simp
  then show ?thesis by (simp add: pmm_alloc_pages_def)
qed

lemma demo_create:
  "\<exists>s. proc_create 0 False 5 (Some ''init'') 0x1000 7 1 demo_sys = Some (1, s) \<and> pr_used (processes (kern s) 0)
     \<and> pr_pid (processes (kern s) 0) = 1"
proof -
  have "case proc_create 0 False 5 (Some ''init'') 0x1000 7 1 demo_sys of None \<Rightarrow> False
     | Some (r, s) \<Rightarrow> r = 1 \<and> pr_used (processes (kern s) 0) \<and> pr_pid (processes (kern s) 0) = 1"
    unfolding proc_create_def pmm_alloc_pages_4 by code_simp
  then show ?thesis by (auto split: option.splits)
qed

theorem proc_pids_unique_witness:
  "\<exists>s. proc_steps demo_sys s \<and> pr_used (processes (kern s) 0) \<and> proc_get 1 (kern s) = Some 0"
proof -
  from demo_create obtain s where s: "proc_create 0 False 5 (Some ''init'') 0x1000 7 1 demo_sys = Some (1, s)"
    "pr_used (processes (kern s) 0)" "pr_pid (processes (kern s) 0) = 1" by blast
  have "next_pid (kern demo_sys) < 0x80000000" by (simp add: demo_sys_def proc_init_def)
  from proc_steps.create [OF proc_steps.start this s(1)] have run: "proc_steps demo_sys s" .
  obtain v where d: "demo_sys = \<lparr>kern = proc_init False (kern_static\<lparr>next_pid := 1\<rparr>), vm = v\<rparr>"
    by (simp add: demo_sys_def)
  from proc_pids_unique [OF run [unfolded d]] s(2,3) have "proc_get 1 (kern s) = Some 0" by fastforce
  with run s(2) show ?thesis by blast
qed

section \<open>What creation and fork establish\<close>

lemma add_thread_other: "processes (sched_add_thread cpu (p, t) k) q = processes k q" if "q \<noteq> p"
  using that by (simp add: sched_add_thread_def set_state_def upd_thread_def set_rq_def Let_def)

lemma rq_count_queue: "rq_count (runqueues k c) = length (rq_list (runqueues k c))"
  by simp

lemma add_thread_appends:
  assumes "queues_ok k" "length (queue_of cpu k) < MAX_RUNQUEUE_DEPTH"
  shows "queue_of cpu (sched_add_thread cpu t k) = queue_of cpu k @ [Some t]"
    "thread_at (sched_add_thread cpu t k) t = (thread_at k t)\<lparr>th_state := PROC_READY\<rparr>"
  using assms add_thread_queue [OF assms(1), where cpu = cpu and t = t] add_thread_state(1) [where cpu = cpu and t = t and k = k and u = t]
  by simp_all

text \<open>When a slot, the pages and room in the run queue are available, proc_create returns the next
  identifier; under it proc_get finds the new process in the first unused slot, its thread is
  ready at the end of the CPU's queue with its registers set to start at the entry point on
  the top of a fresh four-page kernel stack, and no other process changes.\<close>

theorem proc_create_spec:
  assumes inv: "pid_inv (kern s)" "next_pid (kern s) < 0x80000000"
    and slot: "free_slot (kern s) = Some p"
    and mem: "vmm_create_space (vm s) = Ret (space, vm1)" "pmm_alloc_pages 4 (pmm_st vm1) = Some (stack, p1)" "stack \<noteq> 0"
    and queue: "queues_ok (kern s)" "length (queue_of cpu (kern s)) < MAX_RUNQUEUE_DEPTH"
  shows "\<exists>s'. proc_create cpu arm uptime (Some name) entry arg priority s = Some (sint (next_pid (kern s)), s')
    \<and> proc_get (sint (next_pid (kern s))) (kern s') = Some p
    \<and> queue_of cpu (kern s') = queue_of cpu (kern s) @ [Some (p, 0)]
    \<and> th_state (thread_at (kern s') (p, 0)) = PROC_READY
    \<and> th_context (thread_at (kern s') (p, 0)) = start_context arm entry arg (stack + 4 * PAGE_SIZE)
    \<and> pr_name (processes (kern s') p) = take 63 name \<and> pr_vm_space (processes (kern s') p) = space
    \<and> (\<forall>q. q \<noteq> p \<longrightarrow> processes (kern s') q = processes (kern s) q)"
proof -
  obtain s' where c: "proc_create cpu arm uptime (Some name) entry arg priority s = Some (sint (next_pid (kern s)), s')"
    using slot mem by (simp add: proc_create_def Let_def)
  obtain k2 where k2: "kern s' = sched_add_thread cpu (p, 0) k2" "runqueues k2 = runqueues (kern s)"
    "th_context (thread_at k2 (p, 0)) = start_context arm entry arg (stack + 4 * PAGE_SIZE)"
    "pr_pid (processes k2 p) = next_pid (kern s)" "pr_used (processes k2 p)"
    "pr_name (processes k2 p) = take 63 name" "pr_vm_space (processes k2 p) = space"
    "\<And>q. q \<noteq> p \<Longrightarrow> processes k2 q = processes (kern s) q"
    using c slot mem
    by (auto simp: proc_create_def Let_def signal_init_process_def upd_signals_def upd_proc_def thread_at_def)
  have q: "queues_ok k2" "length (queue_of cpu k2) < MAX_RUNQUEUE_DEPTH" using queue by (simp_all add: k2(2))
  note a = add_thread_appends [OF q, of "(p, 0)"]
  have "pr_name (processes (kern s') p) = take 63 name" "pr_vm_space (processes (kern s') p) = space"
    using k2 by (auto simp: sched_add_thread_def set_state_def upd_thread_def set_rq_def Let_def)
  moreover have "proc_get (sint (next_pid (kern s))) (kern s') = Some p"
    using pid_inv_proc_get [OF create_pid_inv [OF c inv], of p] free_slot_unused [OF slot] k2 by simp
  moreover have "\<forall>q. q \<noteq> p \<longrightarrow> processes (kern s') q = processes (kern s) q" using k2 add_thread_other by simp
  ultimately show ?thesis using c a k2 by (intro exI [of _ s']) simp
qed

lemma demo_memory:
  "\<exists>space vm1 p1. vmm_create_space (vm demo_sys) = Ret (space, vm1) \<and> pmm_alloc_pages 4 (pmm_st vm1) = Some (0x300000, p1)"
proof -
  have "case vmm_create_space (vm demo_sys) of Ret (space, vm1) \<Rightarrow> fst (buddy_alloc 0 2 (pmm_st vm1)) = 0x300000 | _ \<Rightarrow> False"
    by code_simp
  then obtain space vm1 where "vmm_create_space (vm demo_sys) = Ret (space, vm1)" "fst (buddy_alloc 0 2 (pmm_st vm1)) = 0x300000"
    by (auto split: outcome.splits)
  then show ?thesis unfolding pmm_alloc_pages_4 by (metis prod.collapse)
qed

theorem proc_create_spec_witness:
  "\<exists>s'. proc_create 0 False 5 (Some ''init'') 0x1000 7 1 demo_sys = Some (1, s') \<and> proc_get 1 (kern s') = Some 0
     \<and> queue_of 0 (kern s') = [Some (0, 0)] \<and> pr_name (processes (kern s') 0) = ''init''"
proof -
  from demo_memory obtain space vm1 p1 where m: "vmm_create_space (vm demo_sys) = Ret (space, vm1)"
    "pmm_alloc_pages 4 (pmm_st vm1) = Some (0x300000, p1)" "(0x300000 :: u64) \<noteq> 0" by auto
  have h: "pid_inv (kern demo_sys)" "next_pid (kern demo_sys) < 0x80000000" "free_slot (kern demo_sys) = Some 0"
    by (simp_all add: demo_sys_def proc_init_def pid_inv_def zero_process_of_def free_slot_def)
  have q: "queues_ok (kern demo_sys)" "length (queue_of 0 (kern demo_sys)) < MAX_RUNQUEUE_DEPTH"
    by (simp_all add: demo_sys_def proc_init_def kern_static_def rq_inv_def zero_rq_def)
  have n: "next_pid (kern demo_sys) = 1" "queue_of 0 (kern demo_sys) = []"
    by (simp_all add: demo_sys_def proc_init_def kern_static_def rq_list_def zero_rq_def)
  from proc_create_spec [OF h m q, of False 5 "''init''" "0x1000" 7 1] show ?thesis by (auto simp: n)
qed

text \<open>The process table slot of a terminated process stays in use, so its slot and pages are never
  given out again.\<close>

lemma exit_keeps_slot: "pr_used (processes (proc_exit code k) p) = pr_used (processes k p)"
  using same_ids_exit [of k code k] by (simp add: same_ids_def)

text \<open>The forked thread runs on its parent's kernel stack.\<close>

lemma fork_shares_kernel_stack:
  assumes "proc_fork cpu arm uptime s = Some (r, s')" "r \<noteq> -1"
    "proc_get_current (kern s) = Some q" "free_slot (kern s) = Some p"
  shows "th_kernel_stack (thread_at (kern s') (p, 0)) = th_kernel_stack (thread_at (kern s) (q, 0))"
proof -
  have "th_kernel_stack (thread_at (sched_add_thread cpu t k) u) = th_kernel_stack (thread_at k u)" for t k u
    by (simp add: add_thread_state)
  with assms show ?thesis
    by (auto simp: proc_fork_def Let_def split: outcome.splits) (simp add: thread_at_def)
qed

lemma pmm_alloc_page_high_orders:
  assumes "pmm_alloc_page p = Ret (a, p')" "\<forall>i. 0 < i \<longrightarrow> i \<le> PMM_MAX_ORDER \<longrightarrow> free_lists (zones p 0) i = 0"
  shows "\<forall>i. 0 < i \<longrightarrow> i \<le> PMM_MAX_ORDER \<longrightarrow> free_lists (zones p' 0) i = 0"
proof (cases "first_from (\<lambda>i. free_lists (zones p 0) i \<noteq> 0) 0 (Suc PMM_MAX_ORDER)")
  case None
  with assms(1) show ?thesis by (simp add: pmm_alloc_page_def buddy_alloc_def)
next
  case (Some i)
  then have "i = 0" using assms(2) by (auto simp: first_from_Some_iff)
  with Some assms show ?thesis
    by (auto simp: pmm_alloc_page_def buddy_alloc_def Let_def set_free_list_def add_counts_def split: if_splits)
qed

lemma create_space_high_orders:
  assumes "vmm_create_space v = Ret (a, v')" "\<forall>i. 0 < i \<longrightarrow> i \<le> PMM_MAX_ORDER \<longrightarrow> free_lists (zones (pmm_st v) 0) i = 0"
  shows "\<forall>i. 0 < i \<longrightarrow> i \<le> PMM_MAX_ORDER \<longrightarrow> free_lists (zones (pmm_st v') 0) i = 0"
proof -
  from assms(1) obtain x p1 y p2 where p: "pmm_alloc_page (pmm_st v) = Ret (x, p1)" "x \<noteq> 0"
    and p2: "pmm_alloc_page (p1\<lparr>pmm_mem := mem_zero x space_size (pmm_mem p1)\<rparr>) = Ret (y, p2)" "y \<noteq> 0"
    and z: "zones (pmm_st v') = zones p2"
    by (auto simp: vmm_create_space_def pmm_alloc_page_def zero_mem_def wr_def Let_def split: outcome.splits if_splits prod.splits)
  from pmm_alloc_page_high_orders [OF p(1) assms(2)] have
    "\<forall>i. 0 < i \<longrightarrow> i \<le> PMM_MAX_ORDER \<longrightarrow> free_lists (zones (p1\<lparr>pmm_mem := mem_zero x space_size (pmm_mem p1)\<rparr>) 0) i = 0" by simp
  from pmm_alloc_page_high_orders [OF p2(1) this] z show ?thesis by simp
qed

text \<open>While the page allocator only has single pages, which is the state pmm_init leaves and no
  operation on single pages changes, proc_create never creates a process: it panics or returns
  -1, because no block of four pages exists for the kernel stack.\<close>

theorem proc_create_needs_blocks:
  assumes "\<forall>i. 0 < i \<longrightarrow> i \<le> PMM_MAX_ORDER \<longrightarrow> free_lists (zones (pmm_st (vm s)) 0) i = 0"
  shows "case proc_create cpu arm uptime name entry arg priority s of None \<Rightarrow> True
    | Some (r, s') \<Rightarrow> r = -1 \<and> (\<forall>i. pr_used (processes (kern s') i) = (pr_used (processes (kern s) i)))"
proof (cases "free_slot (kern s)")
  case None
  then show ?thesis by (simp add: proc_create_def)
next
  case (Some p)
  show ?thesis
  proof (cases "vmm_create_space (vm s)")
    case (Ret r)
    then obtain space vm1 where r: "vmm_create_space (vm s) = Ret (space, vm1)" by (cases r) auto
    have "first_from (\<lambda>i. free_lists (zones (pmm_st vm1) 0) i \<noteq> 0) 2 (Suc PMM_MAX_ORDER) = None"
      using create_space_high_orders [OF r assms] by (simp add: first_from_None_iff)
    then have "pmm_alloc_pages 4 (pmm_st vm1) = Some (0, pmm_st vm1)"
      by (simp add: pmm_alloc_pages_4 buddy_alloc_def)
    with Some r free_slot_unused [OF Some] show ?thesis
      by (simp add: proc_create_def Let_def zero_process_of_def)
  qed (use Some in \<open>simp_all add: proc_create_def Let_def\<close>)
qed

theorem proc_create_needs_blocks_witness:
  "case proc_create 0 False 5 None 0x1000 7 1 (demo_sys\<lparr>vm := four_pages\<rparr>) of None \<Rightarrow> True | Some (r, s') \<Rightarrow> r = -1"
proof -
  have "\<forall>i. 0 < i \<longrightarrow> i \<le> PMM_MAX_ORDER \<longrightarrow> free_lists (zones (pmm_st (vm (demo_sys\<lparr>vm := four_pages\<rparr>))) 0) i = 0"
    by (simp add: four_pages_def)
  from proc_create_needs_blocks [OF this, of 0 False 5 None "0x1000" 7 1] show ?thesis by (auto split: option.splits)
qed

end
