(* ===== verification/Initramfs.thy ===== *)
theory Initramfs
  imports Prelude "HOL-Library.Sublist"
begin

text \<open>
  The cpio (\<open>newc\<close>) archive reader \<^verbatim>\<open>kernel/fs/initramfs.c\<close>. The archive is a list of bytes,
  offsets are 64-bit words as in the source. A C string is the bytes before its NUL. The
  search loop of \<^verbatim>\<open>initramfs_find\<close> is \<open>None\<close> if it does not end.
\<close>

abbreviation CPIO_HEADER_LEN :: u64 where "CPIO_HEADER_LEN \<equiv> 110"
abbreviation INITRAMFS_PATH_MAX :: u64 where "INITRAMFS_PATH_MAX \<equiv> 4096"

definition CPIO_MAGIC :: "u8 list" where
  "CPIO_MAGIC = [0x30, 0x37, 0x30, 0x37, 0x30, 0x31]"

record initramfs_t =
  archive :: "u8 list"
  fs_offset :: u64

record initramfs_entry_t =
  ent_data :: u64
  ent_size :: u64

abbreviation archive_size :: "initramfs_t \<Rightarrow> u64" where
  "archive_size fs \<equiv> of_nat (length (archive fs))"

definition hex_step :: "u64 \<Rightarrow> u8 \<Rightarrow> u64" where
  "hex_step val c =
     (let v = push_bit 4 val
      in if 0x30 \<le> c \<and> c \<le> 0x39 then v OR ucast (c - 0x30)
         else if 0x61 \<le> c \<and> c \<le> 0x66 then v OR ucast (c - 0x61 + 10)
         else if 0x41 \<le> c \<and> c \<le> 0x46 then v OR ucast (c - 0x41 + 10)
         else v)"

definition parse_hex :: "u8 list \<Rightarrow> nat \<Rightarrow> u64" where
  "parse_hex s len = foldl hex_step 0 (takeWhile (\<lambda>c. c \<noteq> 0) (take len s))"

definition initramfs_init :: "u8 list \<Rightarrow> initramfs_t" where
  "initramfs_init data = \<lparr>archive = data, fs_offset = 0\<rparr>"

definition align4 :: "u64 \<Rightarrow> u64" where
  "align4 x = (x + 3) AND NOT 3"

definition bytes_at :: "u64 \<Rightarrow> u64 \<Rightarrow> initramfs_t \<Rightarrow> u8 list" where
  "bytes_at off len fs = take (unat len) (drop (unat off) (archive fs))"

text \<open>The result code, the name copied out, the entry, and the new reader state.\<close>

definition initramfs_next :: "u64 \<Rightarrow> initramfs_t \<Rightarrow> int \<times> (u8 list \<times> initramfs_entry_t) option \<times> initramfs_t" where
  "initramfs_next namelen fs =
     (let off = fs_offset fs in
      if off \<ge> archive_size fs then (0, None, fs)
      else if off + CPIO_HEADER_LEN > archive_size fs then (-1, None, fs)
      else if bytes_at off 6 fs \<noteq> CPIO_MAGIC then (0, None, fs)
      else
        let namesize = parse_hex (bytes_at (off + 94) 8 fs) 8;
            filesize = parse_hex (bytes_at (off + 54) 8 fs) 8;
            name_off = off + CPIO_HEADER_LEN;
            data_off = align4 (name_off + namesize)
        in if name_off + namesize > archive_size fs \<or> data_off + filesize > archive_size fs then (-1, None, fs)
           else
             let cplen = (if namesize < namelen then namesize else namelen - 1);
                 name = takeWhile (\<lambda>c. c \<noteq> 0) (bytes_at name_off cplen fs)
             in (1, Some (name, \<lparr>ent_data = data_off, ent_size = filesize\<rparr>), fs\<lparr>fs_offset := align4 (data_off + filesize)\<rparr>))"

partial_function (option) find_loop :: "u8 list \<Rightarrow> initramfs_t \<Rightarrow> (initramfs_entry_t option \<times> initramfs_t) option" where
  "find_loop target fs =
     (case initramfs_next INITRAMFS_PATH_MAX fs of
        (ret, Some (name, entry), fs') \<Rightarrow>
          if name = target then Some (Some entry, fs') else find_loop target fs'
      | (ret, None, fs') \<Rightarrow> Some (None, fs'))"

definition initramfs_find :: "u8 list \<Rightarrow> initramfs_t \<Rightarrow> (int \<times> initramfs_entry_t option \<times> initramfs_t) option" where
  "initramfs_find target fs =
     (let saved = fs_offset fs
      in case find_loop target (fs\<lparr>fs_offset := 0\<rparr>) of
           None \<Rightarrow> None
         | Some (Some entry, fs') \<Rightarrow> Some (1, Some entry, fs')
         | Some (None, fs') \<Rightarrow> Some (0, None, fs'\<lparr>fs_offset := saved\<rparr>))"

section \<open>The search ends\<close>

lemma unat_align4:
  assumes "unat x + 3 < 2 ^ 64"
  shows "unat (align4 x) = (unat x + 3) div 4 * 4"
proof -
  have m: "(3 :: u64) = mask 2" by (simp add: mask_eq_exp_minus_1)
  have u: "unat (x + 3) = unat x + 3" using assms by (simp add: unat_word_ariths)
  have "align4 x = (x + 3) - take_bit 2 (x + 3)" unfolding align4_def m by (simp only: and_not_mask_minus)
  moreover have "unat (take_bit 2 (x + 3)) = (unat x + 3) mod 4"
    by (simp add: unsigned_take_bit_eq take_bit_nat_def u)
  moreover have "take_bit 2 (x + 3) \<le> x + 3" by (simp add: word_le_nat_alt unsigned_take_bit_eq take_bit_nat_def)
  ultimately show ?thesis by (simp add: unat_sub u minus_mod_eq_div_mult)
qed

definition nibble :: "u8 \<Rightarrow> nat" where
  "nibble c = (if 0x30 \<le> c \<and> c \<le> 0x39 then unat c - 0x30 else if 0x61 \<le> c \<and> c \<le> 0x66 then unat c - 0x57
     else if 0x41 \<le> c \<and> c \<le> 0x46 then unat c - 0x37 else 0)"

lemma nibble_less: "nibble c < 16"
  by (auto simp: nibble_def word_le_nat_alt)

lemma push4_or:
  assumes "unat (v :: u64) < 2 ^ 60" "unat d < 16"
  shows "unat (push_bit 4 v OR d) = 16 * unat v + unat d"
proof -
  have p: "unat (push_bit 4 v) = 16 * unat v"
    using assms(1) by (simp add: push_bit_eq_mult unat_word_ariths)
  have "push_bit 4 v AND d = 0"
  proof (rule bit_eqI)
    fix n
    have "take_bit 4 d = d" using assms(2) by (simp add: word_unat_eq_iff unsigned_take_bit_eq take_bit_nat_def)
    then have "bit d n \<Longrightarrow> n < 4" by (metis bit_take_bit_iff)
    then show "bit (push_bit 4 v AND d) n = bit 0 n" by (auto simp: bit_and_iff bit_push_bit_iff)
  qed
  then have "push_bit 4 v OR d = push_bit 4 v + d" by (simp add: disjunctive_add_eq_or)
  then show ?thesis using p assms by (simp add: unat_word_ariths)
qed

lemma hex_step_unat:
  assumes "unat v < 2 ^ 60"
  shows "unat (hex_step v c) = 16 * unat v + nibble c"
proof -
  have u: "unat (ucast (x :: u8) :: u64) = unat x" for x
    using unsigned_less [of x, where ?'a = nat] by (simp add: unsigned_ucast_eq take_bit_nat_eq_self)
  have v: "unat (push_bit 4 v) = 16 * unat v" using assms by (simp add: push_bit_eq_mult unat_word_ariths)
  consider "0x30 \<le> c \<and> c \<le> 0x39" | "\<not> (0x30 \<le> c \<and> c \<le> 0x39)" "0x61 \<le> c \<and> c \<le> 0x66"
    | "\<not> (0x30 \<le> c \<and> c \<le> 0x39)" "\<not> (0x61 \<le> c \<and> c \<le> 0x66)" "0x41 \<le> c \<and> c \<le> 0x46"
    | "\<not> (0x30 \<le> c \<and> c \<le> 0x39)" "\<not> (0x61 \<le> c \<and> c \<le> 0x66)" "\<not> (0x41 \<le> c \<and> c \<le> 0x46)" by blast
  then show ?thesis
  proof cases
    case 1
    then have "unat (c - 0x30) = unat c - 0x30" "unat c \<le> 0x39" by (simp_all add: unat_sub word_le_nat_alt)
    with 1 push4_or [OF assms, of "ucast (c - 0x30)"] show ?thesis by (simp add: hex_step_def nibble_def u)
  next
    case 2
    then have "unat (c - 0x61 + 10) = unat c - 0x57"
      by (simp add: unat_word_ariths(1) unat_sub word_le_nat_alt)
    moreover have "unat c \<le> 102" using 2 by (simp add: word_le_nat_alt)
    then have "unat c - 0x57 < 16" by linarith
    ultimately show ?thesis using 2 push4_or [OF assms, of "ucast (c - 0x61 + 10)"] by (simp add: hex_step_def nibble_def u word_le_nat_alt)
  next
    case 3
    then have "unat (c - 0x41 + 10) = unat c - 0x37"
      by (simp add: unat_word_ariths(1) unat_sub word_le_nat_alt)
    moreover have "unat c \<le> 70" using 3 by (simp add: word_le_nat_alt)
    then have "unat c - 0x37 < 16" by linarith
    ultimately show ?thesis using 3 push4_or [OF assms, of "ucast (c - 0x41 + 10)"] by (simp add: hex_step_def nibble_def u word_le_nat_alt)
  next
    case 4
    then show ?thesis by (auto simp: hex_step_def nibble_def v Let_def)
  qed
qed

lemma hex_fold:
  assumes "unat v < 16 ^ k" "k + length cs \<le> 15"
  shows "unat (foldl hex_step v cs) = foldl (\<lambda>a c. 16 * a + nibble c) (unat v) cs \<and> unat (foldl hex_step v cs) < 16 ^ (k + length cs)"
  using assms
proof (induction cs arbitrary: v k)
  case (Cons c cs)
  have "(16 :: nat) ^ k \<le> 16 ^ 15" using Cons.prems(2) by (intro power_increasing) auto
  then have "unat v < 2 ^ 60" using Cons.prems(1) by simp
  then have s: "unat (hex_step v c) = 16 * unat v + nibble c" by (rule hex_step_unat)
  then have "unat (hex_step v c) < 16 ^ Suc k" using Cons.prems(1) nibble_less [of c] by simp
  from Cons.IH [OF this] Cons.prems(2) s show ?case by simp
qed simp

lemma parse_hex_less: "unat (parse_hex s 8) < 2 ^ 32"
proof -
  let ?cs = "takeWhile (\<lambda>c. c \<noteq> 0) (take 8 s)"
  have l: "length ?cs \<le> 8" by (rule order_trans [OF length_takeWhile_le]) simp
  then have "unat (foldl hex_step 0 ?cs) < 16 ^ length ?cs" using hex_fold [of 0 0 ?cs] by simp
  also have "(16 :: nat) ^ length ?cs \<le> 16 ^ 8" using l by (intro power_increasing) auto
  finally show ?thesis by (simp add: parse_hex_def)
qed

text \<open>An entry that is read moves the offset forward.\<close>

lemma next_advances:
  assumes "initramfs_next n fs = (r, Some e, fs')" "length (archive fs) < 2 ^ 62"
  shows "unat (fs_offset fs) < unat (fs_offset fs')" "unat (fs_offset fs') \<le> length (archive fs) + 3" "archive fs' = archive fs"
    "unat (fs_offset fs) < length (archive fs)" "unat (ent_data (snd e)) + unat (ent_size (snd e)) \<le> length (archive fs)"
proof -
  let ?o = "unat (fs_offset fs)" and ?len = "length (archive fs)"
  let ?ns = "parse_hex (bytes_at (fs_offset fs + 94) 8 fs) 8" and ?fz = "parse_hex (bytes_at (fs_offset fs + 54) 8 fs) 8"
  let ?d = "align4 (fs_offset fs + CPIO_HEADER_LEN + ?ns)"
  have len: "unat (archive_size fs) = ?len" using assms(2) by (simp add: unat_of_nat take_bit_nat_eq_self)
  from assms(1) have c: "fs_offset fs < archive_size fs" "fs_offset fs + CPIO_HEADER_LEN + ?ns \<le> archive_size fs"
    "?d + ?fz \<le> archive_size fs" "fs' = fs\<lparr>fs_offset := align4 (?d + ?fz)\<rparr>"
    "snd e = \<lparr>ent_data = ?d, ent_size = ?fz\<rparr>"
    by (auto simp: initramfs_next_def Let_def not_le not_less split: if_splits)
  have o: "?o < ?len" using c(1) by (simp add: word_less_nat_alt len)
  have n: "unat (fs_offset fs + CPIO_HEADER_LEN + ?ns) = ?o + 110 + unat ?ns"
    using o assms(2) parse_hex_less [of "bytes_at (fs_offset fs + 94) 8 fs"] by (simp add: unat_word_ariths)
  then have d: "unat ?d = (?o + 110 + unat ?ns + 3) div 4 * 4"
    using o assms(2) parse_hex_less [of "bytes_at (fs_offset fs + 94) 8 fs"] by (subst unat_align4) simp_all
  have f: "unat (?d + ?fz) = unat ?d + unat ?fz"
    using d o assms(2) parse_hex_less [of "bytes_at (fs_offset fs + 94) 8 fs"] parse_hex_less [of "bytes_at (fs_offset fs + 54) 8 fs"]
    by (simp add: unat_word_ariths)
  have le: "unat ?d + unat ?fz \<le> ?len" using c(3) by (simp add: word_le_nat_alt len f)
  have "unat (align4 (?d + ?fz)) = (unat ?d + unat ?fz + 3) div 4 * 4" using le assms(2) f by (subst unat_align4) simp_all
  with c(4) d le show "?o < unat (fs_offset fs')" "unat (fs_offset fs') \<le> ?len + 3" by simp_all
  show "archive fs' = archive fs" using c(4) by simp
  show "?o < ?len" by (rule o)
  show "unat (ent_data (snd e)) + unat (ent_size (snd e)) \<le> ?len" using c(5) le by simp
qed

definition entry_inside :: "initramfs_entry_t \<Rightarrow> u8 list \<Rightarrow> bool" where
  "entry_inside e data \<longleftrightarrow> unat (ent_data e) + unat (ent_size e) \<le> length data"

lemma find_loop_returns:
  "length (archive fs) < 2 ^ 62 \<Longrightarrow> \<exists>e fs'. find_loop target fs = Some (e, fs') \<and> archive fs' = archive fs
     \<and> (\<forall>ent. e = Some ent \<longrightarrow> entry_inside ent (archive fs))"
proof (induction "length (archive fs) + 4 - unat (fs_offset fs)" arbitrary: fs rule: less_induct)
  case less
  obtain r e fs' where n: "initramfs_next INITRAMFS_PATH_MAX fs = (r, e, fs')" by (metis prod_cases3)
  show ?case
  proof (cases e)
    case None
    then have "fs' = fs" using n by (auto simp: initramfs_next_def Let_def split: if_splits)
    with n None show ?thesis by (subst find_loop.simps) simp
  next
    case (Some x)
    obtain name ent where x: "x = (name, ent)" by (cases x)
    note a = next_advances [OF n [unfolded Some] less.prems]
    have "length (archive fs') + 4 - unat (fs_offset fs') < length (archive fs) + 4 - unat (fs_offset fs)" using a by simp
    from less.hyps [OF this] less.prems a(3) have "\<exists>e fs''. find_loop target fs' = Some (e, fs'') \<and> archive fs'' = archive fs
     \<and> (\<forall>ent. e = Some ent \<longrightarrow> entry_inside ent (archive fs))" by simp
    moreover have "entry_inside ent (archive fs)" using a(5) x by (simp add: entry_inside_def)
    ultimately show ?thesis using n Some x a(3) by (subst find_loop.simps) auto
  qed
qed

lemma find_returns:
  assumes "length (archive fs) < 2 ^ 62"
  shows "\<exists>ret e fs'. initramfs_find target fs = Some (ret, e, fs') \<and> archive fs' = archive fs
    \<and> (case e of None \<Rightarrow> ret = 0 \<and> fs_offset fs' = fs_offset fs
       | Some ent \<Rightarrow> ret = 1 \<and> entry_inside ent (archive fs))"
proof -
  from find_loop_returns [of "fs\<lparr>fs_offset := 0\<rparr>" target] assms obtain e fs' where
    "find_loop target (fs\<lparr>fs_offset := 0\<rparr>) = Some (e, fs')" "archive fs' = archive fs"
    "\<And>ent. e = Some ent \<Longrightarrow> entry_inside ent (archive fs)" by auto
  then show ?thesis by (cases e) (simp_all add: initramfs_find_def)
qed

text \<open>The search through an archive of any contents below 2^62 bytes comes to an end: it returns 1
  with an entry whose data lie inside the archive, or 0 with the reader's position restored.\<close>

theorem initramfs_find_returns:
  assumes "length (archive fs) < 2 ^ 62"
  shows "\<exists>ret e fs'. initramfs_find target fs = Some (ret, e, fs') \<and> archive fs' = archive fs
    \<and> (case e of None \<Rightarrow> ret = 0 \<and> fs_offset fs' = fs_offset fs
       | Some ent \<Rightarrow> ret = 1 \<and> entry_inside ent (archive fs))"
  using find_returns [OF assms] .

theorem initramfs_find_returns_witness:
  "\<exists>ret e fs'. initramfs_find [0x61] (initramfs_init [1, 2, 3]) = Some (ret, e, fs') \<and> archive fs' = [1, 2, 3]"
proof -
  have "length (archive (initramfs_init [1, 2, 3])) < 2 ^ 62" by (simp add: initramfs_init_def)
  from initramfs_find_returns [OF this, of "[0x61]"] show ?thesis by (auto simp: initramfs_init_def)
qed

section \<open>Reading back what the archive format encodes\<close>

text \<open>The \<open>newc\<close> format, as a reference: thirteen fields of eight hexadecimal digits after the magic,
  the name with its NUL, padding, the contents, padding. The fields the reader does not use
  are arbitrary.\<close>

record cpio_file =
  cf_name :: "u8 list"
  cf_data :: "u8 list"
  cf_meta1 :: "u8 list"
  cf_meta2 :: "u8 list"
  cf_check :: "u8 list"

definition hex_digit :: "nat \<Rightarrow> u8" where
  "hex_digit d = (if d < 10 then of_nat (0x30 + d) else of_nat (0x57 + d))"

fun hexn :: "nat \<Rightarrow> nat \<Rightarrow> u8 list" where
  "hexn 0 n = []"
| "hexn (Suc k) n = hexn k (n div 16) @ [hex_digit (n mod 16)]"

definition pad4 :: "nat \<Rightarrow> u8 list" where
  "pad4 n = replicate ((n + 3) div 4 * 4 - n) 0"

definition cpio_header :: "cpio_file \<Rightarrow> u8 list" where
  "cpio_header f = CPIO_MAGIC @ cf_meta1 f @ hexn 8 (length (cf_data f)) @ cf_meta2 f
     @ hexn 8 (length (cf_name f) + 1) @ cf_check f"

definition cpio_entry :: "cpio_file \<Rightarrow> u8 list" where
  "cpio_entry f = cpio_header f @ cf_name f @ [0] @ pad4 (110 + (length (cf_name f) + 1)) @ cf_data f @ pad4 (length (cf_data f))"

definition wf_file :: "cpio_file \<Rightarrow> bool" where
  "wf_file f \<longleftrightarrow> length (cf_meta1 f) = 48 \<and> length (cf_meta2 f) = 32 \<and> length (cf_check f) = 8
     \<and> 0 \<notin> set (cf_name f) \<and> length (cf_name f) < 4095 \<and> length (cf_data f) < 2 ^ 32"

lemma unat_hex_digit: "d < 16 \<Longrightarrow> unat (hex_digit d) = (if d < 10 then 48 + d else 87 + d)"
  by (simp add: hex_digit_def unat_word_ariths unat_of_nat take_bit_nat_def)

lemma nibble_hex_digit [simp]: "d < 16 \<Longrightarrow> nibble (hex_digit d) = d"
  by (simp add: nibble_def word_le_nat_alt unat_hex_digit)

lemma hex_digit_nonzero [simp]: "d < 16 \<Longrightarrow> hex_digit d \<noteq> 0"
  by (simp add: word_unat_eq_iff unat_hex_digit)

lemma length_hexn [simp]: "length (hexn k n) = k"
  by (induction k arbitrary: n) auto

lemma hexn_nonzero: "c \<in> set (hexn k n) \<Longrightarrow> c \<noteq> 0"
  by (induction k arbitrary: n) auto

lemma hexn_value: "foldl (\<lambda>a c. 16 * a + nibble c) a (hexn k n) = 16 ^ k * a + n mod 16 ^ k"
proof (induction k arbitrary: n)
  case (Suc k)
  have "n mod 16 ^ Suc k = 16 * (n div 16 mod 16 ^ k) + n mod 16" by (simp add: mod_mult2_eq)
  with Suc show ?case by simp
qed simp

lemma parse_hexn: "n < 2 ^ 32 \<Longrightarrow> unat (parse_hex (hexn 8 n) 8) = n"
proof -
  assume n: "n < 2 ^ 32"
  have t: "takeWhile (\<lambda>c. c \<noteq> 0) (take 8 (hexn 8 n)) = hexn 8 n"
    by (simp add: takeWhile_eq_all_conv) (use hexn_nonzero in blast)
  have "unat (foldl hex_step 0 (hexn 8 n)) = foldl (\<lambda>a c. 16 * a + nibble c) (unat (0 :: u64)) (hexn 8 n)"
    using hex_fold [of 0 0 "hexn 8 n"] by (simp del: hexn.simps)
  then show ?thesis using n by (simp only: parse_hex_def t hexn_value) simp
qed

lemma bytes_at_app:
  assumes "archive fs = pre @ mid @ post" "off = of_nat (length pre + k)" "unat len = l" "k + l \<le> length mid"
    "length (archive fs) < 2 ^ 62"
  shows "bytes_at off len fs = take l (drop k mid)"
proof -
  have "unat off = length pre + k" using assms by (simp add: unat_of_nat take_bit_nat_eq_self del: of_nat_add)
  with assms show ?thesis by (simp add: bytes_at_def)
qed

lemma header_parts:
  assumes "wf_file f"
  shows "length (cpio_header f) = 110" "take 6 (cpio_header f) = CPIO_MAGIC"
    "take 8 (drop 54 (cpio_header f)) = hexn 8 (length (cf_data f))"
    "take 8 (drop 94 (cpio_header f)) = hexn 8 (length (cf_name f) + 1)"
  using assms by (simp_all add: cpio_header_def wf_file_def CPIO_MAGIC_def)

abbreviation entry_at :: "nat \<Rightarrow> cpio_file \<Rightarrow> initramfs_entry_t" where
  "entry_at p f \<equiv> \<lparr>ent_data = of_nat (p + (110 + (length (cf_name f) + 1) + 3) div 4 * 4), ent_size = of_nat (length (cf_data f))\<rparr>"

lemma next_entry:
  assumes fs: "archive fs = pre @ cpio_entry f @ post" "fs_offset fs = of_nat (length pre)" "4 dvd length pre"
    and len: "length (archive fs) < 2 ^ 62" and wf: "wf_file f"
  shows "initramfs_next INITRAMFS_PATH_MAX fs =
      (1, Some (cf_name f, entry_at (length pre) f), fs\<lparr>fs_offset := of_nat (length (pre @ cpio_entry f))\<rparr>)"
    "bytes_at (ent_data (entry_at (length pre) f)) (ent_size (entry_at (length pre) f)) fs = cf_data f"
proof -
  let ?p = "length pre" and ?ns = "length (cf_name f) + 1" and ?fz = "length (cf_data f)"
  let ?d = "(110 + ?ns + 3) div 4 * 4"
  note h = header_parts [OF wf]
  have parts: "length (cpio_entry f) = ?d + (?fz + 3) div 4 * 4"
    by (simp add: cpio_entry_def pad4_def h(1))
  obtain q where q: "?p = 4 * q" using fs(3) by (auto elim: dvdE)
  have round: "(c + (4 * q + m)) div 4 * 4 = 4 * q + (c + m) div 4 * 4" for c m :: nat
    using div_mult_self2 [of 4 "c + m" q] by (simp add: algebra_simps)
  have round2: "(4 * q + a * 4 + m + 3) div 4 * 4 = 4 * q + (a * 4 + (m + 3) div 4 * 4)" for a m :: nat
    using div_mult_self2 [of 4 "m + 3" "q + a"] by (simp add: algebra_simps)
  have total: "?p + length (cpio_entry f) < 2 ^ 62" using len fs(1) by simp
  have off: "unat (fs_offset fs) = ?p" using fs(2) total by (simp add: unat_of_nat take_bit_nat_eq_self)
  have size: "unat (archive_size fs) = length (archive fs)" using len by (simp add: unat_of_nat take_bit_nat_eq_self)
  have room: "?p + length (cpio_entry f) \<le> length (archive fs)" using fs(1) by simp
  have e: "cpio_entry f = cpio_header f @ cf_name f @ 0 # pad4 (110 + ?ns) @ cf_data f @ pad4 ?fz" by (simp add: cpio_entry_def)
  have at: "bytes_at (of_nat (?p + k)) l fs = take (unat l) (drop k (cpio_entry f))" if "k + unat l \<le> length (cpio_entry f)" for k l
    using bytes_at_app [OF fs(1) refl refl that len] .
  have big: "110 + ?ns \<le> ?d" "?d + ?fz \<le> length (cpio_entry f)" unfolding parts by linarith+
  have magic: "bytes_at (fs_offset fs) 6 fs = CPIO_MAGIC"
    using at [of 0 6] fs(2) big h by (simp add: e)
  have a94: "fs_offset fs + 94 = of_nat (?p + 94)" and a54: "fs_offset fs + 54 = of_nat (?p + 54)"
    and a110: "fs_offset fs + 110 = of_nat (?p + 110)" using fs(2) by simp_all
  have ns: "bytes_at (fs_offset fs + 94) 8 fs = hexn 8 ?ns" unfolding a94 using at [of 94 8] big h by (simp add: e del: of_nat_add)
  have fz: "bytes_at (fs_offset fs + 54) 8 fs = hexn 8 ?fz" unfolding a54 using at [of 54 8] big h by (simp add: e del: of_nat_add)
  let ?wn = "parse_hex (hexn 8 ?ns) 8" and ?wf = "parse_hex (hexn 8 ?fz) 8"
  have un: "unat ?wn = ?ns" "unat ?wf = ?fz" using wf by (simp_all add: parse_hexn wf_file_def del: hexn.simps)
  let ?name_off = "fs_offset fs + CPIO_HEADER_LEN"
  have n1: "unat ?name_off = ?p + 110" using off total big by (simp add: unat_word_ariths)
  have n2: "unat (?name_off + ?wn) = ?p + 110 + ?ns" using n1 un total big by (simp add: unat_word_ariths(1))
  have d1: "unat (align4 (?name_off + ?wn)) = ?p + ?d"
    using n2 total big by (subst unat_align4) (simp_all add: q round)
  have d2: "unat (align4 (?name_off + ?wn) + ?wf) = ?p + ?d + ?fz" using d1 un total big by (simp add: unat_word_ariths(1))
  have d3: "unat (align4 (align4 (?name_off + ?wn) + ?wf)) = ?p + length (cpio_entry f)"
    using d2 total big parts by (subst unat_align4) (simp_all add: q round2)
  have cmp: "fs_offset fs < archive_size fs" "?name_off \<le> archive_size fs" "?name_off + ?wn \<le> archive_size fs"
    "align4 (?name_off + ?wn) + ?wf \<le> archive_size fs" "?wn < INITRAMFS_PATH_MAX"
    using off n1 n2 d2 un big room wf by (simp_all add: word_less_nat_alt word_le_nat_alt size wf_file_def)
  have name: "takeWhile (\<lambda>c. c \<noteq> 0) (bytes_at ?name_off ?wn fs) = cf_name f"
  proof -
    have "bytes_at ?name_off ?wn fs = cf_name f @ [0]"
      unfolding a110 using at [of 110 ?wn] big un h by (simp add: e del: of_nat_add)
    moreover have "\<forall>c \<in> set (cf_name f). c \<noteq> 0" using wf by (auto simp: wf_file_def)
    ultimately show ?thesis by (simp add: takeWhile_append2)
  qed
  have doff: "align4 (?name_off + ?wn) = of_nat (?p + ?d)" and wfz: "?wf = of_nat ?fz"
    using d1 un(2) wf total big by (simp_all add: word_unat_eq_iff unat_of_nat take_bit_nat_eq_self wf_file_def del: of_nat_add)
  have data: "bytes_at (of_nat (?p + ?d)) ?wf fs = cf_data f"
  proof -
    have "cpio_entry f = (cpio_header f @ cf_name f @ [0] @ pad4 (110 + ?ns)) @ cf_data f @ pad4 ?fz"
      by (simp add: cpio_entry_def)
    moreover have "length (cpio_header f @ cf_name f @ [0] @ pad4 (110 + ?ns)) = ?d" using h big(1) by (simp add: pad4_def)
    ultimately show ?thesis using at [of ?d ?wf] big(2) un by (simp only: drop_append) simp
  qed
  have noff: "align4 (align4 (?name_off + ?wn) + ?wf) = of_nat (length (pre @ cpio_entry f))"
    using d3 total by (simp add: word_unat_eq_iff unat_of_nat take_bit_nat_eq_self del: of_nat_add)
  show "initramfs_next INITRAMFS_PATH_MAX fs =
      (1, Some (cf_name f, entry_at ?p f), fs\<lparr>fs_offset := of_nat (length (pre @ cpio_entry f))\<rparr>)"
    using cmp magic ns fz name noff doff wfz unfolding initramfs_next_def
    by (simp add: Let_def not_le not_less del: of_nat_add)
  show "bytes_at (ent_data (entry_at ?p f)) (ent_size (entry_at ?p f)) fs = cf_data f" using data wfz by simp
qed

lemma cpio_entry_aligned: "wf_file f \<Longrightarrow> 4 dvd length (cpio_entry f)"
proof -
  assume "wf_file f"
  then have "length (cpio_entry f) = (110 + (length (cf_name f) + 1) + 3) div 4 * 4 + (length (cf_data f) + 3) div 4 * 4"
    by (simp add: cpio_entry_def pad4_def header_parts(1))
  then show ?thesis by simp
qed

lemma next_at_end: "archive_size fs \<le> fs_offset fs \<Longrightarrow> fst (snd (initramfs_next p fs)) = None \<and> snd (snd (initramfs_next p fs)) = fs"
  by (simp add: initramfs_next_def)

lemma find_loop_entries:
  assumes "archive fs = pre @ concat (map cpio_entry files)" "fs_offset fs = of_nat (length pre)" "4 dvd length pre"
    "length (archive fs) < 2 ^ 62" "list_all wf_file files"
  shows "case List.find (\<lambda>f. cf_name f = target) files of
      Some f \<Rightarrow> \<exists>e fs'. find_loop target fs = Some (Some e, fs') \<and> bytes_at (ent_data e) (ent_size e) fs = cf_data f
    | None \<Rightarrow> \<exists>fs'. find_loop target fs = Some (None, fs')"
  using assms
proof (induction files arbitrary: pre fs)
  case Nil
  then have "fst (snd (initramfs_next INITRAMFS_PATH_MAX fs)) = None" by (intro next_at_end [THEN conjunct1]) simp
  then show ?case by (subst find_loop.simps) (auto split: prod.splits option.splits)
next
  case (Cons f files)
  from next_entry [of fs pre f "concat (map cpio_entry files)"] Cons.prems obtain e where
    e: "initramfs_next INITRAMFS_PATH_MAX fs = (1, Some (cf_name f, e), fs\<lparr>fs_offset := of_nat (length (pre @ cpio_entry f))\<rparr>)"
       "bytes_at (ent_data e) (ent_size e) fs = cf_data f" by auto
  let ?fs = "fs\<lparr>fs_offset := of_nat (length (pre @ cpio_entry f))\<rparr>"
  have same: "bytes_at a l ?fs = bytes_at a l fs" for a l by (simp add: bytes_at_def)
  from Cons.IH [of ?fs "pre @ cpio_entry f"] Cons.prems cpio_entry_aligned [of f]
  have "case List.find (\<lambda>f. cf_name f = target) files of
      Some f \<Rightarrow> \<exists>e fs'. find_loop target ?fs = Some (Some e, fs') \<and> bytes_at (ent_data e) (ent_size e) fs = cf_data f
    | None \<Rightarrow> \<exists>fs'. find_loop target ?fs = Some (None, fs')" unfolding same by simp
  then show ?case using e by (subst (1 2) find_loop.simps) (auto split: option.splits)
qed


definition hello_file :: cpio_file where
  "hello_file = \<lparr>cf_name = [0x61], cf_data = [7, 8, 9], cf_meta1 = replicate 48 0x30, cf_meta2 = replicate 32 0x30, cf_check = replicate 8 0x30\<rparr>"


end
