(* ===== verification/Elf.thy ===== *)
theory Elf
  imports Prelude
begin

text \<open>
  The ELF64 loader \<^verbatim>\<open>kernel/fs/elf.c\<close>. Memory is a function from addresses to bytes; the loader
  reads the headers from it and copies the segments inside it, so every read after a copy
  goes to the changed memory, as in the source. Address arithmetic is that of 64-bit words.
\<close>

type_synonym byte_mem = "u64 \<Rightarrow> u8"

section \<open>Structures read from memory\<close>

fun le_word :: "u8 list \<Rightarrow> 'a :: len word" where
  "le_word [] = 0"
| "le_word (b # bs) = ucast b OR push_bit 8 (le_word bs)"

definition load_le :: "byte_mem \<Rightarrow> u64 \<Rightarrow> nat \<Rightarrow> 'a :: len word" where
  "load_le m a n = le_word (map (\<lambda>i. m (a + of_nat i)) [0..<n])"

abbreviation ELF_MAGIC :: u32 where "ELF_MAGIC \<equiv> 0x464C457F"
abbreviation ELFCLASS64 :: u8 where "ELFCLASS64 \<equiv> 2"
abbreviation ET_EXEC :: u16 where "ET_EXEC \<equiv> 2"
abbreviation ET_DYN :: u16 where "ET_DYN \<equiv> 3"
abbreviation PT_LOAD :: u32 where "PT_LOAD \<equiv> 1"

text \<open>The packed structures; the reading functions have the offsets of the fields. The header has
  64 bytes, a program header 56.\<close>

record elf64_header_t =
  eh_magic :: u32
  eh_class :: u8
  eh_data :: u8
  eh_version :: u8
  eh_osabi :: u8
  eh_abiversion :: u8
  eh_pad :: "u8 list"
  eh_type :: u16
  eh_machine :: u16
  eh_version2 :: u32
  eh_entry :: u64
  eh_phoff :: u64
  eh_shoff :: u64
  eh_flags :: u32
  eh_ehsize :: u16
  eh_phentsize :: u16
  eh_phnum :: u16
  eh_shentsize :: u16
  eh_shnum :: u16
  eh_shstrndx :: u16

record elf64_phdr_t =
  ph_type :: u32
  ph_flags :: u32
  ph_offset :: u64
  ph_vaddr :: u64
  ph_paddr :: u64
  ph_filesz :: u64
  ph_memsz :: u64
  ph_align :: u64

record elf_loaded_t =
  el_data :: u64
  el_size :: u64
  el_entry :: u64
  el_load_base :: u64

definition read_header :: "byte_mem \<Rightarrow> u64 \<Rightarrow> elf64_header_t" where
  "read_header m p = \<lparr>eh_magic = load_le m p 4, eh_class = load_le m (p + 4) 1, eh_data = load_le m (p + 5) 1,
     eh_version = load_le m (p + 6) 1, eh_osabi = load_le m (p + 7) 1, eh_abiversion = load_le m (p + 8) 1,
     eh_pad = map (\<lambda>i. load_le m (p + i) 1) [9, 10, 11, 12, 13, 14, 15],
     eh_type = load_le m (p + 16) 2, eh_machine = load_le m (p + 18) 2, eh_version2 = load_le m (p + 20) 4,
     eh_entry = load_le m (p + 24) 8, eh_phoff = load_le m (p + 32) 8, eh_shoff = load_le m (p + 40) 8,
     eh_flags = load_le m (p + 48) 4, eh_ehsize = load_le m (p + 52) 2, eh_phentsize = load_le m (p + 54) 2,
     eh_phnum = load_le m (p + 56) 2, eh_shentsize = load_le m (p + 58) 2, eh_shnum = load_le m (p + 60) 2,
     eh_shstrndx = load_le m (p + 62) 2\<rparr>"

definition read_phdr :: "byte_mem \<Rightarrow> u64 \<Rightarrow> elf64_phdr_t" where
  "read_phdr m p = \<lparr>ph_type = load_le m p 4, ph_flags = load_le m (p + 4) 4, ph_offset = load_le m (p + 8) 8,
     ph_vaddr = load_le m (p + 16) 8, ph_paddr = load_le m (p + 24) 8, ph_filesz = load_le m (p + 32) 8,
     ph_memsz = load_le m (p + 40) 8, ph_align = load_le m (p + 48) 8\<rparr>"

definition memcpy :: "u64 \<Rightarrow> u64 \<Rightarrow> u64 \<Rightarrow> byte_mem \<Rightarrow> byte_mem" where
  "memcpy dst src n m = (\<lambda>a. if a - dst < n then m (src + (a - dst)) else m a)"

definition memset :: "u64 \<Rightarrow> u8 \<Rightarrow> u64 \<Rightarrow> byte_mem \<Rightarrow> byte_mem" where
  "memset dst c n m = (\<lambda>a. if a - dst < n then c else m a)"

section \<open>The loader\<close>

text \<open>The product of the two 16-bit fields is computed as a 32-bit \<^verbatim>\<open>int\<close> and then widened: the
  model takes two's complement for the products that do not fit, which C leaves undefined.\<close>

definition phdr_size :: "elf64_header_t \<Rightarrow> u64" where
  "phdr_size h = scast (ucast (eh_phentsize h) * ucast (eh_phnum h) :: u32)"

abbreviation phdr_at :: "u64 \<Rightarrow> nat \<Rightarrow> u64" where
  "phdr_at phdr i \<equiv> phdr + 56 * of_nat i"

text \<open>Copying one segment: the sizes are read again after the copy.\<close>

definition load_segment :: "u64 \<Rightarrow> u64 \<Rightarrow> byte_mem \<Rightarrow> byte_mem" where
  "load_segment binary pa m =
     (let ph = read_phdr m pa;
          dst = ph_vaddr ph;
          m = memcpy dst (binary + ph_offset ph) (ph_filesz ph) m;
          ph = read_phdr m pa
      in if ph_memsz ph > ph_filesz ph then memset (dst + ph_filesz ph) 0 (ph_memsz ph - ph_filesz ph) m else m)"

text \<open>The loop over the program headers: the memory, and the lowest start address unless a
  segment reaches past the file. The end address, which the source only prints, is left out.\<close>

function segment_loop :: "u64 \<Rightarrow> u64 \<Rightarrow> u64 \<Rightarrow> nat \<Rightarrow> u64 \<Rightarrow> byte_mem \<Rightarrow> u64 option \<times> byte_mem" where
  "segment_loop binary fsize phdr i load_base m =
     (if i < unat (eh_phnum (read_header m binary)) then
        let ph = read_phdr m (phdr_at phdr i)
        in if ph_type ph \<noteq> PT_LOAD then segment_loop binary fsize phdr (Suc i) load_base m
           else
             let load_base = (if ph_vaddr ph < load_base then ph_vaddr ph else load_base)
             in if ph_offset ph + ph_filesz ph > fsize then (None, m)
                else segment_loop binary fsize phdr (Suc i) load_base (load_segment binary (phdr_at phdr i) m)
      else (Some load_base, m))"
  by pat_completeness auto
termination
proof (relation "measure (\<lambda>(binary, fsize, phdr, i, load_base, m). 65536 - i)", goal_cases)
  case (2 binary fsize phdr i load_base m)
  then show ?case using unsigned_less [of "eh_phnum (read_header m binary)", where ?'a = nat] by simp
next
  case (3 binary fsize phdr i load_base m)
  then show ?case using unsigned_less [of "eh_phnum (read_header m binary)", where ?'a = nat] by simp
qed simp

declare segment_loop.simps [simp del]

text \<open>\<open>0\<close> stands for a NULL \<open>binary\<close>; \<open>out\<close> is the result.\<close>

definition elf_load :: "u64 \<Rightarrow> u64 \<Rightarrow> byte_mem \<Rightarrow> int \<times> elf_loaded_t option \<times> byte_mem" where
  "elf_load binary fsize m =
     (if binary = 0 \<or> fsize < 64 then (-1, None, m)
      else
        let hdr = read_header m binary
        in if eh_magic hdr \<noteq> ELF_MAGIC then (-1, None, m)
           else if eh_class hdr \<noteq> ELFCLASS64 then (-1, None, m)
           else if eh_type hdr \<noteq> ET_EXEC \<and> eh_type hdr \<noteq> ET_DYN then (-1, None, m)
           else if eh_phoff hdr + phdr_size hdr > fsize then (-1, None, m)
           else
             case segment_loop binary fsize (binary + eh_phoff hdr) 0 (-1) m of
               (None, m') \<Rightarrow> (-1, None, m')
             | (Some load_base, m') \<Rightarrow>
                 (0, Some \<lparr>el_data = binary, el_size = fsize, el_entry = eh_entry (read_header m' binary),
                    el_load_base = load_base\<rparr>, m'))"

section \<open>What the loader leaves in memory\<close>

definition same_on :: "u64 \<Rightarrow> u64 \<Rightarrow> byte_mem \<Rightarrow> byte_mem \<Rightarrow> bool" where
  "same_on p n m m' \<longleftrightarrow> (\<forall>a. a - p < n \<longrightarrow> m a = m' a)"

lemma same_onD: "same_on p n m m' \<Longrightarrow> k < n \<Longrightarrow> m (p + k) = m' (p + k)"
  by (simp add: same_on_def)

lemma load_le_same:
  assumes "same_on p n m m'" "unat k + l \<le> unat n"
  shows "load_le m (p + k) l = load_le m' (p + k) l"
proof -
  have "m (p + k + of_nat i) = m' (p + k + of_nat i)" if "i < l" for i
  proof -
    have "k + of_nat i < n"
      using that assms(2) unsigned_less [of n, where ?'a = nat]
      by (simp add: word_less_nat_alt unat_word_ariths unat_of_nat take_bit_nat_eq_self)
    with same_onD [OF assms(1)] show ?thesis by (metis add.assoc)
  qed
  then show ?thesis unfolding load_le_def by (metis (mono_tags, lifting) atLeastLessThan_iff map_eq_conv set_upt)
qed

lemma read_header_same:
  assumes "same_on p n m m'" "64 \<le> n"
  shows "read_header m p = read_header m' p"
proof -
  have "64 \<le> unat n" using assms(2) by (simp add: word_le_nat_alt)
  then show ?thesis
    by (simp add: read_header_def load_le_same [OF assms(1)] load_le_same [OF assms(1), of 0, simplified])
qed

lemma read_phdr_same:
  assumes "same_on p n m m'" "unat k + 56 \<le> unat n"
  shows "read_phdr m (p + k) = read_phdr m' (p + k)"
proof -
  have "unat (k + c) = unat k + unat c" if "unat c \<le> 48" for c
    using assms(2) that unsigned_less [of n, where ?'a = nat] by (simp add: unat_word_ariths)
  from this [of 4] this [of 8] this [of 16] this [of 24] this [of 32] this [of 40] this [of 48] show ?thesis
    using assms(2) by (simp add: read_phdr_def add.assoc load_le_same [OF assms(1)])
qed

definition in_segment :: "elf64_phdr_t \<Rightarrow> u64 \<Rightarrow> bool" where
  "in_segment ph a \<longleftrightarrow> a - ph_vaddr ph < max (ph_filesz ph) (ph_memsz ph)"

definition place_segment :: "u64 \<Rightarrow> byte_mem \<Rightarrow> elf64_phdr_t \<Rightarrow> byte_mem \<Rightarrow> byte_mem" where
  "place_segment binary img ph m =
     (\<lambda>a. if a - ph_vaddr ph < ph_filesz ph then img (binary + (ph_offset ph + (a - ph_vaddr ph)))
          else if in_segment ph a then 0 else m a)"

text \<open>A segment that comes from inside the file and does not go over it.\<close>

definition segment_ok :: "u64 \<Rightarrow> u64 \<Rightarrow> elf64_phdr_t \<Rightarrow> bool" where
  "segment_ok binary fsize ph \<longleftrightarrow> unat (ph_offset ph) + unat (ph_filesz ph) \<le> unat fsize
     \<and> (\<forall>a. in_segment ph a \<longrightarrow> \<not> a - binary < fsize)"

lemma rest_of_segment:
  fixes d :: u64
  assumes "fz < mz" "\<not> d < fz"
  shows "d - fz < mz - fz \<longleftrightarrow> d < mz"
  using assms by (simp add: word_less_nat_alt unat_sub word_le_nat_alt) linarith

lemma before_rest_of_segment:
  fixes d :: u64
  assumes "fz < mz" "d < fz"
  shows "\<not> d - fz < mz - fz"
proof -
  have "unat (d - fz) = unat d + 2 ^ 64 - unat fz"
    using assms(2) by (simp add: unat_sub_if_size word_size word_less_nat_alt word_le_nat_alt)
  then show ?thesis using assms unsigned_less [of mz, where ?'a = nat]
    by (simp add: word_less_nat_alt unat_sub word_le_nat_alt)
qed

lemma load_segment_place:
  assumes same: "same_on binary fsize m img" and pa: "unat k + 56 \<le> unat fsize"
    and ph: "ph = read_phdr img (binary + k)" and ok: "segment_ok binary fsize ph"
  shows "load_segment binary (binary + k) m = place_segment binary img ph m"
    "same_on binary fsize (load_segment binary (binary + k) m) img"
proof -
  let ?m = "memcpy (ph_vaddr ph) (binary + ph_offset ph) (ph_filesz ph) m"
  have r: "read_phdr m (binary + k) = ph" using read_phdr_same [OF same pa] ph by simp
  have seg: "a - ph_vaddr ph < ph_filesz ph \<Longrightarrow> in_segment ph a" for a by (simp add: in_segment_def less_max_iff_disj)
  with ok same have s: "same_on binary fsize ?m img" by (auto simp: same_on_def memcpy_def segment_ok_def)
  then have r': "read_phdr ?m (binary + k) = ph" using read_phdr_same [OF s pa] ph by simp
  have from_file: "m (binary + (ph_offset ph + d)) = img (binary + (ph_offset ph + d))" if "d < ph_filesz ph" for d
  proof (rule same_onD [OF same])
    have "unat (ph_offset ph + d) = unat (ph_offset ph) + unat d"
      using ok that unsigned_less [of fsize, where ?'a = nat]
      by (simp add: segment_ok_def word_less_nat_alt unat_word_ariths)
    then show "ph_offset ph + d < fsize" using ok that by (simp add: segment_ok_def word_less_nat_alt)
  qed
  have e: "a - (v + fz) = (a - v) - fz" for a v fz :: u64 by simp
  have l: "load_segment binary (binary + k) m = (if ph_memsz ph > ph_filesz ph
      then memset (ph_vaddr ph + ph_filesz ph) 0 (ph_memsz ph - ph_filesz ph) ?m else ?m)"
    by (simp add: load_segment_def Let_def r r')
  show 1: "load_segment binary (binary + k) m = place_segment binary img ph m"
    unfolding l place_segment_def memset_def memcpy_def e
    using from_file rest_of_segment [of "ph_filesz ph" "ph_memsz ph"] before_rest_of_segment [of "ph_filesz ph" "ph_memsz ph"]
    by (auto simp: fun_eq_iff in_segment_def add.assoc less_max_iff_disj)
  show "same_on binary fsize (load_segment binary (binary + k) m) img"
    unfolding 1 using ok same seg by (auto simp: same_on_def place_segment_def segment_ok_def)
qed

definition phdrs_from :: "byte_mem \<Rightarrow> u64 \<Rightarrow> nat \<Rightarrow> elf64_phdr_t list" where
  "phdrs_from m binary i =
     (let hdr = read_header m binary
      in filter (\<lambda>ph. ph_type ph = PT_LOAD)
           (map (\<lambda>j. read_phdr m (phdr_at (binary + eh_phoff hdr) j)) [i..<unat (eh_phnum hdr)]))"

abbreviation load_phdrs :: "byte_mem \<Rightarrow> u64 \<Rightarrow> elf64_phdr_t list" where
  "load_phdrs m binary \<equiv> phdrs_from m binary 0"

lemma phdrs_from_Suc:
  assumes "i < unat (eh_phnum (read_header m binary))"
  shows "phdrs_from m binary i = (let ph = read_phdr m (phdr_at (binary + eh_phoff (read_header m binary)) i)
    in if ph_type ph = PT_LOAD then ph # phdrs_from m binary (Suc i) else phdrs_from m binary (Suc i))"
  using assms by (simp add: phdrs_from_def Let_def upt_rec [of i])

definition phdrs_inside :: "u64 \<Rightarrow> elf64_header_t \<Rightarrow> bool" where
  "phdrs_inside fsize hdr \<longleftrightarrow> eh_phentsize hdr = 56 \<and> unat (eh_phoff hdr) + 56 * unat (eh_phnum hdr) \<le> unat fsize"

lemma phdr_offset:
  assumes "phdrs_inside fsize hdr" "i < unat (eh_phnum hdr)"
  shows "unat (eh_phoff hdr + 56 * of_nat i) + 56 \<le> unat fsize"
proof -
  have b: "unat (eh_phoff hdr) + 56 * i + 56 \<le> unat fsize" using assms by (simp add: phdrs_inside_def)
  with unsigned_less [of fsize, where ?'a = nat] have "unat (eh_phoff hdr + 56 * of_nat i) = unat (eh_phoff hdr) + 56 * i"
    by (simp add: unat_word_ariths unat_of_nat take_bit_nat_eq_self)
  with b show ?thesis by simp
qed

lemma segment_passes: "segment_ok binary fsize ph \<Longrightarrow> \<not> ph_offset ph + ph_filesz ph > fsize"
  using unsigned_less [of fsize, where ?'a = nat]
  by (simp add: segment_ok_def word_less_nat_alt unat_word_ariths)

lemma segment_loop_places:
  assumes hdr: "hdr = read_header img binary" and room: "64 \<le> fsize" "phdrs_inside fsize hdr"
  shows "same_on binary fsize m img \<Longrightarrow> \<forall>ph\<in>set (phdrs_from img binary i). segment_ok binary fsize ph
    \<Longrightarrow> segment_loop binary fsize (binary + eh_phoff hdr) i lb m
      = (Some (foldl min lb (map ph_vaddr (phdrs_from img binary i))),
         foldl (\<lambda>m ph. place_segment binary img ph m) m (phdrs_from img binary i))
    \<and> same_on binary fsize (foldl (\<lambda>m ph. place_segment binary img ph m) m (phdrs_from img binary i)) img"
proof (induction "unat (eh_phnum hdr) - i" arbitrary: i lb m)
  case 0
  then have "phdrs_from img binary i = []" using hdr by (simp add: phdrs_from_def)
  with 0 show ?case using hdr room read_header_same [of binary fsize m img]
    by (subst segment_loop.simps) simp
next
  case (Suc n)
  let ?pa = "phdr_at (binary + eh_phoff hdr) i"
  let ?ph = "read_phdr img ?pa"
  from Suc.hyps(2) have i: "i < unat (eh_phnum hdr)" "n = unat (eh_phnum hdr) - Suc i" by simp_all
  have k: "?pa = binary + (eh_phoff hdr + 56 * of_nat i)" by simp
  note off = phdr_offset [OF room(2) i(1)]
  have h: "read_header m binary = hdr" and p: "read_phdr m ?pa = ?ph"
    using read_header_same [OF Suc.prems(1) room(1)] hdr read_phdr_same [OF Suc.prems(1) off, folded k] by simp_all
  have fs: "phdrs_from img binary i = (if ph_type ?ph = PT_LOAD then ?ph # phdrs_from img binary (Suc i)
      else phdrs_from img binary (Suc i))" using phdrs_from_Suc [of i img binary] i(1) hdr by (simp add: Let_def)
  show ?case
  proof (cases "ph_type ?ph = PT_LOAD")
    case True
    then have ok: "segment_ok binary fsize ?ph" using Suc.prems(2) fs by simp
    note ls = load_segment_place [OF Suc.prems(1) off refl, folded k, OF ok]
    have mn: "(if ph_vaddr ?ph < lb then ph_vaddr ?ph else lb) = min lb (ph_vaddr ?ph)" by (auto simp: min_def)
    have "segment_loop binary fsize (binary + eh_phoff hdr) i lb m =
        segment_loop binary fsize (binary + eh_phoff hdr) (Suc i) (min lb (ph_vaddr ?ph)) (place_segment binary img ?ph m)"
      using True i(1) h p segment_passes [OF ok] ls(1) by (subst segment_loop.simps) (simp add: Let_def mn)
    with Suc.hyps(1) [OF i(2), of "place_segment binary img ?ph m" "min lb (ph_vaddr ?ph)"] ls Suc.prems(2) fs True
    show ?thesis by simp
  next
    case False
    with Suc.hyps(1) [OF i(2) Suc.prems(1), of lb] Suc.prems(2) fs i(1) h p show ?thesis
      by (subst segment_loop.simps) simp
  qed
qed

lemma places_at:
  "foldl (\<lambda>m ph. place_segment binary img ph m) m phs a =
    (case List.find (\<lambda>ph. in_segment ph a) (rev phs) of
       None \<Rightarrow> m a
     | Some ph \<Rightarrow> if a - ph_vaddr ph < ph_filesz ph then img (binary + (ph_offset ph + (a - ph_vaddr ph))) else 0)"
proof (induction phs rule: rev_induct)
  case (snoc ph phs)
  have "a - ph_vaddr ph < ph_filesz ph \<Longrightarrow> in_segment ph a" by (simp add: in_segment_def less_max_iff_disj)
  with snoc show ?case by (auto simp: place_segment_def)
qed simp

lemma phdr_size_56:
  assumes "eh_phentsize hdr = 56"
  shows "unat (phdr_size hdr) = 56 * unat (eh_phnum hdr)"
proof -
  let ?n = "uint (eh_phnum hdr)"
  have n: "0 \<le> ?n" "?n < 65536" using unsigned_less [of "eh_phnum hdr", where ?'a = int] by simp_all
  have u: "uint (56 * ucast (eh_phnum hdr) :: u32) = 56 * ?n"
    using n by (simp add: uint_word_ariths unsigned_ucast_eq take_bit_int_eq_self)
  have "sint (56 * ucast (eh_phnum hdr) :: u32) = 56 * ?n"
  proof -
    have "- (2 ^ 31) \<le> (0 :: int)" "0 \<le> 56 * ?n" using n by simp_all
    then have "- (2 ^ 31) \<le> 56 * ?n" by (rule order_trans)
    moreover have "56 * ?n < 2 ^ 31" using n by simp
    ultimately have "signed_take_bit 31 (56 * ?n) = 56 * ?n" by (rule signed_take_bit_int_eq_self)
    then show ?thesis unfolding sint_uint u by simp
  qed
  then have "uint (phdr_size hdr) = 56 * ?n"
    using n assms by (simp add: phdr_size_def scast_eq uint_word_ariths unsigned_ucast_eq take_bit_int_eq_self)
  then show ?thesis by (metis nat_mult_distrib nat_numeral unat_eq_nat_uint zero_le_numeral)
qed

lemma elf_load_places:
  assumes hdr: "hdr = read_header m binary" and nn: "binary \<noteq> 0" and fsize: "64 \<le> fsize"
    and kind: "eh_magic hdr = ELF_MAGIC" "eh_class hdr = ELFCLASS64" "eh_type hdr = ET_EXEC \<or> eh_type hdr = ET_DYN"
    and inside: "phdrs_inside fsize hdr" and ok: "\<forall>ph\<in>set (load_phdrs m binary). segment_ok binary fsize ph"
  shows "\<exists>m'. elf_load binary fsize m = (0, Some \<lparr>el_data = binary, el_size = fsize, el_entry = eh_entry hdr,
      el_load_base = foldl min (-1) (map ph_vaddr (load_phdrs m binary))\<rparr>, m')
    \<and> (\<forall>a. m' a = (case List.find (\<lambda>ph. in_segment ph a) (rev (load_phdrs m binary)) of
         None \<Rightarrow> m a
       | Some ph \<Rightarrow> if a - ph_vaddr ph < ph_filesz ph then m (binary + (ph_offset ph + (a - ph_vaddr ph))) else 0))"
proof -
  let ?m = "foldl (\<lambda>m' ph. place_segment binary m ph m') m (load_phdrs m binary)"
  have "same_on binary fsize m m" by (simp add: same_on_def)
  from segment_loop_places [OF hdr fsize inside this ok, of "-1"]
  have loop: "segment_loop binary fsize (binary + eh_phoff hdr) 0 (-1) m =
      (Some (foldl min (-1) (map ph_vaddr (load_phdrs m binary))), ?m)" "same_on binary fsize ?m m" by simp_all
  have room: "\<not> eh_phoff hdr + phdr_size hdr > fsize"
    using inside phdr_size_56 [of hdr] unsigned_less [of fsize, where ?'a = nat]
    by (simp add: phdrs_inside_def word_less_nat_alt unat_word_ariths)
  have "elf_load binary fsize m = (0, Some \<lparr>el_data = binary, el_size = fsize, el_entry = eh_entry hdr,
      el_load_base = foldl min (-1) (map ph_vaddr (load_phdrs m binary))\<rparr>, ?m)"
    using nn fsize kind room loop(1) read_header_same [OF loop(2) fsize] hdr
    by (simp add: elf_load_def Let_def)
  with places_at [of binary m m "load_phdrs m binary"] show ?thesis by blast
qed

text \<open>C16: The loader puts every loadable segment where its program header says: for a file whose headers lie
  inside it and whose segments come from inside it and do not go over it, elf_load returns 0 with the
  entry point and the lowest segment address, and every byte of memory is then the file's byte or the
  zero fill of the last segment that holds its address, or unchanged where no segment holds it.\<close>

theorem elf_load_spec:
  assumes hdr: "hdr = read_header m binary" and nn: "binary \<noteq> 0" and fsize: "64 \<le> fsize"
    and kind: "eh_magic hdr = ELF_MAGIC" "eh_class hdr = ELFCLASS64" "eh_type hdr = ET_EXEC \<or> eh_type hdr = ET_DYN"
    and inside: "phdrs_inside fsize hdr" and ok: "\<forall>ph\<in>set (load_phdrs m binary). segment_ok binary fsize ph"
  shows "\<exists>m'. elf_load binary fsize m = (0, Some \<lparr>el_data = binary, el_size = fsize, el_entry = eh_entry hdr,
      el_load_base = foldl min (-1) (map ph_vaddr (load_phdrs m binary))\<rparr>, m')
    \<and> (\<forall>a. m' a = (case List.find (\<lambda>ph. in_segment ph a) (rev (load_phdrs m binary)) of
         None \<Rightarrow> m a
       | Some ph \<Rightarrow> if a - ph_vaddr ph < ph_filesz ph then m (binary + (ph_offset ph + (a - ph_vaddr ph))) else 0))"
  using elf_load_places [OF assms] .

lemma segment_ok_apart:
  assumes "unat (ph_offset ph) + unat (ph_filesz ph) \<le> unat fsize"
    "unat binary + unat fsize \<le> unat (ph_vaddr ph)"
    "unat (ph_vaddr ph) + unat (max (ph_filesz ph) (ph_memsz ph)) \<le> 2 ^ 64"
  shows "segment_ok binary fsize ph"
proof -
  have "\<not> a - binary < fsize" if "in_segment ph a" for a
  proof -
    let ?d = "a - ph_vaddr ph"
    have d: "unat ?d < unat (max (ph_filesz ph) (ph_memsz ph))" using that by (simp add: in_segment_def word_less_nat_alt)
    have "unat (ph_vaddr ph - binary) = unat (ph_vaddr ph) - unat binary" using assms(2) by (simp add: unat_sub word_le_nat_alt)
    moreover have "a - binary = ?d + (ph_vaddr ph - binary)" by simp
    ultimately have "unat (a - binary) = unat ?d + (unat (ph_vaddr ph) - unat binary)"
      using d assms(2,3) by (simp only: unat_word_ariths(1)) simp
    then show ?thesis using assms(2) by (simp add: word_less_nat_alt)
  qed
  with assms(1) show ?thesis by (simp add: segment_ok_def)
qed

text \<open>A file with one segment: four bytes at offset 120, loaded at \<open>0x400000\<close> with eight bytes of memory.\<close>

definition demo_elf :: "u8 list" where
  "demo_elf = [0x7f, 0x45, 0x4c, 0x46, 2] @ replicate 11 0 @ [2, 0, 0, 0, 0, 0, 0, 0] @ [0, 0, 0x40, 0, 0, 0, 0, 0]
     @ [64, 0, 0, 0, 0, 0, 0, 0] @ replicate 14 0 @ [56, 0, 1, 0] @ replicate 6 0
     @ [1, 0, 0, 0, 5, 0, 0, 0] @ [120, 0, 0, 0, 0, 0, 0, 0] @ [0, 0, 0x40, 0, 0, 0, 0, 0] @ replicate 8 0
     @ [4, 0, 0, 0, 0, 0, 0, 0] @ [8, 0, 0, 0, 0, 0, 0, 0] @ replicate 8 0 @ [11, 12, 13, 14]"

definition demo_mem :: byte_mem where
  "demo_mem a = (if a - 0x1000 < 124 then demo_elf ! unat (a - 0x1000) else 0xff)"

definition demo_phdr :: elf64_phdr_t where
  "demo_phdr = \<lparr>ph_type = PT_LOAD, ph_flags = 5, ph_offset = 120, ph_vaddr = 0x400000, ph_paddr = 0, ph_filesz = 4,
     ph_memsz = 8, ph_align = 0\<rparr>"

definition demo_hdr :: elf64_header_t where
  "demo_hdr = \<lparr>eh_magic = ELF_MAGIC, eh_class = ELFCLASS64, eh_data = 0, eh_version = 0, eh_osabi = 0, eh_abiversion = 0,
     eh_pad = replicate 7 0, eh_type = ET_EXEC, eh_machine = 0, eh_version2 = 0, eh_entry = 0x400000, eh_phoff = 64,
     eh_shoff = 0, eh_flags = 0, eh_ehsize = 0, eh_phentsize = 56, eh_phnum = 1, eh_shentsize = 0, eh_shnum = 0, eh_shstrndx = 0\<rparr>"

lemma demo_header: "read_header demo_mem 0x1000 = demo_hdr"
  by code_simp

lemma demo_phdrs: "load_phdrs demo_mem 0x1000 = [demo_phdr]"
proof -
  have "read_phdr demo_mem 0x1040 = demo_phdr" by code_simp
  then show ?thesis by (simp add: phdrs_from_def demo_header demo_hdr_def) (simp add: demo_phdr_def)
qed

theorem elf_load_spec_witness:
  "\<exists>out m'. elf_load 0x1000 124 demo_mem = (0, Some out, m') \<and> el_entry out = 0x400000 \<and> el_load_base out = 0x400000
    \<and> m' 0x400002 = 13 \<and> m' 0x400005 = 0 \<and> m' 0x400008 = 0xff"
proof -
  have ok: "\<forall>ph\<in>set (load_phdrs demo_mem 0x1000). segment_ok 0x1000 124 ph"
    unfolding demo_phdrs by (simp add: segment_ok_apart max_def demo_phdr_def)
  have "phdrs_inside 124 (read_header demo_mem 0x1000)" by (simp add: demo_header demo_hdr_def phdrs_inside_def)
  from elf_load_spec [OF refl _ _ _ _ _ this ok, unfolded demo_header demo_phdrs] obtain m' where
    l: "elf_load 0x1000 124 demo_mem = (0, Some \<lparr>el_data = 0x1000, el_size = 124, el_entry = 0x400000,
      el_load_base = min (-1) (ph_vaddr demo_phdr)\<rparr>, m')" and
    m': "\<And>a. m' a = (case List.find (\<lambda>ph. in_segment ph a)
      [demo_phdr] of None \<Rightarrow> demo_mem a
      | Some ph \<Rightarrow> if a - ph_vaddr ph < ph_filesz ph then demo_mem (0x1000 + (ph_offset ph + (a - ph_vaddr ph))) else 0)"
    by (auto simp: demo_hdr_def)
  have "demo_mem 0x107A = 13" "demo_mem 0x400008 = 0xff" "min (-1) (0x400000 :: u64) = 0x400000" by code_simp+
  with l m' [of "0x400002"] m' [of "0x400005"] m' [of "0x400008"] show ?thesis
    by (auto simp: in_segment_def max_def demo_phdr_def)
qed

section \<open>Wrap-around in the range checks\<close>

text \<open>The bounds check on a segment adds two 64-bit fields of the file: an offset just below
  \<open>2^64\<close> passes for every file size, and the copy then reads before the file.\<close>

lemma segment_check_wraps:
  assumes "ph_offset ph = -16" "ph_filesz ph = 16"
  shows "\<not> ph_offset ph + ph_filesz ph > fsize" "\<not> segment_ok binary fsize ph"
proof -
  show "\<not> ph_offset ph + ph_filesz ph > fsize" using assms by simp
  have "unat (0xFFFFFFFFFFFFFFF0 :: u64) = 2 ^ 64 - 16" by simp
  moreover have "(- 16 :: u64) = 0xFFFFFFFFFFFFFFF0" by simp
  ultimately have "unat (ph_offset ph) + unat (ph_filesz ph) = 2 ^ 64" using assms by (simp del: word_neg_numeral_alt)
  then show "\<not> segment_ok binary fsize ph"
    using unsigned_less [of fsize, where ?'a = nat] by (simp add: segment_ok_def)
qed

end
