(* ===== verification/Arm64.thy ===== *)
theory Arm64
  imports Pmm Paging
begin

text \<open>
  The ARM64 page tables, timer and interrupt controller of \<^verbatim>\<open>kernel/arch/arm64/arm64.c\<close>. Tables are
  pages of the physical page allocator, read and written in its memory at their physical
  addresses, so that the allocator's free lists and the tables share one memory. The walk
  has the same shape as on x86-64 and its correctness is the second interpretation of
  \<open>radix_tables\<close>, here on the allocator's own operations. An allocation that fails ends in
  \<^verbatim>\<open>kernel_panic\<close>.
\<close>

abbreviation PT_VALID :: u64 where "PT_VALID \<equiv> 1"
abbreviation PT_TABLE :: u64 where "PT_TABLE \<equiv> 2"
abbreviation PT_AF :: u64 where "PT_AF \<equiv> 0x400"
abbreviation PT_AP_RW_ALL :: u64 where "PT_AP_RW_ALL \<equiv> 0"
abbreviation PT_AP_RO_ALL :: u64 where "PT_AP_RO_ALL \<equiv> 0x40"
abbreviation PT_NS :: u64 where "PT_NS \<equiv> 0x20"
abbreviation PT_UXN :: u64 where "PT_UXN \<equiv> 0x40000000000000"
abbreviation PT_ADDR_MASK :: u64 where "PT_ADDR_MASK \<equiv> 0x0000FFFFFFFFF000"

section \<open>Page tables\<close>

definition Lx_INDEX :: "u64 \<Rightarrow> nat \<Rightarrow> nat" where
  "Lx_INDEX virt shift = unat (drop_bit shift virt AND 0x1FF)"

text \<open>\<^verbatim>\<open>table[index]\<close>.\<close>

definition pt_get :: "pmm_t \<Rightarrow> u64 \<Rightarrow> nat \<Rightarrow> u64" where
  "pt_get s table i = pmm_mem s (table + 8 * of_nat i)"

definition pt_put :: "u64 \<Rightarrow> nat \<Rightarrow> u64 \<Rightarrow> pmm_t \<Rightarrow> pmm_t" where
  "pt_put table i v s = s\<lparr>pmm_mem := (pmm_mem s)(table + 8 * of_nat i := v)\<rparr>"

definition zeroed_page :: "pmm_t \<Rightarrow> (u64 \<times> pmm_t) outcome" where
  "zeroed_page s =
     (case pmm_alloc_page s of
        Ret (pg, s1) \<Rightarrow> Ret (pg, s1\<lparr>pmm_mem := mem_zero pg PAGE_SIZE (pmm_mem s1)\<rparr>)
      | KernelPanic \<Rightarrow> KernelPanic | OutOfBounds \<Rightarrow> OutOfBounds)"

definition table_desc :: "u64 \<Rightarrow> u64" where
  "table_desc pg = pg OR PT_VALID OR PT_TABLE OR PT_AF OR PT_NS"

definition pt_lookup_or_create :: "u64 \<Rightarrow> nat \<Rightarrow> pmm_t \<Rightarrow> (u64 \<times> pmm_t) outcome" where
  "pt_lookup_or_create table index s =
     (if pt_get s table index AND PT_VALID \<noteq> 0 then Ret (pt_get s table index AND PT_ADDR_MASK, s)
      else case zeroed_page s of
             Ret (pg, s1) \<Rightarrow> Ret (pg, pt_put table index (table_desc pg) s1)
           | KernelPanic \<Rightarrow> KernelPanic | OutOfBounds \<Rightarrow> OutOfBounds)"

fun bind_outcome :: "'a outcome \<Rightarrow> ('a \<Rightarrow> 'b outcome) \<Rightarrow> 'b outcome" where
  "bind_outcome (Ret x) f = f x"
| "bind_outcome KernelPanic f = KernelPanic"
| "bind_outcome OutOfBounds f = OutOfBounds"

definition page_desc :: "u64 \<Rightarrow> u64 \<Rightarrow> u64" where
  "page_desc phys flags = (phys AND PT_ADDR_MASK) OR PT_VALID OR PT_AF OR PT_NS OR flags"

definition pt_map_page :: "u64 \<Rightarrow> u64 \<Rightarrow> u64 \<Rightarrow> u64 \<Rightarrow> pmm_t \<Rightarrow> pmm_t outcome" where
  "pt_map_page pgd virt phys flags s =
     (let l0 = Lx_INDEX virt 39; l1 = Lx_INDEX virt 30; l2 = Lx_INDEX virt 21; l3 = Lx_INDEX virt 12
      in bind_outcome (pt_lookup_or_create pgd l0 s) (\<lambda>(t1, s1).
         bind_outcome (pt_lookup_or_create t1 l1 s1) (\<lambda>(t2, s2).
         bind_outcome (pt_lookup_or_create t2 l2 s2) (\<lambda>(t3, s3).
           Ret (pt_put t3 l3 (page_desc phys flags) s3)))))"

definition arm64_create_user_pgd :: "pmm_t \<Rightarrow> (u64 \<times> pmm_t) outcome" where
  "arm64_create_user_pgd s = zeroed_page s"

definition user_flags :: "bool \<Rightarrow> bool \<Rightarrow> u64" where
  "user_flags writable executable =
     (let flags = PT_AP_RW_ALL;
          flags = (if \<not> writable then PT_AP_RO_ALL else flags)
      in if \<not> executable then flags OR PT_UXN else flags)"

definition arm64_map_user_page :: "u64 \<Rightarrow> u64 \<Rightarrow> u64 \<Rightarrow> bool \<Rightarrow> bool \<Rightarrow> pmm_t \<Rightarrow> pmm_t outcome" where
  "arm64_map_user_page pgd virt phys writable executable s =
     pt_map_page pgd virt phys (user_flags writable executable) s"

text \<open>The loop, \<open>n\<close> rounds left at page \<open>i\<close>.\<close>

fun map_pages_loop :: "nat \<Rightarrow> u64 \<Rightarrow> u64 \<Rightarrow> u64 \<Rightarrow> u64 \<Rightarrow> bool \<Rightarrow> bool \<Rightarrow> pmm_t \<Rightarrow> pmm_t outcome" where
  "map_pages_loop 0 i pgd virt phys w x s = Ret s"
| "map_pages_loop (Suc n) i pgd virt phys w x s =
     bind_outcome (arm64_map_user_page pgd (virt + i * PAGE_SIZE) (phys + i * PAGE_SIZE) w x s)
       (map_pages_loop n (i + 1) pgd virt phys w x)"

definition arm64_map_user_pages :: "u64 \<Rightarrow> u64 \<Rightarrow> u64 \<Rightarrow> u64 \<Rightarrow> bool \<Rightarrow> bool \<Rightarrow> pmm_t \<Rightarrow> pmm_t outcome" where
  "arm64_map_user_pages pgd virt phys pages w x s = map_pages_loop (unat pages) 0 pgd virt phys w x s"

section \<open>Registers\<close>

record arm64_t =
  kernel_pgd :: u64
  ttbr0 :: u64
  ttbr1 :: u64
  cntp_tval :: u32
  cntp_ctl :: u32
  mmio32 :: "u64 \<Rightarrow> u32"
  arm_tlb_flushes :: nat

abbreviation GICC_BASE :: u64 where "GICC_BASE \<equiv> 0x80100000"
abbreviation GICC_EOIR :: u32 where "GICC_EOIR \<equiv> 0x10"

definition gic_write32 :: "u64 \<Rightarrow> u32 \<Rightarrow> u32 \<Rightarrow> arm64_t \<Rightarrow> arm64_t" where
  "gic_write32 base reg val s = s\<lparr>mmio32 := (mmio32 s)(base + ucast reg := val)\<rparr>"

definition gic_read32 :: "u64 \<Rightarrow> u32 \<Rightarrow> arm64_t \<Rightarrow> u32" where
  "gic_read32 base reg s = mmio32 s (base + ucast reg)"

abbreviation GICD_BASE :: u64 where "GICD_BASE \<equiv> 0x08000000"
abbreviation GICD_CTLR :: u32 where "GICD_CTLR \<equiv> 0"
abbreviation GICC_PMR :: u32 where "GICC_PMR \<equiv> 4"

text \<open>\<^verbatim>\<open>GICC_CTLR\<close> is used in \<^verbatim>\<open>arm64_gic_init\<close> and defined in no header: its value is an argument.\<close>

definition arm64_gic_init :: "u32 \<Rightarrow> arm64_t \<Rightarrow> arm64_t" where
  "arm64_gic_init gicc_ctlr s =
     gic_write32 GICC_BASE GICC_PMR 0xFF (gic_write32 GICC_BASE gicc_ctlr 1 (gic_write32 GICD_BASE GICD_CTLR 1 s))"

definition arm64_gic_eoi :: "u32 \<Rightarrow> arm64_t \<Rightarrow> arm64_t" where
  "arm64_gic_eoi irq s = gic_write32 GICC_BASE GICC_EOIR irq s"

text \<open>\<open>freq\<close> is the value of \<^verbatim>\<open>cntfrq_el0\<close>; the argument of the function is not used.\<close>

definition arm64_timer_init :: "u64 \<Rightarrow> u32 \<Rightarrow> arm64_t \<Rightarrow> arm64_t" where
  "arm64_timer_init freq freq_hz s = s\<lparr>cntp_tval := ucast (freq div 100), cntp_ctl := 1\<rparr>"

definition arm64_set_ttbr0 :: "u64 \<Rightarrow> arm64_t \<Rightarrow> arm64_t" where
  "arm64_set_ttbr0 pgd s = s\<lparr>ttbr0 := pgd, arm_tlb_flushes := arm_tlb_flushes s + 1\<rparr>"

definition arm64_paging_init :: "arm64_t \<Rightarrow> arm64_t" where
  "arm64_paging_init s = s\<lparr>kernel_pgd := ttbr1 s\<rparr>"

section \<open>Allocation leaves the pages in use alone\<close>

lemma buddy_split_frame:
  "blk_ok i x \<Longrightarrow> i < 11 \<Longrightarrow> order \<le> i \<Longrightarrow> unat a div 4096 \<notin> set (blk_pages i x)
   \<Longrightarrow> pmm_mem (buddy_split 0 order i x s) a = pmm_mem s a"
proof (induction i arbitrary: s)
  case (Suc i)
  note b = buddy_addr [OF Suc.prems(1)]
  let ?b = "x + push_bit (i + PAGE_SHIFT) 1"
  have out: "unat a div 4096 \<notin> set (blk_pages i x)" "a \<noteq> ?b"
    using Suc.prems(4) head_page [of ?b i] unfolding b(4) by auto
  show ?case
  proof (cases "order = Suc i")
    case False
    with Suc.IH [OF b(2) _ _ out(1)] Suc.prems out(2) show ?thesis by (simp add: Let_def)
  qed simp
qed simp

lemma buddy_alloc_frame:
  assumes inv: "pmm_inv s F held" and order: "order < 11" and alloc: "buddy_alloc 0 order s = (r, s')"
    and r: "r \<noteq> 0" and a: "unat a div 4096 \<in># held"
  shows "pmm_mem s' a = pmm_mem s a"
proof -
  let ?z = "zones s 0"
  from alloc r obtain i where i: "first_from (\<lambda>i. free_lists ?z i \<noteq> 0) order 11 = Some i"
    by (auto simp: buddy_alloc_def split: option.splits)
  then have i': "order \<le> i" "i < 11" "free_lists ?z i \<noteq> 0" by (simp_all add: first_from_Some_iff)
  from inv have ok: "lists_ok s F held" by (simp add: pmm_inv_def)
  then have ch: "chain (pmm_mem s) (free_lists ?z i) (F i)" "\<forall>a\<in>set (F i). blk_ok i a"
    using i'(2) by (auto simp: lists_ok_def)
  with i'(3) have mem: "free_lists ?z i \<in> set (F i)" by (cases "F i") auto
  let ?s1 = "set_free_list 0 i (pmm_mem s (free_lists ?z i)) s"
  from alloc i have eq: "r = free_lists ?z i" "pmm_mem s' = mem_zero r (order_to_pages order * PAGE_SIZE)
      (pmm_mem (buddy_split 0 order i r ?s1))" by (auto simp: buddy_alloc_def Let_def)
  have out: "unat a div 4096 \<notin> set (blk_pages i r)" using lists_ok_disj [OF ok i'(2) mem] a eq(1) by auto
  have rok: "blk_ok i r" using ch(2) mem eq(1) by auto
  obtain F' where "blk_ok order r" using buddy_alloc_ok [OF inv order alloc r] by blast
  moreover have "(2 :: nat) ^ order \<le> 2 ^ i" using i'(1) by (intro power_increasing) simp_all
  then have "unat a div 4096 \<notin> set (blk_pages order r)" using out unfolding set_blk_pages by linarith
  ultimately show ?thesis
    using mem_zero_block [of order r] order buddy_split_frame [OF rok i'(2,1) out, of ?s1] by (simp add: eq(2))
qed

section \<open>Addresses and descriptors\<close>

definition arm_addr :: "u64 \<Rightarrow> bool" where
  "arm_addr n \<longleftrightarrow> 4096 dvd unat n \<and> unat n < 2 ^ 48"

lemma addr_mask_bits: "bit PT_ADDR_MASK n \<longleftrightarrow> 12 \<le> n \<and> n < 48"
proof -
  have m: "PT_ADDR_MASK = mask 48 AND NOT (mask 12)" by (simp add: mask_eq_exp_minus_1)
  show ?thesis unfolding m by (auto simp: bit_simps)
qed

lemma low_desc_bits: "bit (0x423 :: u64) n \<Longrightarrow> n < 12"
proof -
  have m: "(0x423 :: u64) = take_bit 12 0x423" by simp
  show "bit (0x423 :: u64) n \<Longrightarrow> n < 12" by (subst (asm) m) (simp only: bit_take_bit_iff)
qed

lemma arm_addr_mask: "arm_addr n \<Longrightarrow> n AND PT_ADDR_MASK = n"
proof -
  assume n: "arm_addr n"
  have m: "PT_ADDR_MASK = NOT (mask 12) AND mask 48" by (simp add: mask_eq_exp_minus_1)
  have "take_bit 12 n = 0"
    using n by (simp add: arm_addr_def word_unat_eq_iff unsigned_take_bit_eq take_bit_nat_def dvd_eq_mod_eq_0)
  then have "n AND NOT (mask 12) = n" by (simp add: and_not_mask_minus)
  moreover have "n AND mask 48 = n"
    using n by (simp add: arm_addr_def word_unat_eq_iff unsigned_take_bit_eq take_bit_nat_eq_self flip: take_bit_eq_mask)
  ultimately show ?thesis unfolding m by (simp flip: and.assoc)
qed

lemma table_desc_ok:
  assumes "arm_addr n"
  shows "table_desc n AND PT_VALID \<noteq> 0" "table_desc n AND PT_ADDR_MASK = n"
proof -
  have d: "table_desc n = n OR 0x423" by (simp add: table_desc_def or.assoc)
  have "bit (table_desc n) 0" by (simp add: d bit_or_iff)
  then show "table_desc n AND PT_VALID \<noteq> 0" by (simp add: and_one_eq odd_iff_mod_2_eq_one bit_0)
  have "(n OR 0x423) AND PT_ADDR_MASK = n AND PT_ADDR_MASK"
    by (rule bit_eqI) (auto simp only: bit_and_iff bit_or_iff addr_mask_bits dest: low_desc_bits)
  then show "table_desc n AND PT_ADDR_MASK = n" using arm_addr_mask [OF assms] by (simp add: d)
qed

lemma slot_addr:
  assumes "arm_addr b" "i < 512"
  shows "unat (b + 8 * of_nat i) = unat b + 8 * i" "unat (b + 8 * of_nat i) div 4096 = unat b div 4096"
proof -
  show u: "unat (b + 8 * of_nat i) = unat b + 8 * i"
    using assms by (simp add: arm_addr_def unat_word_ariths unat_of_nat take_bit_nat_eq_self)
  from assms(1) obtain q where "unat b = 4096 * q" by (auto simp: arm_addr_def elim: dvdE)
  with assms(2) show "unat (b + 8 * of_nat i) div 4096 = unat b div 4096" unfolding u by simp
qed

lemma slot_inj:
  assumes "arm_addr b" "arm_addr c" "i < 512" "j < 512"
  shows "b + 8 * of_nat i = c + 8 * of_nat j \<longleftrightarrow> b = c \<and> i = j"
proof
  assume eq: "b + 8 * of_nat i = c + 8 * of_nat j"
  from assms(1,2) obtain p q where pq: "unat b = 4096 * p" "unat c = 4096 * q" by (auto simp: arm_addr_def elim!: dvdE)
  have "unat b div 4096 = unat c div 4096" using slot_addr(2) [OF assms(1,3)] slot_addr(2) [OF assms(2,4)] eq by simp
  with pq have "unat b = unat c" by simp
  moreover from this have "8 * i = 8 * j" using slot_addr(1) [OF assms(1,3)] slot_addr(1) [OF assms(2,4)] eq by simp
  ultimately show "b = c \<and> i = j" by (simp add: word_unat_eq_iff)
qed simp

section \<open>The tables as a radix tree over the page allocator\<close>

text \<open>\<open>A\<close> are the pages used as tables: the allocator has handed them out, and all its pages lie below \<open>2^48\<close>.\<close>

definition arm_inv :: "pmm_t \<Rightarrow> u64 set \<Rightarrow> bool" where
  "arm_inv s A \<longleftrightarrow> (\<exists>F held. pmm_inv s F held \<and> (\<forall>b\<in>A. arm_addr b \<and> unat b div 4096 \<in># held)
     \<and> (\<forall>p\<in>#free_pages F. p < 2 ^ 36))"

definition arm_alloc :: "pmm_t \<Rightarrow> (u64 \<times> pmm_t) option" where
  "arm_alloc s = (case zeroed_page s of Ret x \<Rightarrow> Some x | _ \<Rightarrow> None)"

definition desc_valid :: "u64 \<Rightarrow> bool" where
  "desc_valid e \<longleftrightarrow> e AND PT_VALID \<noteq> 0"

definition desc_addr :: "u64 \<Rightarrow> u64" where
  "desc_addr e = e AND PT_ADDR_MASK"

lemma pmm_inv_mem:
  assumes "pmm_inv s F held" "\<And>a. unat a div 4096 \<notin># held \<Longrightarrow> m a = pmm_mem s a"
  shows "pmm_inv (s\<lparr>pmm_mem := m\<rparr>) F held"
  using assms lists_ok_mem [of s F held m] by (simp add: pmm_inv_def)

lemma arm_put_inv: "arm_inv s A \<Longrightarrow> b \<in> A \<Longrightarrow> i < 512 \<Longrightarrow> arm_inv (pt_put b i v s) A"
proof -
  assume "arm_inv s A" "b \<in> A" "i < 512"
  then obtain F held where inv: "pmm_inv s F held" "\<forall>b\<in>A. arm_addr b \<and> unat b div 4096 \<in># held" "\<forall>p\<in>#free_pages F. p < 2 ^ 36"
    by (auto simp: arm_inv_def)
  have "unat (b + 8 * of_nat i) div 4096 \<in># held" using inv(2) \<open>b \<in> A\<close> slot_addr(2) [of b i] \<open>i < 512\<close> by simp
  then have "pmm_inv (pt_put b i v s) F held" unfolding pt_put_def by (intro pmm_inv_mem [OF inv(1)]) auto
  with inv show ?thesis by (auto simp: arm_inv_def)
qed

lemma zeroed_page_spec:
  assumes inv: "pmm_inv s F held" and small: "\<forall>p\<in>#free_pages F. p < 2 ^ 36" and a: "zeroed_page s = Ret (n, s')"
  shows "arm_addr n" "unat n div 4096 \<notin># held"
    "\<exists>F'. pmm_inv s' F' (add_mset (unat n div 4096) held) \<and> free_pages F = add_mset (unat n div 4096) (free_pages F')"
    "\<And>x. unat x div 4096 = unat n div 4096 \<Longrightarrow> pmm_mem s' x = 0"
    "\<And>x. unat x div 4096 \<in># held \<Longrightarrow> pmm_mem s' x = pmm_mem s x"
proof -
  from a obtain s1 where b: "buddy_alloc 0 0 s = (n, s1)" "n \<noteq> 0"
    and s': "s' = s1\<lparr>pmm_mem := mem_zero n PAGE_SIZE (pmm_mem s1)\<rparr>"
    by (auto simp: zeroed_page_def pmm_alloc_page_def split: prod.splits if_splits)
  have one: "mset (blk_pages 0 n) = {#unat n div 4096#}" by (simp add: blk_pages_def)
  from buddy_alloc_ok [OF inv _ b] obtain F' where F': "pmm_inv s1 F' (add_mset (unat n div 4096) held)" "blk_ok 0 n"
    "free_pages F = add_mset (unat n div 4096) (free_pages F')" by (auto simp: one)
  note z = mem_zero_block [OF F'(2), of "pmm_mem s1"]
  have m: "pmm_mem s' x = (if unat x div 4096 = unat n div 4096 then 0 else pmm_mem s1 x)" for x
    using z by (simp add: s' order_to_pages_def blk_pages_def)
  have "unat n div 4096 < 2 ^ 36" using small F'(3) by simp
  then have "unat n < 2 ^ 48" by (simp add: div_less_iff_less_mult)
  with F'(2) show "arm_addr n" by (simp add: arm_addr_def blk_ok_def)
  have "count (free_pages F + held) (unat n div 4096) \<le> 1" using inv by (simp add: pmm_inv_def lists_ok_def)
  with F'(3) show out: "unat n div 4096 \<notin># held" by (simp add: not_in_iff)
  show "\<exists>F'. pmm_inv s' F' (add_mset (unat n div 4096) held) \<and> free_pages F = add_mset (unat n div 4096) (free_pages F')"
  proof (intro exI conjI)
    have "mem_zero n PAGE_SIZE (pmm_mem s1) x = pmm_mem s1 x" if "unat x div 4096 \<notin># add_mset (unat n div 4096) held" for x
      using m [of x] that by (simp add: s')
    with F'(1) show "pmm_inv s' F' (add_mset (unat n div 4096) held)" unfolding s' by (intro pmm_inv_mem)
  qed (rule F'(3))
  show "pmm_mem s' x = 0" if "unat x div 4096 = unat n div 4096" for x using m [of x] that by simp
  show "pmm_mem s' x = pmm_mem s x" if "unat x div 4096 \<in># held" for x
    using m [of x] that out buddy_alloc_frame [OF inv _ b that] by auto
qed

interpretation at: radix_tables arm_inv pt_get pt_put arm_alloc desc_valid desc_addr table_desc arm_addr
proof
  fix s A b i c j v
  assume inv: "arm_inv s A" and b: "b \<in> A" and i: "i < (512 :: nat)"
  from arm_put_inv [OF this] show "arm_inv (pt_put b i v s) A" .
  assume c: "c \<in> A" "j < (512 :: nat)"
  have "arm_addr b" "arm_addr c" using inv b c by (auto simp: arm_inv_def)
  from slot_inj [OF this(2,1) c(2) i] show "pt_get (pt_put b i v s) c j = (if c = b \<and> j = i then v else pt_get s c j)"
    by (simp add: pt_get_def pt_put_def)
next
  fix s A n s'
  assume "arm_inv s A" and a: "arm_alloc s = Some (n, s')"
  then obtain F held where inv: "pmm_inv s F held" "\<forall>b\<in>A. arm_addr b \<and> unat b div 4096 \<in># held" "\<forall>p\<in>#free_pages F. p < 2 ^ 36"
    by (auto simp: arm_inv_def)
  have z: "zeroed_page s = Ret (n, s')" using a by (auto simp: arm_alloc_def split: outcome.splits)
  note zs = zeroed_page_spec [OF inv(1,3) z]
  from zs(3) obtain F' where F': "pmm_inv s' F' (add_mset (unat n div 4096) held)"
    "free_pages F = add_mset (unat n div 4096) (free_pages F')" by auto
  then have "arm_inv s' (insert n A)" unfolding arm_inv_def using inv(2,3) zs(1)
    by (intro exI [of _ F'] exI [of _ "add_mset (unat n div 4096) held"]) auto
  with zs(1,2) inv(2) show "n \<notin> A \<and> arm_addr n \<and> arm_inv s' (insert n A)" by auto
  show "pt_get s' n i = 0" if "i < 512" for i
    using zs(4) [of "n + 8 * of_nat i"] slot_addr(2) [OF zs(1) that] by (simp add: pt_get_def)
  show "pt_get s' b i = pt_get s b i" if "b \<in> A" "i < 512" for b i
    using zs(5) [of "b + 8 * of_nat i"] slot_addr(2) [of b i] inv(2) that by (simp add: pt_get_def)
next
  show "\<not> desc_valid 0" by (simp add: desc_valid_def)
  show "desc_valid (table_desc n)" "desc_addr (table_desc n) = n" if "arm_addr n" for n
    using table_desc_ok [OF that] by (simp_all add: desc_valid_def desc_addr_def)
qed

lemma zeroed_page_total:
  assumes "arm_inv s A" "pmm_get_free_count s \<noteq> 0"
  shows "\<exists>n s'. zeroed_page s = Ret (n, s') \<and> pmm_get_free_count s' = pmm_get_free_count s - 1"
proof -
  from assms(1) obtain F held where inv: "pmm_inv s F held" "\<forall>p\<in>#free_pages F. p < 2 ^ 36" by (auto simp: arm_inv_def)
  obtain n s1 where b: "buddy_alloc 0 0 s = (n, s1)" by fastforce
  have "n \<noteq> 0"
  proof
    assume "n = 0"
    with buddy_alloc_none [OF inv(1), of 0 s1] b have "free_pages F = {#}" by (simp add: free_pages_def)
    with inv(1) assms(2) show False by (simp add: pmm_inv_def pmm_get_free_count_def)
  qed
  with b obtain s' where z: "zeroed_page s = Ret (n, s')" by (auto simp: zeroed_page_def pmm_alloc_page_def)
  from zeroed_page_spec(3) [OF inv z] inv(1) show ?thesis
    by (intro exI [of _ n] exI [of _ s'] conjI z) (auto simp: pmm_inv_def pmm_get_free_count_def)
qed

section \<open>Mapping pages\<close>

definition arm_tables :: "pmm_t \<Rightarrow> u64 \<Rightarrow> bool" where
  "arm_tables s pgd \<longleftrightarrow> (\<exists>A. at.tree s A pgd)"

text \<open>The last-level descriptor for an address, 0 when there is none.\<close>

definition arm_desc :: "pmm_t \<Rightarrow> u64 \<Rightarrow> u64 \<Rightarrow> u64" where
  "arm_desc s pgd virt = at.entry s pgd (pt_path virt) (pt_index 12 virt)"

lemma Lx_INDEX_pt [simp]: "Lx_INDEX virt sh = pt_index sh virt"
  by (simp add: Lx_INDEX_def pt_index_def)

lemma lookup_step:
  assumes t: "at.tree s A r" and p: "idx_ok p" "length p \<le> 2" "at.node s r p = Some b" "i < 512"
    and room: "pmm_get_free_count s \<noteq> 0"
  shows "\<exists>c s' A'. pt_lookup_or_create b i s = Ret (c, s') \<and> at.tree s' A' r \<and> at.node s' r (p @ [i]) = Some c
    \<and> (\<forall>q k. idx_ok q \<longrightarrow> length q = 3 \<longrightarrow> k < 512 \<longrightarrow> at.entry s' r q k = at.entry s r q k)
    \<and> unat (pmm_get_free_count s) \<le> unat (pmm_get_free_count s') + 1"
proof (cases "desc_valid (pt_get s b i)")
  case True
  then have "pt_lookup_or_create b i s = Ret (desc_addr (pt_get s b i), s)"
    by (simp add: pt_lookup_or_create_def desc_valid_def desc_addr_def)
  moreover have "at.node s r (p @ [i]) = Some (desc_addr (pt_get s b i))" using p(3) True by (simp add: at.node_snoc)
  ultimately show ?thesis using t by auto
next
  case False
  from zeroed_page_total [OF at.treeD(1) [OF t] room] obtain n s1 where
    z: "zeroed_page s = Ret (n, s1)" "pmm_get_free_count s1 = pmm_get_free_count s - 1" by blast
  then have "arm_alloc s = Some (n, s1)" by (simp add: arm_alloc_def)
  note c = at.create_step [OF t p(1-4) False this]
  have "pt_lookup_or_create b i s = Ret (n, pt_put b i (table_desc n) s1)"
    using False z(1) by (simp add: pt_lookup_or_create_def desc_valid_def)
  moreover have "pmm_get_free_count (pt_put b i (table_desc n) s1) = pmm_get_free_count s - 1"
    using z(2) by (simp add: pt_put_def pmm_get_free_count_def)
  ultimately show ?thesis using c(1,2,4) room by (auto simp: unat_minus_one)
qed

lemma pt_map_page_ok:
  assumes t: "arm_tables s pgd" and room: "3 \<le> unat (pmm_get_free_count s)"
  shows "\<exists>s'. pt_map_page pgd virt phys flags s = Ret s' \<and> arm_tables s' pgd
    \<and> (\<forall>v. arm_desc s' pgd v = (if same_page v virt then page_desc phys flags else arm_desc s pgd v))
    \<and> unat (pmm_get_free_count s) \<le> unat (pmm_get_free_count s') + 3"
proof -
  from t obtain A where A: "at.tree s A pgd" by (auto simp: arm_tables_def)
  let ?i = "pt_index 39 virt" and ?j = "pt_index 30 virt" and ?k = "pt_index 21 virt"
  have nz: "1 \<le> unat w \<Longrightarrow> w \<noteq> 0" for w :: u64 by auto
  have f0: "pmm_get_free_count s \<noteq> 0" using room by (intro nz) simp
  from lookup_step [OF A, of "[]" pgd ?i] f0 obtain t1 s1 A1 where 1: "pt_lookup_or_create pgd ?i s = Ret (t1, s1)"
    "at.tree s1 A1 pgd" "at.node s1 pgd [?i] = Some t1" "unat (pmm_get_free_count s) \<le> unat (pmm_get_free_count s1) + 1"
    "\<And>q k. idx_ok q \<Longrightarrow> length q = 3 \<Longrightarrow> k < 512 \<Longrightarrow> at.entry s1 pgd q k = at.entry s pgd q k"
    by (auto simp: pt_index_less)
  have f1: "pmm_get_free_count s1 \<noteq> 0" using room 1(4) by (intro nz) linarith
  from lookup_step [OF 1(2) _ _ 1(3), of ?j] f1 obtain t2 s2 A2 where 2: "pt_lookup_or_create t1 ?j s1 = Ret (t2, s2)"
    "at.tree s2 A2 pgd" "at.node s2 pgd [?i, ?j] = Some t2" "unat (pmm_get_free_count s1) \<le> unat (pmm_get_free_count s2) + 1"
    "\<And>q k. idx_ok q \<Longrightarrow> length q = 3 \<Longrightarrow> k < 512 \<Longrightarrow> at.entry s2 pgd q k = at.entry s1 pgd q k"
    by (auto simp: pt_index_less)
  have f2: "pmm_get_free_count s2 \<noteq> 0" using room 1(4) 2(4) by (intro nz) linarith
  from lookup_step [OF 2(2) _ _ 2(3), of ?k] f2 obtain t3 s3 A3 where 3: "pt_lookup_or_create t2 ?k s2 = Ret (t3, s3)"
    "at.tree s3 A3 pgd" "at.node s3 pgd (pt_path virt) = Some t3" "unat (pmm_get_free_count s2) \<le> unat (pmm_get_free_count s3) + 1"
    "\<And>q k. idx_ok q \<Longrightarrow> length q = 3 \<Longrightarrow> k < 512 \<Longrightarrow> at.entry s3 pgd q k = at.entry s2 pgd q k"
    by (auto simp: pt_index_less pt_path_def)
  let ?s = "pt_put t3 (pt_index 12 virt) (page_desc phys flags) s3"
  note leaf = at.put_leaf [OF 3(2) pt_path_ok 3(3) pt_index_less [of 12 virt], where v = "page_desc phys flags"]
  have "pt_map_page pgd virt phys flags s = Ret ?s" by (simp add: pt_map_page_def 1(1) 2(1) 3(1))
  moreover have "arm_tables ?s pgd" using leaf(1) by (auto simp: arm_tables_def)
  moreover have "arm_desc ?s pgd v = (if same_page v virt then page_desc phys flags else arm_desc s pgd v)" for v
    using leaf(2) [of "pt_path v" "pt_index 12 v"] 1(5) 2(5) 3(5) by (simp add: arm_desc_def same_page_indices pt_index_less)
  moreover have "pmm_get_free_count ?s = pmm_get_free_count s3" by (simp add: pt_put_def pmm_get_free_count_def)
  then have "unat (pmm_get_free_count s) \<le> unat (pmm_get_free_count ?s) + 3" using 1(4) 2(4) 3(4) by simp
  ultimately show ?thesis by blast
qed

lemma find_append: "List.find P (xs @ ys) = (case List.find P xs of None \<Rightarrow> List.find P ys | Some x \<Rightarrow> Some x)"
  by (induction xs) simp_all

lemma map_pages_loop_ok:
  assumes "arm_tables s pgd" "3 * n \<le> unat (pmm_get_free_count s)"
  shows "\<exists>s'. map_pages_loop n (of_nat i) pgd virt phys w x s = Ret s' \<and> arm_tables s' pgd
    \<and> unat (pmm_get_free_count s) \<le> unat (pmm_get_free_count s') + 3 * n
    \<and> (\<forall>v. arm_desc s' pgd v = (case List.find (\<lambda>k. same_page v (virt + of_nat k * PAGE_SIZE)) (rev [i..<i + n]) of
         None \<Rightarrow> arm_desc s pgd v | Some k \<Rightarrow> page_desc (phys + of_nat k * PAGE_SIZE) (user_flags w x)))"
  using assms
proof (induction n arbitrary: i s)
  case (Suc n)
  let ?d = "page_desc (phys + of_nat i * PAGE_SIZE) (user_flags w x)"
  from pt_map_page_ok [OF Suc.prems(1), of "virt + of_nat i * PAGE_SIZE" "phys + of_nat i * PAGE_SIZE" "user_flags w x"] Suc.prems(2)
  obtain s1 where s1: "pt_map_page pgd (virt + of_nat i * PAGE_SIZE) (phys + of_nat i * PAGE_SIZE) (user_flags w x) s = Ret s1"
    "arm_tables s1 pgd" "unat (pmm_get_free_count s) \<le> unat (pmm_get_free_count s1) + 3"
    "\<And>v. arm_desc s1 pgd v = (if same_page v (virt + of_nat i * PAGE_SIZE) then ?d else arm_desc s pgd v)" by auto
  have "3 * n \<le> unat (pmm_get_free_count s1)" using Suc.prems(2) s1(3) by simp
  from Suc.IH [OF s1(2) this, of "Suc i"] obtain s' where s': "map_pages_loop n (of_nat (Suc i)) pgd virt phys w x s1 = Ret s'"
    "arm_tables s' pgd" "unat (pmm_get_free_count s1) \<le> unat (pmm_get_free_count s') + 3 * n"
    "\<And>v. arm_desc s' pgd v = (case List.find (\<lambda>k. same_page v (virt + of_nat k * PAGE_SIZE)) (rev [Suc i..<Suc i + n]) of
         None \<Rightarrow> arm_desc s1 pgd v | Some k \<Rightarrow> page_desc (phys + of_nat k * PAGE_SIZE) (user_flags w x))" by blast
  have "map_pages_loop (Suc n) (of_nat i) pgd virt phys w x s = Ret s'"
    using s1(1) s'(1) by (simp add: arm64_map_user_page_def add.commute)
  moreover have "arm_desc s' pgd v = (case List.find (\<lambda>k. same_page v (virt + of_nat k * PAGE_SIZE)) (rev [i..<i + Suc n]) of
         None \<Rightarrow> arm_desc s pgd v | Some k \<Rightarrow> page_desc (phys + of_nat k * PAGE_SIZE) (user_flags w x))" for v
  proof -
    have "rev [i..<i + Suc n] = rev [Suc i..<Suc i + n] @ [i]" by (simp add: upt_conv_Cons del: upt_Suc)
    then show ?thesis using s'(4) [of v] s1(4) [of v] by (simp only: find_append) (auto split: option.splits)
  qed
  moreover have "unat (pmm_get_free_count s) \<le> unat (pmm_get_free_count s') + 3 * Suc n" using s1(3) s'(3) by simp
  ultimately show ?case using s'(2) by blast
qed simp

text \<open>C9: Mapping user pages on ARM64, with the tables taken from the physical page allocator: when three free
  pages per page are left the mapping returns, the tables are still a tree of pages the allocator
  has handed out, and the descriptor found by walking the tables is, for an address in one of
  the mapped pages, the one for its physical page with the requested permissions, and what it was
  for every other address.\<close>

theorem arm64_map_user_pages_spec:
  assumes "arm_tables s pgd" "3 * unat pages \<le> unat (pmm_get_free_count s)"
  shows "\<exists>s'. arm64_map_user_pages pgd virt phys pages w x s = Ret s' \<and> arm_tables s' pgd
    \<and> (\<forall>v. arm_desc s' pgd v = (case List.find (\<lambda>k. same_page v (virt + of_nat k * PAGE_SIZE)) (rev [0..<unat pages]) of
         None \<Rightarrow> arm_desc s pgd v | Some k \<Rightarrow> page_desc (phys + of_nat k * PAGE_SIZE) (user_flags w x)))"
  using map_pages_loop_ok [OF assms, of 0 virt phys w x] by (auto simp: arm64_map_user_pages_def)

lemma new_pgd_tables:
  assumes "arm_inv s {}" "arm64_create_user_pgd s = Ret (pgd, s')"
  shows "arm_tables s' pgd" "arm_desc s' pgd v = 0"
proof -
  have a: "arm_alloc s = Some (pgd, s')" using assms(2) by (simp add: arm_alloc_def arm64_create_user_pgd_def)
  have inv: "arm_inv s' {pgd}" using at.alloc_fresh [OF assms(1) a] by simp
  have z: "pt_get s' pgd i = 0" if "i < 512" for i using at.alloc_zero [OF assms(1) a that] .
  have nd: "at.node s' pgd p = (if p = [] then Some pgd else None)" if "idx_ok p" for p
    using that z at.zero_absent by (cases p) auto
  then show "arm_tables s' pgd" unfolding arm_tables_def at.tree_def using inv
    by (intro exI [of _ "{pgd}"]) (auto split: if_splits)
  show "arm_desc s' pgd v = 0" using nd [of "pt_path v"] by (simp add: arm_desc_def at.entry_def pt_path_def pt_index_less)
qed

definition arm_demo_map :: "memory_region_t list" where
  "arm_demo_map = [\<lparr>reg_base = 0x1000000, reg_length = 0x4000, reg_type = 1\<rparr>]"

lemma arm_demo_boot:
  "\<exists>s0 pgd s1. pmm_init arm_demo_map (pmm_static (\<lambda>_. 0)) = Some s0 \<and> arm64_create_user_pgd s0 = Ret (pgd, s1)
     \<and> arm_inv s0 {} \<and> pmm_get_free_count s1 = 3"
proof -
  have "regions_wf arm_demo_map" by (simp add: arm_demo_map_def regions_wf_def region_wf_def usable_pages_def)
  from pmm_init_view [OF this, of "pmm_static (\<lambda>_. 0)"] obtain s0 F where
    s0: "pmm_init arm_demo_map (pmm_static (\<lambda>_. 0)) = Some s0" "pmm_inv s0 F {#}" "free_pages F = map_pages arm_demo_map" by blast
  have "map_pages arm_demo_map = {#4096, 4097, 4098, 4099#}"
    by (simp add: arm_demo_map_def map_pages_def usable_pages_def upt_conv_Cons)
  with s0(3) have F: "free_pages F = {#4096, 4097, 4098, 4099#}" by simp
  have inv: "arm_inv s0 {}" unfolding arm_inv_def using s0(2) F by (intro exI [of _ F] exI [of _ "{#}"]) simp
  have c: "pmm_get_free_count s0 = 4" using s0(2) F by (simp add: pmm_inv_def pmm_get_free_count_def)
  with zeroed_page_total [OF inv] s0(1) inv show ?thesis by (auto simp: arm64_create_user_pgd_def)
qed

theorem arm64_map_user_pages_spec_witness:
  "\<exists>s0 pgd s1 s2. pmm_init arm_demo_map (pmm_static (\<lambda>_. 0)) = Some s0 \<and> arm64_create_user_pgd s0 = Ret (pgd, s1)
     \<and> arm64_map_user_pages pgd 0x400000 0x500000 1 True False s1 = Ret s2
     \<and> arm_desc s2 pgd 0x400123 = 0x40000000500421 \<and> arm_desc s2 pgd 0x401000 = 0"
proof -
  from arm_demo_boot obtain s0 pgd s1 where b: "pmm_init arm_demo_map (pmm_static (\<lambda>_. 0)) = Some s0"
    "arm64_create_user_pgd s0 = Ret (pgd, s1)" "arm_inv s0 {}" "pmm_get_free_count s1 = 3" by blast
  note n = new_pgd_tables [OF b(3,2)]
  have d: "page_desc 0x500000 (user_flags True False) = 0x40000000500421" by code_simp
  have p: "same_page 0x400123 0x400000" "\<not> same_page 0x401000 0x400000" by (simp_all add: same_page_def)
  from arm64_map_user_pages_spec [OF n(1), of 1 "0x400000" "0x500000" True False] b(4) obtain s2 where
    s2: "arm64_map_user_pages pgd 0x400000 0x500000 1 True False s1 = Ret s2"
    "\<And>v. arm_desc s2 pgd v = (case List.find (\<lambda>k. same_page v (0x400000 + of_nat k * PAGE_SIZE)) [0] of
         None \<Rightarrow> arm_desc s1 pgd v | Some k \<Rightarrow> page_desc (0x500000 + of_nat k * PAGE_SIZE) (user_flags True False))" by auto
  show ?thesis using b(1,2) s2 n(2) p d by auto
qed

text \<open>A level-3 descriptor needs bits 0 and 1 set; the descriptors written have bit 1 clear, so the
  hardware faults on every page mapped.\<close>

lemma page_desc_not_page: "page_desc phys (user_flags w x) AND 3 = 1"
proof -
  have f: "user_flags w x \<in> {0, 0x40, 0x40000000000000, 0x40000000000040}" by (auto simp: user_flags_def Let_def)
  have "(phys AND PT_ADDR_MASK) AND 3 = 0" by (simp add: and.assoc)
  with f show ?thesis by (auto simp: page_desc_def and.commute [of _ 3] bit.conj_disj_distrib)
qed

end
