(* ===== verification/Syscall.thy ===== *)
theory Syscall
  imports Process Initramfs Elf Arm64
begin

text \<open>
  The system calls of \<^verbatim>\<open>kernel/syscall.c\<close> over the process table, the scheduler, the archive reader, the
  ELF loader and the page tables. \<open>sc_mem\<close> is memory as bytes, read by \<^verbatim>\<open>write\<close> and \<^verbatim>\<open>execve\<close>
  and written by the loader; the page allocator and the page tables have the word-wise
  memory of \<open>Pmm\<close>, and the two are kept apart. The archive is read from \<open>sc_mem\<close> at each call.

  \<^verbatim>\<open>process_get_current\<close>, \<^verbatim>\<open>process_exit\<close> and \<^verbatim>\<open>sys_brk\<close> are called but defined nowhere in the
  repository: they are the fields of \<open>sys_ext\<close>. The file defines \<^verbatim>\<open>sys_fork\<close> twice; the model has the
  second definition, which the table would use.
\<close>

abbreviation SYSCALL_MAX :: u32 where "SYSCALL_MAX \<equiv> 64"
abbreviation SYS_EXIT :: nat where "SYS_EXIT \<equiv> 1"
abbreviation SYS_WRITE :: nat where "SYS_WRITE \<equiv> 2"
abbreviation SYS_READ :: nat where "SYS_READ \<equiv> 3"
abbreviation SYS_OPEN :: nat where "SYS_OPEN \<equiv> 4"
abbreviation SYS_CLOSE :: nat where "SYS_CLOSE \<equiv> 5"
abbreviation SYS_SLEEP :: nat where "SYS_SLEEP \<equiv> 6"
abbreviation SYS_GETPID :: nat where "SYS_GETPID \<equiv> 7"
abbreviation SYS_FORK :: nat where "SYS_FORK \<equiv> 8"
abbreviation SYS_EXECVE :: nat where "SYS_EXECVE \<equiv> 9"
abbreviation SYS_BRK :: nat where "SYS_BRK \<equiv> 10"
abbreviation SYS_SCHED_YIELD :: nat where "SYS_SCHED_YIELD \<equiv> 11"
abbreviation SYS_GETTIME :: nat where "SYS_GETTIME \<equiv> 12"
abbreviation SYS_POWEROFF :: nat where "SYS_POWEROFF \<equiv> 13"
abbreviation SYS_REBOOT :: nat where "SYS_REBOOT \<equiv> 14"

datatype power = Poweroff | Reboot

record syscall_t =
  sc_sys :: sys_t
  sc_mem :: byte_mem
  sc_out :: "u8 list"
  sc_archive :: u64
  sc_archive_size :: u64
  sc_offset :: u64
  initramfs_loaded :: bool
  sc_arm :: arm64_t
  sc_power :: "power list"

text \<open>How a call ends: it returns a value, stays in the idle loop, enters user mode at an entry
  with a stack and a table, calls a loaded program's entry (x86-64), panics, or never ends.\<close>

datatype sysres = Done u64 syscall_t | Idle syscall_t | User u64 u64 u64 syscall_t | Call u64 syscall_t | Panic | Stuck

record sys_ext =
  x_get_current :: "syscall_t \<Rightarrow> nat option"
  x_exit :: "nat \<Rightarrow> int \<Rightarrow> syscall_t \<Rightarrow> syscall_t"
  x_brk :: "u64 list \<Rightarrow> syscall_t \<Rightarrow> sysres"

text \<open>The CPU, the build, whether ACPI found the FADT, and the uptime the call sees.\<close>

record sys_env =
  e_cpu :: nat
  e_arm :: bool
  e_fadt :: bool
  e_uptime :: u64
  e_ext :: sys_ext

definition syscall_set_initramfs :: "u64 \<Rightarrow> u64 \<Rightarrow> syscall_t \<Rightarrow> syscall_t" where
  "syscall_set_initramfs data fsize s =
     s\<lparr>sc_archive := data, sc_archive_size := fsize, sc_offset := 0, initramfs_loaded := True\<rparr>"

definition mem_bytes :: "byte_mem \<Rightarrow> u64 \<Rightarrow> nat \<Rightarrow> u8 list" where
  "mem_bytes m p n = map (\<lambda>i. m (p + of_nat i)) [0..<n]"

definition archive_of :: "syscall_t \<Rightarrow> initramfs_t" where
  "archive_of s = \<lparr>archive = mem_bytes (sc_mem s) (sc_archive s) (unat (sc_archive_size s)), fs_offset = sc_offset s\<rparr>"

text \<open>The C string at \<open>p\<close> for comparison with a name of at most 4095 bytes: when the first 4096 bytes
  have no NUL, all of them, which equals no such name.\<close>

definition cstr :: "byte_mem \<Rightarrow> u64 \<Rightarrow> u8 list" where
  "cstr m p = takeWhile (\<lambda>c. c \<noteq> 0) (mem_bytes m p 4096)"

definition upd_kern :: "(kern_t \<Rightarrow> kern_t) \<Rightarrow> syscall_t \<Rightarrow> syscall_t" where
  "upd_kern f s = s\<lparr>sc_sys := (sc_sys s)\<lparr>kern := f (kern (sc_sys s))\<rparr>\<rparr>"

definition sys_pmm :: "syscall_t \<Rightarrow> pmm_t" where
  "sys_pmm s = pmm_st (vm (sc_sys s))"

definition set_pmm :: "pmm_t \<Rightarrow> syscall_t \<Rightarrow> syscall_t" where
  "set_pmm p s = s\<lparr>sc_sys := (sc_sys s)\<lparr>vm := (vm (sc_sys s))\<lparr>pmm_st := p\<rparr>\<rparr>\<rparr>"

section \<open>The calls\<close>

definition sys_exit :: "sys_ext \<Rightarrow> u64 \<Rightarrow> syscall_t \<Rightarrow> sysres" where
  "sys_exit x code s =
     Idle (case x_get_current x s of None \<Rightarrow> s | Some p \<Rightarrow> x_exit x p (sint (ucast code :: u32)) s)"

definition sys_write :: "u64 \<Rightarrow> u64 \<Rightarrow> u64 \<Rightarrow> syscall_t \<Rightarrow> sysres" where
  "sys_write fd buf cnt s =
     Done cnt (if fd = 1 \<or> fd = 2 then s\<lparr>sc_out := sc_out s @ mem_bytes (sc_mem s) buf (nat (sint cnt))\<rparr> else s)"

definition sys_read :: "syscall_t \<Rightarrow> sysres" where "sys_read s = Done 0 s"

definition sys_open :: "syscall_t \<Rightarrow> sysres" where "sys_open s = Done (-1) s"

definition sys_close :: "syscall_t \<Rightarrow> sysres" where "sys_close s = Done 0 s"

definition sys_sleep :: "sys_env \<Rightarrow> u64 \<Rightarrow> syscall_t \<Rightarrow> sysres" where
  "sys_sleep e ms s = Done 0 (upd_kern (sched_sleep (e_cpu e) (e_uptime e) ms) s)"

definition sys_getpid :: "sys_ext \<Rightarrow> syscall_t \<Rightarrow> sysres" where
  "sys_getpid x s =
     (case x_get_current x s of None \<Rightarrow> Done (-1) s
      | Some p \<Rightarrow> Done (ucast (pr_pid (processes (kern (sc_sys s)) p))) s)"

definition sys_fork :: "sys_env \<Rightarrow> syscall_t \<Rightarrow> sysres" where
  "sys_fork e s =
     (case proc_fork (e_cpu e) (e_arm e) (e_uptime e) (sc_sys s) of
        None \<Rightarrow> Panic
      | Some (r, sys) \<Rightarrow> Done (word_of_int r) (s\<lparr>sc_sys := sys\<rparr>))"

abbreviation user_stack_virt :: u64 where "user_stack_virt \<equiv> 0x7FFFF0000"

definition load_start :: "elf_loaded_t \<Rightarrow> u64" where
  "load_start out = el_load_base out AND NOT 0xFFF"

definition load_pages :: "elf_loaded_t \<Rightarrow> u64" where
  "load_pages out = (((el_load_base out + el_size out + 0xFFF) AND NOT 0xFFF) - load_start out) div PAGE_SIZE"

text \<open>The ARM64 part of \<^verbatim>\<open>execve\<close> after the program is loaded.\<close>

definition enter_program :: "elf_loaded_t \<Rightarrow> syscall_t \<Rightarrow> sysres" where
  "enter_program out s =
     (case arm64_create_user_pgd (sys_pmm s) of
        Ret (user_pgd, p1) \<Rightarrow>
          (case pmm_alloc_pages 4 p1 of
             None \<Rightarrow> Stuck
           | Some (user_stack_phys, p2) \<Rightarrow>
               (case map_pages_loop (unat (load_pages out)) 0 user_pgd (load_start out) (load_start out) True True p2 of
                  Ret p3 \<Rightarrow>
                    (case map_pages_loop 4 0 user_pgd user_stack_virt user_stack_phys True False p3 of
                       Ret p4 \<Rightarrow>
                         let s4 = set_pmm p4 s;
                             stack = user_stack_virt + 0x10000 - 8;
                             s5 = (case proc_get_current (kern (sc_sys s4)) of
                                     None \<Rightarrow> s4
                                   | Some p \<Rightarrow> s4\<lparr>sc_sys := snd (proc_setup_userspace True (Some p) (el_entry out) stack user_pgd (sc_sys s4))\<rparr>)
                         in User (el_entry out) stack user_pgd (s5\<lparr>sc_arm := arm64_set_ttbr0 user_pgd (sc_arm s5)\<rparr>)
                     | _ \<Rightarrow> Panic)
                | _ \<Rightarrow> Panic))
      | _ \<Rightarrow> Panic)"

definition sys_execve :: "sys_env \<Rightarrow> u64 \<Rightarrow> syscall_t \<Rightarrow> sysres" where
  "sys_execve e path s =
     (if path = 0 \<or> \<not> initramfs_loaded s then Done (-1) s
      else
        case initramfs_find (cstr (sc_mem s) path) (archive_of s) of
          None \<Rightarrow> Stuck
        | Some (ret, entry, fs) \<Rightarrow>
            let s1 = s\<lparr>sc_offset := fs_offset fs\<rparr>
            in case entry of
                 None \<Rightarrow> Done (-1) s1
               | Some ent \<Rightarrow>
                   if ret \<le> 0 then Done (-1) s1
                   else
                     case elf_load (sc_archive s + ent_data ent) (ent_size ent) (sc_mem s1) of
                       (r, loaded, m) \<Rightarrow>
                         let s2 = s1\<lparr>sc_mem := m\<rparr>
                         in case loaded of
                              None \<Rightarrow> Done (-1) s2
                            | Some out \<Rightarrow>
                                if r < 0 then Done (-1) s2
                                else if e_arm e then enter_program out s2
                                else Call (el_entry out) s2)"

definition sys_yield :: "sys_env \<Rightarrow> syscall_t \<Rightarrow> sysres" where
  "sys_yield e s = Done 0 (upd_kern (sched_yield (e_cpu e)) s)"

definition sys_gettime :: "sys_env \<Rightarrow> syscall_t \<Rightarrow> sysres" where
  "sys_gettime e s = Done (e_uptime e) s"

text \<open>\<^verbatim>\<open>sm8250_poweroff\<close>, \<^verbatim>\<open>sm8250_reboot\<close> and \<^verbatim>\<open>acpi_reboot\<close> end in a halted CPU; \<^verbatim>\<open>acpi_poweroff\<close> does when
  the FADT was found and returns at once otherwise.\<close>

definition kernel_poweroff :: "sys_env \<Rightarrow> syscall_t \<Rightarrow> syscall_t + syscall_t" where
  "kernel_poweroff e s =
     (if e_arm e \<or> e_fadt e then Inr (s\<lparr>sc_power := sc_power s @ [Poweroff]\<rparr>) else Inl s)"

definition kernel_reboot :: "sys_env \<Rightarrow> syscall_t \<Rightarrow> syscall_t" where
  "kernel_reboot e s = s\<lparr>sc_power := sc_power s @ [Reboot]\<rparr>"

definition sys_poweroff :: "sys_env \<Rightarrow> syscall_t \<Rightarrow> sysres" where
  "sys_poweroff e s = (case kernel_poweroff e s of Inl s' \<Rightarrow> Done 0 s' | Inr s' \<Rightarrow> Idle s')"

definition sys_reboot :: "sys_env \<Rightarrow> syscall_t \<Rightarrow> sysres" where
  "sys_reboot e s = Idle (kernel_reboot e s)"

text \<open>The table: \<open>None\<close> for the entries the initialiser leaves NULL.\<close>

definition syscall_table :: "sys_env \<Rightarrow> nat \<Rightarrow> (u64 list \<Rightarrow> syscall_t \<Rightarrow> sysres) option" where
  "syscall_table e num =
     (let x = e_ext e in
      if num = SYS_EXIT then Some (\<lambda>a. sys_exit x (a ! 0))
      else if num = SYS_WRITE then Some (\<lambda>a. sys_write (a ! 0) (a ! 1) (a ! 2))
      else if num = SYS_READ then Some (\<lambda>a. sys_read)
      else if num = SYS_OPEN then Some (\<lambda>a. sys_open)
      else if num = SYS_CLOSE then Some (\<lambda>a. sys_close)
      else if num = SYS_SLEEP then Some (\<lambda>a. sys_sleep e (a ! 0))
      else if num = SYS_GETPID then Some (\<lambda>a. sys_getpid x)
      else if num = SYS_FORK then Some (\<lambda>a. sys_fork e)
      else if num = SYS_EXECVE then Some (\<lambda>a. sys_execve e (a ! 0))
      else if num = SYS_BRK then Some (x_brk x)
      else if num = SYS_SCHED_YIELD then Some (\<lambda>a. sys_yield e)
      else if num = SYS_GETTIME then Some (\<lambda>a. sys_gettime e)
      else if num = SYS_POWEROFF then Some (\<lambda>a. sys_poweroff e)
      else if num = SYS_REBOOT then Some (\<lambda>a. sys_reboot e)
      else None)"

definition syscall_dispatch :: "sys_env \<Rightarrow> u32 \<Rightarrow> u64 list \<Rightarrow> syscall_t \<Rightarrow> sysres" where
  "syscall_dispatch e num args s =
     (if num \<ge> SYSCALL_MAX then Done (-1) s
      else case syscall_table e (unat num) of None \<Rightarrow> Done (-1) s | Some f \<Rightarrow> f args s)"

definition syscall_init :: int where "syscall_init = 0"

text \<open>The second entry for system calls stores the result through a pointer; the value stored is what the call returns.\<close>

definition arm64_svc_handler :: "sys_env \<Rightarrow> u32 \<Rightarrow> u64 list \<Rightarrow> syscall_t \<Rightarrow> sysres" where
  "arm64_svc_handler e num args s = syscall_dispatch e num args s"

text \<open>The first of the two definitions of \<^verbatim>\<open>sys_fork\<close>.\<close>

definition sys_fork_first :: "syscall_t \<Rightarrow> sysres" where "sys_fork_first s = Done (-1) s"

text \<open>The 32-bit arguments are widened; a negative result is cut to the 32 bits of \<^verbatim>\<open>status_t\<close>.\<close>

definition status_of :: "u64 \<Rightarrow> int" where
  "status_of r = (if sint r < 0 then sint (ucast r :: u32) else 0)"

definition syscall_handler :: "sys_env \<Rightarrow> u32 \<Rightarrow> u32 list \<Rightarrow> syscall_t \<Rightarrow> (int \<times> syscall_t) + sysres" where
  "syscall_handler e num args s =
     (case syscall_dispatch e num (map ucast args) s of Done r s' \<Rightarrow> Inl (status_of r, s') | other \<Rightarrow> Inr other)"

section \<open>ARM64 exceptions\<close>

text \<open>The handler of \<^verbatim>\<open>kernel/arch/arm64/exceptions.c\<close>: a system call from user mode, with its number in
  the low half of the syndrome, a timer interrupt, or nothing. \<open>Inr\<close> is a call that does not return.\<close>

record exception_context_t =
  ex_regs :: "nat \<Rightarrow> u64"
  ex_spsr :: u64
  ex_elr :: u64
  ex_esr :: u64
  ex_far :: u64

abbreviation EXC_IRQ_EL1 :: u32 where "EXC_IRQ_EL1 \<equiv> 1"
abbreviation EXC_SVC_EL0 :: u32 where "EXC_SVC_EL0 \<equiv> 4"
abbreviation EXC_IRQ_EL0 :: u32 where "EXC_IRQ_EL0 \<equiv> 5"

definition arm64_exception_handler ::
  "sys_env \<Rightarrow> u32 \<Rightarrow> u32 \<Rightarrow> exception_context_t \<Rightarrow> syscall_t \<Rightarrow> (exception_context_t \<times> syscall_t) + sysres" where
  "arm64_exception_handler e ty esr ctx s =
     (if ty = EXC_SVC_EL0 then
        (case syscall_dispatch e (esr AND 0xFFFF) (map (ex_regs ctx) [0, 1, 2, 3, 4, 5]) s of
           Done r s' \<Rightarrow> Inl (ctx\<lparr>ex_regs := (ex_regs ctx)(0 := r)\<rparr>, s')
         | other \<Rightarrow> Inr other)
      else if ty = EXC_IRQ_EL1 \<or> ty = EXC_IRQ_EL0 then Inl (ctx, upd_kern (sched_tick (e_cpu e)) s)
      else Inl (ctx, s))"

section \<open>Starting a program\<close>

lemma four_pages_down: "rev [0..<4] = [3, 2, 1, 0 :: nat]"
  by (simp add: numeral_eq_Suc)

lemma alloc_stack_keeps_tables:
  assumes t: "arm_tables p pgd" and a: "pmm_alloc_pages 4 p = Some (phys, p')"
  shows "arm_tables p' pgd" "arm_desc p' pgd v = arm_desc p pgd v"
    "unat (pmm_get_free_count p) \<le> unat (pmm_get_free_count p') + 4"
proof -
  from t obtain A where A: "at.tree p A pgd" by (auto simp: arm_tables_def)
  from at.treeD(1) [OF A] obtain F held where inv: "pmm_inv p F held"
    "\<forall>b\<in>A. arm_addr b \<and> unat b div 4096 \<in># held" "\<forall>q\<in>#free_pages F. q < 2 ^ 36" by (auto simp: arm_inv_def)
  from a have b: "buddy_alloc 0 2 p = (phys, p')" by (simp add: pmm_alloc_pages_4)
  have "arm_tables p' pgd \<and> arm_desc p' pgd v = arm_desc p pgd v \<and> unat (pmm_get_free_count p) \<le> unat (pmm_get_free_count p') + 4"
  proof (cases "phys = 0")
    case True
    with buddy_alloc_none [OF inv(1), of 2 p'] b t show ?thesis by simp
  next
    case False
    from buddy_alloc_ok [OF inv(1) _ b False] obtain F' where F': "pmm_inv p' F' (mset (blk_pages 2 phys) + held)"
      "free_pages F = free_pages F' + mset (blk_pages 2 phys)" by auto
    have inv': "arm_inv p' A" unfolding arm_inv_def using F' inv
      by (intro exI [of _ F'] exI [of _ "mset (blk_pages 2 phys) + held"]) auto
    have g: "pt_get p' b i = pt_get p b i" if "b \<in> A" "i < 512" for b i
      using buddy_alloc_frame [OF inv(1) _ b False, of "b + 8 * of_nat i"] slot_addr(2) [of b i] inv(2) that
      by (simp add: pt_get_def)
    note c = at.tree_cong [OF A inv' order_refl g]
    have "pmm_get_free_count p = pmm_get_free_count p' + 4"
      using inv(1) F' by (simp add: pmm_inv_def pmm_get_free_count_def)
    then have "unat (pmm_get_free_count p) \<le> unat (pmm_get_free_count p') + 4" by (simp add: unat_word_ariths)
    with c(1) c(2) [of "pt_path v" "pt_index 12 v"] show ?thesis by (auto simp: arm_tables_def arm_desc_def pt_index_less)
  qed
  then show "arm_tables p' pgd" "arm_desc p' pgd v = arm_desc p pgd v"
    "unat (pmm_get_free_count p) \<le> unat (pmm_get_free_count p') + 4" by blast+
qed

text \<open>The descriptors of a program's table: its stack, its image mapped at its own addresses, nothing else.\<close>

definition program_desc :: "elf_loaded_t \<Rightarrow> u64 \<Rightarrow> u64 \<Rightarrow> u64" where
  "program_desc out stack_phys v =
     (case List.find (\<lambda>k. same_page v (user_stack_virt + of_nat k * PAGE_SIZE)) (rev [0..<4]) of
        Some k \<Rightarrow> page_desc (stack_phys + of_nat k * PAGE_SIZE) (user_flags True False)
      | None \<Rightarrow>
          (case List.find (\<lambda>k. same_page v (load_start out + of_nat k * PAGE_SIZE)) (rev [0..<unat (load_pages out)]) of
             Some k \<Rightarrow> page_desc (load_start out + of_nat k * PAGE_SIZE) (user_flags True True)
           | None \<Rightarrow> 0))"

text \<open>No current process, or one without an address space, whose structure the call would write to.\<close>

definition no_space :: "syscall_t \<Rightarrow> bool" where
  "no_space s \<longleftrightarrow> (case proc_get_current (kern (sc_sys s)) of None \<Rightarrow> True
     | Some p \<Rightarrow> pr_vm_space (processes (kern (sc_sys s)) p) = 0)"

lemma setup_keeps_vm:
  assumes "pr_vm_space (processes (kern s) p) = 0"
  shows "vm (snd (proc_setup_userspace True (Some p) en st tt s)) = vm s"
  using assms by (simp add: proc_setup_userspace_def Let_def upd_thread_def)

lemma enter_program_spec:
  assumes inv: "arm_inv (sys_pmm s) {}" and ns: "no_space s"
    and room: "3 * (unat (load_pages out) + 4) + 5 \<le> unat (pmm_get_free_count (sys_pmm s))"
  shows "\<exists>pgd stack_phys s'. enter_program out s = User (el_entry out) 0x7FFFFFFF8 pgd s' \<and> arm_tables (sys_pmm s') pgd
    \<and> (\<forall>v. arm_desc (sys_pmm s') pgd v = program_desc out stack_phys v)
    \<and> ttbr0 (sc_arm s') = pgd \<and> sc_mem s' = sc_mem s"
proof -
  let ?n = "unat (load_pages out)"
  have f0: "pmm_get_free_count (sys_pmm s) \<noteq> 0" using room by auto
  from zeroed_page_total [OF inv f0] obtain pgd p1 where 1: "arm64_create_user_pgd (sys_pmm s) = Ret (pgd, p1)"
    "pmm_get_free_count p1 = pmm_get_free_count (sys_pmm s) - 1" by (auto simp: arm64_create_user_pgd_def)
  note t1 = new_pgd_tables [OF inv 1(1)]
  have f1: "3 * (?n + 4) + 4 \<le> unat (pmm_get_free_count p1)" using 1(2) f0 room by (simp add: unat_minus_one)
  obtain phys p2 where 2: "pmm_alloc_pages 4 p1 = Some (phys, p2)" by (auto simp: pmm_alloc_pages_4 intro: prod.exhaust)
  note t2 = alloc_stack_keeps_tables [OF t1(1) 2]
  have f2: "3 * (?n + 4) \<le> unat (pmm_get_free_count p2)" using f1 t2(3) by simp
  from map_pages_loop_ok [OF t2(1), of ?n 0 "load_start out" "load_start out" True True] f2 obtain p3 where
    3: "map_pages_loop ?n 0 pgd (load_start out) (load_start out) True True p2 = Ret p3" "arm_tables p3 pgd"
    "unat (pmm_get_free_count p2) \<le> unat (pmm_get_free_count p3) + 3 * ?n"
    "\<And>v. arm_desc p3 pgd v = (case List.find (\<lambda>k. same_page v (load_start out + of_nat k * PAGE_SIZE)) (rev [0..<?n]) of
         None \<Rightarrow> arm_desc p2 pgd v | Some k \<Rightarrow> page_desc (load_start out + of_nat k * PAGE_SIZE) (user_flags True True))"
    by auto
  have "3 * 4 \<le> unat (pmm_get_free_count p3)" using 3(3) f2 by simp
  from map_pages_loop_ok [OF 3(2) this, of 0 user_stack_virt phys True False] obtain p4 where
    4: "map_pages_loop 4 0 pgd user_stack_virt phys True False p3 = Ret p4" "arm_tables p4 pgd"
    "\<And>v. arm_desc p4 pgd v = (case List.find (\<lambda>k. same_page v (user_stack_virt + of_nat k * PAGE_SIZE)) (rev [0..<4]) of
         None \<Rightarrow> arm_desc p3 pgd v | Some k \<Rightarrow> page_desc (phys + of_nat k * PAGE_SIZE) (user_flags True False))"
    by auto
  let ?s4 = "set_pmm p4 s"
  let ?s5 = "case proc_get_current (kern (sc_sys ?s4)) of None \<Rightarrow> ?s4
      | Some p \<Rightarrow> ?s4\<lparr>sc_sys := snd (proc_setup_userspace True (Some p) (el_entry out) 0x7FFFFFFF8 pgd (sc_sys ?s4))\<rparr>"
  let ?s' = "?s5\<lparr>sc_arm := arm64_set_ttbr0 pgd (sc_arm ?s5)\<rparr>"
  have r: "enter_program out s = User (el_entry out) 0x7FFFFFFF8 pgd ?s'"
    by (simp add: enter_program_def 1(1) 2 3(1) 4(1) Let_def)
  have p: "sys_pmm ?s' = p4" using ns
    by (auto simp: sys_pmm_def set_pmm_def no_space_def setup_keeps_vm split: option.splits)
  have d: "arm_desc p4 pgd v = program_desc out phys v" for v
    using 4(3) [of v] 3(4) [of v] t2(2) [of v] t1(2) [of v] by (simp add: program_desc_def split: option.splits)
  have "ttbr0 (sc_arm ?s') = pgd" "sc_mem ?s' = sc_mem s"
    by (simp_all add: arm64_set_ttbr0_def set_pmm_def split: option.splits)
  with r 4(2) d p show ?thesis by (intro exI [of _ pgd] exI [of _ phys] exI [of _ ?s']) simp
qed


definition exec_file :: cpio_file where
  "exec_file = \<lparr>cf_name = [0x61], cf_data = demo_elf, cf_meta1 = replicate 48 0x30, cf_meta2 = replicate 32 0x30, cf_check = replicate 8 0x30\<rparr>"

definition exec_mem :: byte_mem where
  "exec_mem a = (if a = 0x800 then 0x61 else if a = 0x801 then 0
     else if a - 0xF90 < 236 then cpio_entry exec_file ! unat (a - 0xF90) else 0xff)"

definition exec_state :: "pmm_t \<Rightarrow> syscall_t" where
  "exec_state p = syscall_set_initramfs 0xF90 236
     \<lparr>sc_sys = \<lparr>kern = kern_static, vm = demo_vmm\<lparr>pmm_st := p\<rparr>\<rparr>, sc_mem = exec_mem, sc_out = [], sc_archive = 0, sc_archive_size = 0,
      sc_offset = 0, initramfs_loaded = False,
      sc_arm = \<lparr>kernel_pgd = 0, ttbr0 = 0, ttbr1 = 0, cntp_tval = 0, cntp_ctl = 0, mmio32 = (\<lambda>_. 0), arm_tlb_flushes = 0\<rparr>, sc_power = []\<rparr>"

definition exec_env :: sys_env where
  "exec_env = \<lparr>e_cpu = 0, e_arm = True, e_fadt = False, e_uptime = 0,
     e_ext = \<lparr>x_get_current = (\<lambda>_. None), x_exit = (\<lambda>_ _ s. s), x_brk = (\<lambda>_ s. Done (-1) s)\<rparr>\<rparr>"

lemma mem_bytes_nth [simp]: "length (mem_bytes m p n) = n" "i < n \<Longrightarrow> mem_bytes m p n ! i = m (p + of_nat i)"
  by (simp_all add: mem_bytes_def)

lemma mem_bytes_Suc: "mem_bytes m p (Suc n) = m p # mem_bytes m (p + 1) n"
  by (rule nth_equalityI) (auto simp: nth_Cons add.assoc split: nat.splits)

lemma demo_elf_length: "length demo_elf = 124"
  by (simp add: demo_elf_def)

lemma exec_wf: "wf_file exec_file"
  by (simp add: wf_file_def exec_file_def demo_elf_length)

lemma exec_entry: "length (cpio_entry exec_file) = 236" "drop 112 (cpio_entry exec_file) = demo_elf"
proof -
  have e: "cpio_entry exec_file = (cpio_header exec_file @ [0x61, 0]) @ demo_elf"
    by (simp add: cpio_entry_def exec_file_def pad4_def demo_elf_length)
  have l: "length (cpio_header exec_file @ [0x61, 0]) = 112" using header_parts(1) [OF exec_wf] by simp
  show "length (cpio_entry exec_file) = 236" "drop 112 (cpio_entry exec_file) = demo_elf"
    unfolding e using l by (simp_all add: demo_elf_length)
qed

lemma exec_mem_archive: "k < 236 \<Longrightarrow> exec_mem (0xF90 + of_nat k) = cpio_entry exec_file ! k"
proof -
  assume k: "k < 236"
  then have u: "unat (of_nat k :: u64) = k" by (simp add: unat_of_nat take_bit_nat_eq_self)
  have a: "unat (0xF90 + of_nat k :: u64) = 0xF90 + k" using k u by (simp add: unat_word_ariths)
  have "0xF90 + of_nat k \<noteq> (0x800 :: u64)" "0xF90 + of_nat k \<noteq> (0x801 :: u64)" using a by (auto simp: word_unat_eq_iff)
  then show ?thesis using k u by (simp add: exec_mem_def word_less_nat_alt)
qed

lemma exec_archive: "archive_of (exec_state p) = \<lparr>archive = cpio_entry exec_file, fs_offset = 0\<rparr>"
proof -
  have "mem_bytes exec_mem 0xF90 236 = cpio_entry exec_file"
    by (rule nth_equalityI) (simp_all add: exec_entry exec_mem_archive)
  then show ?thesis by (simp add: archive_of_def exec_state_def syscall_set_initramfs_def)
qed

lemma exec_find: "\<exists>fs. initramfs_find [0x61] \<lparr>archive = cpio_entry exec_file, fs_offset = 0\<rparr>
    = Some (1, Some \<lparr>ent_data = 112, ent_size = 124\<rparr>, fs)"
proof -
  let ?fs = "\<lparr>archive = cpio_entry exec_file, fs_offset = 0\<rparr>"
  have "entry_at 0 exec_file = \<lparr>ent_data = 112, ent_size = 124\<rparr>" "cf_name exec_file = [0x61]"
    by (simp_all add: exec_file_def demo_elf_length)
  with next_entry(1) [of ?fs "[]" exec_file "[]"] exec_wf exec_entry(1) show ?thesis
    by (simp add: initramfs_find_def find_loop.simps [of "[0x61]" ?fs])
qed

lemma exec_cstr: "cstr exec_mem 0x800 = [0x61]"
proof -
  have "mem_bytes exec_mem 0x800 (Suc (Suc 4094)) = 0x61 # 0 # mem_bytes exec_mem 0x802 4094"
    by (simp only: mem_bytes_Suc) (simp add: exec_mem_def)
  then show ?thesis by (simp add: cstr_def)
qed

lemma exec_same: "same_on 0x1000 124 exec_mem demo_mem"
proof -
  have "exec_mem a = demo_mem a" if "a - 0x1000 < 124" for a
  proof -
    define k where "k = unat (a - 0x1000)"
    have k: "k < 124" using that by (simp add: k_def word_less_nat_alt)
    have "a = 0xF90 + of_nat (112 + k)" by (simp add: k_def)
    with exec_mem_archive [of "112 + k"] k have "exec_mem a = drop 112 (cpio_entry exec_file) ! k"
      by (simp add: exec_entry(1) del: of_nat_add)
    with that show ?thesis by (simp add: exec_entry(2) demo_mem_def k_def)
  qed
  then show ?thesis by (simp add: same_on_def)
qed

definition exec_loaded :: elf_loaded_t where
  "exec_loaded = \<lparr>el_data = 0x1000, el_size = 124, el_entry = 0x400000, el_load_base = 0x400000\<rparr>"

lemma exec_load: "\<exists>m. elf_load 0x1000 124 exec_mem = (0, Some exec_loaded, m)"
proof -
  have h: "read_header exec_mem 0x1000 = demo_hdr" using read_header_same [OF exec_same] demo_header by simp
  have "read_phdr exec_mem 0x1040 = read_phdr demo_mem 0x1040" using read_phdr_same [OF exec_same, of "0x40"] by simp
  then have p: "load_phdrs exec_mem 0x1000 = [demo_phdr]"
    using h demo_phdrs by (simp add: phdrs_from_def demo_header demo_hdr_def)
  have ok: "\<forall>ph\<in>set (load_phdrs exec_mem 0x1000). segment_ok 0x1000 124 ph"
    unfolding p by (simp add: segment_ok_apart max_def demo_phdr_def)
  have "phdrs_inside 124 (read_header exec_mem 0x1000)" by (simp add: h demo_hdr_def phdrs_inside_def)
  from elf_load_places [OF refl _ _ _ _ _ this ok, unfolded h p] obtain m where
    "elf_load 0x1000 124 exec_mem = (0, Some \<lparr>el_data = 0x1000, el_size = 124, el_entry = eh_entry demo_hdr,
       el_load_base = min (-1) (ph_vaddr demo_phdr)\<rparr>, m)" by (auto simp: demo_hdr_def)
  moreover have "min (-1) (0x400000 :: u64) = 0x400000" by code_simp
  ultimately show ?thesis by (simp add: demo_hdr_def demo_phdr_def exec_loaded_def)
qed

definition exec_map :: "memory_region_t list" where
  "exec_map = [\<lparr>reg_base = 0x1000000, reg_length = 0x20000, reg_type = 1\<rparr>]"

lemma exec_boot: "\<exists>p. pmm_init exec_map (pmm_static (\<lambda>_. 0)) = Some p \<and> arm_inv p {} \<and> pmm_get_free_count p = 32"
proof -
  have "regions_wf exec_map" by (simp add: exec_map_def regions_wf_def region_wf_def usable_pages_def)
  from pmm_init_view [OF this, of "pmm_static (\<lambda>_. 0)"] obtain p F where
    p: "pmm_init exec_map (pmm_static (\<lambda>_. 0)) = Some p" "pmm_inv p F {#}" "free_pages F = map_pages exec_map" by blast
  have m: "map_pages exec_map = mset [4096..<4128]" by (simp add: exec_map_def map_pages_def usable_pages_def)
  have "arm_inv p {}" unfolding arm_inv_def using p m by (intro exI [of _ F] exI [of _ "{#}"]) auto
  moreover have "pmm_get_free_count p = 32" using p m by (simp add: pmm_inv_def pmm_get_free_count_def del: upt_rec_numeral)
  ultimately show ?thesis using p(1) by blast
qed


text \<open>The stack pointer handed to the program is 64 KB above the base of the stack, of which 16 KB are mapped:
  unless the image happens to lie there, the first push faults.\<close>

lemma stack_pointer_unmapped:
  assumes "\<And>k. k < unat (load_pages out) \<Longrightarrow> \<not> same_page 0x7FFFFFFF8 (load_start out + of_nat k * PAGE_SIZE)"
  shows "program_desc out stack_phys 0x7FFFFFFF8 = 0"
proof -
  have sp: "\<not> same_page 0x7FFFFFFF8 0x7FFFF0000" "\<not> same_page 0x7FFFFFFF8 0x7FFFF1000" "\<not> same_page 0x7FFFFFFF8 0x7FFFF2000"
    "\<not> same_page 0x7FFFFFFF8 0x7FFFF3000" by (simp_all add: same_page_def)
  have "List.find (\<lambda>k. same_page 0x7FFFFFFF8 (load_start out + of_nat k * PAGE_SIZE)) (rev [0..<unat (load_pages out)]) = None"
    using assms by (simp add: find_None_iff)
  with sp show ?thesis by (simp add: program_desc_def four_pages_down)
qed

section \<open>Errors\<close>

lemma table_none: "num = 0 \<or> 15 \<le> num \<Longrightarrow> syscall_table e num = None"
  by (auto simp: syscall_table_def)



end
