(* ===== verification/Vectors.thy ===== *)
theory Vectors
  imports Syscall
begin

text \<open>
  The exception vectors of the phone kernel (\<^verbatim>\<open>src/kernel/arch/arm64/exceptions.S\<close>) around the C handler of the theory Syscall, and
  the entry to user mode.  Each instruction of the assembly text is a function on the state of the CPU; memory is a function from
  addresses to the 8-byte values stored there.  The registers that a call of a C function may change are given new values by the
  parameter \<open>clob\<close>.  The stack pointer is the one of the kernel; the program's own is the field \<open>a_sp0\<close>.
\<close>

record a64_t =
  a_x :: "nat \<Rightarrow> u64"
  a_sp :: u64
  a_sp0 :: u64
  a_spsr :: u64
  a_elr :: u64
  a_esr :: u64
  a_far :: u64
  a_vbar :: u64
  a_ttbr0 :: u64
  a_pc :: u64
  a_pstate :: u64
  a_mem :: "u64 \<Rightarrow> u64"

section \<open>Instructions\<close>

definition stp :: "nat \<Rightarrow> nat \<Rightarrow> u64 \<Rightarrow> a64_t \<Rightarrow> a64_t" where
  "stp r1 r2 off c = c\<lparr>a_mem := (a_mem c)(a_sp c + off := a_x c r1, a_sp c + off + 8 := a_x c r2)\<rparr>"

definition str :: "nat \<Rightarrow> u64 \<Rightarrow> a64_t \<Rightarrow> a64_t" where
  "str r off c = c\<lparr>a_mem := (a_mem c)(a_sp c + off := a_x c r)\<rparr>"

definition ldp :: "nat \<Rightarrow> nat \<Rightarrow> u64 \<Rightarrow> a64_t \<Rightarrow> a64_t" where
  "ldp r1 r2 off c = c\<lparr>a_x := (a_x c)(r1 := a_mem c (a_sp c + off), r2 := a_mem c (a_sp c + off + 8))\<rparr>"

definition ldr :: "nat \<Rightarrow> u64 \<Rightarrow> a64_t \<Rightarrow> a64_t" where
  "ldr r off c = c\<lparr>a_x := (a_x c)(r := a_mem c (a_sp c + off))\<rparr>"

definition mov :: "nat \<Rightarrow> u64 \<Rightarrow> a64_t \<Rightarrow> a64_t" where
  "mov r v c = c\<lparr>a_x := (a_x c)(r := v)\<rparr>"

definition eret :: "a64_t \<Rightarrow> a64_t" where
  "eret c = c\<lparr>a_pc := a_elr c, a_pstate := a_spsr c\<rparr>"

section \<open>The macros\<close>

definition save_context :: "a64_t \<Rightarrow> a64_t" where
  "save_context c =
     (let c = c\<lparr>a_sp := a_sp c - 272\<rparr>;
          c = fold (\<lambda>(r, off). stp r (r + 1) off)
                [(0, 0), (2, 16), (4, 32), (6, 48), (8, 64), (10, 80), (12, 96), (14, 112), (16, 128), (18, 144), (20, 160),
                 (22, 176), (24, 192), (26, 208), (28, 224)] c;
          c = str 30 240 c;
          c = mov 0 (a_spsr c) c; c = mov 1 (a_elr c) c;
          c = stp 0 1 248 c;
          c = mov 0 (a_esr c) c; c = mov 1 (a_far c) c
      in stp 0 1 264 c)"

definition restore_context :: "a64_t \<Rightarrow> a64_t" where
  "restore_context c =
     (let c = ldp 0 1 248 c;
          c = c\<lparr>a_spsr := a_x c 0\<rparr>; c = c\<lparr>a_elr := a_x c 1\<rparr>;
          c = ldp 0 1 264 c;
          c = c\<lparr>a_esr := a_x c 0\<rparr>; c = c\<lparr>a_far := a_x c 1\<rparr>;
          c = ldp 28 29 224 c;
          c = ldr 30 240 c;
          c = fold (\<lambda>(r, off). ldp r (r + 1) off)
                [(26, 208), (24, 192), (22, 176), (20, 160), (18, 144), (16, 128), (14, 112), (12, 96), (10, 80), (8, 64), (6, 48),
                 (4, 32), (2, 16), (0, 0)] c
      in c\<lparr>a_sp := a_sp c + 272\<rparr>)"

section \<open>Entry points\<close>

datatype entry = Sync_el1 | Irq_el1 | Fiq_el1 | Serr_el1 | Sync_el0_64 | Irq_el0_64 | Other_el0

text \<open>The sixteen entries of the table, 128 bytes apart.\<close>

definition exception_vector :: "entry list" where
  "exception_vector =
     [Sync_el1, Irq_el1, Fiq_el1, Serr_el1,
      Sync_el1, Irq_el1, Fiq_el1, Serr_el1,
      Sync_el0_64, Irq_el0_64, Other_el0, Other_el0,
      Other_el0, Other_el0, Other_el0, Other_el0]"

fun entry_code :: "entry \<Rightarrow> a64_t \<Rightarrow> a64_t" where
  "entry_code Sync_el1 c = mov 0 0 (save_context c)"
| "entry_code Irq_el1 c = mov 0 1 (save_context c)"
| "entry_code Fiq_el1 c = mov 0 2 (save_context c)"
| "entry_code Serr_el1 c = mov 0 3 (save_context c)"
| "entry_code Sync_el0_64 c =
     (let c = mov 0 4 (save_context c);
          c = mov 1 (a_esr c) c;
          c = mov 1 (a_x c 1 AND 0xFFFF) c
      in mov 2 (a_sp c) c)"
| "entry_code Irq_el0_64 c = mov 0 5 (save_context c)"
| "entry_code Other_el0 c = mov 0 6 (save_context c)"

text \<open>The structure that the third argument of the handler points to.\<close>

definition ctx_at :: "(u64 \<Rightarrow> u64) \<Rightarrow> u64 \<Rightarrow> exception_context_t" where
  "ctx_at m p = \<lparr>ex_regs = (\<lambda>i. m (p + 8 * of_nat i)), ex_spsr = m (p + 248), ex_elr = m (p + 256), ex_esr = m (p + 264),
     ex_far = m (p + 272)\<rparr>"

text \<open>The call of the C handler, which stores into the first field of the structure only.\<close>

definition call_handler ::
  "sys_env \<Rightarrow> ((nat \<Rightarrow> u64) \<Rightarrow> nat \<Rightarrow> u64) \<Rightarrow> a64_t \<times> syscall_t \<Rightarrow> (a64_t \<times> syscall_t) + sysres" where
  "call_handler e clob = (\<lambda>(c, s).
     let p = a_x c 2
     in case arm64_exception_handler e (ucast (a_x c 0)) (ucast (a_x c 1)) (ctx_at (a_mem c) p) s of
          Inr r \<Rightarrow> Inr r
        | Inl (ctx, s) \<Rightarrow> Inl (c\<lparr>a_mem := (a_mem c)(p := ex_regs ctx 0), a_x := clob (a_x c)\<rparr>, s))"

definition exception_handler_common ::
  "sys_env \<Rightarrow> ((nat \<Rightarrow> u64) \<Rightarrow> nat \<Rightarrow> u64) \<Rightarrow> a64_t \<times> syscall_t \<Rightarrow> (a64_t \<times> syscall_t) + sysres" where
  "exception_handler_common e clob = (\<lambda>(c, s).
     let c = mov 29 (a_x c 2) c;
         c = mov 2 (a_x c 29) c
     in case call_handler e clob (c, s) of
          Inr r \<Rightarrow> Inr r
        | Inl (c, s) \<Rightarrow> Inl (eret (restore_context c), s))"

text \<open>What the CPU does on an exception: it saves the state and continues at an entry of the table.\<close>

definition take_exception ::
  "nat \<Rightarrow> u64 \<Rightarrow> sys_env \<Rightarrow> ((nat \<Rightarrow> u64) \<Rightarrow> nat \<Rightarrow> u64) \<Rightarrow> a64_t \<times> syscall_t \<Rightarrow> (a64_t \<times> syscall_t) + sysres" where
  "take_exception k ret e clob = (\<lambda>(c, s).
     let c = c\<lparr>a_spsr := a_pstate c, a_elr := ret, a_pstate := 0x3C5, a_pc := a_vbar c + 128 * of_nat k\<rparr>
     in exception_handler_common e clob (entry_code (exception_vector ! k) c, s))"

text \<open>The instruction \<^verbatim>\<open>svc #imm\<close> in user mode: the syndrome has class 0x15 and the operand in its low half.\<close>

definition svc :: "16 word \<Rightarrow> sys_env \<Rightarrow> ((nat \<Rightarrow> u64) \<Rightarrow> nat \<Rightarrow> u64) \<Rightarrow> a64_t \<times> syscall_t \<Rightarrow> (a64_t \<times> syscall_t) + sysres" where
  "svc imm e clob = (\<lambda>(c, s). take_exception 8 (a_pc c + 4) e clob (c\<lparr>a_esr := 0x56000000 OR ucast imm\<rparr>, s))"

text \<open>An interrupt in kernel or in user mode.\<close>

definition irq :: "bool \<Rightarrow> sys_env \<Rightarrow> ((nat \<Rightarrow> u64) \<Rightarrow> nat \<Rightarrow> u64) \<Rightarrow> a64_t \<times> syscall_t \<Rightarrow> (a64_t \<times> syscall_t) + sysres" where
  "irq user e clob = (\<lambda>(c, s). take_exception (if user then 9 else 5) (a_pc c) e clob (c, s))"

definition arm64_exception_init :: "u64 \<Rightarrow> a64_t \<Rightarrow> a64_t" where
  "arm64_exception_init vector c = c\<lparr>a_vbar := vector\<rparr>"

definition arm64_enter_el0 :: "a64_t \<Rightarrow> a64_t" where
  "arm64_enter_el0 c =
     (let c = c\<lparr>a_ttbr0 := a_x c 2\<rparr>;
          c = c\<lparr>a_sp0 := a_x c 1\<rparr>;
          c = c\<lparr>a_elr := a_x c 0\<rparr>;
          c = mov 4 0x3C0 c;
          c = c\<lparr>a_spsr := a_x c 4\<rparr>
      in eret c)"

text \<open>\<^verbatim>\<open>proc_enter_userspace\<close> passes its arguments on, and does nothing on the PC.\<close>

definition proc_enter_userspace :: "bool \<Rightarrow> u64 \<Rightarrow> u64 \<Rightarrow> u64 \<Rightarrow> a64_t \<Rightarrow> a64_t" where
  "proc_enter_userspace arm en stack tbl c = (if arm then arm64_enter_el0 (mov 2 tbl (mov 1 stack (mov 0 en c))) else c)"

section \<open>The frame\<close>

text \<open>Memory seen from \<open>p\<close> on in steps of eight bytes.\<close>

definition cell :: "u64 \<Rightarrow> nat \<Rightarrow> u64" where "cell p i = p + 8 * of_nat i"

lemma cell_inj: "i < 64 \<Longrightarrow> j < 64 \<Longrightarrow> cell p i = cell p j \<longleftrightarrow> i = j"
proof -
  assume "i < 64" "j < 64"
  then have u: "unat (8 * of_nat i :: u64) = 8 * i" "unat (8 * of_nat j :: u64) = 8 * j"
    by (simp_all add: unat_word_ariths unat_of_nat)
  have "i = j" if "cell p i = cell p j"
  proof -
    from that have "(8 * of_nat i :: u64) = 8 * of_nat j" unfolding cell_def by (rule add_left_imp_eq)
    then have "8 * i = 8 * j" unfolding u [symmetric] by (rule arg_cong)
    then show ?thesis by simp
  qed
  then show ?thesis by blast
qed

lemma stp_fold:
  fixes c :: a64_t
  assumes "\<forall>r\<in>set rs. Suc r < 64"
  defines "c' \<equiv> fold (\<lambda>r. stp r (Suc r) (8 * of_nat r)) rs c"
  shows "\<exists>m. c' = c\<lparr>a_mem := m\<rparr>
    \<and> (\<forall>i<64. m (cell (a_sp c) i) = (if i \<in> set rs \<union> Suc ` set rs then a_x c i else a_mem c (cell (a_sp c) i)))
    \<and> (\<forall>a. (\<forall>i\<in>set rs \<union> Suc ` set rs. a \<noteq> cell (a_sp c) i) \<longrightarrow> m a = a_mem c a)"
  using assms(1) unfolding c'_def
proof (induction rs arbitrary: c)
  case Nil
  then show ?case by (auto intro: exI [of _ "a_mem c"])
next
  case (Cons r rs)
  let ?c = "stp r (Suc r) (8 * of_nat r) c"
  have e: "a_sp c + 8 * of_nat r = cell (a_sp c) r" "cell (a_sp c) r + 8 = cell (a_sp c) (Suc r)"
    by (simp_all add: cell_def algebra_simps)
  have m: "a_mem ?c = (a_mem c)(cell (a_sp c) r := a_x c r, cell (a_sp c) (Suc r) := a_x c (Suc r))"
    "a_sp ?c = a_sp c" "a_x ?c = a_x c" by (simp_all only: stp_def e) simp_all
  have pr: "\<forall>r\<in>set rs. Suc r < 64" "Suc r < 64" using Cons.prems by simp_all
  from Cons.IH [OF pr(1), of ?c] obtain n where n: "fold (\<lambda>r. stp r (Suc r) (8 * of_nat r)) rs ?c = ?c\<lparr>a_mem := n\<rparr>"
    "\<And>i. i < 64 \<Longrightarrow> n (cell (a_sp c) i) = (if i \<in> set rs \<union> Suc ` set rs then a_x c i else a_mem ?c (cell (a_sp c) i))"
    "\<And>a. \<forall>i\<in>set rs \<union> Suc ` set rs. a \<noteq> cell (a_sp c) i \<Longrightarrow> n a = a_mem ?c a"
    unfolding m(2,3) by blast
  have "n (cell (a_sp c) i) = (if i \<in> set (r # rs) \<union> Suc ` set (r # rs) then a_x c i else a_mem c (cell (a_sp c) i))"
    if "i < 64" for i
    using pr(2) by (simp only: n(2) [OF that] m(1) fun_upd_apply cell_inj [OF that, of r] cell_inj [OF that, of "Suc r"]) auto
  moreover have "n a = a_mem c a" if "\<forall>i\<in>set (r # rs) \<union> Suc ` set (r # rs). a \<noteq> cell (a_sp c) i" for a
    using n(3) [of a] that by (simp add: m(1))
  moreover have "?c\<lparr>a_mem := n\<rparr> = c\<lparr>a_mem := n\<rparr>" by (simp add: stp_def)
  ultimately show ?case unfolding fold_Cons o_apply n(1) by blast
qed

lemma ldp_fold:
  "fold (\<lambda>r. ldp r (Suc r) (8 * of_nat r)) rs c =
     c\<lparr>a_x := (\<lambda>i. if i \<in> set rs \<union> Suc ` set rs then a_mem c (cell (a_sp c) i) else a_x c i)\<rparr>"
proof (induction rs arbitrary: c)
  case (Cons r rs)
  have e: "a_sp c + 8 * of_nat r = cell (a_sp c) r" "cell (a_sp c) r + 8 = cell (a_sp c) (Suc r)"
    by (simp_all add: cell_def algebra_simps)
  show ?case unfolding fold_Cons o_apply Cons.IH by (rule a64_t.equality) (auto simp: ldp_def e)
qed simp

text \<open>The first registers of the pairs.\<close>

definition evens :: "nat \<Rightarrow> nat list" where "evens n = map (\<lambda>k. 2 * k) [0..<n]"

lemma evens_cover: "set (evens n) \<union> Suc ` set (evens n) = {..<2 * n}"
proof -
  have "i \<in> set (evens n) \<union> Suc ` set (evens n)" if "i < 2 * n" for i
  proof (cases "even i")
    case True
    with that have "i = 2 * (i div 2)" "i div 2 < n" by auto
    then show ?thesis by (auto simp: evens_def)
  next
    case False
    with that have "i = Suc (2 * (i div 2))" "i div 2 < n" by auto
    then show ?thesis by (auto simp: evens_def)
  qed
  then show ?thesis by (auto simp: evens_def)
qed

lemma upt_15: "[0..<15] = [0, 1, 2, 3, 4, 5, 6, 7, 8, 9, 10, 11, 12, 13, 14 :: nat]"
  and upt_14: "[0..<14] = [0, 1, 2, 3, 4, 5, 6, 7, 8, 9, 10, 11, 12, 13 :: nat]"
  by (simp_all add: upt_conv_Cons)

lemma save_pairs:
  "fold (\<lambda>(r, off). stp r (r + 1) off)
     [(0, 0), (2, 16), (4, 32), (6, 48), (8, 64), (10, 80), (12, 96), (14, 112), (16, 128), (18, 144), (20, 160),
      (22, 176), (24, 192), (26, 208), (28, 224)] = fold (\<lambda>r. stp r (Suc r) (8 * of_nat r)) (evens 15)"
proof -
  have "[(0, 0), (2, 16), (4, 32), (6, 48), (8, 64), (10, 80), (12, 96), (14, 112), (16, 128), (18, 144), (20, 160),
      (22, 176), (24, 192), (26, 208), (28, 224)] = map (\<lambda>r. (r, 8 * of_nat r :: u64)) (evens 15)"
    by (simp add: evens_def upt_15)
  then show ?thesis by (simp only: fold_map) (simp add: o_def)
qed

lemma restore_pairs:
  "fold (\<lambda>(r, off). ldp r (r + 1) off)
     [(26, 208), (24, 192), (22, 176), (20, 160), (18, 144), (16, 128), (14, 112), (12, 96), (10, 80), (8, 64), (6, 48),
      (4, 32), (2, 16), (0, 0)] = fold (\<lambda>r. ldp r (Suc r) (8 * of_nat r)) (rev (evens 14))"
proof -
  have "[(26, 208), (24, 192), (22, 176), (20, 160), (18, 144), (16, 128), (14, 112), (12, 96), (10, 80), (8, 64), (6, 48),
      (4, 32), (2, 16), (0, 0)] = map (\<lambda>r. (r, 8 * of_nat r :: u64)) (rev (evens 14))"
    by (simp add: evens_def upt_14)
  then show ?thesis by (simp only: fold_map) (simp add: o_def)
qed

text \<open>The registers, the status, the return address, the syndrome and the fault address go to 35 cells from the new stack
  pointer on; the frame has room for 34 of them.\<close>

lemma save_context_frame:
  fixes c :: a64_t
  defines "p \<equiv> a_sp c - 272"
  shows "\<exists>m. save_context c = c\<lparr>a_sp := p, a_mem := m, a_x := (a_x c)(0 := a_esr c, 1 := a_far c)\<rparr>
    \<and> (\<forall>i<31. m (cell p i) = a_x c i) \<and> m (cell p 31) = a_spsr c \<and> m (cell p 32) = a_elr c
    \<and> m (cell p 33) = a_esr c \<and> m (cell p 34) = a_far c \<and> (\<forall>a. (\<forall>i<35. a \<noteq> cell p i) \<longrightarrow> m a = a_mem c a)"
proof -
  let ?c = "c\<lparr>a_sp := p\<rparr>"
  have "\<forall>r\<in>set (evens 15). Suc r < 64" by (simp add: evens_def)
  from stp_fold [OF this, of ?c] obtain m where m: "fold (\<lambda>r. stp r (Suc r) (8 * of_nat r)) (evens 15) ?c = ?c\<lparr>a_mem := m\<rparr>"
    "\<And>i. i < 30 \<Longrightarrow> m (cell p i) = a_x c i" "\<And>a. \<forall>i<30. a \<noteq> cell p i \<Longrightarrow> m a = a_mem c a"
    unfolding evens_cover by auto
  let ?m = "m(cell p 30 := a_x c 30, cell p 31 := a_spsr c, cell p 32 := a_elr c, cell p 33 := a_esr c, cell p 34 := a_far c)"
  have "save_context c = c\<lparr>a_sp := p, a_mem := ?m, a_x := (a_x c)(0 := a_esr c, 1 := a_far c)\<rparr>"
    unfolding save_context_def save_pairs p_def [symmetric] m(1) Let_def
    by (simp add: str_def stp_def mov_def cell_def add.assoc)
  moreover have "?m (cell p i) = a_x c i" if "i < 31" for i
  proof (cases "i = 30")
    case False
    with that m(2) [of i] show ?thesis by (simp only: fun_upd_apply cell_inj) simp
  qed (simp only: fun_upd_apply cell_inj, simp)
  moreover have "?m a = a_mem c a" if "\<forall>i<35. a \<noteq> cell p i" for a
    using m(3) [of a] that [rule_format, of 30] that [rule_format, of 31] that [rule_format, of 32]
      that [rule_format, of 33] that [rule_format, of 34] that by (simp only: fun_upd_apply) simp
  ultimately show ?thesis by (intro exI [of _ ?m] conjI allI impI) (simp_all only: fun_upd_apply cell_inj, simp_all)
qed

lemma restore_context_frame:
  defines "l \<equiv> \<lambda>c i. a_mem c (cell (a_sp c) i)"
  shows "restore_context c = c\<lparr>a_x := (\<lambda>i. if i < 31 then l c i else a_x c i), a_spsr := l c 31, a_elr := l c 32,
    a_esr := l c 33, a_far := l c 34, a_sp := a_sp c + 272\<rparr>"
proof -
  have u: "set (rev (evens 14)) \<union> Suc ` set (rev (evens 14)) = {..<28}" using evens_cover [of 14] by simp
  have i: "i < 31 \<longleftrightarrow> i < 28 \<or> i = 28 \<or> i = 29 \<or> i = 30" for i :: nat by auto
  show ?thesis
    unfolding restore_context_def restore_pairs ldp_fold u Let_def l_def
    by (rule a64_t.equality) (simp_all add: ldp_def ldr_def i fun_eq_iff cell_def add.assoc)
qed

section \<open>System calls from user mode\<close>

lemma svc_number: "ucast ((0x56000000 OR ucast imm) AND 0xFFFF :: u64) AND 0xFFFF = (ucast (imm :: 16 word) :: u32)"
proof -
  have m: "(0xFFFF :: u64) = mask 16" "(0xFFFF :: u32) = mask 16" by (simp_all add: mask_eq_exp_minus_1)
  have z: "(0x56000000 :: u64) AND mask 16 = 0" by (simp add: mask_eq_exp_minus_1)
  have "(0x56000000 OR ucast imm) AND mask 16 = (ucast imm :: u64)"
    unfolding bit.conj_disj_distrib2 z by (intro bit_word_eqI) (auto simp: bit_simps dest: bit_imp_le_length)
  then show ?thesis unfolding m by (simp only:) (intro bit_word_eqI, auto simp: bit_simps dest: bit_imp_le_length)
qed

lemma ctx_regs: "ex_regs (ctx_at m p) i = m (cell p i)" by (simp add: ctx_at_def cell_def)

text \<open>The entry code, the handler and the return, for a call that returns.\<close>

lemma svc_runs:
  assumes dd: "syscall_dispatch e (ucast imm) (map (a_x c) [0, 1, 2, 3, 4, 5]) s = Done r s'"
  shows "\<exists>c'. svc imm e clob (c, s) = Inl (c', s') \<and> a_x c' 0 = r \<and> (\<forall>i. 0 < i \<and> i < 31 \<longrightarrow> a_x c' i = a_x c i)
    \<and> a_pc c' = a_pc c + 4 \<and> a_pstate c' = a_pstate c \<and> a_sp c' = a_sp c \<and> a_sp0 c' = a_sp0 c \<and> a_ttbr0 c' = a_ttbr0 c
    \<and> (\<forall>a. (\<forall>i<35. a \<noteq> cell (a_sp c - 272) i) \<longrightarrow> a_mem c' a = a_mem c a)"
proof -
  define p where "p = a_sp c - 272"
  define d where "d = c\<lparr>a_esr := 0x56000000 OR ucast imm, a_spsr := a_pstate c, a_elr := a_pc c + 4, a_pstate := 0x3C5,
      a_pc := a_vbar c + 128 * of_nat 8\<rparr>"
  have d': "a_sp d - 272 = p" "a_x d = a_x c" "a_spsr d = a_pstate c" "a_elr d = a_pc c + 4" "a_mem d = a_mem c"
    by (simp_all add: d_def p_def)
  from save_context_frame [of d] obtain m where m:
    "save_context d = d\<lparr>a_sp := p, a_mem := m, a_x := (a_x c)(0 := a_esr d, 1 := a_far d)\<rparr>"
    "\<And>i. i < 31 \<Longrightarrow> m (cell p i) = a_x c i" "m (cell p 31) = a_pstate c" "m (cell p 32) = a_pc c + 4"
    "\<And>a. \<forall>i<35. a \<noteq> cell p i \<Longrightarrow> m a = a_mem c a"
    unfolding d' by blast
  have 0: "cell p 0 = p" by (simp add: cell_def)
  have args: "map (ex_regs (ctx_at m p)) [0, 1, 2, 3, 4, 5] = map (a_x c) [0, 1, 2, 3, 4, 5]"
    by (simp add: ctx_regs m(2))
  have "a_esr d = 0x56000000 OR ucast imm" by (simp add: d_def)
  then have h: "arm64_exception_handler e 4 (ucast (a_esr d AND 0xFFFF)) (ctx_at m p) s =
      Inl ((ctx_at m p)\<lparr>ex_regs := (ex_regs (ctx_at m p))(0 := r)\<rparr>, s')"
    by (simp only: arm64_exception_handler_def svc_number args dd) simp
  define n where "n = m(p := r)"
  have n: "n p = r" "\<And>i. 0 < i \<Longrightarrow> i < 35 \<Longrightarrow> n (cell p i) = m (cell p i)"
    using cell_inj [of _ 0 p] by (auto simp: n_def 0)
  have "svc imm e clob (c, s) = exception_handler_common e clob (entry_code Sync_el0_64 d, s)"
    by (simp add: svc_def take_exception_def exception_vector_def d_def Let_def)
  also have "\<exists>x. \<dots> = Inl (eret (restore_context (d\<lparr>a_sp := p, a_mem := n, a_x := x\<rparr>)), s')"
    by (simp add: m(1) mov_def exception_handler_common_def call_handler_def h Let_def n_def) blast
  finally obtain x where run: "svc imm e clob (c, s) = Inl (eret (restore_context (d\<lparr>a_sp := p, a_mem := n, a_x := x\<rparr>)), s')"
    by blast
  have "n a = a_mem c a" if "\<forall>i<35. a \<noteq> cell p i" for a using m(5) [OF that] that [rule_format, of 0] by (simp add: n_def 0)
  moreover define u where "u = eret (restore_context (d\<lparr>a_sp := p, a_mem := n, a_x := x\<rparr>))"
  have "a_x u i = n (cell p i)" if "i < 31" for i using that by (simp add: u_def eret_def restore_context_frame)
  with n m(2) have "a_x u 0 = r" "\<And>i. 0 < i \<Longrightarrow> i < 31 \<Longrightarrow> a_x u i = a_x c i" by (simp_all add: 0)
  moreover have "a_pc u = n (cell p 32)" "a_pstate u = n (cell p 31)" "a_mem u = n" "a_sp u = p + 272" "a_sp0 u = a_sp0 d" "a_ttbr0 u = a_ttbr0 d"
    by (simp_all add: u_def eret_def restore_context_frame)
  ultimately show ?thesis unfolding run u_def [symmetric] p_def [symmetric]
    by (intro exI [of _ u]) (simp add: n m, simp add: d_def p_def)
qed

text \<open>C6: A system call made in user mode with the instruction svc: the kernel serves the call whose number is the operand of the
  instruction, with registers x0 to x5 as its arguments.  If the call returns, the program continues after the instruction with
  the result in x0 and with its other registers, its status, its stack pointer, its page table and the kernel's stack pointer as
  before, and memory outside the 280 bytes below and at the kernel's stack pointer is not written by the entry code.\<close>

theorem svc_returns_to_user:
  assumes "syscall_dispatch e (ucast imm) (map (a_x c) [0, 1, 2, 3, 4, 5]) s = Done r s'"
  shows "\<exists>c'. svc imm e clob (c, s) = Inl (c', s') \<and> a_x c' 0 = r \<and> (\<forall>i. 0 < i \<and> i < 31 \<longrightarrow> a_x c' i = a_x c i)
    \<and> a_pc c' = a_pc c + 4 \<and> a_pstate c' = a_pstate c \<and> a_sp c' = a_sp c \<and> a_sp0 c' = a_sp0 c \<and> a_ttbr0 c' = a_ttbr0 c
    \<and> (\<forall>a. (\<forall>i<35. a \<noteq> cell (a_sp c - 272) i) \<longrightarrow> a_mem c' a = a_mem c a)"
  using assms by (rule svc_runs)

definition demo_a64 :: a64_t where
  "demo_a64 = \<lparr>a_x = (\<lambda>_. 0)(0 := 1, 1 := 0x800, 2 := 1, 8 := 2, 20 := 7), a_sp = 0x41000000, a_sp0 = 0x7FFFFFFF8, a_spsr = 0, a_elr = 0,
     a_esr = 0, a_far = 0, a_vbar = 0x40080800, a_ttbr0 = 0x5000, a_pc = 0x1000, a_pstate = 0x3C0, a_mem = (\<lambda>_. 0)\<rparr>"

definition demo_call :: syscall_t where "demo_call = exec_state (pmm_static (\<lambda>_. 0))"

theorem svc_returns_to_user_witness:
  "\<exists>c'. svc 2 exec_env (\<lambda>x. x) (demo_a64, demo_call) = Inl (c', demo_call\<lparr>sc_out := [0x61]\<rparr>) \<and> a_x c' 0 = 1 \<and> a_x c' 20 = 7
    \<and> a_pc c' = 0x1004"
proof -
  have "syscall_dispatch exec_env (ucast (2 :: 16 word)) (map (a_x demo_a64) [0, 1, 2, 3, 4, 5]) demo_call
      = Done 1 (demo_call\<lparr>sc_out := [0x61]\<rparr>)"
    by (simp add: syscall_dispatch_def syscall_table_def sys_write_def demo_a64_def demo_call_def exec_state_def mem_bytes_def exec_mem_def
        syscall_set_initramfs_def)
  from svc_returns_to_user [OF this, of "\<lambda>x. x"] show ?thesis by (auto simp: demo_a64_def)
qed

section \<open>Three properties of the entry code\<close>

text \<open>The frame is eight bytes too short: every exception writes the fault address over the word at the interrupted stack pointer.
  An interrupt taken in kernel mode therefore changes a word of the stack of the code it interrupts.\<close>

lemma save_context_overruns:
  shows "a_mem (save_context c) (a_sp c) = a_far c"
proof -
  have "cell (a_sp c - 272) 34 = a_sp c" by (simp add: cell_def)
  with save_context_frame [of c] show ?thesis by auto
qed

lemma irq_changes_stack:
  "\<exists>c' s'. irq False e clob (c, s) = Inl (c', s') \<and> a_sp c' = a_sp c \<and> a_mem c' (a_sp c) = a_far c"
proof -
  define d where "d = c\<lparr>a_spsr := a_pstate c, a_elr := a_pc c, a_pstate := 0x3C5, a_pc := a_vbar c + 128 * of_nat 5\<rparr>"
  have d': "a_sp d = a_sp c" "a_x d = a_x c" "a_far d = a_far c" by (simp_all add: d_def)
  from save_context_frame [of d] obtain m where
    m: "save_context d = d\<lparr>a_sp := a_sp c - 272, a_mem := m, a_x := (a_x c)(0 := a_esr d, 1 := a_far c)\<rparr>" unfolding d' by blast
  have "m (a_sp c) = a_far c" using save_context_overruns [of d] unfolding m d' by simp
  moreover have "irq False e clob (c, s) = exception_handler_common e clob (entry_code Irq_el1 d, s)"
    by (simp add: irq_def take_exception_def exception_vector_def d_def Let_def)
  ultimately show ?thesis
    by (simp add: m mov_def exception_handler_common_def call_handler_def arm64_exception_handler_def Let_def ctx_at_def
        restore_context_frame eret_def)
qed

text \<open>Only the entry for system calls passes the address of the saved registers: the others pass what register x2 held.\<close>

lemma context_argument:
  "a_x (entry_code v c) 2 = (if v = Sync_el0_64 then a_sp c - 272 else a_x c 2)"
proof -
  from save_context_frame [of c] obtain m where
    "save_context c = c\<lparr>a_sp := a_sp c - 272, a_mem := m, a_x := (a_x c)(0 := a_esr c, 1 := a_far c)\<rparr>" by auto
  then show ?thesis by (cases v) (simp_all add: mov_def Let_def)
qed

text \<open>A program is entered at its entry point with its stack and its table, and with all four interrupt masks set: bits 6 to 9 of
  the status.  No interrupt reaches it.\<close>

lemma user_entry:
  fixes c :: a64_t and en stack tbl :: u64
  defines "c' \<equiv> proc_enter_userspace True en stack tbl c"
  shows "a_pc c' = en \<and> a_sp0 c' = stack \<and> a_ttbr0 c' = tbl \<and> (\<forall>i\<in>{6, 7, 8, 9}. bit (a_pstate c') i) \<and> take_bit 5 (a_pstate c') = 0"
  by (simp add: c'_def proc_enter_userspace_def arm64_enter_el0_def mov_def eret_def Let_def bit_numeral_rec)

end
