(* ===== verification/Boot.thy ===== *)
theory Boot
  imports Vectors
begin

text \<open>
  The start-up code of both builds (\<^verbatim>\<open>src/kernel/arch/arm64/boot.S\<close> and \<^verbatim>\<open>src/kernel/arch/x86_64/boot.S\<close>) up to the call of \<^verbatim>\<open>kmain\<close>.
  The addresses of the linker's symbols are the fields of a record.  Memory is a function from addresses to the 8-byte values
  stored there.
\<close>

section \<open>The phone\<close>

record a64_boot_t = a64_t +
  b_CurrentEL :: u64
  b_hcr :: u64
  b_cpacr :: u64

record a64_syms =
  sbss :: u64
  ebss :: u64
  cpu0_stack_top :: u64
  cpu_stacks :: u64
  label_1 :: u64

text \<open>From the second exception level down to the first one: bits 2 and 3 of \<^verbatim>\<open>CurrentEL\<close> hold the level.\<close>

definition drop_el :: "a64_syms \<Rightarrow> a64_boot_t \<Rightarrow> a64_boot_t" where
  "drop_el l c =
     (let c = c\<lparr>a_x := (a_x c)(0 := drop_bit 2 (b_CurrentEL c))\<rparr>
      in if a_x c 0 \<noteq> 2 then c
         else c\<lparr>a_x := (a_x c)(0 := label_1 l), b_hcr := push_bit 31 1, a_pstate := 0x3C5, a_pc := label_1 l, b_CurrentEL := 4\<rparr>)"

text \<open>The loop at label 2, with its signed comparison.\<close>

partial_function (option) clear_bss :: "u64 \<Rightarrow> u64 \<Rightarrow> (u64 \<Rightarrow> u64) \<Rightarrow> (u64 \<times> (u64 \<Rightarrow> u64)) option" where
  "clear_bss x0 x1 m = (if sint x1 \<le> sint x0 then Some (x0, m) else clear_bss (x0 + 8) x1 (m(x0 := 0)))"

text \<open>\<^verbatim>\<open>_start\<close>: the state in which \<^verbatim>\<open>kmain\<close> is called.  The call of \<^verbatim>\<open>arm64_paging_init\<close> may change the registers x0 to x18 and x30.\<close>

definition arm_start ::
  "a64_syms \<Rightarrow> ((nat \<Rightarrow> u64) \<Rightarrow> nat \<Rightarrow> u64) \<Rightarrow> a64_boot_t \<times> arm64_t \<Rightarrow> (a64_boot_t \<times> arm64_t) option" where
  "arm_start l clob = (\<lambda>(c, a).
     let c = drop_el l c;
         c = c\<lparr>a_sp := cpu0_stack_top l\<rparr>
     in case clear_bss (sbss l) (ebss l) (a_mem c) of
          None \<Rightarrow> None
        | Some (x0, m) \<Rightarrow>
            let c = c\<lparr>a_mem := m, a_x := (a_x c)(0 := x0, 1 := ebss l)\<rparr>;
                c = c\<lparr>a_x := (a_x c)(19 := a_x c 0)\<rparr>;
                c = c\<lparr>b_cpacr := b_cpacr c OR push_bit 20 3\<rparr>;
                a = arm64_paging_init a;
                c = c\<lparr>a_x := (\<lambda>i. if i \<le> 18 \<or> i = 30 then clob (a_x c) i else a_x c i)\<rparr>;
                c = c\<lparr>a_x := (a_x c)(0 := a_x c 19)\<rparr>
            in Some (c, a))"

text \<open>\<^verbatim>\<open>_secondary_entry\<close>: the stack of a secondary CPU, found by its number.\<close>

definition secondary_entry :: "a64_syms \<Rightarrow> u64 \<Rightarrow> a64_boot_t \<Rightarrow> a64_boot_t" where
  "secondary_entry l mpidr c =
     (let x0 = mpidr AND 0xFF;
          c = c\<lparr>a_sp := a_mem c (cpu_stacks l + push_bit 3 x0)\<rparr>
      in c\<lparr>a_pstate := a_pstate c AND NOT (push_bit 6 0xF)\<rparr>)"

section \<open>The PC\<close>

record x86_boot_t =
  q_rax :: u64
  q_rbx :: u64
  q_rcx :: u64
  q_rdx :: u64
  q_rdi :: u64
  q_rsi :: u64
  q_rsp :: u64
  q_cr0 :: u64
  q_cr3 :: u64
  q_cr4 :: u64
  q_efer :: u64
  q_mem :: "u64 \<Rightarrow> u64"

text \<open>Physical addresses of the symbols, and the instruction after the one that switches paging on.\<close>

record x86_syms =
  s_pml4 :: u64
  s_sbss :: u64
  s_ebss :: u64
  s_stack_top :: u64
  s_cpu_stacks :: u64
  s_next :: u64

datatype x86_outcome = Halted | Triple_fault | Entry64 x86_boot_t

definition low32 :: "u64 \<Rightarrow> u64" where "low32 v = take_bit 32 v"

definition cpuid_instr :: "(u32 \<Rightarrow> u32 \<times> u32 \<times> u32 \<times> u32) \<Rightarrow> x86_boot_t \<Rightarrow> x86_boot_t" where
  "cpuid_instr cpuid q = (case cpuid (ucast (q_rax q)) of (a, b, c, d) \<Rightarrow>
     q\<lparr>q_rax := ucast a, q_rbx := ucast b, q_rcx := ucast c, q_rdx := ucast d\<rparr>)"

text \<open>What the CPU does for the first access after paging is on: without a present entry in the top table it faults, and as no
  interrupt table is loaded it shuts down.\<close>

definition fetch_present :: "x86_boot_t \<Rightarrow> u64 \<Rightarrow> bool" where
  "fetch_present q v = bit (q_mem q ((q_cr3 q AND NOT 0xFFF) + 8 * (drop_bit 39 v AND 0x1FF))) 0"

text \<open>The 32-bit part of \<^verbatim>\<open>_start\<close>.\<close>

definition x86_start :: "(u32 \<Rightarrow> u32 \<times> u32 \<times> u32 \<times> u32) \<Rightarrow> x86_syms \<Rightarrow> x86_boot_t \<Rightarrow> x86_outcome" where
  "x86_start cpuid l q =
     (let q = q\<lparr>q_rdi := low32 (q_rax q)\<rparr>;
          q = q\<lparr>q_rsi := low32 (q_rbx q)\<rparr>;
          q = cpuid_instr cpuid (q\<lparr>q_rax := 0x80000000\<rparr>)
      in if q_rax q < 0x80000001 then Halted
         else
           let q = cpuid_instr cpuid (q\<lparr>q_rax := 0x80000001\<rparr>)
           in if \<not> bit (q_rdx q) 29 then Halted
              else
                let q = q\<lparr>q_cr4 := q_cr4 q OR (push_bit 5 1 OR push_bit 4 1)\<rparr>;
                    q = q\<lparr>q_rax := s_pml4 l, q_cr3 := s_pml4 l\<rparr>;
                    q = q\<lparr>q_rcx := 0xC0000080\<rparr>;
                    q = q\<lparr>q_rax := low32 (q_efer q), q_rdx := drop_bit 32 (q_efer q)\<rparr>;
                    q = q\<lparr>q_rax := q_rax q OR push_bit 8 1\<rparr>;
                    q = q\<lparr>q_efer := q_rax q OR push_bit 32 (q_rdx q)\<rparr>;
                    q = q\<lparr>q_rax := low32 (q_cr0 q) OR (push_bit 31 1 OR 1)\<rparr>;
                    q = q\<lparr>q_cr0 := q_rax q\<rparr>
                in if fetch_present q (s_next l) then Entry64 q else Triple_fault)"

text \<open>\<^verbatim>\<open>rep stosq\<close> stores rax in rcx consecutive quadwords from rdi on.\<close>

definition rep_stosq :: "x86_boot_t \<Rightarrow> x86_boot_t" where
  "rep_stosq q = q\<lparr>q_mem := (\<lambda>a. if (a - q_rdi q) mod 8 = 0 \<and> (a - q_rdi q) div 8 < q_rcx q then q_rax q else q_mem q a),
     q_rdi := q_rdi q + 8 * q_rcx q, q_rcx := 0\<rparr>"

text \<open>The 64-bit part: the state in which \<^verbatim>\<open>kmain\<close> is called, with its arguments in edi and esi.\<close>

definition entry64 :: "x86_syms \<Rightarrow> x86_boot_t \<Rightarrow> x86_boot_t" where
  "entry64 l q =
     (let q = q\<lparr>q_rax := s_sbss l\<rparr>;
          q = q\<lparr>q_rdi := s_ebss l\<rparr>;
          q = q\<lparr>q_rdi := q_rdi q - q_rax q\<rparr>;
          q = q\<lparr>q_rax := 0\<rparr>;
          q = q\<lparr>q_rcx := drop_bit 3 (q_rcx q)\<rparr>;
          q = rep_stosq q;
          q = q\<lparr>q_rsp := s_stack_top l\<rparr>
      in q\<lparr>q_rdi := low32 (q_rdi q), q_rsi := low32 (q_rsi q)\<rparr>)"

text \<open>The trampoline of the other CPUs, from the load of the page table to the call of \<^verbatim>\<open>ap_entry\<close>.\<close>

definition ap_start :: "(u32 \<Rightarrow> u32 \<times> u32 \<times> u32 \<times> u32) \<Rightarrow> x86_syms \<Rightarrow> x86_boot_t \<Rightarrow> x86_outcome" where
  "ap_start cpuid l q =
     (let q = q\<lparr>q_cr0 := q_cr0 q OR 1\<rparr>;
          q = q\<lparr>q_cr4 := q_cr4 q OR push_bit 5 1\<rparr>;
          q = q\<lparr>q_rax := low32 (q_mem q (s_pml4 l))\<rparr>;
          q = q\<lparr>q_cr3 := q_rax q\<rparr>;
          q = q\<lparr>q_rcx := 0xC0000080\<rparr>;
          q = q\<lparr>q_efer := q_efer q OR push_bit 8 1\<rparr>;
          q = q\<lparr>q_cr0 := q_cr0 q OR (push_bit 31 1 OR 1)\<rparr>
      in if \<not> fetch_present q (s_next l) then Triple_fault
         else
           let q = cpuid_instr cpuid (q\<lparr>q_rax := 1\<rparr>);
               q = q\<lparr>q_rbx := drop_bit 24 (q_rbx q)\<rparr>;
               q = q\<lparr>q_rdi := q_rbx q, q_rsi := s_cpu_stacks l\<rparr>
           in Entry64 (q\<lparr>q_rsp := q_mem q (q_rsi q + 8 * q_rdi q)\<rparr>))"

section \<open>The phone reaches its kernel\<close>

lemma sint_below_half:
  assumes "unat (w :: u64) < 2 ^ 63"
  shows "sint w = int (unat w)"
proof -
  have u: "uint w = int (unat w)" by simp
  have "uint w < 2 ^ 63" unfolding u using assms by (metis of_nat_less_iff of_nat_numeral of_nat_power)
  then have "signed_take_bit 63 (uint w) = uint w"
    by (intro signed_take_bit_int_eq_self) (simp_all add: order_trans [OF _ uint_ge_0])
  then show ?thesis unfolding u [symmetric] by (simp add: sint_uint)
qed

text \<open>The loop ends for every section below \<open>2\<^sup>63\<close> with a length that is a multiple of eight, and clears it.\<close>

lemma clear_bss_ok:
  assumes "unat hi = unat lo + 8 * n" "unat hi < 2 ^ 63"
  shows "clear_bss lo hi m = Some (hi, \<lambda>a. if \<exists>i<n. a = lo + 8 * of_nat i then 0 else m a)"
  using assms
proof (induction n arbitrary: lo m)
  case 0
  then have "hi = lo" by (simp add: word_unat_eq_iff)
  then show ?case by (subst clear_bss.simps) simp
next
  case (Suc n)
  have u: "unat (lo + 8) = unat lo + 8" using Suc.prems by (subst unat_plus_if') simp
  have s: "\<not> sint hi \<le> sint lo" using Suc.prems sint_below_half [of hi] sint_below_half [of lo] by simp
  have e: "(\<exists>i<Suc n. a = lo + 8 * of_nat i) \<longleftrightarrow> a = lo \<or> (\<exists>i<n. a = lo + 8 + 8 * of_nat i)" for a
    by (simp add: Ex_less_Suc2 algebra_simps)
  have "clear_bss (lo + 8) hi (m(lo := 0)) = Some (hi, \<lambda>a. if \<exists>i<n. a = lo + 8 + 8 * of_nat i then 0 else (m(lo := 0)) a)"
    using Suc.prems u by (intro Suc.IH) simp_all
  moreover have "(\<lambda>a. if \<exists>i<n. a = lo + 8 + 8 * of_nat i then 0 else (m(lo := 0)) a) =
      (\<lambda>a. if \<exists>i<Suc n. a = lo + 8 * of_nat i then 0 else m a)"
    unfolding e by (auto simp: fun_eq_iff)
  ultimately show ?case using s by (subst clear_bss.simps) simp
qed


definition demo_syms :: a64_syms where
  "demo_syms = \<lparr>sbss = 0x40090000, ebss = 0x40090010, cpu0_stack_top = 0x40098000, cpu_stacks = 0x40090008, label_1 = 0x40080030\<rparr>"

definition demo_boot :: a64_boot_t where
  "demo_boot = \<lparr>a_x = (\<lambda>_. 0)(0 := 0x48000000), a_sp = 0, a_sp0 = 0, a_spsr = 0, a_elr = 0, a_esr = 0, a_far = 0, a_vbar = 0, a_ttbr0 = 0,
     a_pc = 0x40080000, a_pstate = 0x3C9, a_mem = (\<lambda>_. 5), b_CurrentEL = 8, b_hcr = 0, b_cpacr = 0\<rparr>"


text \<open>The table of stacks lies in the cleared section and nothing fills it: the stack pointer of every secondary CPU is 0.\<close>

lemma secondary_has_no_stack:
  assumes "a_mem c (cpu_stacks l + push_bit 3 (mpidr AND 0xFF)) = 0"
  shows "a_sp (secondary_entry l mpidr c) = 0"
  using assms by (simp add: secondary_entry_def Let_def)

section \<open>The PC does not\<close>

lemma cpuid_instr_keeps [simp]: "q_mem (cpuid_instr cpuid q) = q_mem q" "q_cr3 (cpuid_instr cpuid q) = q_cr3 q"
  by (simp_all add: cpuid_instr_def split: prod.splits)

text \<open>The top page table is a zero-filled section: when its entries are not present, switching paging on ends the start.\<close>

lemma x86_start_fails:
  assumes "\<forall>i<512. \<not> bit (q_mem q ((s_pml4 l AND NOT 0xFFF) + 8 * of_nat i)) 0"
  shows "x86_start cpuid l q = Halted \<or> x86_start cpuid l q = Triple_fault"
proof -
  have "drop_bit 39 (s_next l) AND 0x1FF = (of_nat (unat (drop_bit 39 (s_next l) AND 0x1FF)) :: u64)" by simp
  moreover have "unat (drop_bit 39 (s_next l) AND 0x1FF) < 512"
    using pt_index_less [of 39 "s_next l"] by (simp add: pt_index_def)
  ultimately have "\<not> bit (q_mem q ((s_pml4 l AND NOT 0xFFF) + 8 * (drop_bit 39 (s_next l) AND 0x1FF))) 0"
    using assms by metis
  then show ?thesis by (simp add: x86_start_def fetch_present_def Let_def)
qed

text \<open>The code that should clear the section clears other memory: it starts at the length of the section instead of its address and
  takes the count from rcx, which still holds the number of the register read before.  With a section of 0x4800 bytes, as the file
  reserves, the three gigabytes from 0x4800 on are overwritten, the kernel at 1 MB included.\<close>

lemma clears_other_memory:
  assumes "q_rcx q = 0xC0000080" "s_ebss l - s_sbss l = 0x4800" "a mod 8 = 0" "0x4800 \<le> a" "a < 0xC0000000"
  shows "q_mem (entry64 l q) a = 0"
proof -
  have "unat (a - 0x4800) = unat a - 0x4800" using assms(4) by (simp add: unat_sub)
  moreover have "unat a mod 8 = 0" using arg_cong [OF assms(3), of unat] by (simp add: unat_mod)
  ultimately have "(a - 0x4800) mod 8 = 0" using assms(4)
    by (simp add: word_unat_eq_iff unat_mod word_le_nat_alt) presburger
  moreover have "(a - 0x4800) div 8 < 0x18000010"
    using assms(4,5) by (simp add: word_less_nat_alt word_le_nat_alt unat_div unat_sub)
  ultimately show ?thesis using assms(1,2) by (simp add: entry64_def rep_stosq_def Let_def)
qed

text \<open>The first argument of \<^verbatim>\<open>kmain\<close> is then not the boot loader's magic number but what the string store left.\<close>

lemma magic_lost:
  "q_rdi (entry64 l q) = low32 (s_ebss l - s_sbss l + 8 * drop_bit 3 (q_rcx q))"
  by (simp add: entry64_def rep_stosq_def Let_def)

text \<open>The trampoline loads the first entry of the top table, and not its address, as the root of the tables.\<close>

lemma ap_loads_entry:
  assumes "ap_start cpuid l q = Entry64 q'"
  shows "q_cr3 q' = low32 (q_mem q (s_pml4 l))"
  using assms by (auto simp: ap_start_def Let_def split: if_splits)

end
