(* ===== verification/Packed.thy ===== *)
theory Packed
  imports Prelude "HOL-Library.Multiset"
begin

text \<open>
  Tables that are kept packed at the front of an array: entries are appended at
  \<open>tab[count++]\<close>, found by scanning for a key, and removed by moving the last entry into
  the hole. The IPC channels and the capability tokens are such tables. The locale
  \<open>keyed_store\<close> is their interface: seen through \<open>find\<close>, a store with distinct keys is a
  finite map.
\<close>

section \<open>Packed arrays\<close>

definition packed :: "(nat \<Rightarrow> 'e) \<Rightarrow> nat \<Rightarrow> 'e list" where
  "packed tab n = map tab [0..<n]"

lemma length_packed [simp]: "length (packed tab n) = n"
  by (simp add: packed_def)

lemma nth_packed [simp]: "i < n \<Longrightarrow> packed tab n ! i = tab i"
  by (simp add: packed_def)

lemma set_packed: "set (packed tab n) = tab ` {..<n}"
  by (auto simp: packed_def)

lemma packed_append [simp]: "packed (tab(n := e)) (Suc n) = packed tab n @ [e]"
  by (simp add: packed_def)

lemma packed_update: "i < n \<Longrightarrow> packed (tab(i := e)) n = (packed tab n)[i := e]"
  by (rule nth_equalityI) (auto simp: nth_list_update)

lemma packed_cong: "(\<And>i. i < n \<Longrightarrow> tab i = tab' i) \<Longrightarrow> packed tab n = packed tab' n"
  by (simp add: packed_def)

lemma find_packed:
  "List.find P (packed tab n) = map_option tab (first_idx (\<lambda>i. P (tab i)) n)"
proof (cases "first_idx (\<lambda>i. P (tab i)) n")
  case None
  then have "List.find P (packed tab n) = None" by (auto simp: find_None_iff set_packed first_idx_None_iff)
  with None show ?thesis by simp
next
  case (Some i)
  then have "i < n" "P (tab i)" "\<forall>j<i. \<not> P (tab j)" by (auto simp: first_idx_Some_iff)
  then have "List.find P (packed tab n) = Some (tab i)"
    by (subst find_Some_iff) (auto intro!: exI [of _ i])
  with Some show ?thesis by simp
qed

text \<open>Removal by moving the last entry into slot \<open>i\<close> loses exactly the entry that was there.\<close>

lemma packed_remove:
  assumes "i < n"
  shows "mset (packed (tab(i := tab (n - 1))) (n - 1)) = mset (packed tab n) - {#tab i#}"
proof -
  obtain m where n: "n = Suc m" using assms by (cases n) auto
  have all: "mset (packed tab n) = add_mset (tab m) (mset (packed tab m))" by (simp add: n packed_def)
  show ?thesis
  proof (cases "i = m")
    case True
    then have "packed (tab(i := tab (n - 1))) (n - 1) = packed tab m" by (auto simp: n intro: packed_cong)
    with True all show ?thesis by (simp add: n)
  next
    case False
    with assms n have i: "i < m" by simp
    then have "packed (tab(i := tab m)) m = (packed tab m)[i := tab m]" by (rule packed_update)
    then have e: "mset (packed (tab(i := tab m)) m) = add_mset (tab m) (mset (packed tab m) - {#tab i#})"
      using i by (simp add: mset_update)
    have "tab i \<in># mset (packed tab m)" using i by (simp add: set_packed)
    then obtain M where M: "mset (packed tab m) = add_mset (tab i) M" by (blast dest: multi_member_split)
    have "mset (packed tab n) = add_mset (tab i) (add_mset (tab m) M)" using all M by (simp add: add_mset_commute)
    moreover have "mset (packed (tab(i := tab m)) m) = add_mset (tab m) M" using e M by simp
    ultimately show ?thesis by (simp add: n)
  qed
qed

section \<open>Stores of keyed entries\<close>

locale keyed_store =
  fixes elems :: "'s \<Rightarrow> 'e list" and key :: "'e \<Rightarrow> u32" and limit :: nat
    and find :: "u32 \<Rightarrow> 's \<Rightarrow> 'e option" and add :: "'e \<Rightarrow> 's \<Rightarrow> 's option" and remove :: "u32 \<Rightarrow> 's \<Rightarrow> 's option"
  assumes find: "find k s = List.find (\<lambda>e. key e = k) (elems s)"
    and add_full: "limit \<le> length (elems s) \<Longrightarrow> add e s = None"
    and add_room: "length (elems s) < limit \<Longrightarrow> \<exists>s'. add e s = Some s' \<and> elems s' = elems s @ [e]"
    and remove_absent: "find k s = None \<Longrightarrow> remove k s = None"
    and remove_found: "find k s = Some e \<Longrightarrow> \<exists>s'. remove k s = Some s' \<and> mset (elems s') = mset (elems s) - {#e#}"
begin

definition keys_ok :: "'s \<Rightarrow> bool" where
  "keys_ok s \<longleftrightarrow> distinct (map key (elems s))"

lemma find_SomeD: "find k s = Some e \<Longrightarrow> e \<in> set (elems s) \<and> key e = k"
  unfolding find by (auto simp: find_Some_iff)

lemma find_None: "find k s = None \<longleftrightarrow> k \<notin> key ` set (elems s)"
  unfolding find by (auto simp: find_None_iff)

lemma find_iff: "keys_ok s \<Longrightarrow> find k s = Some e \<longleftrightarrow> e \<in> set (elems s) \<and> key e = k"
proof
  assume "keys_ok s" and e: "e \<in> set (elems s) \<and> key e = k"
  then have inj: "inj_on key (set (elems s))" by (simp add: keys_ok_def distinct_map)
  obtain e' where e': "find k s = Some e'" using e find_None [of k s] by (cases "find k s") auto
  with find_SomeD [OF e'] e inj have "e' = e" by (auto dest: inj_onD)
  with e' show "find k s = Some e" by simp
qed (use find_SomeD in blast)

lemma add_SomeD: "add e s = Some s' \<Longrightarrow> length (elems s) < limit \<and> elems s' = elems s @ [e]"
proof -
  assume a: "add e s = Some s'"
  then have "length (elems s) < limit" using add_full [of s e] by (cases "limit \<le> length (elems s)") auto
  with add_room [of s e] a show ?thesis by auto
qed

lemma add_keys: "add e s = Some s' \<Longrightarrow> keys_ok s \<Longrightarrow> find (key e) s = None \<Longrightarrow> keys_ok s'"
  by (auto simp: keys_ok_def find_None dest: add_SomeD)

lemma find_add:
  assumes "add e s = Some s'" "keys_ok s" "find (key e) s = None"
  shows "find k s' = (if k = key e then Some e else find k s)"
proof -
  have k: "keys_ok s'" by (rule add_keys [OF assms])
  have el: "elems s' = elems s @ [e]" using assms(1) by (simp add: add_SomeD)
  show ?thesis
  proof (cases "k = key e")
    case True
    then show ?thesis using find_iff [OF k, of k e] el by simp
  next
    case False
    then have "find k s' = Some x \<longleftrightarrow> find k s = Some x" for x
      using find_iff [OF k] find_iff [OF assms(2)] el by auto
    then have "find k s' = find k s" by (metis option.exhaust)
    with False show ?thesis by simp
  qed
qed

lemma remove_SomeD:
  assumes "remove k s = Some s'"
  shows "\<exists>e. find k s = Some e \<and> mset (elems s') = mset (elems s) - {#e#}"
proof (cases "find k s")
  case None
  with remove_absent assms show ?thesis by simp
next
  case (Some e)
  with remove_found [OF Some] assms show ?thesis by auto
qed

lemma remove_elems:
  assumes "remove k s = Some s'" "keys_ok s"
  shows "\<exists>e. find k s = Some e \<and> keys_ok s' \<and> set (elems s') = set (elems s) - {e}"
proof -
  from remove_SomeD [OF assms(1)] obtain e where e: "find k s = Some e" "mset (elems s') = mset (remove1 e (elems s))"
    by auto
  have d: "distinct (elems s)" "inj_on key (set (elems s))" using assms(2) by (simp_all add: keys_ok_def distinct_map)
  have "distinct (map key (remove1 e (elems s)))"
    using d by (auto simp: distinct_map set_remove1_eq intro: inj_on_subset)
  moreover have "mset (map key (elems s')) = mset (map key (remove1 e (elems s)))" by (simp add: e(2))
  ultimately have "keys_ok s'" unfolding keys_ok_def by (metis mset_eq_imp_distinct_iff)
  moreover have "set (elems s') = set (elems s) - {e}" using mset_eq_setD [OF e(2)] d(1) by (simp add: set_remove1_eq)
  ultimately show ?thesis using e(1) by blast
qed

lemma remove_keys: "remove k s = Some s' \<Longrightarrow> keys_ok s \<Longrightarrow> keys_ok s'"
  using remove_elems by blast

lemma find_remove:
  assumes r: "remove k s = Some s'" and k: "keys_ok s"
  shows "find k' s' = (if k' = k then None else find k' s)"
proof -
  from remove_elems [OF r k] obtain e where e: "find k s = Some e" and el: "set (elems s') = set (elems s) - {e}" by blast
  have ke: "e \<in> set (elems s)" "key e = k" using find_SomeD [OF e] by auto
  have inj: "inj_on key (set (elems s))" using k by (simp add: keys_ok_def distinct_map)
  note k' = remove_keys [OF r k]
  show ?thesis
  proof (cases "k' = k")
    case True
    then show ?thesis using el ke inj by (auto simp: find_None dest: inj_onD)
  next
    case False
    then have "find k' s' = Some x \<longleftrightarrow> find k' s = Some x" for x
      using find_iff [OF k'] find_iff [OF k] el ke by auto
    then have "find k' s' = find k' s" by (metis option.exhaust)
    with False show ?thesis by simp
  qed
qed

end

end
