(* ===== verification/Capd.thy ===== *)
theory Capd
  imports Packed
begin

text \<open>
  The capability daemon \<^verbatim>\<open>userspace/security/capability_daemon.c\<close> with the protocol of
  \<^verbatim>\<open>capability_protocol.h\<close>, and the client library \<^verbatim>\<open>capability_client.c\<close>. The monotonic
  clock is the argument \<open>now\<close> (nanoseconds). The texts of error messages are represented
  by their format and its argument. A message handler that would dereference \<^verbatim>\<open>NULL\<close> has the
  result \<open>None\<close>.
\<close>

section \<open>Protocol\<close>

abbreviation OMNIOS_CAP_TOKEN_MAX :: nat where "OMNIOS_CAP_TOKEN_MAX \<equiv> 64"
abbreviation OMNIOS_CAP_LABEL_LEN :: nat where "OMNIOS_CAP_LABEL_LEN \<equiv> 64"
abbreviation MAX_POLICY :: nat where "MAX_POLICY \<equiv> 128"

abbreviation EPERM :: int where "EPERM \<equiv> 1"
abbreviation ENOENT :: int where "ENOENT \<equiv> 2"
abbreviation EACCES :: int where "EACCES \<equiv> 13"
abbreviation ENOSPC :: int where "ENOSPC \<equiv> 28"
abbreviation ETIME :: int where "ETIME \<equiv> 62"
abbreviation ECONNRESET :: int where "ECONNRESET \<equiv> 104"

abbreviation MEMORY_READ :: u64 where "MEMORY_READ \<equiv> 0x1"
abbreviation MEMORY_WRITE :: u64 where "MEMORY_WRITE \<equiv> 0x2"
abbreviation MEMORY_EXEC :: u64 where "MEMORY_EXEC \<equiv> 0x4"
abbreviation IPC_SEND :: u64 where "IPC_SEND \<equiv> 0x8"
abbreviation IPC_RECV :: u64 where "IPC_RECV \<equiv> 0x10"
abbreviation FILE_READ :: u64 where "FILE_READ \<equiv> 0x20"
abbreviation FILE_WRITE :: u64 where "FILE_WRITE \<equiv> 0x40"
abbreviation NET_CONNECT :: u64 where "NET_CONNECT \<equiv> 0x80"
abbreviation NET_BIND :: u64 where "NET_BIND \<equiv> 0x100"
abbreviation DISPLAY_ACCESS :: u64 where "DISPLAY_ACCESS \<equiv> 0x200"
abbreviation INPUT_ACCESS :: u64 where "INPUT_ACCESS \<equiv> 0x400"
abbreviation AUDIO_PLAYBACK :: u64 where "AUDIO_PLAYBACK \<equiv> 0x800"
abbreviation SENSOR_ACCESS :: u64 where "SENSOR_ACCESS \<equiv> 0x2000"
abbreviation NOTIFICATION :: u64 where "NOTIFICATION \<equiv> 0x4000"
abbreviation ADMIN :: u64 where "ADMIN \<equiv> 0x8000000000000000"

record omnios_cap_token_t =
  tok_id :: u32
  tok_rights :: u64
  tok_start :: u64
  tok_end :: u64
  tok_expiry :: u64
  tok_owner :: int
  tok_label :: string

datatype cap_msg_type =
    MSG_INVALID | MSG_REQUEST | MSG_GRANT | MSG_DENY | MSG_REVOKE | MSG_FORWARD | MSG_VERIFY | MSG_LIST
  | MSG_OTHER u32

text \<open>The texts that \<^verbatim>\<open>snprintf\<close> puts into the \<^verbatim>\<open>error\<close> field.\<close>

datatype cap_error =
    NoError | UnknownPid int | GrantFailed int | RevokeFailed int | VerifyFailed int | UnknownMsgType cap_msg_type

record omnios_cap_msg_t =
  m_type :: cap_msg_type
  m_seq :: u32
  m_sender :: int
  m_token :: omnios_cap_token_t
  m_count :: u32
  m_error :: cap_error

datatype seccomp_hint = HINT_STRICT | HINT_APP | HINT_CONTAINER | HINT_COMPOSITOR

fun omnios_cap_default_rights :: "seccomp_hint \<Rightarrow> u64" where
  "omnios_cap_default_rights HINT_STRICT = MEMORY_READ OR MEMORY_WRITE"
| "omnios_cap_default_rights HINT_APP =
     MEMORY_READ OR MEMORY_WRITE OR FILE_READ OR FILE_WRITE OR NET_CONNECT OR NOTIFICATION OR SENSOR_ACCESS"
| "omnios_cap_default_rights HINT_CONTAINER =
     MEMORY_READ OR MEMORY_WRITE OR MEMORY_EXEC OR FILE_READ OR FILE_WRITE OR NET_CONNECT OR NET_BIND
       OR IPC_SEND OR IPC_RECV"
| "omnios_cap_default_rights HINT_COMPOSITOR =
     MEMORY_READ OR MEMORY_WRITE OR DISPLAY_ACCESS OR INPUT_ACCESS OR IPC_SEND OR IPC_RECV OR AUDIO_PLAYBACK"

definition zero_token :: omnios_cap_token_t where
  "zero_token = \<lparr>tok_id = 0, tok_rights = 0, tok_start = 0, tok_end = 0, tok_expiry = 0, tok_owner = 0, tok_label = ''''\<rparr>"

definition zero_msg :: omnios_cap_msg_t where
  "zero_msg = \<lparr>m_type = MSG_INVALID, m_seq = 0, m_sender = 0, m_token = zero_token, m_count = 0, m_error = NoError\<rparr>"

section \<open>Daemon\<close>

record policy_entry =
  pol_pid :: int
  pol_hint :: seccomp_hint
  pol_max_rights :: u64

record capd_t =
  token_store :: "nat \<Rightarrow> omnios_cap_token_t"
  token_count :: nat
  next_token_id :: u32
  policy_table :: "nat \<Rightarrow> policy_entry"
  policy_count :: nat

definition policy_lookup :: "int \<Rightarrow> capd_t \<Rightarrow> nat option" where
  "policy_lookup pid s = first_idx (\<lambda>i. pol_pid (policy_table s i) = pid) (policy_count s)"

definition policy_register :: "int \<Rightarrow> seccomp_hint \<Rightarrow> capd_t \<Rightarrow> int \<times> capd_t" where
  "policy_register pid hint s =
     (case policy_lookup pid s of Some idx \<Rightarrow> (int idx, s)
      | None \<Rightarrow>
          if policy_count s \<ge> MAX_POLICY then (-ENOSPC, s)
          else let i = policy_count s
               in (int i, s\<lparr>policy_table := (policy_table s)(i := \<lparr>pol_pid = pid, pol_hint = hint,
                       pol_max_rights = omnios_cap_default_rights hint\<rparr>), policy_count := i + 1\<rparr>))"

definition policy_allows :: "int \<Rightarrow> u64 \<Rightarrow> capd_t \<Rightarrow> bool" where
  "policy_allows pid requested s =
     (case policy_lookup pid s of None \<Rightarrow> False
      | Some idx \<Rightarrow> pol_max_rights (policy_table s idx) AND requested = requested)"

definition token_push :: "omnios_cap_token_t \<Rightarrow> capd_t \<Rightarrow> capd_t option" where
  "token_push t s =
     (if token_count s \<ge> OMNIOS_CAP_TOKEN_MAX then None
      else Some (s\<lparr>token_store := (token_store s)(token_count s := t), token_count := token_count s + 1\<rparr>))"

definition token_grant :: "u64 \<Rightarrow> int \<Rightarrow> u64 \<Rightarrow> string \<Rightarrow> capd_t \<Rightarrow> int \<times> capd_t" where
  "token_grant now owner rights label s =
     (case token_push \<lparr>tok_id = next_token_id s, tok_rights = rights, tok_start = 0, tok_end = 0,
             tok_expiry = now + 3600 * 1000000000, tok_owner = owner, tok_label = take (OMNIOS_CAP_LABEL_LEN - 1) label\<rparr> s of
        None \<Rightarrow> (-ENOSPC, s)
      | Some s' \<Rightarrow>
          if \<not> policy_allows owner rights s then (-EPERM, s)
          else (sint (next_token_id s), s'\<lparr>next_token_id := next_token_id s + 1\<rparr>))"

definition token_slot :: "u32 \<Rightarrow> capd_t \<Rightarrow> nat option" where
  "token_slot tid s = first_idx (\<lambda>i. tok_id (token_store s i) = tid) (token_count s)"

definition token_find :: "u32 \<Rightarrow> capd_t \<Rightarrow> omnios_cap_token_t option" where
  "token_find tid s = map_option (token_store s) (token_slot tid s)"

definition token_drop :: "u32 \<Rightarrow> capd_t \<Rightarrow> capd_t option" where
  "token_drop tid s =
     (case token_slot tid s of None \<Rightarrow> None
      | Some i \<Rightarrow> Some (s\<lparr>token_store := (token_store s)(i := token_store s (token_count s - 1)), token_count := token_count s - 1\<rparr>))"

definition token_revoke :: "u32 \<Rightarrow> capd_t \<Rightarrow> int \<times> capd_t" where
  "token_revoke tid s = (case token_drop tid s of None \<Rightarrow> (-ENOENT, s) | Some s' \<Rightarrow> (0, s'))"

definition token_verify :: "u64 \<Rightarrow> u32 \<Rightarrow> int \<Rightarrow> capd_t \<Rightarrow> int" where
  "token_verify now tid requester s =
     (case token_find tid s of None \<Rightarrow> -ENOENT
      | Some t \<Rightarrow> if tok_owner t \<noteq> requester then -EPERM else if now > tok_expiry t then -ETIME else 0)"

definition owned_count :: "int \<Rightarrow> capd_t \<Rightarrow> u32" where
  "owned_count pid s =
     fold (\<lambda>i n. if tok_owner (token_store s i) = pid then n + 1 else n) [0..<token_count s] 0"

definition handle_message :: "u64 \<Rightarrow> omnios_cap_msg_t \<Rightarrow> capd_t \<Rightarrow> (omnios_cap_msg_t \<times> capd_t) option" where
  "handle_message now req s =
     (let resp = zero_msg\<lparr>m_type := MSG_DENY, m_seq := m_seq req\<rparr>
      in case m_type req of
           MSG_REQUEST \<Rightarrow>
             (case policy_lookup (m_sender req) s of
                None \<Rightarrow> Some (resp\<lparr>m_error := UnknownPid (m_sender req)\<rparr>, s)
              | Some _ \<Rightarrow>
                  let (tid, s') = token_grant now (m_sender req) (tok_rights (m_token req)) (tok_label (m_token req)) s
                  in if tid < 0 then Some (resp\<lparr>m_error := GrantFailed (-tid)\<rparr>, s')
                     else (case token_find (word_of_int tid) s' of None \<Rightarrow> None
                       | Some t \<Rightarrow> Some (resp\<lparr>m_type := MSG_GRANT,
                           m_token := (m_token resp)\<lparr>tok_id := word_of_int tid, tok_rights := tok_rights t\<rparr>\<rparr>, s')))
         | MSG_REVOKE \<Rightarrow>
             let (ret, s') = token_revoke (tok_id (m_token req)) s
             in if ret < 0 then Some (resp\<lparr>m_error := RevokeFailed (-ret)\<rparr>, s')
                else Some (resp\<lparr>m_type := MSG_GRANT\<rparr>, s')
         | MSG_VERIFY \<Rightarrow>
             let ret = token_verify now (tok_id (m_token req)) (m_sender req) s
             in if ret < 0 then Some (resp\<lparr>m_error := VerifyFailed (-ret)\<rparr>, s)
                else (case token_find (tok_id (m_token req)) s of None \<Rightarrow> None
                  | Some t \<Rightarrow> Some (resp\<lparr>m_type := MSG_GRANT, m_token := t\<rparr>, s))
         | MSG_LIST \<Rightarrow> Some (resp\<lparr>m_type := MSG_GRANT, m_count := owned_count (m_sender req) s\<rparr>, s)
         | ty \<Rightarrow> Some (resp\<lparr>m_error := UnknownMsgType ty\<rparr>, s))"

section \<open>Main loop\<close>

text \<open>
  The polled descriptors are pairs of a descriptor and whether \<^verbatim>\<open>poll\<close> reported input on it;
  entry 0 is the listening socket. \<open>recv\<close> is what the system call delivers on a descriptor,
  \<open>None\<close> for an error or end of file. Replies sent and descriptors closed are logged.
\<close>

record srv_t =
  capd :: capd_t
  fds :: "nat \<Rightarrow> int \<times> bool"
  nfds :: nat
  sent :: "(int \<times> omnios_cap_msg_t) list"
  closed :: "int list"

definition capd_start :: "int \<Rightarrow> capd_t \<Rightarrow> srv_t" where
  "capd_start listen_fd s =
     (let s1 = snd (policy_register 1 HINT_COMPOSITOR s);
          s2 = snd (policy_register 2 HINT_STRICT s1)
      in \<lparr>capd = s2, fds = (\<lambda>_. (0, False))(0 := (listen_fd, False)), nfds = 1, sent = [], closed = []\<rparr>)"

text \<open>A new connection: \<open>client_fd\<close> is the result of \<^verbatim>\<open>accept4\<close>, \<open>cred\<close> the peer's process if
  \<^verbatim>\<open>getsockopt\<close> succeeds. The new entry's \<^verbatim>\<open>revents\<close> is not written: it keeps what the slot held.\<close>

definition capd_accept :: "int \<Rightarrow> int option \<Rightarrow> srv_t \<Rightarrow> srv_t" where
  "capd_accept client_fd cred v =
     (if client_fd \<ge> 0 \<and> nfds v < 64 then
        let c = (case cred of None \<Rightarrow> capd v | Some pid \<Rightarrow> snd (policy_register pid HINT_APP (capd v)))
        in v\<lparr>capd := c, fds := (fds v)(nfds v := (client_fd, snd (fds v (nfds v)))), nfds := nfds v + 1\<rparr>
      else v)"

definition capd_close_client :: "nat \<Rightarrow> srv_t \<Rightarrow> srv_t" where
  "capd_close_client i v =
     v\<lparr>closed := closed v @ [fst (fds v i)], fds := (fds v)(i := fds v (nfds v - 1)), nfds := nfds v - 1\<rparr>"

definition capd_reply :: "u64 \<Rightarrow> nat \<Rightarrow> omnios_cap_msg_t \<Rightarrow> srv_t \<Rightarrow> srv_t option" where
  "capd_reply now i msg v =
     (case handle_message now msg (capd v) of None \<Rightarrow> None
      | Some (resp, c) \<Rightarrow> Some (v\<lparr>capd := c, sent := sent v @ [(fst (fds v i), resp)]\<rparr>))"

function client_loop :: "u64 \<Rightarrow> (int \<Rightarrow> omnios_cap_msg_t option) \<Rightarrow> nat \<Rightarrow> srv_t \<Rightarrow> srv_t option" where
  "client_loop now recv i v =
     (if i < nfds v then
        if \<not> snd (fds v i) then client_loop now recv (Suc i) v
        else (case recv (fst (fds v i)) of
                None \<Rightarrow> client_loop now recv i (capd_close_client i v)
              | Some msg \<Rightarrow>
                  (case capd_reply now i msg v of None \<Rightarrow> None | Some v' \<Rightarrow> client_loop now recv (Suc i) v'))
      else Some v)"
  by pat_completeness auto
termination
  by (relation "measure (\<lambda>(now, recv, i, v). nfds v - i)")
    (auto simp: capd_close_client_def capd_reply_def split: option.splits)

declare client_loop.simps [simp del]

text \<open>One round of the main loop after \<^verbatim>\<open>poll\<close> has returned: \<open>ready\<close> gives the descriptors with
  input, \<open>conn\<close> the result of accepting when the listening socket is among them.\<close>

definition capd_round :: "u64 \<Rightarrow> (int \<Rightarrow> bool) \<Rightarrow> int \<times> int option \<Rightarrow> (int \<Rightarrow> omnios_cap_msg_t option) \<Rightarrow> srv_t \<Rightarrow> srv_t option" where
  "capd_round now ready conn recv v =
     (let v1 = v\<lparr>fds := (\<lambda>i. if i < nfds v then (fst (fds v i), ready (fst (fds v i))) else fds v i)\<rparr>;
          v2 = (if snd (fds v1 0) then capd_accept (fst conn) (snd conn) v1 else v1)
      in client_loop now recv 1 v2)"

section \<open>Client library\<close>

record cap_ctx =
  ctx_seq :: u32

text \<open>\<open>net\<close> sends a message and receives the reply: an error code or the reply, and the peer's new
  state.\<close>

definition send_recv :: "int \<Rightarrow> ('d \<Rightarrow> omnios_cap_msg_t \<Rightarrow> (int + omnios_cap_msg_t) \<times> 'd) \<Rightarrow> cap_ctx \<Rightarrow> omnios_cap_msg_t \<Rightarrow> 'd \<Rightarrow>
    int \<times> omnios_cap_msg_t \<times> cap_ctx \<times> 'd" where
  "send_recv pid net ctx msg d =
     (let msg1 = msg\<lparr>m_seq := ctx_seq ctx, m_sender := pid\<rparr>;
          ctx1 = ctx\<lparr>ctx_seq := ctx_seq ctx + 1\<rparr>
      in case net d msg1 of
           (Inl err, d') \<Rightarrow> (err, msg1, ctx1, d')
         | (Inr resp, d') \<Rightarrow>
             if m_type resp = MSG_DENY then (-EACCES, msg1, ctx1, d') else (0, resp, ctx1, d'))"

definition omnios_cap_request :: "int \<Rightarrow> ('d \<Rightarrow> omnios_cap_msg_t \<Rightarrow> (int + omnios_cap_msg_t) \<times> 'd) \<Rightarrow> cap_ctx \<Rightarrow> u64 \<Rightarrow> string option \<Rightarrow> 'd \<Rightarrow>
    int \<times> cap_ctx \<times> 'd" where
  "omnios_cap_request pid net ctx rights label d =
     (let msg = zero_msg\<lparr>m_type := MSG_REQUEST, m_sender := pid, m_token := zero_token\<lparr>tok_rights := rights,
            tok_label := take (OMNIOS_CAP_LABEL_LEN - 1) (case label of None \<Rightarrow> ''unnamed'' | Some l \<Rightarrow> l)\<rparr>\<rparr>;
          (ret, msg', ctx', d') = send_recv pid net ctx msg d
      in (if ret < 0 then ret else sint (tok_id (m_token msg')), ctx', d'))"

definition omnios_cap_revoke :: "int \<Rightarrow> ('d \<Rightarrow> omnios_cap_msg_t \<Rightarrow> (int + omnios_cap_msg_t) \<times> 'd) \<Rightarrow> cap_ctx \<Rightarrow> int \<Rightarrow> 'd \<Rightarrow>
    int \<times> cap_ctx \<times> 'd" where
  "omnios_cap_revoke pid net ctx tid d =
     (let (ret, msg', ctx', d') = send_recv pid net ctx
            (zero_msg\<lparr>m_type := MSG_REVOKE, m_token := zero_token\<lparr>tok_id := word_of_int tid\<rparr>\<rparr>) d
      in (ret, ctx', d'))"

definition omnios_cap_verify :: "int \<Rightarrow> ('d \<Rightarrow> omnios_cap_msg_t \<Rightarrow> (int + omnios_cap_msg_t) \<times> 'd) \<Rightarrow> cap_ctx \<Rightarrow> int \<Rightarrow> 'd \<Rightarrow>
    int \<times> omnios_cap_token_t option \<times> cap_ctx \<times> 'd" where
  "omnios_cap_verify pid net ctx tid d =
     (let (ret, msg', ctx', d') = send_recv pid net ctx
            (zero_msg\<lparr>m_type := MSG_VERIFY, m_token := zero_token\<lparr>tok_id := word_of_int tid\<rparr>\<rparr>) d
      in if ret < 0 then (ret, None, ctx', d') else (0, Some (m_token msg'), ctx', d'))"

definition omnios_cap_list :: "int \<Rightarrow> ('d \<Rightarrow> omnios_cap_msg_t \<Rightarrow> (int + omnios_cap_msg_t) \<times> 'd) \<Rightarrow> cap_ctx \<Rightarrow> 'd \<Rightarrow>
    int \<times> u32 option \<times> cap_ctx \<times> 'd" where
  "omnios_cap_list pid net ctx d =
     (let (ret, msg', ctx', d') = send_recv pid net ctx (zero_msg\<lparr>m_type := MSG_LIST\<rparr>) d
      in if ret < 0 then (ret, None, ctx', d') else (0, Some (m_count msg'), ctx', d'))"

text \<open>\<open>libc_text\<close> stands for the C library's \<^verbatim>\<open>strerror\<close>.\<close>

definition omnios_cap_strerror :: "(int \<Rightarrow> string) \<Rightarrow> int \<Rightarrow> string" where
  "omnios_cap_strerror libc_text err =
     (let e = -err
      in if e = 0 then ''success'' else if e = EPERM then ''permission denied''
         else if e = ENOENT then ''token not found'' else if e = ENOSPC then ''token store full''
         else if e = ETIME then ''token expired'' else if e = EACCES then ''access denied by policy''
         else libc_text e)"

section \<open>Tokens as a store\<close>

abbreviation tokens :: "capd_t \<Rightarrow> omnios_cap_token_t list" where
  "tokens s \<equiv> packed (token_store s) (token_count s)"

interpretation ts: keyed_store tokens tok_id OMNIOS_CAP_TOKEN_MAX token_find token_push token_drop
proof
  show "token_find k s = List.find (\<lambda>e. tok_id e = k) (tokens s)" for k s
    by (simp add: token_find_def token_slot_def find_packed)
  show "OMNIOS_CAP_TOKEN_MAX \<le> length (tokens s) \<Longrightarrow> token_push e s = None" for s e
    by (simp add: token_push_def)
  show "length (tokens s) < OMNIOS_CAP_TOKEN_MAX \<Longrightarrow> \<exists>s'. token_push e s = Some s' \<and> tokens s' = tokens s @ [e]" for s e
    by (simp add: token_push_def)
  show "token_find k s = None \<Longrightarrow> token_drop k s = None" for k s
    by (simp add: token_find_def token_drop_def)
  show "\<exists>s'. token_drop k s = Some s' \<and> mset (tokens s') = mset (tokens s) - {#e#}" if c: "token_find k s = Some e" for k s e
  proof -
    from c obtain i where i: "token_slot k s = Some i" "e = token_store s i" by (auto simp: token_find_def)
    then have "i < token_count s" by (auto simp: token_slot_def dest: first_idx_SomeD)
    with i packed_remove [of i "token_count s" "token_store s"] show ?thesis by (simp add: token_drop_def)
  qed
qed

section \<open>No token exceeds its owner's policy\<close>

definition hint_of :: "int \<Rightarrow> seccomp_hint" where
  "hint_of pid = (if pid = 1 then HINT_COMPOSITOR else if pid = 2 then HINT_STRICT else HINT_APP)"

definition policies_ok :: "capd_t \<Rightarrow> bool" where
  "policies_ok s \<longleftrightarrow> policy_lookup 1 s \<noteq> None \<and> policy_lookup 2 s \<noteq> None
     \<and> (\<forall>i<policy_count s. pol_max_rights (policy_table s i) = omnios_cap_default_rights (hint_of (pol_pid (policy_table s i))))"

definition within_policy :: "omnios_cap_token_t \<Rightarrow> bool" where
  "within_policy t \<longleftrightarrow> omnios_cap_default_rights (hint_of (tok_owner t)) AND tok_rights t = tok_rights t"

definition capd_ok :: "capd_t \<Rightarrow> bool" where
  "capd_ok s \<longleftrightarrow> policies_ok s \<and> (\<forall>t\<in>set (tokens s). within_policy t)"

lemma policy_lookup_SomeD:
  "policy_lookup pid s = Some i \<Longrightarrow> i < policy_count s \<and> pol_pid (policy_table s i) = pid"
  by (auto simp: policy_lookup_def dest: first_idx_SomeD)

lemma policy_allows_within: "policies_ok s \<Longrightarrow> policy_allows pid r s \<Longrightarrow> omnios_cap_default_rights (hint_of pid) AND r = r"
  by (auto simp: policy_allows_def policies_ok_def dest: policy_lookup_SomeD split: option.splits)

lemma policy_lookup_tokens [simp]:
  "policy_lookup pid (s\<lparr>token_store := a\<rparr>) = policy_lookup pid s"
  "policy_lookup pid (s\<lparr>token_count := b\<rparr>) = policy_lookup pid s"
  "policy_lookup pid (s\<lparr>next_token_id := c\<rparr>) = policy_lookup pid s"
  by (simp_all add: policy_lookup_def)

lemma policies_ok_tokens [simp]:
  "policies_ok (s\<lparr>token_store := a\<rparr>) = policies_ok s" "policies_ok (s\<lparr>token_count := b\<rparr>) = policies_ok s"
  "policies_ok (s\<lparr>next_token_id := c\<rparr>) = policies_ok s"
  by (simp_all add: policies_ok_def)

lemma register_lookup:
  "policy_lookup q s \<noteq> None \<Longrightarrow> policy_lookup q (snd (policy_register pid hint s)) = policy_lookup q s"
proof -
  assume "policy_lookup q s \<noteq> None"
  then obtain k where k: "policy_lookup q s = Some k" by blast
  then have "policy_lookup q (snd (policy_register pid hint s)) = Some k"
    by (simp add: policy_register_def policy_lookup_def Let_def first_idx_Some_iff split: option.split)
  with k show ?thesis by simp
qed

lemma register_ok:
  assumes "policies_ok s" "hint = hint_of pid"
  shows "policies_ok (snd (policy_register pid hint s))"
proof -
  have "policy_lookup q (snd (policy_register pid hint s)) \<noteq> None" if "policy_lookup q s \<noteq> None" for q
    using that by (simp add: register_lookup)
  with assms show ?thesis
    by (auto simp: policies_ok_def policy_register_def Let_def less_Suc_eq split: option.splits)
qed

lemma register_tokens [simp]: "tokens (snd (policy_register pid hint s)) = tokens s"
  by (simp add: policy_register_def Let_def split: option.split)

lemma accept_policy:
  assumes "policies_ok s"
  shows "policies_ok (snd (policy_register pid HINT_APP s))"
proof (cases "pid = 1 \<or> pid = 2")
  case True
  with assms have "snd (policy_register pid HINT_APP s) = s" by (auto simp: policies_ok_def policy_register_def)
  with assms show ?thesis by simp
next
  case False
  with assms show ?thesis by (intro register_ok) (simp_all add: hint_of_def)
qed

lemma grant_ok: "capd_ok s \<Longrightarrow> capd_ok (snd (token_grant now owner r label s))"
  by (auto simp: token_grant_def token_push_def capd_ok_def within_policy_def dest: policy_allows_within)

lemma revoke_ok: "capd_ok s \<Longrightarrow> capd_ok (snd (token_revoke tid s))"
proof (cases "token_drop tid s")
  case (Some s')
  assume ok: "capd_ok s"
  from ts.remove_SomeD [OF Some] obtain e where "mset (tokens s') = mset (tokens s) - {#e#}" by blast
  then have "set (tokens s') \<subseteq> set (tokens s)" by (metis in_diffD set_mset_mset subsetI)
  moreover have "policies_ok s'" using ok Some by (auto simp: token_drop_def capd_ok_def split: option.splits)
  ultimately show ?thesis using ok Some by (auto simp: token_revoke_def capd_ok_def)
qed (simp add: token_revoke_def)

lemma handle_ok:
  assumes "handle_message now req s = Some (resp, s')" "capd_ok s"
  shows "capd_ok s'"
proof -
  have "s' = s \<or> s' = snd (token_grant now (m_sender req) (tok_rights (m_token req)) (tok_label (m_token req)) s)
      \<or> s' = snd (token_revoke (tok_id (m_token req)) s)"
    using assms(1)
    by (auto simp: handle_message_def Let_def case_prod_unfold split: cap_msg_type.splits option.splits if_splits)
  with assms(2) grant_ok revoke_ok show ?thesis by blast
qed

lemma client_loop_ok: "client_loop now recv i v = Some v' \<Longrightarrow> capd_ok (capd v) \<Longrightarrow> capd_ok (capd v')"
proof (induction now recv i v rule: client_loop.induct)
  case (1 now recv i v)
  show ?case
  proof (cases "i < nfds v \<and> snd (fds v i)")
    case False
    with 1 show ?thesis by (subst (asm) client_loop.simps) (auto split: if_splits)
  next
    case True
    show ?thesis
    proof (cases "recv (fst (fds v i))")
      case None
      have "capd (capd_close_client i v) = capd v" by (simp add: capd_close_client_def)
      with "1.IH"(2) "1.prems" True None show ?thesis by (subst (asm) client_loop.simps) simp
    next
      case (Some msg)
      from "1.prems" True Some obtain w where w: "capd_reply now i msg v = Some w" "client_loop now recv (Suc i) w = Some v'"
        by (subst (asm) client_loop.simps) (auto split: option.splits)
      then have "capd_ok (capd w)" using "1.prems"(2) by (auto simp: capd_reply_def dest: handle_ok split: option.splits)
      with "1.IH"(3) True Some w show ?thesis by blast
    qed
  qed
qed

lemma round_ok:
  assumes "capd_round now ready conn recv v = Some v'" "capd_ok (capd v)"
  shows "capd_ok (capd v')"
proof -
  have "capd_ok (capd (capd_accept fd cred w))" if "capd_ok (capd w)" for fd cred w
    using that by (auto simp: capd_accept_def capd_ok_def Let_def accept_policy split: option.split)
  with assms show ?thesis
    by (auto simp: capd_round_def Let_def intro!: client_loop_ok [of now recv 1 _ v'] split: if_splits)
qed

inductive capd_runs :: "srv_t \<Rightarrow> srv_t \<Rightarrow> bool" for v0 :: srv_t where
  start: "capd_runs v0 v0"
| round: "capd_runs v0 v \<Longrightarrow> capd_round now ready conn recv v = Some v' \<Longrightarrow> capd_runs v0 v'"

definition capd_static :: capd_t where
  "capd_static = \<lparr>token_store = (\<lambda>_. zero_token), token_count = 0, next_token_id = 1,
     policy_table = (\<lambda>_. \<lparr>pol_pid = 0, pol_hint = HINT_STRICT, pol_max_rights = 0\<rparr>), policy_count = 0\<rparr>"

lemma start_ok: "capd_ok (capd (capd_start fd capd_static))"
  by (simp add: capd_start_def capd_static_def policy_register_def policy_lookup_def first_idx_def first_from.simps Let_def
      capd_ok_def policies_ok_def packed_def hint_of_def less_Suc_eq numeral_2_eq_2)

lemma runs_ok: "capd_runs v0 v \<Longrightarrow> capd_ok (capd v0) \<Longrightarrow> capd_ok (capd v)"
  by (induction rule: capd_runs.induct) (auto intro: round_ok)

lemma default_rights_no_admin: "\<not> bit (omnios_cap_default_rights h) 63"
  by (cases h) (simp_all add: bit_simps)

text \<open>C7: Whatever clients connect and whatever messages they send, every token in the daemon's store
  has only rights that the built-in policy of its owner allows: the compositor rights for
  process 1, the strict ones for process 2, the application rights for every other process;
  in particular no token ever has the administrator right.\<close>

theorem capd_no_escalation:
  assumes "capd_runs (capd_start fd capd_static) v" "t \<in> set (tokens (capd v))"
  shows "omnios_cap_default_rights (hint_of (tok_owner t)) AND tok_rights t = tok_rights t \<and> \<not> bit (tok_rights t) 63"
proof -
  have w: "omnios_cap_default_rights (hint_of (tok_owner t)) AND tok_rights t = tok_rights t"
    using runs_ok [OF assms(1) start_ok] assms(2) by (simp add: capd_ok_def within_policy_def)
  have "\<not> bit (omnios_cap_default_rights (hint_of (tok_owner t)) AND tok_rights t) 63"
    by (simp only: bit_and_iff default_rights_no_admin) simp
  with w show ?thesis by (simp only:) simp
qed

definition request_msg :: "int \<Rightarrow> u64 \<Rightarrow> omnios_cap_msg_t" where
  "request_msg pid rights = zero_msg\<lparr>m_type := MSG_REQUEST, m_sender := pid, m_token := zero_token\<lparr>tok_rights := rights\<rparr>\<rparr>"

definition demo_capd :: srv_t where
  "demo_capd = the (capd_round 1000 (\<lambda>fd. fd = 5) (-1, None) (\<lambda>_. Some (request_msg 100 FILE_READ))
     (the (capd_round 1000 (\<lambda>fd. fd = 3) (5, Some 100) (\<lambda>_. None) (capd_start 3 capd_static))))"

lemma demo_capd_facts: "token_count (capd demo_capd) = 1" "tok_rights (token_store (capd demo_capd) 0) = FILE_READ"
  by code_simp+

section \<open>Every ready client is served once\<close>

lemma handle_message_returns: "\<exists>r. handle_message now req s = Some r"
proof (cases "m_type req")
  case MSG_REQUEST
  obtain tid s' where g: "token_grant now (m_sender req) (tok_rights (m_token req)) (tok_label (m_token req)) s = (tid, s')"
    by fastforce
  have "token_find (word_of_int tid) s' \<noteq> None" if "\<not> tid < 0"
    using g that by (auto simp: token_grant_def token_push_def token_find_def token_slot_def first_idx_None_iff split: if_splits)
  then show ?thesis using MSG_REQUEST g by (auto simp: handle_message_def Let_def split: option.split)
next
  case MSG_VERIFY
  then show ?thesis by (auto simp: handle_message_def Let_def token_verify_def split: option.split)
qed (simp_all add: handle_message_def Let_def case_prod_unfold)

definition ready_from :: "nat \<Rightarrow> srv_t \<Rightarrow> int list" where
  "ready_from i v = map fst (filter snd (map (fds v) [i..<nfds v]))"

definition conns :: "srv_t \<Rightarrow> (int \<times> bool) list" where
  "conns v = packed (fds v) (nfds v)"

lemma ready_from_step: "i < nfds v \<Longrightarrow> ready_from i v = (if snd (fds v i) then [fst (fds v i)] else []) @ ready_from (Suc i) v"
  by (simp add: ready_from_def upt_conv_Cons)

lemma ready_from_end [simp]: "nfds v \<le> i \<Longrightarrow> ready_from i v = []"
  by (simp add: ready_from_def)

lemma ready_from_close:
  assumes "i < nfds v"
  shows "mset (ready_from i (capd_close_client i v)) = mset (ready_from (Suc i) v)"
proof -
  obtain m where m: "nfds v = Suc m" using assms by (cases "nfds v") auto
  show ?thesis
  proof (cases "i = m")
    case True
    then show ?thesis by (simp add: ready_from_def capd_close_client_def m)
  next
    case False
    with assms m have i: "i < m" by simp
    have "map ((fds v)(i := fds v m)) [i..<m] = fds v m # map (fds v) [Suc i..<m]"
      using i by (simp add: upt_conv_Cons)
    moreover have "map (fds v) [Suc i..<Suc m] = map (fds v) [Suc i..<m] @ [fds v m]" using i by simp
    ultimately show ?thesis by (simp add: ready_from_def capd_close_client_def m)
  qed
qed

lemma conns_close:
  assumes "i < nfds v"
  shows "mset (conns v) = add_mset (fds v i) (mset (conns (capd_close_client i v)))"
proof -
  have "fds v i \<in># mset (conns v)" using assms by (simp add: conns_def set_packed)
  then show ?thesis using packed_remove [OF assms, of "fds v"] by (simp add: conns_def capd_close_client_def)
qed

lemma client_loop_serves:
  "\<exists>v' S C. client_loop now recv i v = Some v' \<and> sent v' = sent v @ S \<and> closed v' = closed v @ C
     \<and> mset (map fst S) + mset C = mset (ready_from i v)
     \<and> (\<forall>fd\<in>set C. recv fd = None)
     \<and> mset (conns v) = mset (conns v') + mset (map (\<lambda>fd. (fd, True)) C)"
proof (induction now recv i v rule: client_loop.induct)
  case (1 now recv i v)
  consider "\<not> i < nfds v" | "i < nfds v" "\<not> snd (fds v i)" | "i < nfds v" "snd (fds v i)" "recv (fst (fds v i)) = None"
    | msg where "i < nfds v" "snd (fds v i)" "recv (fst (fds v i)) = Some msg" by fastforce
  then show ?case
  proof cases
    case 1
    then show ?thesis by (subst client_loop.simps) simp
  next
    case 2
    then show ?thesis using "1.IH"(1) by (subst client_loop.simps) (simp add: ready_from_step)
  next
    case 3
    let ?w = "capd_close_client i v"
    from 3 "1.IH"(2) obtain v' S C where IH: "client_loop now recv i ?w = Some v'" "sent v' = sent ?w @ S"
      "closed v' = closed ?w @ C" "mset (map fst S) + mset C = mset (ready_from i ?w)" "\<forall>fd\<in>set C. recv fd = None"
      "mset (conns ?w) = mset (conns v') + mset (map (\<lambda>fd. (fd, True)) C)" by blast
    have p: "fds v i = (fst (fds v i), True)" using 3(2) by (metis prod.collapse)
    have "sent ?w = sent v" "closed ?w = closed v @ [fst (fds v i)]" by (simp_all add: capd_close_client_def)
    moreover have "client_loop now recv i v = Some v'" using 3 IH(1) by (subst client_loop.simps) simp
    moreover have "mset (conns v) = mset (conns v') + mset (map (\<lambda>fd. (fd, True)) (fst (fds v i) # C))"
      using IH(6) conns_close [OF 3(1)] p by simp
    moreover have "mset (map fst S) + mset (fst (fds v i) # C) = mset (ready_from i v)"
      using IH(4) ready_from_close [OF 3(1)] ready_from_step [OF 3(1)] 3(2) by simp
    moreover have "\<forall>fd\<in>set (fst (fds v i) # C). recv fd = None" using IH(5) 3(3) by simp
    ultimately show ?thesis using IH(2,3) by (intro exI [of _ v'] exI [of _ S] exI [of _ "fst (fds v i) # C"]) simp
  next
    case 4
    obtain resp c where h: "handle_message now msg (capd v) = Some (resp, c)" using handle_message_returns by fastforce
    let ?w = "v\<lparr>capd := c, sent := sent v @ [(fst (fds v i), resp)]\<rparr>"
    have r: "capd_reply now i msg v = Some ?w" using h by (simp add: capd_reply_def)
    have same: "ready_from j ?w = ready_from j v" "conns ?w = conns v" for j by (simp_all add: ready_from_def conns_def)
    have "\<not> \<not> snd (fds v i)" using 4(2) by simp
    from "1.IH"(3) [OF 4(1) this 4(3) r, unfolded same] obtain v' S C where IH: "client_loop now recv (Suc i) ?w = Some v'" "sent v' = sent ?w @ S"
      "closed v' = closed ?w @ C" "mset (map fst S) + mset C = mset (ready_from (Suc i) v)" "\<forall>fd\<in>set C. recv fd = None"
      "mset (conns v) = mset (conns v') + mset (map (\<lambda>fd. (fd, True)) C)" by blast
    moreover have "client_loop now recv i v = Some v'" using 4 r IH(1) by (subst client_loop.simps) simp
    ultimately show ?thesis using 4(1,2)
      by (intro exI [of _ v'] exI [of _ "(fst (fds v i), resp) # S"] exI [of _ C]) (simp add: ready_from_step)
  qed
qed

text \<open>C31: One pass of the daemon over its clients always comes to an end, without a NULL dereference,
  although entries are swapped while it runs: every connection that poll reported as readable is
  either answered exactly once or, when receiving fails, closed exactly once; no other
  connection is touched, and the open connections afterwards are the earlier ones without
  the closed ones.\<close>

theorem capd_serves_all:
  "\<exists>v' S C. client_loop now recv 1 v = Some v' \<and> sent v' = sent v @ S \<and> closed v' = closed v @ C
     \<and> mset (map fst S) + mset C = mset (ready_from 1 v)
     \<and> mset (conns v) = mset (conns v') + mset (map (\<lambda>fd. (fd, True)) C)"
  using client_loop_serves [of now recv 1 v] by blast

theorem capd_no_escalation_witness:
  "token_count (capd demo_capd) = 1 \<and>
   omnios_cap_default_rights HINT_APP AND tok_rights (token_store (capd demo_capd) 0) = FILE_READ"
proof -
  have a: "\<exists>v'. capd_round now ready conn recv v = Some v'" for now ready conn recv v
    unfolding capd_round_def Let_def using client_loop_serves [of now recv 1] by blast
  obtain v1 where v1: "capd_round 1000 (\<lambda>fd. fd = 3) (5, Some 100) (\<lambda>_. None) (capd_start 3 capd_static) = Some v1"
    using a by blast
  obtain v2 where v2: "capd_round 1000 (\<lambda>fd. fd = 5) (-1, None) (\<lambda>_. Some (request_msg 100 FILE_READ)) v1 = Some v2"
    using a by blast
  have d: "demo_capd = v2" using v1 v2 by (simp add: demo_capd_def)
  have run: "capd_runs (capd_start 3 capd_static) demo_capd"
    unfolding d by (rule capd_runs.round [OF capd_runs.round [OF capd_runs.start v1] v2])
  have t: "token_store (capd demo_capd) 0 \<in> set (tokens (capd demo_capd))" by (simp add: set_packed demo_capd_facts)
  have o: "tok_owner (token_store (capd demo_capd) 0) = 100" by code_simp
  from capd_no_escalation [OF run t] demo_capd_facts show ?thesis by (simp add: o hint_of_def)
qed

section \<open>Client and daemon together\<close>

text \<open>The daemon as the peer of a client that sends one message and waits for the reply.\<close>

definition capd_net :: "u64 \<Rightarrow> capd_t \<Rightarrow> omnios_cap_msg_t \<Rightarrow> (int + omnios_cap_msg_t) \<times> capd_t" where
  "capd_net now s msg = (case handle_message now msg s of None \<Rightarrow> (Inl (-ECONNRESET), s) | Some (resp, s') \<Rightarrow> (Inr resp, s'))"

definition ids_ok :: "capd_t \<Rightarrow> bool" where
  "ids_ok s \<longleftrightarrow> ts.keys_ok s \<and> (\<forall>t\<in>set (tokens s). tok_id t < next_token_id s) \<and> next_token_id s < 0x80000000"

definition granted :: "u64 \<Rightarrow> int \<Rightarrow> u64 \<Rightarrow> string \<Rightarrow> capd_t \<Rightarrow> omnios_cap_token_t" where
  "granted now p r l s = \<lparr>tok_id = next_token_id s, tok_rights = r, tok_start = 0, tok_end = 0,
     tok_expiry = now + 3600 * 1000000000, tok_owner = p, tok_label = take 63 l\<rparr>"

lemma sint_small: "x < 0x80000000 \<Longrightarrow> 0 \<le> sint (x :: u32)"
proof -
  assume "x < 0x80000000"
  then have "uint x < 2 ^ 31" by (simp add: word_less_def)
  moreover have "- (2 ^ 31) \<le> uint x" using unsigned_greater_eq [of x, where ?'a = int] by (rule order_trans [rotated]) simp
  ultimately have "sint x = uint x" by (simp add: sint_uint signed_take_bit_int_eq_self)
  then show ?thesis by simp
qed

lemma grant_store:
  assumes ids: "ids_ok s" and room: "token_count s < OMNIOS_CAP_TOKEN_MAX" and pol: "policy_allows p r s"
  shows "\<exists>s1. token_grant now p r (take 63 l) s = (sint (next_token_id s), s1)
    \<and> (\<forall>k. token_find k s1 = (if k = next_token_id s then Some (granted now p r l s) else token_find k s)) \<and> ts.keys_ok s1"
proof -
  let ?t = "granted now p r l s"
  obtain s0 where a: "token_push ?t s = Some s0" using room by (simp add: token_push_def)
  have k: "ts.keys_ok s" and f: "token_find (tok_id ?t) s = None"
    using ids by (auto simp: ids_ok_def ts.find_None granted_def)
  let ?s1 = "s0\<lparr>next_token_id := next_token_id s + 1\<rparr>"
  have same: "token_find x ?s1 = token_find x s0" "tokens ?s1 = tokens s0" for x by (simp_all add: token_find_def token_slot_def)
  have "token_find x ?s1 = (if x = next_token_id s then Some ?t else token_find x s)" for x
    using ts.find_add [OF a k f, of x] unfolding same by (simp add: granted_def)
  moreover have "ts.keys_ok ?s1" using ts.add_keys [OF a k f] unfolding ts.keys_ok_def same .
  moreover have "token_grant now p r (take 63 l) s = (sint (next_token_id s), ?s1)"
    using a pol by (simp add: token_grant_def granted_def)
  ultimately show ?thesis by blast
qed

lemma request_via_daemon:
  assumes "ids_ok s" "token_count s < OMNIOS_CAP_TOKEN_MAX" "policy_allows p r s"
  shows "\<exists>ctx' s1. omnios_cap_request p (capd_net now) ctx r (Some l) s = (sint (next_token_id s), ctx', s1)
    \<and> (\<forall>k. token_find k s1 = (if k = next_token_id s then Some (granted now p r l s) else token_find k s)) \<and> ts.keys_ok s1"
proof -
  from grant_store [OF assms, of now l] obtain s1 where g: "token_grant now p r (take 63 l) s = (sint (next_token_id s), s1)"
    and f: "\<forall>k. token_find k s1 = (if k = next_token_id s then Some (granted now p r l s) else token_find k s)" "ts.keys_ok s1" by blast
  obtain i where i: "policy_lookup p s = Some i" using assms(3) by (auto simp: policy_allows_def split: option.splits)
  have "0 \<le> sint (next_token_id s)" using assms(1) by (intro sint_small) (simp add: ids_ok_def)
  with g f i show ?thesis
    by (simp add: omnios_cap_request_def send_recv_def capd_net_def handle_message_def zero_msg_def zero_token_def Let_def
        granted_def)
qed

lemma verify_via_daemon:
  "fst (omnios_cap_verify q (capd_net now) ctx (sint k) s) = (case token_find k s of None \<Rightarrow> -EACCES
     | Some t \<Rightarrow> if tok_owner t = q \<and> now \<le> tok_expiry t then 0 else -EACCES)"
  "fst (snd (omnios_cap_verify q (capd_net now) ctx (sint k) s)) = (case token_find k s of None \<Rightarrow> None
     | Some t \<Rightarrow> if tok_owner t = q \<and> now \<le> tok_expiry t then Some t else None)"
  "snd (snd (snd (omnios_cap_verify q (capd_net now) ctx (sint k) s))) = s"
  by (auto simp: omnios_cap_verify_def send_recv_def capd_net_def handle_message_def token_verify_def zero_msg_def zero_token_def
      Let_def not_less split: option.split)

lemma revoke_via_daemon:
  assumes "ts.keys_ok s" "token_find k s = Some t"
  shows "\<exists>ctx' s'. omnios_cap_revoke q (capd_net now) ctx (sint k) s = (0, ctx', s') \<and> token_find k s' = None"
proof -
  from ts.remove_found [OF assms(2)] obtain s' where d: "token_drop k s = Some s'" by blast
  with ts.find_remove [OF d assms(1), of k] show ?thesis
    by (simp add: omnios_cap_revoke_def send_recv_def capd_net_def handle_message_def token_revoke_def zero_msg_def
        zero_token_def Let_def)
qed

text \<open>C13: A client whose policy allows the requested rights gets a token; through the client library the
  token verifies, with exactly the requested rights and label, for its owner until an hour has
  passed and for nobody else; requests do not disturb other tokens, and after a revocation
  it verifies for nobody.\<close>

theorem cap_request_verify_revoke:
  assumes ids: "ids_ok s" and room: "token_count s < OMNIOS_CAP_TOKEN_MAX" and pol: "policy_allows p r s"
  shows "\<exists>ctx' s1. omnios_cap_request p (capd_net now) ctx r (Some l) s = (sint (next_token_id s), ctx', s1)
    \<and> (\<forall>q now2 ctx2. fst (omnios_cap_verify q (capd_net now2) ctx2 (sint (next_token_id s)) s1)
          = (if q = p \<and> now2 \<le> now + 3600000000000 then 0 else -EACCES)
        \<and> fst (snd (omnios_cap_verify q (capd_net now2) ctx2 (sint (next_token_id s)) s1))
          = (if q = p \<and> now2 \<le> now + 3600000000000 then Some (granted now p r l s) else None))
    \<and> (\<forall>k. k \<noteq> next_token_id s \<longrightarrow> token_find k s1 = token_find k s)
    \<and> (\<forall>q ctx2. \<exists>ctx3 s2. omnios_cap_revoke q (capd_net now) ctx2 (sint (next_token_id s)) s1 = (0, ctx3, s2)
        \<and> (\<forall>q' now' ctx'. fst (omnios_cap_verify q' (capd_net now') ctx' (sint (next_token_id s)) s2) = -EACCES))"
proof -
  let ?n = "next_token_id s"
  from request_via_daemon [OF assms, of now ctx l] obtain ctx' s1 where
    r: "omnios_cap_request p (capd_net now) ctx r (Some l) s = (sint ?n, ctx', s1)"
    and f: "\<And>k. token_find k s1 = (if k = ?n then Some (granted now p r l s) else token_find k s)" and k: "ts.keys_ok s1" by blast
  have g: "tok_owner (granted now p r l s) = p" "tok_expiry (granted now p r l s) = now + 3600000000000"
    by (simp_all add: granted_def)
  have v: "fst (omnios_cap_verify q (capd_net now2) ctx2 (sint ?n) s1) = (if q = p \<and> now2 \<le> now + 3600000000000 then 0 else -EACCES)"
    "fst (snd (omnios_cap_verify q (capd_net now2) ctx2 (sint ?n) s1))
      = (if q = p \<and> now2 \<le> now + 3600000000000 then Some (granted now p r l s) else None)" for q now2 ctx2
    by (simp_all add: verify_via_daemon f g)
  have "\<exists>ctx3 s2. omnios_cap_revoke q (capd_net now) ctx2 (sint ?n) s1 = (0, ctx3, s2)
        \<and> (\<forall>q' now' ctx'. fst (omnios_cap_verify q' (capd_net now') ctx' (sint ?n) s2) = -EACCES)" for q ctx2
  proof -
    from revoke_via_daemon [OF k, of ?n "granted now p r l s" q now ctx2] f [of ?n] obtain ctx3 s2 where
      "omnios_cap_revoke q (capd_net now) ctx2 (sint ?n) s1 = (0, ctx3, s2)" "token_find ?n s2 = None" by auto
    then show ?thesis by (simp add: verify_via_daemon)
  qed
  with r f v show ?thesis by (intro exI [of _ ctx'] exI [of _ s1]) simp
qed

theorem cap_request_verify_revoke_witness:
  "\<exists>ctx' s1. omnios_cap_request 1 (capd_net 1000) \<lparr>ctx_seq = 1\<rparr> DISPLAY_ACCESS (Some ''ui'') (capd (capd_start 3 capd_static)) = (1, ctx', s1)
     \<and> fst (omnios_cap_verify 1 (capd_net 2000) ctx' 1 s1) = 0
     \<and> fst (omnios_cap_verify 2 (capd_net 2000) ctx' 1 s1) = -EACCES"
proof -
  let ?s = "capd (capd_start 3 capd_static)"
  have n: "next_token_id ?s = 1" "token_count ?s = 0" "policy_allows 1 DISPLAY_ACCESS ?s" by code_simp+
  have "ids_ok ?s" unfolding ids_ok_def ts.keys_ok_def by (simp add: n packed_def)
  from cap_request_verify_revoke [OF this _ n(3), of 1000 "\<lparr>ctx_seq = 1\<rparr>" "''ui''"] n show ?thesis by auto
qed

text \<open>Revocation does not look at the sender: any client can revoke any token.\<close>

lemma revoke_by_anyone:
  "handle_message now (req\<lparr>m_type := MSG_REVOKE, m_sender := q\<rparr>) s = handle_message now (req\<lparr>m_type := MSG_REVOKE, m_sender := p\<rparr>) s"
  by (simp add: handle_message_def)

text \<open>The identity used for every decision is the one written in the message, not the peer's.\<close>

lemma reply_ignores_peer:
  "map_option capd (capd_reply now i msg v) = map_option capd (capd_reply now j msg v)"
  by (simp add: capd_reply_def split: option.split)

text \<open>With 64 descriptors in use an accepted connection is neither polled nor closed.\<close>

lemma accept_leaks: "64 \<le> nfds v \<Longrightarrow> capd_accept fd cred v = v"
  by (simp add: capd_accept_def)

end
