(* ===== verification/CapdMain.thy ===== *)
theory CapdMain
  imports Capd
begin

text \<open>
  The main function of the capability daemon (\<^verbatim>\<open>src/userspace/security/capability_daemon.c\<close>) from the creation of its socket to its
  end, and the opening and closing of connections by the client library (\<^verbatim>\<open>capability_client.c\<close>).  The results of the system calls
  are arguments: those of the set-up as a record, those of the loop as a list of what happens in its rounds.
\<close>

section \<open>The main function\<close>

definition now_ns :: "u64 \<Rightarrow> u64 \<Rightarrow> u64" where
  "now_ns tv_sec tv_nsec = tv_sec * 1000000000 + tv_nsec"

record setup_t =
  r_socket :: int
  r_bind :: int
  r_listen :: int

text \<open>What one look at the loop condition and one \<^verbatim>\<open>poll\<close> meet: a signal, a failure of \<^verbatim>\<open>poll\<close>, interrupted or not, or a round with the
  clock, the descriptors that have input, the result of accepting and the results of receiving.\<close>

datatype poll_event =
    Signalled
  | Poll_failed bool
  | Ready u64 "int \<Rightarrow> bool" "int \<times> int option" "int \<Rightarrow> omnios_cap_msg_t option"

record daemon_t =
  srv :: srv_t
  running :: bool

definition handle_signal :: "daemon_t \<Rightarrow> daemon_t" where
  "handle_signal d = d\<lparr>running := False\<rparr>"

text \<open>The loop: whether it was left, and the state then or after the last event.\<close>

fun main_loop :: "poll_event list \<Rightarrow> daemon_t \<Rightarrow> (bool \<times> daemon_t) option" where
  "main_loop [] d = Some (\<not> running d, d)"
| "main_loop (ev # evs) d =
     (if \<not> running d then Some (True, d)
      else case ev of
        Signalled \<Rightarrow> main_loop evs (handle_signal d)
      | Poll_failed eintr \<Rightarrow> if eintr then main_loop evs d else Some (True, d)
      | Ready now ready conn recv \<Rightarrow>
          (case capd_round now ready conn recv (srv d) of
             None \<Rightarrow> None
           | Some v \<Rightarrow> main_loop evs (d\<lparr>srv := v\<rparr>)))"

text \<open>Of the file system only whether the socket's path exists, and its mode.\<close>

record os_t =
  sock_path :: bool
  sock_mode :: nat

datatype main_result = Exit int "int list" os_t | Serving daemon_t os_t | Crash

definition capd_main :: "setup_t \<Rightarrow> poll_event list \<Rightarrow> os_t \<Rightarrow> main_result" where
  "capd_main r evs os =
     (let os = os\<lparr>sock_path := False\<rparr>;
          listen_fd = r_socket r
      in if listen_fd < 0 then Exit 1 [] os
         else if r_bind r < 0 then Exit 1 [listen_fd] os
         else
           let os = os\<lparr>sock_path := True, sock_mode := 438\<rparr>
           in if r_listen r < 0 then Exit 1 [listen_fd] os
              else case main_loop evs \<lparr>srv = capd_start listen_fd capd_static, running = True\<rparr> of
                     None \<Rightarrow> Crash
                   | Some (False, d) \<Rightarrow> Serving d os
                   | Some (True, d) \<Rightarrow>
                       Exit 0 (closed (srv d) @ map (\<lambda>i. fst (fds (srv d) i)) [0..<nfds (srv d)]) (os\<lparr>sock_path := False\<rparr>))"

section \<open>Connections of the client library\<close>

text \<open>The results of \<^verbatim>\<open>calloc\<close>, \<^verbatim>\<open>socket\<close> and \<^verbatim>\<open>connect\<close> are arguments; the result is the context and the descriptors closed.\<close>

definition omnios_cap_connect :: "bool \<Rightarrow> int \<Rightarrow> int \<Rightarrow> (int \<times> cap_ctx) option \<times> int list" where
  "omnios_cap_connect mem fd conn =
     (if \<not> mem then (None, [])
      else if fd < 0 then (None, [])
      else if conn < 0 then (None, [fd])
      else (Some (fd, \<lparr>ctx_seq = 1\<rparr>), []))"

definition omnios_cap_disconnect :: "(int \<times> cap_ctx) option \<Rightarrow> int list" where
  "omnios_cap_disconnect ctx = (case ctx of None \<Rightarrow> [] | Some (fd, _) \<Rightarrow> [fd])"

text \<open>Every descriptor that a connection attempt opens is closed, at once or by the disconnection.\<close>

lemma connect_balanced:
  assumes "omnios_cap_connect mem fd conn = (ctx, cl)"
  shows "cl @ omnios_cap_disconnect ctx = (if mem \<and> 0 \<le> fd then [fd] else [])"
  using assms by (auto simp: omnios_cap_connect_def omnios_cap_disconnect_def split: if_splits)

section \<open>Descriptors and policies over a whole run\<close>

text \<open>The descriptors that the rounds of a run take over.\<close>

fun taken :: "poll_event list \<Rightarrow> daemon_t \<Rightarrow> int list" where
  "taken [] d = []"
| "taken (ev # evs) d =
     (if \<not> running d then []
      else case ev of
        Signalled \<Rightarrow> taken evs (handle_signal d)
      | Poll_failed eintr \<Rightarrow> if eintr then taken evs d else []
      | Ready now ready conn recv \<Rightarrow>
          (if ready (fst (fds (srv d) 0)) \<and> 0 \<le> fst conn \<and> nfds (srv d) < 64 then [fst conn] else []) @
          (case capd_round now ready conn recv (srv d) of None \<Rightarrow> [] | Some v \<Rightarrow> taken evs (d\<lparr>srv := v\<rparr>)))"

abbreviation open_fds :: "srv_t \<Rightarrow> int multiset" where
  "open_fds v \<equiv> mset (map fst (conns v))"

lemma conns_fst: "map fst (conns v) = map (\<lambda>i. fst (fds v i)) [0..<nfds v]"
  by (simp add: conns_def packed_def)

lemma round_total: "\<exists>v'. capd_round now ready conn recv v = Some v'"
  unfolding capd_round_def Let_def using client_loop_serves [of now recv 1] by blast

lemma accept_fds:
  "open_fds (capd_accept fd cred v) = open_fds v + (if 0 \<le> fd \<and> nfds v < 64 then {#fd#} else {#})"
  "closed (capd_accept fd cred v) = closed v"
proof -
  have "map fst (conns (capd_accept fd cred v)) = map fst (conns v) @ (if 0 \<le> fd \<and> nfds v < 64 then [fd] else [])"
    by (simp add: capd_accept_def Let_def conns_fst)
  then show "open_fds (capd_accept fd cred v) = open_fds v + (if 0 \<le> fd \<and> nfds v < 64 then {#fd#} else {#})"
    by (simp only: mset_append) simp
  show "closed (capd_accept fd cred v) = closed v" by (simp add: capd_accept_def Let_def)
qed

lemma round_fds:
  assumes "capd_round now ready conn recv v = Some v'" "0 < nfds v"
  shows "open_fds v' + mset (closed v') = open_fds v + mset (closed v)
    + (if ready (fst (fds v 0)) \<and> 0 \<le> fst conn \<and> nfds v < 64 then {#fst conn#} else {#})"
proof -
  let ?v1 = "v\<lparr>fds := (\<lambda>i. if i < nfds v then (fst (fds v i), ready (fst (fds v i))) else fds v i)\<rparr>"
  let ?v2 = "if snd (fds ?v1 0) then capd_accept (fst conn) (snd conn) ?v1 else ?v1"
  have "map fst (conns ?v1) = map fst (conns v)" by (simp add: conns_fst)
  then have 1: "open_fds ?v1 = open_fds v" "closed ?v1 = closed v" "nfds ?v1 = nfds v" by (simp_all only:) simp_all
  from client_loop_serves [of now recv 1 ?v2] assms(1) obtain C where C: "closed v' = closed ?v2 @ C"
    "mset (conns ?v2) = mset (conns v') + mset (map (\<lambda>fd. (fd, True)) C)" by (auto simp: capd_round_def Let_def)
  from arg_cong [OF C(2), of "image_mset fst"] have "open_fds ?v2 = open_fds v' + mset C" by (simp add: image_mset.compositionality o_def)
  moreover have "open_fds ?v2 + mset (closed ?v2) = open_fds v + mset (closed v)
      + (if ready (fst (fds v 0)) \<and> 0 \<le> fst conn \<and> nfds v < 64 then {#fst conn#} else {#})"
    using assms(2) 1 accept_fds [of "fst conn" "snd conn" ?v1] by simp
  ultimately show ?thesis using C(1) by (simp add: ac_simps)
qed

lemma round_keeps_listening:
  assumes "capd_round now ready conn recv v = Some v'" "0 < nfds v"
  shows "0 < nfds v'"
proof -
  obtain w where w: "client_loop now recv 1 w = Some v'" "0 < nfds w"
    using assms by (auto simp: capd_round_def Let_def capd_accept_def split: if_splits)
  from client_loop_serves [of now recv 1 w] obtain u C and S :: "(int \<times> omnios_cap_msg_t) list" where u: "client_loop now recv 1 w = Some u"
    and C: "mset (map fst S) + mset C = mset (ready_from 1 w)" "mset (conns w) = mset (conns u) + mset (map (\<lambda>fd. (fd, True)) C)"
    by blast
  have "u = v'" using u w(1) by simp
  have "length C \<le> length (ready_from 1 w)" using arg_cong [OF C(1), of size] by simp
  also have "\<dots> \<le> nfds w - 1" by (simp add: ready_from_def) (metis length_filter_le length_map length_upt)
  finally have "length C \<le> nfds w - 1" .
  moreover have "nfds w = nfds u + length C" using arg_cong [OF C(2), of size] by (simp add: conns_def packed_def)
  ultimately show ?thesis using w(2) unfolding \<open>u = v'\<close> by linarith
qed

text \<open>A run keeps the books: what is open or closed is what was open or closed before and what was taken over.\<close>

lemma main_loop_books:
  assumes "0 < nfds (srv d)" "capd_ok (capd (srv d))"
  shows "\<exists>b d'. main_loop evs d = Some (b, d') \<and> capd_ok (capd (srv d'))
    \<and> open_fds (srv d') + mset (closed (srv d')) = open_fds (srv d) + mset (closed (srv d)) + mset (taken evs d)
    \<and> (Signalled \<in> set evs \<longrightarrow> b)"
  using assms
proof (induction evs arbitrary: d)
  case (Cons ev evs)
  show ?case
  proof (cases "running d")
    case True
    show ?thesis
    proof (cases ev)
      case Signalled
      have *: "\<not> running (handle_signal d)" "srv (handle_signal d) = srv d" by (simp_all add: handle_signal_def)
      then have "main_loop evs (handle_signal d) = Some (True, handle_signal d)" "taken evs (handle_signal d) = []"
        by (cases evs; simp)+
      then show ?thesis using True Signalled Cons.prems * by (intro exI [of _ True] exI [of _ "handle_signal d"]) simp
    next
      case (Poll_failed eintr)
      then show ?thesis using True Cons by (cases eintr) auto
    next
      case (Ready now ready conn recv)
      obtain v where v: "capd_round now ready conn recv (srv d) = Some v" using round_total by blast
      have "0 < nfds v" "capd_ok (capd v)" using round_keeps_listening [OF v] round_ok [OF v] Cons.prems by auto
      with Cons.IH [of "d\<lparr>srv := v\<rparr>"] obtain b d' where IH: "main_loop evs (d\<lparr>srv := v\<rparr>) = Some (b, d')" "capd_ok (capd (srv d'))"
        "open_fds (srv d') + mset (closed (srv d')) = open_fds v + mset (closed v) + mset (taken evs (d\<lparr>srv := v\<rparr>))"
        "Signalled \<in> set evs \<longrightarrow> b" by auto
      have "main_loop (ev # evs) d = Some (b, d')" "Signalled \<in> set (ev # evs) \<longrightarrow> b" using True Ready v IH(1,4) by simp_all
      moreover have "open_fds (srv d') + mset (closed (srv d')) = open_fds (srv d) + mset (closed (srv d)) + mset (taken (ev # evs) d)"
        unfolding IH(3) round_fds [OF v Cons.prems(1)] using True Ready v by simp
      ultimately show ?thesis using IH(2) by blast
    qed
  qed (use Cons.prems in auto)
qed simp

text \<open>C14: A daemon whose socket could be set up never crashes, whatever its clients send, and a termination signal ends it with status 0: it has
  then closed its listening socket and every connection that it took over, each exactly once, and has removed the path
  of its socket.\<close>

theorem capd_main_ends:
  assumes "0 \<le> r_socket r" "0 \<le> r_bind r" "0 \<le> r_listen r" "Signalled \<in> set evs"
  shows "\<exists>fs os'. capd_main r evs os = Exit 0 fs os' \<and> \<not> sock_path os'
    \<and> mset fs = mset (r_socket r # taken evs \<lparr>srv = capd_start (r_socket r) capd_static, running = True\<rparr>)"
proof -
  let ?d = "\<lparr>srv = capd_start (r_socket r) capd_static, running = True\<rparr>"
  have n: "0 < nfds (srv ?d)" "open_fds (srv ?d) = {#r_socket r#}" "closed (srv ?d) = []"
    by (simp_all add: capd_start_def Let_def conns_fst)
  from main_loop_books [of ?d evs] n(1) start_ok assms(4) obtain d' where d: "main_loop evs ?d = Some (True, d')"
    "open_fds (srv d') + mset (closed (srv d')) = open_fds (srv ?d) + mset (closed (srv ?d)) + mset (taken evs ?d)" by auto
  have "mset (closed (srv d') @ map (\<lambda>i. fst (fds (srv d') i)) [0..<nfds (srv d')]) = mset (r_socket r # taken evs ?d)"
    using d(2) n unfolding conns_fst by (simp add: ac_simps)
  then show ?thesis using assms d(1) by (simp add: capd_main_def Let_def)
qed

definition demo_setup :: setup_t where "demo_setup = \<lparr>r_socket = 3, r_bind = 0, r_listen = 0\<rparr>"

definition demo_events :: "poll_event list" where
  "demo_events = [Ready 1000 (\<lambda>fd. fd = 3) (5, Some 100) (\<lambda>_. None), Poll_failed True,
     Ready 2000 (\<lambda>fd. fd = 5) (-1, None) (\<lambda>_. Some (request_msg 100 FILE_READ)), Signalled]"

theorem capd_main_ends_witness:
  "\<exists>fs os'. capd_main demo_setup demo_events \<lparr>sock_path = True, sock_mode = 0\<rparr> = Exit 0 fs os' \<and> \<not> sock_path os' \<and> mset fs = {#3, 5#}"
proof -
  have "taken demo_events \<lparr>srv = capd_start (r_socket demo_setup) capd_static, running = True\<rparr> = [5]"
    by code_simp
  moreover have "\<exists>fs os'. capd_main demo_setup demo_events \<lparr>sock_path = True, sock_mode = 0\<rparr> = Exit 0 fs os' \<and> \<not> sock_path os'
    \<and> mset fs = mset (r_socket demo_setup # taken demo_events \<lparr>srv = capd_start (r_socket demo_setup) capd_static, running = True\<rparr>)"
    by (rule capd_main_ends) (simp_all add: demo_setup_def demo_events_def)
  ultimately show ?thesis by (simp add: demo_setup_def add_mset_commute)
qed

text \<open>When listening fails, the path stays behind.\<close>

lemma listen_failure_leaves_path:
  "0 \<le> r_socket r \<Longrightarrow> 0 \<le> r_bind r \<Longrightarrow> r_listen r < 0 \<Longrightarrow> \<exists>os'. capd_main r evs os = Exit 1 [r_socket r] os' \<and> sock_path os'"
  by (simp add: capd_main_def Let_def)

text \<open>The clock does not wrap before the machine has run for 584 years.\<close>

lemma now_ns_exact:
  assumes "unat s < 18446744073" "unat n < 1000000000"
  shows "unat (now_ns s n) = unat s * 1000000000 + unat n"
  using assms by (simp add: now_ns_def unat_word_ariths)

end
