(* ===== verification/Context.thy ===== *)
theory Context
  imports Process
begin

text \<open>
  The register switch of the PC build (\<^verbatim>\<open>context_switch\<close> and \<^verbatim>\<open>context_switch_to\<close> of
  \<^verbatim>\<open>src/kernel/proc/process.c\<close>), instruction by instruction.  Memory is a function from addresses to the 8-byte
  values stored there; the two operands of the assembly text are the addresses of the contexts.
\<close>

datatype reg = RAX | RBX | RCX | RDX | RSI | RDI | RBP | R8 | R9 | R10 | R11 | R12 | R13 | R14 | R15

record machine_t =
  gpr :: "reg \<Rightarrow> u64"
  m_rsp :: u64
  m_rip :: u64
  m_rflags :: u64
  m_mem :: "u64 \<Rightarrow> u64"

section \<open>Instructions\<close>

definition push_val :: "u64 \<Rightarrow> machine_t \<Rightarrow> machine_t" where
  "push_val v s = s\<lparr>m_rsp := m_rsp s - 8, m_mem := (m_mem s)(m_rsp s - 8 := v)\<rparr>"

definition pushfq :: "machine_t \<Rightarrow> machine_t" where "pushfq s = push_val (m_rflags s) s"
definition pushq :: "reg \<Rightarrow> machine_t \<Rightarrow> machine_t" where "pushq r s = push_val (gpr s r) s"

definition popq :: "reg \<Rightarrow> machine_t \<Rightarrow> machine_t" where
  "popq r s = s\<lparr>gpr := (gpr s)(r := m_mem s (m_rsp s)), m_rsp := m_rsp s + 8\<rparr>"

definition popfq :: "machine_t \<Rightarrow> machine_t" where
  "popfq s = s\<lparr>m_rflags := m_mem s (m_rsp s), m_rsp := m_rsp s + 8\<rparr>"

definition ret :: "machine_t \<Rightarrow> machine_t" where
  "ret s = s\<lparr>m_rip := m_mem s (m_rsp s), m_rsp := m_rsp s + 8\<rparr>"

section \<open>The two functions\<close>

definition save_regs :: "machine_t \<Rightarrow> machine_t" where
  "save_regs s = fold pushq [R15, R14, R13, R12, R11, R10, R9, R8, RBP, RDI, RSI, RDX, RCX, RBX, RAX] (pushfq s)"

definition load_regs :: "machine_t \<Rightarrow> machine_t" where
  "load_regs s =
     ret (popfq (fold popq [RAX, RBX, RCX, RDX, RSI, RDI, RBP, R8, R9, R10, R11, R12, R13, R14, R15] s))"

definition context_switch_to :: "u64 \<Rightarrow> machine_t \<Rightarrow> machine_t" where
  "context_switch_to new s = load_regs (s\<lparr>m_rsp := m_mem s new\<rparr>)"

definition context_switch :: "u64 \<Rightarrow> u64 \<Rightarrow> machine_t \<Rightarrow> machine_t" where
  "context_switch old new s =
     (let s = save_regs s;
          s = s\<lparr>m_mem := (m_mem s)(old := m_rsp s)\<rparr>;
          s = s\<lparr>m_rsp := m_mem s new\<rparr>
      in load_regs s)"

text \<open>The end of \<^verbatim>\<open>sched_yield\<close>: when there is a next thread, the registers are switched.  \<open>at t\<close> is the address of the
  context of thread \<open>t\<close>; the call passes a null pointer when no thread was current.\<close>

definition yield_switch :: "(tref \<Rightarrow> u64) \<Rightarrow> nat \<Rightarrow> kern_t \<Rightarrow> machine_t \<Rightarrow> machine_t" where
  "yield_switch at cpu k m =
     (case fst (sched_pick_next cpu k) of None \<Rightarrow> m
      | Some n \<Rightarrow> context_switch (case current_threads k cpu of None \<Rightarrow> 0 | Some c \<Rightarrow> at c) (at n) m)"

section \<open>The saved frame\<close>

fun slot :: "reg \<Rightarrow> u64" where
  "slot RAX = 0" | "slot RBX = 8" | "slot RCX = 16" | "slot RDX = 24" | "slot RSI = 32" | "slot RDI = 40" | "slot RBP = 48"
| "slot R8 = 56" | "slot R9 = 64" | "slot R10 = 72" | "slot R11 = 80" | "slot R12 = 88" | "slot R13 = 96" | "slot R14 = 104"
| "slot R15 = 112"

text \<open>The seventeen cells of a frame at \<open>a\<close>: the registers, the flags and the return address.\<close>

definition frame_cells :: "u64 \<Rightarrow> u64 set" where
  "frame_cells a = (\<lambda>r. a + slot r) ` UNIV \<union> {a + 120, a + 128}"

lemma context_switch_eq:
  "context_switch old new s =
     context_switch_to new ((save_regs s)\<lparr>m_mem := (m_mem (save_regs s))(old := m_rsp (save_regs s))\<rparr>)"
  by (simp add: context_switch_def context_switch_to_def Let_def)

lemma pop_all:
  "fold popq [RAX, RBX, RCX, RDX, RSI, RDI, RBP, R8, R9, R10, R11, R12, R13, R14, R15] (s\<lparr>m_rsp := a\<rparr>) =
     s\<lparr>gpr := (\<lambda>r. m_mem s (a + slot r)), m_rsp := a + 120\<rparr>"
proof -
  have "(gpr s)(RAX := m_mem s a, RBX := m_mem s (a + 8), RCX := m_mem s (a + 16), RDX := m_mem s (a + 24), RSI := m_mem s (a + 32), RDI := m_mem s (a + 40), RBP := m_mem s (a + 48), R8 := m_mem s (a + 56), R9 := m_mem s (a + 64), R10 := m_mem s (a + 72), R11 := m_mem s (a + 80), R12 := m_mem s (a + 88), R13 := m_mem s (a + 96), R14 := m_mem s (a + 104), R15 := m_mem s (a + 112)) =
      (\<lambda>r. m_mem s (a + slot r))" (is "?g = _")
  proof
    show "?g r = m_mem s (a + slot r)" for r by (cases r) simp_all
  qed
  then show ?thesis by (simp add: popq_def add.assoc)
qed

lemma load_frame:
  assumes "m_mem s new = a"
  shows "context_switch_to new s = s\<lparr>gpr := (\<lambda>r. m_mem s (a + slot r)), m_rflags := m_mem s (a + 120), m_rip := m_mem s (a + 128),
    m_rsp := a + 136\<rparr>"
  unfolding context_switch_to_def load_regs_def assms pop_all by (simp add: popfq_def ret_def add.assoc)

lemma push_all:
  assumes "m_rsp s = a + 128"
  shows "save_regs s =
    s\<lparr>m_rsp := a, m_mem := (m_mem s)(a + 120 := m_rflags s, a + 112 := gpr s R15, a + 104 := gpr s R14, a + 96 := gpr s R13, a + 88 := gpr s R12, a + 80 := gpr s R11, a + 72 := gpr s R10, a + 64 := gpr s R9, a + 56 := gpr s R8, a + 48 := gpr s RBP, a + 40 := gpr s RDI, a + 32 := gpr s RSI, a + 24 := gpr s RDX, a + 16 := gpr s RCX, a + 8 := gpr s RBX, a := gpr s RAX)\<rparr>"
  using assms by (simp add: save_regs_def pushq_def pushfq_def push_val_def add.commute [of a])

lemma save_frame:
  assumes "m_rsp s = a + 128"
  defines "t \<equiv> save_regs s"
  shows "m_rsp t = a" "gpr t = gpr s" "m_mem t (a + slot r) = gpr s r" "m_mem t (a + 120) = m_rflags s"
    and "c \<notin> (\<lambda>r. a + slot r) ` UNIV \<union> {a + 120} \<Longrightarrow> m_mem t c = m_mem s c"
proof -
  note t = t_def push_all [OF assms(1)]
  show "m_rsp t = a" "gpr t = gpr s" "m_mem t (a + 120) = m_rflags s" unfolding t by simp_all
  show "m_mem t (a + slot r) = gpr s r" unfolding t by (cases r) simp_all
  assume c: "c \<notin> (\<lambda>r. a + slot r) ` UNIV \<union> {a + 120}"
  then have n: "c \<noteq> a + slot r" for r by blast
  show "m_mem t c = m_mem s c"
    unfolding t using n [of RAX] n [of RBX] n [of RCX] n [of RDX] n [of RSI] n [of RDI] n [of RBP] n [of R8]
      n [of R9] n [of R10] n [of R11] n [of R12] n [of R13] n [of R14] n [of R15] c
    by simp
qed

section \<open>Switching away and back\<close>

text \<open>The cells that a switch from \<open>s\<close> writes: the frame below the stack pointer, and the context that receives its address.\<close>

definition switch_writes :: "u64 \<Rightarrow> machine_t \<Rightarrow> u64 set" where
  "switch_writes old s = insert old ((\<lambda>r. m_rsp s - 128 + slot r) ` UNIV \<union> {m_rsp s - 8})"

lemma switch_saves:
  assumes "old \<notin> frame_cells (m_rsp s - 128)"
  defines "a \<equiv> m_rsp s - 128"
  shows "m_mem (context_switch old new s) old = a"
    "m_mem (context_switch old new s) (a + slot r) = gpr s r"
    "m_mem (context_switch old new s) (a + 120) = m_rflags s"
    "m_mem (context_switch old new s) (a + 128) = m_mem s (m_rsp s)"
    "c \<notin> switch_writes old s \<Longrightarrow> m_mem (context_switch old new s) c = m_mem s c"
proof -
  have sp: "m_rsp s = a + 128" by (simp add: a_def)
  note save = save_frame [OF sp]
  have m: "m_mem (context_switch old new s) = (m_mem (save_regs s))(old := a)"
    by (simp add: context_switch_eq load_frame [OF refl] save(1))
  have o: "old \<noteq> a + slot r" "old \<noteq> a + 120" "old \<noteq> a + 128" for r
    using assms(1) by (auto simp: frame_cells_def a_def)
  show "m_mem (context_switch old new s) old = a" by (simp only: m fun_upd_same)
  show "m_mem (context_switch old new s) (a + slot r) = gpr s r" "m_mem (context_switch old new s) (a + 120) = m_rflags s"
    using o(1) [of r] o(2) by (simp_all only: m fun_upd_other save)
  have "a + 128 \<notin> (\<lambda>r. a + slot r) ` UNIV \<union> {a + 120}"
  proof -
    have "slot r \<noteq> 128" for r by (cases r) simp_all
    then have "a + 128 \<noteq> a + slot r" for r by (metis add_left_cancel)
    then show ?thesis by auto
  qed
  from save(5) [OF this] show "m_mem (context_switch old new s) (a + 128) = m_mem s (m_rsp s)"
    using o(3) by (simp only: m fun_upd_other sp)
  assume c: "c \<notin> switch_writes old s"
  then have "c \<noteq> old" "c \<notin> (\<lambda>r. a + slot r) ` UNIV \<union> {a + 120}" by (auto simp: switch_writes_def a_def)
  with save(5) [of c] show "m_mem (context_switch old new s) c = m_mem s c" by (simp add: m)
qed

text \<open>C19: A thread that is switched away from and later switched back to continues with the same registers, flags and stack, as if
  its call of the switch had just returned, provided that the frame on its stack and its context were left alone meanwhile
  and that the contexts and the other stack lie elsewhere.\<close>

theorem context_switch_roundtrip:
  fixes s t :: machine_t
  defines "a \<equiv> m_rsp s - 128"
  assumes sep: "old \<notin> frame_cells a" "new \<notin> frame_cells (m_rsp t - 128)"
    and kept: "\<And>c. c \<in> insert old (frame_cells a) \<Longrightarrow> m_mem t c = m_mem (context_switch old new s) c"
    and apart: "switch_writes new t \<inter> insert old (frame_cells a) = {}"
  defines "u \<equiv> context_switch new old t"
  shows "gpr u = gpr s \<and> m_rflags u = m_rflags s \<and> m_rsp u = m_rsp s + 8 \<and> m_rip u = m_mem s (m_rsp s)"
proof -
  note s = switch_saves [OF sep(1) [unfolded a_def], of new, folded a_def]
  let ?t = "save_regs t"
  let ?w = "?t\<lparr>m_mem := (m_mem ?t)(new := m_rsp ?t)\<rparr>"
  have u: "u = context_switch_to old ?w" by (simp add: u_def context_switch_eq)
  have "m_mem u = m_mem ?w" unfolding u load_frame [OF refl] by simp
  moreover have "m_mem u c = m_mem t c" if "c \<in> insert old (frame_cells a)" for c
    unfolding u_def using that apart by (intro switch_saves(5) [OF sep(2)]) blast
  ultimately have w: "m_mem ?w c = m_mem (context_switch old new s) c" if "c \<in> insert old (frame_cells a)" for c
    using that kept by metis
  have f: "a + slot r \<in> frame_cells a" "a + 120 \<in> frame_cells a" "a + 128 \<in> frame_cells a" for r
    by (auto simp: frame_cells_def)
  have "m_mem ?w old = a" using w [of old] s(1) by simp
  from load_frame [OF this] have "u = ?w\<lparr>gpr := (\<lambda>r. m_mem ?w (a + slot r)), m_rflags := m_mem ?w (a + 120),
      m_rip := m_mem ?w (a + 128), m_rsp := a + 136\<rparr>" unfolding u .
  moreover have "m_mem ?w (a + slot r) = gpr s r" "m_mem ?w (a + 120) = m_rflags s" "m_mem ?w (a + 128) = m_mem s (m_rsp s)" for r
    using w f s by (metis insertCI)+
  ultimately show ?thesis by (simp add: a_def)
qed

definition demo_machine :: machine_t where
  "demo_machine = \<lparr>gpr = (\<lambda>r. if r = RBX then 7 else 1), m_rsp = 0x1080, m_rip = 0x400, m_rflags = 0x202,
     m_mem = (\<lambda>_. 0)(0x1080 := 0x401, 0x200 := 0x2000)\<rparr>"

text \<open>The cells of a switch all lie in a window of 136 bytes, and those of distant windows are different.\<close>

lemma slot_bound: "slot r \<le> 128" "slot r \<le> 120" by (cases r; simp)+

lemma frame_window: "c \<in> frame_cells a \<Longrightarrow> c - a \<le> 128"
  using slot_bound by (auto simp: frame_cells_def)

lemma writes_window: "c \<in> switch_writes old s \<Longrightarrow> c = old \<or> c - (m_rsp s - 128) \<le> 120"
proof -
  assume "c \<in> switch_writes old s"
  then consider "c = old" | r where "c = m_rsp s - 128 + slot r" | "c = m_rsp s - 128 + 120"
    by (auto simp: switch_writes_def)
  then show ?thesis by cases (use slot_bound in \<open>auto simp only: add_diff_cancel_left'\<close>)
qed

theorem context_switch_roundtrip_witness:
  "gpr (context_switch 0x200 0x100 (context_switch 0x100 0x200 demo_machine)) RBX = 7
   \<and> m_rip (context_switch 0x200 0x100 (context_switch 0x100 0x200 demo_machine)) = 0x401"
proof -
  let ?t = "context_switch 0x100 0x200 demo_machine"
  have a: "m_rsp demo_machine - 128 = 0x1000" by (simp add: demo_machine_def)
  have o: "0x100 \<notin> frame_cells (m_rsp demo_machine - 128)" unfolding a by (auto dest: frame_window)
  have "m_mem ?t 0x200 = 0x2000"
  proof (rule trans [OF switch_saves(5) [OF o]])
    show "0x200 \<notin> switch_writes 0x100 demo_machine" using a by (auto dest: writes_window)
  qed (simp add: demo_machine_def)
  then have "m_mem ((save_regs demo_machine)\<lparr>m_mem := (m_mem (save_regs demo_machine))(0x100 := m_rsp (save_regs demo_machine))\<rparr>) 0x200 = 0x2000"
    by (simp add: context_switch_eq load_frame [OF refl])
  from load_frame [OF this] have t: "m_rsp ?t - 128 = 0x2008" by (simp add: context_switch_eq)
  have n: "0x200 \<notin> frame_cells (m_rsp ?t - 128)" unfolding t by (auto dest: frame_window)
  have "switch_writes 0x200 ?t \<inter> insert 0x100 (frame_cells (m_rsp demo_machine - 128)) = {}"
  proof -
    have "c \<notin> switch_writes 0x200 ?t" if "c \<in> insert 0x100 (frame_cells 0x1000)" for c
    proof
      assume "c \<in> switch_writes 0x200 ?t"
      then have "c = 0x200 \<or> c - 0x2008 \<le> 120" using writes_window [of c "0x200" ?t] t by simp
      moreover have "c = 0x100 \<or> c - 0x1000 \<le> 128" using that frame_window by auto
      ultimately show False by (auto simp: word_le_nat_alt unat_sub_if' unat_word_ariths split: if_splits)
    qed
    then show ?thesis unfolding a by blast
  qed
  from context_switch_roundtrip [OF o n refl this] show ?thesis by (simp add: demo_machine_def)
qed

text \<open>The switch keeps the saved stack pointer in the first eight bytes of a context, which are the field \<^verbatim>\<open>r15\<close> of the
  structure; \<^verbatim>\<open>proc_create\<close> stores the stack in the field \<^verbatim>\<open>rsp\<close> and leaves \<^verbatim>\<open>r15\<close> zero.  The first switch to a new thread thus
  loads the registers from address 0.\<close>

lemma new_thread_starts_at_zero:
  assumes "start_context False entry arg stack = X86_64 c" "m_mem s new = r15 c"
  shows "m_rsp (context_switch_to new s) = 136 \<and> m_rip (context_switch_to new s) = m_mem s 128"
proof -
  have "r15 c = 0" using assms(1) by (auto simp: start_context_def zero_context_def)
  with load_frame [OF assms(2)] show ?thesis by simp
qed

text \<open>The first yield of a CPU has no current thread: the stack pointer of the start-up code goes to address 0.\<close>

lemma first_yield_writes_null:
  assumes "current_threads k cpu = None" "fst (sched_pick_next cpu k) = Some n" "0 \<notin> frame_cells (m_rsp m - 128)"
  shows "m_mem (yield_switch at cpu k m) 0 = m_rsp m - 128"
  using assms(1, 2) switch_saves(1) [OF assms(3)] by (simp add: yield_switch_def)

text \<open>In a round of two or more threads a yield switches from the running thread to the next one.\<close>

lemma yield_switches_next:
  assumes "sched_view cpu k (c # n # ts)"
  shows "yield_switch at cpu k m = context_switch (at c) (at n) m"
  using assms pick_next_queue [of k cpu] by (auto simp: yield_switch_def sched_view_def)

end
