(* ===== verification/Sm8250.thy ===== *)
theory Sm8250
  imports Prelude
begin

text \<open>
  The Snapdragon 865 board support of \<^verbatim>\<open>kernel/bsp/sm8250/sm8250.c\<close> and the power management of
  \<^verbatim>\<open>drivers/power_mgmt.c\<close>. A device register is a 32-bit cell at its address; reading gives
  the cell's value, so the values the hardware puts in status registers are part of the
  state. The accelerometer and gyroscope conversions to floating point are not modelled.
\<close>

abbreviation SM8250_PMIC_BASE :: u64 where "SM8250_PMIC_BASE \<equiv> 0x0AF0000"
abbreviation SM8250_TLMM_BASE :: u64 where "SM8250_TLMM_BASE \<equiv> 0x0F00000"
abbreviation SM8250_MSS_BASE :: u64 where "SM8250_MSS_BASE \<equiv> 0x04080000"
abbreviation SM8250_DISPLAY_BASE :: u64 where "SM8250_DISPLAY_BASE \<equiv> 0x0AE00000"
abbreviation SM8250_SENSOR_BASE :: u64 where "SM8250_SENSOR_BASE \<equiv> 0x0C2F0000"

abbreviation PM8150_CHG_CTRL :: u32 where "PM8150_CHG_CTRL \<equiv> 0x4500"
abbreviation PM8150_CHG_STATUS :: u32 where "PM8150_CHG_STATUS \<equiv> 0x4508"
abbreviation PM8150_FG_VOLTAGE :: u32 where "PM8150_FG_VOLTAGE \<equiv> 0x4708"
abbreviation PM8150_FG_TEMP :: u32 where "PM8150_FG_TEMP \<equiv> 0x4710"
abbreviation PM8150_FG_SOC :: u32 where "PM8150_FG_SOC \<equiv> 0x4718"
abbreviation MDSS_CTRL :: u32 where "MDSS_CTRL \<equiv> 0"
abbreviation MDSS_INTF_CTRL :: u32 where "MDSS_INTF_CTRL \<equiv> 0x100"
abbreviation MDSS_DSI0_CTRL :: u32 where "MDSS_DSI0_CTRL \<equiv> 0x10000"
abbreviation MDSS_DSI0_PHY :: u32 where "MDSS_DSI0_PHY \<equiv> 0x10080"
abbreviation MDSS_MDP_CTRL :: u32 where "MDSS_MDP_CTRL \<equiv> 0x1000"
abbreviation TOUCH_INT_GPIO :: u32 where "TOUCH_INT_GPIO \<equiv> 96"
abbreviation TOUCH_RST_GPIO :: u32 where "TOUCH_RST_GPIO \<equiv> 97"
abbreviation MSS_CTRL :: u32 where "MSS_CTRL \<equiv> 0"
abbreviation MSS_PIL_ADDR :: u64 where "MSS_PIL_ADDR \<equiv> 0x1000"
abbreviation MSS_PIL_SIZE :: nat where "MSS_PIL_SIZE \<equiv> 0x200000"
abbreviation SLPI_CTRL :: u32 where "SLPI_CTRL \<equiv> 0"
abbreviation SLPI_LIGHT_DATA :: u32 where "SLPI_LIGHT_DATA \<equiv> 0x118"
abbreviation SLPI_PROX_DATA :: u32 where "SLPI_PROX_DATA \<equiv> 0x120"
abbreviation LPM_BASE :: u64 where "LPM_BASE \<equiv> 0x0B00000"
abbreviation THERMAL_BASE :: u64 where "THERMAL_BASE \<equiv> 0x0D00000"
abbreviation CPUFREQ_BASE :: u64 where "CPUFREQ_BASE \<equiv> 0x0E00000"

type_synonym regs = "u64 \<Rightarrow> u32"

definition read_reg :: "u64 \<Rightarrow> u32 \<Rightarrow> regs \<Rightarrow> u32" where
  "read_reg base off r = r (base + ucast off)"

definition write_reg :: "u64 \<Rightarrow> u32 \<Rightarrow> u32 \<Rightarrow> regs \<Rightarrow> regs" where
  "write_reg base off val r = r(base + ucast off := val)"

section \<open>Power management chip\<close>

definition pm8150_init :: "regs \<Rightarrow> int \<times> regs" where
  "pm8150_init r = (0, write_reg SM8250_PMIC_BASE PM8150_CHG_CTRL 1 r)"

definition pm8150_charger_status :: "regs \<Rightarrow> int" where
  "pm8150_charger_status r = uint (read_reg SM8250_PMIC_BASE PM8150_CHG_STATUS r AND 1)"

definition pm8150_battery_soc :: "regs \<Rightarrow> int" where
  "pm8150_battery_soc r = uint (read_reg SM8250_PMIC_BASE PM8150_FG_SOC r AND 0xFF)"

definition pm8150_battery_voltage :: "regs \<Rightarrow> int" where
  "pm8150_battery_voltage r = sint (read_reg SM8250_PMIC_BASE PM8150_FG_VOLTAGE r)"

definition pm8150_battery_temp :: "regs \<Rightarrow> int" where
  "pm8150_battery_temp r = sint (ucast (read_reg SM8250_PMIC_BASE PM8150_FG_TEMP r AND 0xFF) :: u8)"

definition pm8150_charger_enable :: "bool \<Rightarrow> regs \<Rightarrow> regs" where
  "pm8150_charger_enable on r = write_reg SM8250_PMIC_BASE PM8150_CHG_CTRL (if on then 1 else 0) r"

section \<open>Display, touch, modem, sensors\<close>

definition mdss_init :: "regs \<Rightarrow> int \<times> regs" where
  "mdss_init r =
     (let r = write_reg SM8250_DISPLAY_BASE MDSS_DSI0_CTRL 0 r;
          r = write_reg SM8250_DISPLAY_BASE MDSS_DSI0_PHY 0x3FF r;
          r = write_reg SM8250_DISPLAY_BASE MDSS_MDP_CTRL 1 r
      in (0, write_reg SM8250_DISPLAY_BASE MDSS_INTF_CTRL (push_bit 16 1080 OR 2340) r))"

definition mdss_panel_on :: "regs \<Rightarrow> regs" where
  "mdss_panel_on r = write_reg SM8250_DISPLAY_BASE MDSS_CTRL 1 r"

definition mdss_panel_off :: "regs \<Rightarrow> regs" where
  "mdss_panel_off r = write_reg SM8250_DISPLAY_BASE MDSS_CTRL 0 r"

definition mdss_set_brightness :: "u32 \<Rightarrow> regs \<Rightarrow> regs" where
  "mdss_set_brightness level r =
     (let level = (if level > 255 then 255 else level) in write_reg (SM8250_PMIC_BASE + 0x5000) 0 level r)"

definition touch_init :: "regs \<Rightarrow> int \<times> regs" where
  "touch_init r =
     (let r = write_reg SM8250_TLMM_BASE (TOUCH_RST_GPIO * 4) 3 r;
          r = write_reg SM8250_TLMM_BASE (TOUCH_INT_GPIO * 4) 0 r
      in (0, write_reg SM8250_TLMM_BASE (TOUCH_RST_GPIO * 4) 0 r))"

definition touch_power_on :: "regs \<Rightarrow> regs" where
  "touch_power_on r = write_reg SM8250_TLMM_BASE (TOUCH_RST_GPIO * 4) 3 r"

definition touch_power_off :: "regs \<Rightarrow> regs" where
  "touch_power_off r = write_reg SM8250_TLMM_BASE (TOUCH_RST_GPIO * 4) 0 r"

definition mss_init :: "regs \<Rightarrow> int \<times> regs" where
  "mss_init r = (0, write_reg SM8250_MSS_BASE MSS_CTRL 1 r)"

text \<open>The bytes copied to the firmware window, when the image fits.\<close>

definition mss_load_firmware :: "u8 list \<Rightarrow> int \<times> (u64 \<times> u8 list) option" where
  "mss_load_firmware fw =
     (if length fw > MSS_PIL_SIZE then (-1, None) else (0, Some (SM8250_MSS_BASE + MSS_PIL_ADDR, fw)))"

definition mss_start :: "regs \<Rightarrow> int \<times> regs" where
  "mss_start r = (0, write_reg SM8250_MSS_BASE MSS_CTRL 3 r)"

definition slpi_init :: "regs \<Rightarrow> int \<times> regs" where
  "slpi_init r = (0, write_reg SM8250_SENSOR_BASE SLPI_CTRL 1 r)"

definition slpi_read_light :: "regs \<Rightarrow> int" where
  "slpi_read_light r = uint (read_reg SM8250_SENSOR_BASE SLPI_LIGHT_DATA r AND 0xFFFF)"

definition slpi_read_proximity :: "regs \<Rightarrow> int" where
  "slpi_read_proximity r = uint (read_reg SM8250_SENSOR_BASE SLPI_PROX_DATA r AND 0xFFFF)"

definition sm8250_init :: "regs \<Rightarrow> int \<times> regs" where
  "sm8250_init r =
     (let r = snd (pm8150_init r);
          r = snd (mdss_init r);
          r = snd (touch_init r);
          r = snd (mss_init r);
          r = snd (slpi_init r);
          r = mdss_panel_on r
      in (0, mdss_set_brightness 128 r))"

text \<open>Both end in a loop of \<^verbatim>\<open>wfi\<close>: the registers at the halt.\<close>

definition sm8250_poweroff :: "regs \<Rightarrow> regs" where
  "sm8250_poweroff r =
     (let r = mdss_panel_off r; r = pm8150_charger_enable False r in write_reg SM8250_PMIC_BASE 0x4F00 0x10 r)"

definition sm8250_reboot :: "regs \<Rightarrow> regs" where
  "sm8250_reboot r = write_reg SM8250_PMIC_BASE 0x4F00 0x20 r"

section \<open>Suspend, frequency, temperature\<close>

record power_t =
  pw_regs :: regs
  suspended :: bool

definition mobile_power_init :: "power_t \<Rightarrow> int \<times> power_t" where
  "mobile_power_init s =
     (let r = pw_regs s;
          r = write_reg LPM_BASE 0 7 r;
          r = write_reg LPM_BASE 4 1 r;
          r = write_reg CPUFREQ_BASE 0 300000 r;
          r = write_reg CPUFREQ_BASE 4 2840000 r;
          r = write_reg CPUFREQ_BASE 8 825000 r;
          r = write_reg THERMAL_BASE 0 70000 r;
          r = write_reg THERMAL_BASE 4 85000 r
      in (0, s\<lparr>pw_regs := r\<rparr>))"

definition mobile_suspend :: "power_t \<Rightarrow> power_t" where
  "mobile_suspend s =
     (if suspended s then s
      else s\<lparr>pw_regs := write_reg LPM_BASE 0x10 1 (pm8150_charger_enable False (mdss_panel_off (pw_regs s))), suspended := True\<rparr>)"

definition mobile_resume :: "power_t \<Rightarrow> power_t" where
  "mobile_resume s =
     (if \<not> suspended s then s
      else s\<lparr>pw_regs := mdss_set_brightness 128 (mdss_panel_on (pm8150_charger_enable True (write_reg LPM_BASE 0x10 0 (pw_regs s)))),
             suspended := False\<rparr>)"

definition mobile_set_cpufreq :: "u32 \<Rightarrow> power_t \<Rightarrow> int \<times> power_t" where
  "mobile_set_cpufreq khz s =
     (let khz = (if khz < 300000 then 300000 else khz);
          khz = (if khz > 2840000 then 2840000 else khz)
      in (0, s\<lparr>pw_regs := write_reg CPUFREQ_BASE 0x100 khz (pw_regs s)\<rparr>))"

definition mobile_get_temp :: "power_t \<Rightarrow> int" where
  "mobile_get_temp s = sint (read_reg THERMAL_BASE 0x100 (pw_regs s))"

definition mobile_cool_down :: "power_t \<Rightarrow> power_t" where
  "mobile_cool_down s =
     (if mobile_get_temp s > 70000
      then (let s = snd (mobile_set_cpufreq 300000 s) in s\<lparr>pw_regs := mdss_set_brightness 64 (pw_regs s)\<rparr>)
      else s)"

section \<open>Registers never leave their ranges\<close>

lemma read_write [simp]: "read_reg b f (write_reg b' f' v r) = (if b + ucast f = b' + ucast f' then v else read_reg b f r)"
  by (simp add: read_reg_def write_reg_def)

lemma set_cpufreq_range:
  "read_reg CPUFREQ_BASE 0x100 (pw_regs (snd (mobile_set_cpufreq khz s))) \<in> {300000..2840000}"
  by (auto simp: mobile_set_cpufreq_def Let_def)

lemma set_brightness_range: "read_reg (SM8250_PMIC_BASE + 0x5000) 0 (mdss_set_brightness level r) \<le> 255"
  by (simp add: mdss_set_brightness_def not_less)

text \<open>Resuming after a suspend turns the panel on and restores brightness 128, whatever it was.\<close>

lemma suspend_resume:
  assumes "\<not> suspended s"
  shows "\<not> suspended (mobile_resume (mobile_suspend s))"
    "read_reg SM8250_DISPLAY_BASE MDSS_CTRL (pw_regs (mobile_resume (mobile_suspend s))) = 1"
    "read_reg (SM8250_PMIC_BASE + 0x5000) 0 (pw_regs (mobile_resume (mobile_suspend s))) = 128"
  using assms by (simp_all add: mobile_suspend_def mobile_resume_def mdss_set_brightness_def mdss_panel_on_def)

end
