(* ===== verification/DisplayFb.thy ===== *)
theory DisplayFb
  imports Sm8250
begin

text \<open>
  The framebuffer \<^verbatim>\<open>kernel/bsp/sm8250/drivers/display_fb.c\<close> and the boot animation of \<^verbatim>\<open>drivers/init.c\<close>. The
  framebuffer is memory as 32-bit cells at their addresses; coordinates, sizes and address
  arithmetic are 32-bit words and wrap as in the source.
\<close>

abbreviation FB_WIDTH :: u32 where "FB_WIDTH \<equiv> 1080"
abbreviation FB_HEIGHT :: u32 where "FB_HEIGHT \<equiv> 2340"
abbreviation FB_BPP :: u32 where "FB_BPP \<equiv> 32"
abbreviation FB_STRIDE :: u32 where "FB_STRIDE \<equiv> 4320"
abbreviation FB_SIZE :: u32 where "FB_SIZE \<equiv> 10108800"
abbreviation FB_ADDR :: u32 where "FB_ADDR \<equiv> 0x9D000000"

record fb_t =
  fb_regs :: regs
  fb_mem :: "u32 \<Rightarrow> u32"
  fb_ready :: bool

definition display_fb_init :: "fb_t \<Rightarrow> int \<times> fb_t" where
  "display_fb_init s =
     (let r = fb_regs s;
          r = write_reg SM8250_DISPLAY_BASE MDSS_MDP_CTRL 1 r;
          r = write_reg SM8250_DISPLAY_BASE MDSS_INTF_CTRL (push_bit 16 FB_WIDTH OR FB_HEIGHT) r;
          r = write_reg SM8250_DISPLAY_BASE MDSS_DSI0_CTRL 1 r;
          r = write_reg SM8250_DISPLAY_BASE 0x2000 FB_ADDR r;
          r = write_reg SM8250_DISPLAY_BASE 0x2004 FB_STRIDE r;
          r = write_reg SM8250_DISPLAY_BASE 0x2008 (FB_BPP div 8) r
      in (0, s\<lparr>fb_regs := r, fb_mem := (\<lambda>a. if a - FB_ADDR < FB_SIZE then 0 else fb_mem s a), fb_ready := True\<rparr>))"

definition display_fb_get_info :: "fb_t \<Rightarrow> int \<times> (u32 \<times> u32 \<times> u32 \<times> u32) option" where
  "display_fb_get_info s = (if \<not> fb_ready s then (-1, None) else (0, Some (FB_WIDTH, FB_HEIGHT, FB_BPP, FB_ADDR)))"

definition display_fb_flush :: "fb_t \<Rightarrow> fb_t" where
  "display_fb_flush s = s\<lparr>fb_regs := write_reg SM8250_DISPLAY_BASE 0x2010 1 (fb_regs s)\<rparr>"

definition pixel_addr :: "u32 \<Rightarrow> u32 \<Rightarrow> u32" where
  "pixel_addr x y = FB_ADDR + y * FB_STRIDE + x * 4"

definition display_fb_set_pixel :: "u32 \<Rightarrow> u32 \<Rightarrow> u32 \<Rightarrow> fb_t \<Rightarrow> fb_t" where
  "display_fb_set_pixel x y color s =
     (if x \<ge> FB_WIDTH \<or> y \<ge> FB_HEIGHT then s else s\<lparr>fb_mem := (fb_mem s)(pixel_addr x y := color)\<rparr>)"

function fill_row :: "u32 \<Rightarrow> u32 \<Rightarrow> u32 \<Rightarrow> u32 \<Rightarrow> fb_t \<Rightarrow> fb_t" where
  "fill_row col stop row color s =
     (if col < stop \<and> col < FB_WIDTH then fill_row (col + 1) stop row color (display_fb_set_pixel col row color s) else s)"
  by pat_completeness auto
termination
proof (relation "measure (\<lambda>(col, stop, row, color, s). 1080 - unat col)", goal_cases)
  case (2 col stop row color s)
  then have "unat col < 1080" by (simp add: word_less_nat_alt)
  then show ?case by (simp add: unat_word_ariths)
qed simp

declare fill_row.simps [simp del]

function fill_rows :: "u32 \<Rightarrow> u32 \<Rightarrow> u32 \<Rightarrow> u32 \<Rightarrow> u32 \<Rightarrow> fb_t \<Rightarrow> fb_t" where
  "fill_rows row stop x w color s =
     (if row < stop \<and> row < FB_HEIGHT then fill_rows (row + 1) stop x w color (fill_row x (x + w) row color s) else s)"
  by pat_completeness auto
termination
proof (relation "measure (\<lambda>(row, stop, x, w, color, s). 2340 - unat row)", goal_cases)
  case (2 row stop x w color s)
  then have "unat row < 2340" by (simp add: word_less_nat_alt)
  then show ?case by (simp add: unat_word_ariths)
qed simp

declare fill_rows.simps [simp del]

definition display_fb_fill_rect :: "u32 \<Rightarrow> u32 \<Rightarrow> u32 \<Rightarrow> u32 \<Rightarrow> u32 \<Rightarrow> fb_t \<Rightarrow> fb_t" where
  "display_fb_fill_rect x y w h color s = fill_rows y (y + h) x w color s"

definition mobile_boot_animation :: "fb_t \<Rightarrow> fb_t" where
  "mobile_boot_animation s =
     (case display_fb_get_info s of
        (r, None) \<Rightarrow> s
      | (r, Some (w, h, bpp, addr)) \<Rightarrow>
          let s = display_fb_fill_rect 0 0 w h 0x000000 s;
              s = display_fb_fill_rect 0 0 w 48 0x1A1A2E s;
              s = fold (\<lambda>i. display_fb_fill_rect (w div 2 - 64) (h div 2 - 32 + of_nat i) 128 1 0x00BCD4) [0..<64] s;
              s = display_fb_fill_rect 0 (h - 48) w 48 0x1A1A2E s
          in display_fb_flush s)"

section \<open>Exactly the clipped rectangle is painted\<close>

text \<open>The coordinates of a side from \<open>lo\<close> to \<open>stop\<close> that are on a screen side of \<open>lim\<close> pixels.\<close>

definition span :: "u32 \<Rightarrow> u32 \<Rightarrow> u32 \<Rightarrow> u32 set" where
  "span lo stop lim = {c. lo \<le> c \<and> c < stop \<and> c < lim}"

lemma span_step:
  assumes "a < b" "a < m"
  shows "span a b m = insert a (span (a + 1) b m)"
proof -
  have "unat (a + 1) = unat a + 1"
    using assms(1) unsigned_less [of b, where ?'a = nat] by (simp add: word_less_nat_alt unat_word_ariths)
  then have "a + 1 \<le> c \<longleftrightarrow> a \<le> c \<and> c \<noteq> a" for c by (auto simp: word_le_nat_alt word_unat_eq_iff)
  with assms show ?thesis by (auto simp: span_def)
qed

lemma span_empty: "\<not> (a < b \<and> a < m) \<Longrightarrow> span a b m = {}"
  by (force simp: span_def)

lemma fill_row_mem:
  assumes "row < FB_HEIGHT"
  shows "fb_mem (fill_row col stop row color s) a =
      (if a \<in> (\<lambda>c. pixel_addr c row) ` span col stop FB_WIDTH then color else fb_mem s a)"
  using assms
proof (induction col stop row color s rule: fill_row.induct)
  case (1 col stop row color s)
  show ?case
  proof (cases "col < stop \<and> col < FB_WIDTH")
    case True
    then have e: "fill_row col stop row color s = fill_row (col + 1) stop row color (display_fb_set_pixel col row color s)"
      by (subst fill_row.simps) simp
    have "\<not> FB_WIDTH \<le> col" "\<not> FB_HEIGHT \<le> row" using True "1.prems" by auto
    then have p: "display_fb_set_pixel col row color s = s\<lparr>fb_mem := (fb_mem s)(pixel_addr col row := color)\<rparr>"
      by (simp add: display_fb_set_pixel_def)
    show ?thesis
      unfolding e "1.IH" [OF True "1.prems"] span_step [OF conjunct1 [OF True] conjunct2 [OF True]] by (simp add: p)
  next
    case False
    then have "fill_row col stop row color s = s" by (subst fill_row.simps) auto
    then show ?thesis by (simp add: span_empty [OF False])
  qed
qed

lemma fill_rows_mem:
  "fb_mem (fill_rows row stop x w color s) a =
     (if a \<in> (\<Union>r \<in> span row stop FB_HEIGHT. (\<lambda>c. pixel_addr c r) ` span x (x + w) FB_WIDTH) then color else fb_mem s a)"
proof (induction row stop x w color s rule: fill_rows.induct)
  case (1 row stop x w color s)
  show ?case
  proof (cases "row < stop \<and> row < FB_HEIGHT")
    case True
    then have e: "fill_rows row stop x w color s = fill_rows (row + 1) stop x w color (fill_row x (x + w) row color s)"
      by (subst fill_rows.simps) simp
    show ?thesis
      unfolding e "1.IH" [OF True] span_step [OF conjunct1 [OF True] conjunct2 [OF True]]
        fill_row_mem [OF conjunct2 [OF True]] by simp
  next
    case False
    then have "fill_rows row stop x w color s = s" by (subst fill_rows.simps) auto
    then show ?thesis by (simp add: span_empty [OF False])
  qed
qed

lemma pixel_addr_inside:
  assumes "x < FB_WIDTH" "y < FB_HEIGHT"
  shows "unat (pixel_addr x y) = 0x9D000000 + unat y * 4320 + unat x * 4" "pixel_addr x y - FB_ADDR < FB_SIZE"
proof -
  have u: "unat x < 1080" "unat y < 2340" using assms by (simp_all add: word_less_nat_alt)
  then show a: "unat (pixel_addr x y) = 0x9D000000 + unat y * 4320 + unat x * 4"
    by (simp add: pixel_addr_def unat_word_ariths)
  have "FB_ADDR \<le> pixel_addr x y" unfolding word_le_nat_alt a by simp
  then have "unat (pixel_addr x y - FB_ADDR) = unat y * 4320 + unat x * 4" by (simp add: unat_sub a)
  then show "pixel_addr x y - FB_ADDR < FB_SIZE" using u unfolding word_less_nat_alt by simp
qed



end
