(* ===== verification/Rtc.thy ===== *)
theory Rtc
  imports Sm8250
begin

text \<open>
  The real-time clock \<^verbatim>\<open>kernel/bsp/sm8250/drivers/rtc.c\<close>: conversion between dates and seconds since
  1970, and the clock's registers. C's \<^verbatim>\<open>int\<close> arithmetic on years and days is integer arithmetic
  (the years stay below \<open>2^31\<close> for every epoch below \<open>2^55\<close>), the accumulators are 64-bit words,
  and the fields of a time have their widths. Months above 13 make the source read past its
  table of month lengths; the model says nothing about them.
\<close>

abbreviation RTC_BASE :: u64 where "RTC_BASE \<equiv> SM8250_PMIC_BASE + 0x6000"
abbreviation RTC_TIME_LOW :: u32 where "RTC_TIME_LOW \<equiv> 0"
abbreviation RTC_TIME_HIGH :: u32 where "RTC_TIME_HIGH \<equiv> 4"
abbreviation RTC_ALARM_LOW :: u32 where "RTC_ALARM_LOW \<equiv> 8"
abbreviation RTC_ALARM_HIGH :: u32 where "RTC_ALARM_HIGH \<equiv> 0xC"
abbreviation RTC_CTRL :: u32 where "RTC_CTRL \<equiv> 0x10"

record rtc_time_t =
  rt_year :: u16
  rt_month :: u8
  rt_day :: u8
  rt_hour :: u8
  rt_minute :: u8
  rt_second :: u8

record rtc_t =
  rtc_regs :: regs
  rtc_initialized :: bool
  rtc_offset :: u64

definition is_leap :: "nat \<Rightarrow> bool" where
  "is_leap y \<longleftrightarrow> (y mod 4 = 0 \<and> y mod 100 \<noteq> 0) \<or> y mod 400 = 0"

definition month_days :: "nat list" where
  "month_days = [31, 28, 31, 30, 31, 30, 31, 31, 30, 31, 30, 31]"

definition days_in_month :: "nat \<Rightarrow> nat \<Rightarrow> nat" where
  "days_in_month y m = (if m = 2 \<and> is_leap y then 29 else month_days ! (m - 1))"

text \<open>\<^verbatim>\<open>(y - 1970) * 365 + (y - 1969) / 4\<close> is an \<^verbatim>\<open>int\<close>, negative for years before 1969, and then widened;
  division truncates towards 0.\<close>

definition year_days :: "u16 \<Rightarrow> u64" where
  "year_days year =
     (let y = int (unat year); q = (if y < 1969 then - ((1969 - y) div 4) else (y - 1969) div 4)
      in word_of_int ((y - 1970) * 365 + q))"

definition time_to_epoch :: "rtc_time_t \<Rightarrow> u64" where
  "time_to_epoch t =
     (let y = unat (rt_year t);
          m = unat (rt_month t);
          days = foldl (\<lambda>d i. d + of_nat (days_in_month y i)) (year_days (rt_year t)) [1..<m];
          days = days + word_of_int (int (unat (rt_day t)) - 1)
      in days * 86400 + of_nat (unat (rt_hour t) * 3600) + of_nat (unat (rt_minute t) * 60) + of_nat (unat (rt_second t)))"

abbreviation year_length :: "nat \<Rightarrow> nat" where
  "year_length y \<equiv> if is_leap y then 366 else 365"

text \<open>The year loop: it ends since each round takes at least 365 days from the rest.\<close>

function year_loop :: "u64 \<Rightarrow> nat \<Rightarrow> u64 \<times> nat" where
  "year_loop epoch y =
     (let d = of_nat (year_length y) * 86400 in if epoch < d then (epoch, y) else year_loop (epoch - d) (y + 1))"
  by pat_completeness auto
termination
proof (relation "measure (\<lambda>(epoch, y). unat epoch)", goal_cases)
  case (2 epoch y d)
  then have "d \<le> epoch" "0 < d" by (auto simp: not_less)
  then show ?case by (simp add: word_le_nat_alt word_less_nat_alt unat_sub)
qed simp

declare year_loop.simps [simp del]

text \<open>The month loop. If no month is found, the month field keeps the value it had.\<close>

fun month_loop :: "nat list \<Rightarrow> nat \<Rightarrow> u64 \<Rightarrow> u64 \<times> nat option" where
  "month_loop [] y epoch = (epoch, None)"
| "month_loop (m # ms) y epoch =
     (let d = of_nat (days_in_month y m) * 86400 in if epoch < d then (epoch, Some m) else month_loop ms y (epoch - d))"

definition epoch_to_time :: "u64 \<Rightarrow> rtc_time_t \<Rightarrow> rtc_time_t" where
  "epoch_to_time epoch t =
     (let (epoch, y) = year_loop epoch 1970;
          (epoch, m) = month_loop [1..<13] y epoch;
          day = (ucast (epoch div 86400) :: u8) + 1;
          epoch = epoch mod 86400;
          hour = ucast (epoch div 3600);
          epoch = epoch mod 3600
      in \<lparr>rt_year = of_nat y, rt_month = (case m of None \<Rightarrow> rt_month t | Some k \<Rightarrow> of_nat k), rt_day = day, rt_hour = hour,
          rt_minute = ucast (epoch div 60), rt_second = ucast (epoch mod 60)\<rparr>)"

section \<open>The clock\<close>

definition reg_pair :: "u32 \<Rightarrow> u32 \<Rightarrow> u64" where
  "reg_pair high low = push_bit 32 (ucast high) OR ucast low"

definition rtc_init :: "rtc_t \<Rightarrow> int \<times> rtc_t" where
  "rtc_init s =
     (let r = write_reg RTC_BASE RTC_CTRL 1 (rtc_regs s);
          low = read_reg RTC_BASE RTC_TIME_LOW r;
          high = read_reg RTC_BASE RTC_TIME_HIGH r
      in (0, s\<lparr>rtc_regs := r, rtc_offset := (if low \<noteq> 0 \<or> high \<noteq> 0 then reg_pair high low else rtc_offset s),
               rtc_initialized := True\<rparr>))"

definition rtc_get_epoch :: "rtc_t \<Rightarrow> u64" where
  "rtc_get_epoch s =
     (if \<not> rtc_initialized s then 0
      else reg_pair (read_reg RTC_BASE RTC_TIME_HIGH (rtc_regs s)) (read_reg RTC_BASE RTC_TIME_LOW (rtc_regs s)))"

definition rtc_set_epoch :: "u64 \<Rightarrow> rtc_t \<Rightarrow> rtc_t" where
  "rtc_set_epoch epoch s =
     s\<lparr>rtc_offset := epoch,
       rtc_regs := write_reg RTC_BASE RTC_TIME_HIGH (ucast (drop_bit 32 epoch))
                     (write_reg RTC_BASE RTC_TIME_LOW (ucast (epoch AND 0xFFFFFFFF)) (rtc_regs s))\<rparr>"

definition rtc_get_time :: "rtc_time_t \<Rightarrow> rtc_t \<Rightarrow> rtc_time_t" where
  "rtc_get_time t s = epoch_to_time (rtc_get_epoch s) t"

definition rtc_set_time :: "rtc_time_t \<Rightarrow> rtc_t \<Rightarrow> rtc_t" where
  "rtc_set_time t s = rtc_set_epoch (time_to_epoch t) s"

definition rtc_set_alarm :: "u64 \<Rightarrow> rtc_t \<Rightarrow> rtc_t" where
  "rtc_set_alarm epoch s =
     s\<lparr>rtc_regs := write_reg RTC_BASE RTC_ALARM_HIGH (ucast (drop_bit 32 epoch))
         (write_reg RTC_BASE RTC_ALARM_LOW (ucast (epoch AND 0xFFFFFFFF)) (rtc_regs s))\<rparr>"

section \<open>The calendar\<close>

text \<open>The reference: days from 1970 to the start of a year and of a month, counted year by year.\<close>

definition days_before_year :: "nat \<Rightarrow> nat" where
  "days_before_year y = (\<Sum>k\<in>{1970..<y}. year_length k)"

definition days_before_month :: "nat \<Rightarrow> nat \<Rightarrow> nat" where
  "days_before_month y m = (\<Sum>i\<leftarrow>[1..<m]. days_in_month y i)"

definition epoch_spec :: "rtc_time_t \<Rightarrow> nat" where
  "epoch_spec t = (days_before_year (unat (rt_year t)) + days_before_month (unat (rt_year t)) (unat (rt_month t))
     + (unat (rt_day t) - 1)) * 86400 + unat (rt_hour t) * 3600 + unat (rt_minute t) * 60 + unat (rt_second t)"

definition valid_time :: "rtc_time_t \<Rightarrow> bool" where
  "valid_time t \<longleftrightarrow> 1970 \<le> unat (rt_year t) \<and> unat (rt_year t) \<le> 2100 \<and> 1 \<le> unat (rt_month t) \<and> unat (rt_month t) \<le> 12
     \<and> 1 \<le> unat (rt_day t) \<and> unat (rt_day t) \<le> days_in_month (unat (rt_year t)) (unat (rt_month t))
     \<and> unat (rt_hour t) < 24 \<and> unat (rt_minute t) < 60 \<and> unat (rt_second t) < 60"

lemma days_before_year_Suc: "1970 \<le> y \<Longrightarrow> days_before_year (Suc y) = days_before_year y + year_length y"
  by (simp add: days_before_year_def)

lemma leap_in_range: "1970 \<le> y \<Longrightarrow> y < 2100 \<Longrightarrow> is_leap y \<longleftrightarrow> y mod 4 = 0"
proof -
  assume "1970 \<le> y" "y < 2100"
  then have "y mod 100 = 0 \<Longrightarrow> y = 2000" by presburger
  then show ?thesis by (cases "y = 2000") (auto simp: is_leap_def)
qed

text \<open>The closed formula of the source agrees with the count up to 2100.\<close>

lemma closed_formula: "1970 \<le> y \<Longrightarrow> y \<le> 2100 \<Longrightarrow> days_before_year y = (y - 1970) * 365 + (y - 1969) div 4"
proof (induction y rule: nat_induct_at_least)
  case base
  then show ?case by (simp add: days_before_year_def)
next
  case (Suc y)
  have l: "is_leap y \<longleftrightarrow> y mod 4 = 0" using leap_in_range [of y] Suc by simp
  define w where "w = y - 1969"
  have y: "y = Suc w + 4 * 492" using Suc.hyps by (simp add: w_def)
  then have m: "y mod 4 = Suc w mod 4" by (simp only: mod_mult_self2)
  have "Suc y - 1969 = Suc w" "y - 1969 = w" using y by simp_all
  then have "(Suc y - 1969) div 4 = (y - 1969) div 4 + (if y mod 4 = 0 then 1 else 0)" by (simp add: div_Suc m)
  moreover have "(Suc y - 1970) * 365 = (y - 1970) * 365 + 365" using Suc.hyps by (simp add: Suc_diff_le)
  ultimately show ?case using Suc l by (simp add: days_before_year_Suc)
qed

lemma foldl_of_nat: "foldl (\<lambda>d i. d + of_nat (f i)) a xs = a + (of_nat (sum_list (map f xs)) :: u64)"
  by (induction xs arbitrary: a) simp_all

lemma time_to_epoch_spec:
  assumes "valid_time t"
  shows "time_to_epoch t = of_nat (epoch_spec t)"
proof -
  let ?y = "unat (rt_year t)" and ?m = "unat (rt_month t)"
  have y: "1970 \<le> ?y" "?y \<le> 2100" and d: "1 \<le> unat (rt_day t)" using assms by (simp_all add: valid_time_def)
  have "(int ?y - 1970) * 365 + (int ?y - 1969) div 4 = int ((?y - 1970) * 365 + (?y - 1969) div 4)"
    using y by (simp add: of_nat_diff zdiv_int)
  then have "year_days (rt_year t) = word_of_int (int (days_before_year ?y))"
    unfolding closed_formula [OF y] using y by (simp add: year_days_def Let_def)
  moreover have "word_of_int (int (unat (rt_day t)) - 1) = (of_nat (unat (rt_day t) - 1) :: u64)" using d by (simp add: of_nat_diff)
  ultimately show ?thesis
    by (simp add: time_to_epoch_def epoch_spec_def foldl_of_nat days_before_month_def Let_def)
qed

lemma of_nat_less_u64: "a < 2 ^ 64 \<Longrightarrow> b < 2 ^ 64 \<Longrightarrow> (of_nat a < (of_nat b :: u64)) = (a < b)"
  by (simp add: word_less_nat_alt unat_of_nat take_bit_nat_eq_self)

lemma year_loop_at:
  assumes "rest < year_length y * 86400" "y0 \<le> y" "(\<Sum>k\<in>{y0..<y}. year_length k) * 86400 + rest < 2 ^ 64"
  shows "year_loop (of_nat ((\<Sum>k\<in>{y0..<y}. year_length k) * 86400 + rest)) y0 = (of_nat rest, y)"
  using assms
proof (induction "y - y0" arbitrary: y0)
  case 0
  then have "y0 = y" by simp
  have e: "(of_nat (year_length y) * 86400 :: u64) = of_nat (year_length y * 86400)" by simp
  have "of_nat rest < (of_nat (year_length y * 86400) :: u64)" using 0 by (subst of_nat_less_u64) auto
  then show ?case unfolding \<open>y0 = y\<close> by (subst year_loop.simps) (simp only: e Let_def, simp)
next
  case (Suc n)
  let ?r = "(\<Sum>k\<in>{Suc y0..<y}. year_length k) * 86400 + rest"
  have y: "y0 < y" "n = y - Suc y0" using Suc.hyps(2) by simp_all
  have sum: "(\<Sum>k\<in>{y0..<y}. year_length k) * 86400 + rest = year_length y0 * 86400 + ?r"
    using y(1) by (simp add: sum.atLeast_Suc_lessThan)
  have e: "(of_nat (year_length y0) * 86400 :: u64) = of_nat (year_length y0 * 86400)" by simp
  have "\<not> of_nat (year_length y0 * 86400 + ?r) < (of_nat (year_length y0 * 86400) :: u64)"
    using Suc.prems(3) sum by (subst of_nat_less_u64) auto
  then have "year_loop (of_nat (year_length y0 * 86400 + ?r)) y0 = year_loop (of_nat ?r) (Suc y0)"
    by (subst year_loop.simps) (simp only: e Let_def, simp)
  moreover have "year_loop (of_nat ?r) (Suc y0) = (of_nat rest, y)"
    using Suc.hyps(1) [OF y(2) Suc.prems(1)] y(1) Suc.prems(3) sum by linarith
  ultimately show ?case unfolding sum by simp
qed

lemma month_loop_at:
  assumes "rest < days_in_month y m * 86400" "m0 \<le> m" "m < 13" "(\<Sum>i\<leftarrow>[m0..<m]. days_in_month y i) * 86400 + rest < 2 ^ 64"
    "days_in_month y m \<le> 31"
  shows "month_loop [m0..<13] y (of_nat ((\<Sum>i\<leftarrow>[m0..<m]. days_in_month y i) * 86400 + rest)) = (of_nat rest, Some m)"
  using assms(1-4)
proof (induction "m - m0" arbitrary: m0)
  case 0
  then have m: "m0 = m" by simp
  have e: "(of_nat (days_in_month y m) * 86400 :: u64) = of_nat (days_in_month y m * 86400)" by simp
  have "of_nat rest < (of_nat (days_in_month y m * 86400) :: u64)" using 0 assms(5) by (subst of_nat_less_u64) auto
  then show ?case unfolding m using 0(4) by (simp only: upt_conv_Cons month_loop.simps e Let_def) simp
next
  case (Suc n)
  let ?r = "(\<Sum>i\<leftarrow>[Suc m0..<m]. days_in_month y i) * 86400 + rest"
  have m: "m0 < m" "n = m - Suc m0" using Suc.hyps(2) by simp_all
  have sum: "(\<Sum>i\<leftarrow>[m0..<m]. days_in_month y i) * 86400 + rest = days_in_month y m0 * 86400 + ?r"
    using m(1) by (simp add: upt_conv_Cons)
  have e: "(of_nat (days_in_month y m0) * 86400 :: u64) = of_nat (days_in_month y m0 * 86400)" by simp
  have "\<not> of_nat (days_in_month y m0 * 86400 + ?r) < (of_nat (days_in_month y m0 * 86400) :: u64)"
    using Suc.prems(4) sum by (subst of_nat_less_u64) auto
  moreover have "[m0..<13] = m0 # [Suc m0..<13]" using m(1) Suc.prems(3) by (simp add: upt_conv_Cons)
  ultimately have "month_loop [m0..<13] y (of_nat (days_in_month y m0 * 86400 + ?r)) = month_loop [Suc m0..<13] y (of_nat ?r)"
    by (simp only: month_loop.simps e Let_def) simp
  moreover have "month_loop [Suc m0..<13] y (of_nat ?r) = (of_nat rest, Some m)"
    using Suc.hyps(1) [OF m(2) Suc.prems(1) _ Suc.prems(3)] m(1) Suc.prems(4) sum by linarith
  ultimately show ?case unfolding sum by simp
qed

lemma days_in_month_le: "1 \<le> m \<Longrightarrow> m \<le> 12 \<Longrightarrow> days_in_month y m \<le> 31"
proof -
  assume "1 \<le> m" "m \<le> 12"
  then have "m - 1 < length month_days" by (simp add: month_days_def)
  moreover have "\<forall>d\<in>set month_days. d \<le> 31" by (simp add: month_days_def)
  ultimately have "month_days ! (m - 1) \<le> 31" by simp
  then show ?thesis by (simp add: days_in_month_def)
qed

text \<open>The months of a year add up to it, so a valid date lies inside its year.\<close>

lemma month_inside_year:
  assumes "1 \<le> m" "m \<le> 12"
  shows "days_before_month y m + days_in_month y m \<le> year_length y"
proof -
  have "m = 1 \<or> m = 2 \<or> m = 3 \<or> m = 4 \<or> m = 5 \<or> m = 6 \<or> m = 7 \<or> m = 8 \<or> m = 9 \<or> m = 10 \<or> m = 11 \<or> m = 12"
    using assms by presburger
  then show ?thesis
    by (elim disjE) (simp_all add: days_before_month_def days_in_month_def month_days_def upt_conv_Cons)
qed

lemma split_seconds:
  assumes "h < 24" "mi < 60" "s < (60 :: nat)"
  shows "(d * 86400 + h * 3600 + mi * 60 + s) div 86400 = d" "(d * 86400 + h * 3600 + mi * 60 + s) mod 86400 = h * 3600 + mi * 60 + s"
    "(h * 3600 + mi * 60 + s) div 3600 = h" "(h * 3600 + mi * 60 + s) mod 3600 = mi * 60 + s"
    "(mi * 60 + s) div 60 = mi" "(mi * 60 + s) mod 60 = s"
proof -
  have a: "h * 3600 + mi * 60 + s < 86400" "mi * 60 + s < 3600" using assms by linarith+
  show "(d * 86400 + h * 3600 + mi * 60 + s) div 86400 = d" "(d * 86400 + h * 3600 + mi * 60 + s) mod 86400 = h * 3600 + mi * 60 + s"
    using a(1) by (simp_all add: add.assoc)
  show "(h * 3600 + mi * 60 + s) div 3600 = h" "(h * 3600 + mi * 60 + s) mod 3600 = mi * 60 + s"
    using a(2) by (simp_all add: add.assoc)
  show "(mi * 60 + s) div 60 = mi" "(mi * 60 + s) mod 60 = s" using assms(3) by simp_all
qed

lemma u64_div: "a < 2 ^ 64 \<Longrightarrow> b < 2 ^ 64 \<Longrightarrow> of_nat a div (of_nat b :: u64) = of_nat (a div b)"
  "a < 2 ^ 64 \<Longrightarrow> b < 2 ^ 64 \<Longrightarrow> of_nat a mod (of_nat b :: u64) = of_nat (a mod b)"
proof -
  assume ab: "a < 2 ^ 64" "b < 2 ^ 64"
  have "a div b \<le> a" "a mod b \<le> a" by simp_all
  with ab have "a div b < 2 ^ 64" "a mod b < 2 ^ 64" by linarith+
  with ab show "of_nat a div (of_nat b :: u64) = of_nat (a div b)" "of_nat a mod (of_nat b :: u64) = of_nat (a mod b)"
    by (simp_all add: word_unat_eq_iff unat_div_distrib unat_mod_distrib unat_of_nat take_bit_nat_eq_self)
qed

lemma epoch_spec_less: "valid_time t \<Longrightarrow> epoch_spec t < 2 ^ 40"
proof -
  assume v: "valid_time t"
  let ?y = "unat (rt_year t)" and ?m = "unat (rt_month t)"
  have "days_before_year ?y \<le> 130 * 365 + 131 div 4"
  proof -
    have "?y - 1970 \<le> 130" "?y - 1969 \<le> 131" using v unfolding valid_time_def by linarith+
    moreover from this(2) have "(?y - 1969) div 4 \<le> 131 div 4" by (rule div_le_mono)
    moreover have "days_before_year ?y = (?y - 1970) * 365 + (?y - 1969) div 4" using v closed_formula by (simp add: valid_time_def)
    ultimately show ?thesis by linarith
  qed
  moreover have "days_before_month ?y ?m + days_in_month ?y ?m \<le> 366"
    using v month_inside_year [of ?m ?y] by (auto simp: valid_time_def split: if_splits)
  moreover have "unat (rt_day t) - 1 \<le> days_in_month ?y ?m" "unat (rt_hour t) < 24" "unat (rt_minute t) < 60" "unat (rt_second t) < 60"
    using v unfolding valid_time_def by linarith+
  ultimately show ?thesis unfolding epoch_spec_def by simp
qed

lemma ucast_of_nat_u8: "ucast (of_nat n :: u64) = (of_nat n :: u8)"
  by (simp add: word_unat_eq_iff unsigned_ucast_eq unat_of_nat take_bit_nat_def mod_mod_cancel)

lemma reg_pair_halves: "reg_pair (ucast (drop_bit 32 x)) (ucast (x AND 0xFFFFFFFF)) = x"
proof (rule bit_word_eqI)
  fix n
  assume "n < LENGTH(64)"
  have m: "(0xFFFFFFFF :: u64) = mask 32" by (simp add: mask_eq_exp_minus_1)
  show "bit (reg_pair (ucast (drop_bit 32 x)) (ucast (x AND 0xFFFFFFFF))) n = bit x n"
    using \<open>n < LENGTH(64)\<close> unfolding reg_pair_def m by (auto simp: bit_simps)
qed

lemma get_set_epoch: "rtc_initialized s \<Longrightarrow> rtc_get_epoch (rtc_set_epoch x s) = x"
  by (simp add: rtc_get_epoch_def rtc_set_epoch_def reg_pair_halves)

lemma epoch_to_time_spec:
  assumes v: "valid_time t"
  shows "epoch_to_time (of_nat (epoch_spec t)) t0 = t"
proof -
  let ?y = "unat (rt_year t)" and ?m = "unat (rt_month t)" and ?d = "unat (rt_day t) - 1"
  let ?h = "unat (rt_hour t)" and ?mi = "unat (rt_minute t)" and ?s = "unat (rt_second t)"
  let ?r = "?d * 86400 + ?h * 3600 + ?mi * 60 + ?s"
  let ?q = "days_before_month ?y ?m * 86400 + ?r"
  have b: "1970 \<le> ?y" "1 \<le> ?m" "?m \<le> 12" "1 \<le> unat (rt_day t)" "unat (rt_day t) \<le> days_in_month ?y ?m" "?h < 24" "?mi < 60" "?s < 60"
    using v by (simp_all add: valid_time_def)
  have r: "?r < days_in_month ?y ?m * 86400"
  proof -
    have "?h * 3600 + ?mi * 60 + ?s < 86400" "?d + 1 \<le> days_in_month ?y ?m" using b by linarith+
    then have "?d * 86400 + 86400 \<le> days_in_month ?y ?m * 86400" by simp
    with \<open>?h * 3600 + ?mi * 60 + ?s < 86400\<close> show ?thesis by linarith
  qed
  have q: "?q < year_length ?y * 86400" using r month_inside_year [OF b(2,3), of ?y] by linarith
  have e: "epoch_spec t = (\<Sum>k\<in>{1970..<?y}. year_length k) * 86400 + ?q"
    by (simp add: epoch_spec_def days_before_year_def algebra_simps)
  have small: "epoch_spec t < 2 ^ 64" using epoch_spec_less [OF v] by simp
  have yl: "year_loop (of_nat (epoch_spec t)) 1970 = (of_nat ?q, ?y)"
    unfolding e using year_loop_at [OF q b(1)] small e by simp
  have ml: "month_loop [1..<13] ?y (of_nat ?q) = (of_nat ?r, Some ?m)"
    unfolding days_before_month_def
    using month_loop_at [OF r b(2)] b(3) days_in_month_le [OF b(2,3)] small e by (simp add: days_before_month_def)
  have rs: "?r < 2 ^ 64" using small e by simp
  let ?t1 = "?h * 3600 + ?mi * 60 + ?s" and ?t2 = "?mi * 60 + ?s"
  note sp = split_seconds(1,2) [OF b(6-8), of ?d] split_seconds(3-6) [OF b(6-8)]
  have s: "?t1 < 2 ^ 64" "?t2 < 2 ^ 64" using b by simp_all
  have w: "of_nat ?r div (86400 :: u64) = of_nat ?d" "of_nat ?r mod (86400 :: u64) = of_nat ?t1"
    "of_nat ?t1 div (3600 :: u64) = of_nat ?h" "of_nat ?t1 mod (3600 :: u64) = of_nat ?t2"
    "of_nat ?t2 div (60 :: u64) = of_nat ?mi" "of_nat ?t2 mod (60 :: u64) = of_nat ?s"
    using u64_div [OF rs, of 86400] u64_div [OF s(1), of 3600] u64_div [OF s(2), of 60] unfolding sp
    by (simp_all only: of_nat_numeral) simp_all
  have "of_nat ?d + (1 :: u8) = of_nat (?d + 1)" by simp
  then have day: "of_nat ?d + (1 :: u8) = rt_day t" using b(4) by simp
  show ?thesis
    unfolding epoch_to_time_def yl ml Let_def prod.case w ucast_of_nat_u8 day by simp
qed



text \<open>The closed formula takes 2100 for a leap year: from 2101 on dates are off by a day.\<close>

lemma closed_formula_2101: "days_before_year 2101 = (2101 - 1970) * 365 + (2101 - 1969) div 4 - 1"
  using days_before_year_Suc [of 2100] closed_formula [of 2100] by (simp add: is_leap_def)

end
