(* ===== verification/InputEv.thy ===== *)
theory InputEv
  imports Ring
begin

unbundle bit_operations_syntax

text \<open>
  The input subsystem (\<^verbatim>\<open>kernel/bsp/sm8250/drivers/input.c\<close>): a ring of 256 events fed by
  the touch screen and the buttons. The PMIC status register that
  \<^verbatim>\<open>input_check_buttons\<close> reads is an argument.
\<close>

abbreviation MAX_EVENTS :: nat where "MAX_EVENTS \<equiv> 256"

abbreviation INPUT_TOUCH_DOWN :: u32 where "INPUT_TOUCH_DOWN \<equiv> 1"
abbreviation INPUT_TOUCH_MOVE :: u32 where "INPUT_TOUCH_MOVE \<equiv> 2"
abbreviation INPUT_TOUCH_UP :: u32 where "INPUT_TOUCH_UP \<equiv> 3"
abbreviation INPUT_KEY_DOWN :: u32 where "INPUT_KEY_DOWN \<equiv> 4"
abbreviation INPUT_KEY_UP :: u32 where "INPUT_KEY_UP \<equiv> 5"

record input_event_t =
  ev_type :: u32
  ev_code :: u32
  ev_x :: "32 word"
  ev_y :: "32 word"
  ev_value :: "32 word"
  ev_timestamp :: u64

record input_t =
  event_queue :: "nat \<Rightarrow> input_event_t"
  event_head :: nat
  event_tail :: nat
  input_ready :: bool

definition zero_event :: input_event_t where
  "zero_event = \<lparr>ev_type = 0, ev_code = 0, ev_x = 0, ev_y = 0, ev_value = 0, ev_timestamp = 0\<rparr>"

text \<open>The static variables before any call.\<close>

definition input_static :: input_t where
  "input_static = \<lparr>event_queue = (\<lambda>_. zero_event), event_head = 0, event_tail = 0, input_ready = False\<rparr>"

definition input_init :: "input_t \<Rightarrow> int \<times> input_t" where
  "input_init s = (0, s\<lparr>input_ready := True\<rparr>)"

definition push_event :: "input_event_t \<Rightarrow> input_t \<Rightarrow> input_t" where
  "push_event ev s =
     (let next = (event_head s + 1) mod MAX_EVENTS in
      if next = event_tail s then s
      else s\<lparr>event_queue := (event_queue s)(event_head s := ev), event_head := next\<rparr>)"

definition input_read_event :: "input_t \<Rightarrow> (input_event_t \<times> input_t) option" where
  "input_read_event s =
     (if event_tail s = event_head s then None
      else Some (event_queue s (event_tail s), s\<lparr>event_tail := (event_tail s + 1) mod MAX_EVENTS\<rparr>))"

definition input_touch_event :: "u32 \<Rightarrow> u32 \<Rightarrow> u32 \<Rightarrow> input_t \<Rightarrow> input_t" where
  "input_touch_event type x y s =
     (if \<not> input_ready s then s
      else push_event \<lparr>ev_type = type, ev_code = 0, ev_x = x, ev_y = y,
             ev_value = (if type = INPUT_TOUCH_DOWN then 1 else if type = INPUT_TOUCH_UP then 0 else 0),
             ev_timestamp = 0\<rparr> s)"

definition key_event :: "u32 \<Rightarrow> bool \<Rightarrow> input_event_t" where
  "key_event keycode down =
     \<lparr>ev_type = (if down then INPUT_KEY_DOWN else INPUT_KEY_UP), ev_code = keycode,
      ev_x = 0, ev_y = 0, ev_value = (if down then 1 else 0), ev_timestamp = 0\<rparr>"

definition input_key_event :: "u32 \<Rightarrow> bool \<Rightarrow> input_t \<Rightarrow> input_t" where
  "input_key_event keycode down s =
     (if \<not> input_ready s then s else push_event (key_event keycode down) s)"

definition input_check_buttons :: "u32 \<Rightarrow> input_t \<Rightarrow> input_t" where
  "input_check_buttons pmic_sts s =
     (let s1 = (if pmic_sts AND 0x01 \<noteq> 0 then input_key_event 116 True s else s);
          s2 = (if pmic_sts AND 0x02 \<noteq> 0 then input_key_event 114 True s1 else s1)
      in if pmic_sts AND 0x04 \<noteq> 0 then input_key_event 115 True s2 else s2)"

definition input_poll :: "u32 \<Rightarrow> input_t \<Rightarrow> bool \<times> input_t" where
  "input_poll pmic_sts s =
     (let s' = input_check_buttons pmic_sts s in (event_head s' \<noteq> event_tail s', s'))"

section \<open>The event ring is a bounded queue\<close>

definition input_inv :: "input_t \<Rightarrow> bool" where
  "input_inv s \<longleftrightarrow> event_head s < MAX_EVENTS \<and> event_tail s < MAX_EVENTS"

definition input_events :: "input_t \<Rightarrow> input_event_t list" where
  "input_events s = ring_list MAX_EVENTS (event_queue s) (event_head s) (event_tail s)"

interpretation iq: bounded_queue input_inv input_events 255 push_event input_read_event
proof
  fix s ev
  assume inv: "input_inv s"
  then show "length (input_events s) \<le> 255"
    using ring_len_bound [of "event_head s" MAX_EVENTS "event_tail s"]
    by (simp add: input_inv_def input_events_def)
  from inv show "input_inv (push_event ev s)" by (simp add: input_inv_def push_event_def Let_def)
  have full: "Suc (event_head s) mod MAX_EVENTS = event_tail s \<longleftrightarrow> length (input_events s) = 255"
    using inv by (simp add: input_inv_def input_events_def ring_full_iff)
  show "input_events (push_event ev s) = input_events s @ [ev]" if "length (input_events s) < 255"
    using inv that full ring_list_put [of "event_head s" MAX_EVENTS "event_tail s"]
    by (simp add: push_event_def input_inv_def input_events_def Let_def)
  show "push_event ev s = s" if "length (input_events s) = 255"
    using full that by (simp add: push_event_def Let_def)
  show "input_read_event s = None" if "input_events s = []"
    using inv that by (simp add: input_read_event_def input_events_def input_inv_def ring_list_Nil_iff)
  show "\<exists>q'. input_read_event s = Some (ev, q') \<and> input_inv q' \<and> input_events q' = evs"
    if "input_events s = ev # evs" for evs
  proof -
    from that have "event_tail s \<noteq> event_head s" by (auto simp: input_events_def)
    with inv that show ?thesis
      using ring_list_get [of "event_head s" MAX_EVENTS "event_tail s" "event_queue s"]
      by (simp add: input_read_event_def input_events_def input_inv_def)
  qed
qed

text \<open>The events a button scan reports, in the order of the code's tests.\<close>

definition button_events :: "u32 \<Rightarrow> input_event_t list" where
  "button_events sts = map (\<lambda>(b, code). key_event code True)
     (filter (\<lambda>(b, code). bit sts b) [(0, 116), (1, 114), (2, 115)])"

lemma and_mask_bit: "(w :: u32) AND 1 \<noteq> 0 \<longleftrightarrow> bit w 0" "w AND 2 \<noteq> 0 \<longleftrightarrow> bit w 1" "w AND 4 \<noteq> 0 \<longleftrightarrow> bit w 2"
  using and_exp_eq_0_iff_not_bit [of w 0] and_exp_eq_0_iff_not_bit [of w 1]
    and_exp_eq_0_iff_not_bit [of w 2]
  by simp_all

lemma push_event_ready [simp]: "input_ready (push_event ev s) = input_ready s"
  by (simp add: push_event_def Let_def)

lemma input_check_buttons_fold:
  "input_ready s \<Longrightarrow> input_check_buttons sts s = fold push_event (button_events sts) s"
  by (simp add: input_check_buttons_def and_mask_bit button_events_def input_key_event_def Let_def)

text \<open>A poll of the ready input subsystem appends exactly one key-down event for every
  pressed button, in the order power, volume down, volume up, as far as the 255-event ring
  has room, keeps the events already queued in front of them, and reports true exactly when
  an event is waiting.\<close>

theorem input_poll_events:
  assumes "input_inv s" "input_ready s"
  shows "\<exists>s'. input_poll sts s = (input_events s' \<noteq> [], s') \<and> input_inv s'
    \<and> input_events s' = input_events s @ take (255 - length (input_events s)) (button_events sts)"
  using iq.fold_put [OF assms(1), of "button_events sts"] assms(2)
  by (auto simp: input_poll_def input_check_buttons_fold Let_def input_events_def input_inv_def ring_list_Nil_iff)

theorem input_poll_events_witness:
  "\<exists>s'. input_poll 5 (snd (input_init input_static)) = (True, s')
     \<and> input_events s' = [key_event 116 True, key_event 115 True]"
proof -
  have "input_inv (snd (input_init input_static))" "input_ready (snd (input_init input_static))"
    "input_events (snd (input_init input_static)) = []"
    by (simp_all add: input_init_def input_static_def input_inv_def input_events_def)
  moreover have "button_events 5 = [key_event 116 True, key_event 115 True]"
    by (simp add: button_events_def)
  ultimately show ?thesis using input_poll_events [of "snd (input_init input_static)" 5] by auto
qed

end
