(* ===== verification/Phone.thy ===== *)
theory Phone
  imports DisplayFb Rtc InputEv Elf
begin

text \<open>
  The remaining drivers of the phone under \<^verbatim>\<open>kernel/bsp/sm8250/drivers\<close>: flash storage (\<^verbatim>\<open>ufs.c\<close>), fingerprint sensor, audio, NFC, modem,
  USB, wireless, and the boot sequence of \<^verbatim>\<open>init.c\<close> that starts them all. They share the device registers;
  the data windows they copy to and from are byte memory. A loop that polls a status register takes
  the successive values of that register as an argument.
\<close>

abbreviation SM8250_QUPV3_BASE :: u64 where "SM8250_QUPV3_BASE \<equiv> 0x0C00000"
abbreviation SM8250_UFS_BASE :: u64 where "SM8250_UFS_BASE \<equiv> 0x01D84000"
abbreviation SM8250_USB3_BASE :: u64 where "SM8250_USB3_BASE \<equiv> 0x0A6F8800"
abbreviation SM8250_ADSP_BASE :: u64 where "SM8250_ADSP_BASE \<equiv> 0x03000000"

text \<open>The first of at most \<open>n\<close> reads that satisfies a test.\<close>

definition poll_until :: "(nat \<Rightarrow> u32) \<Rightarrow> (u32 \<Rightarrow> bool) \<Rightarrow> nat \<Rightarrow> bool" where
  "poll_until vals P n \<longleftrightarrow> first_idx (\<lambda>i. P (vals i)) n \<noteq> None"

section \<open>Flash storage\<close>

abbreviation UFS_HCI_BASE :: u64 where "UFS_HCI_BASE \<equiv> SM8250_UFS_BASE"
abbreviation UFS_HC_CTRL :: u32 where "UFS_HC_CTRL \<equiv> 0x00"
abbreviation UFS_DEV_ID :: u32 where "UFS_DEV_ID \<equiv> 0x08"
abbreviation UFS_INT_EN :: u32 where "UFS_INT_EN \<equiv> 0x14"
abbreviation UFS_DATA_BASE :: u64 where "UFS_DATA_BASE \<equiv> 0x10000"
abbreviation UFS_DATA_SIZE :: u64 where "UFS_DATA_SIZE \<equiv> 0x100000"
abbreviation UFS_BLOCK_SIZE :: u64 where "UFS_BLOCK_SIZE \<equiv> 4096"

record ufs_t =
  ufs_regs :: regs
  ufs_mem :: byte_mem
  ufs_ready :: bool
  ufs_total_blocks :: u64

definition ufs_wait_status :: "(nat \<Rightarrow> u32) \<Rightarrow> u32 \<Rightarrow> u32 \<Rightarrow> nat \<Rightarrow> int" where
  "ufs_wait_status vals m v timeout_us = (if poll_until vals (\<lambda>x. x AND m = v) timeout_us then 0 else -1)"

definition ufs_init :: "(nat \<Rightarrow> u32) \<Rightarrow> (nat \<Rightarrow> u32) \<Rightarrow> ufs_t \<Rightarrow> int \<times> ufs_t" where
  "ufs_init reset_vals start_vals s =
     (let s = s\<lparr>ufs_regs := write_reg UFS_HCI_BASE UFS_HC_CTRL 0x02 (ufs_regs s)\<rparr> in
      if ufs_wait_status reset_vals 0x02 0 100000 < 0 then (-1, s)
      else
        let r = write_reg UFS_HCI_BASE UFS_INT_EN 0x1FF (ufs_regs s);
            r = write_reg UFS_HCI_BASE UFS_HC_CTRL 0x01 r;
            s = s\<lparr>ufs_regs := r\<rparr>
        in if ufs_wait_status start_vals 0x01 0x01 100000 < 0 then (-1, s)
           else
             let dev_id = read_reg UFS_HCI_BASE UFS_DEV_ID (ufs_regs s);
                 blocks = ucast (dev_id AND 0xFFFF) * 1024;
                 blocks = (if blocks = 0 then 122880 else blocks)
             in (0, s\<lparr>ufs_total_blocks := blocks, ufs_ready := True\<rparr>))"

definition ufs_addr :: "u64 \<Rightarrow> u64" where
  "ufs_addr lba = UFS_HCI_BASE + UFS_DATA_BASE + lba * UFS_BLOCK_SIZE"

definition ufs_read :: "u64 \<Rightarrow> u64 \<Rightarrow> u32 \<Rightarrow> ufs_t \<Rightarrow> int \<times> ufs_t" where
  "ufs_read lba buf cnt s =
     (if \<not> ufs_ready s then (-1, s)
      else if lba + ucast cnt > ufs_total_blocks s then (-1, s)
      else let sz = cnt * 4096 in (sint sz, s\<lparr>ufs_mem := memcpy buf (ufs_addr lba) (ucast sz) (ufs_mem s)\<rparr>))"

definition ufs_write :: "u64 \<Rightarrow> u64 \<Rightarrow> u32 \<Rightarrow> ufs_t \<Rightarrow> int \<times> ufs_t" where
  "ufs_write lba buf cnt s =
     (if \<not> ufs_ready s then (-1, s)
      else if lba + ucast cnt > ufs_total_blocks s then (-1, s)
      else let sz = cnt * 4096 in (sint sz, s\<lparr>ufs_mem := memcpy (ufs_addr lba) buf (ucast sz) (ufs_mem s)\<rparr>))"

definition ufs_trim :: "u64 \<Rightarrow> u32 \<Rightarrow> ufs_t \<Rightarrow> int" where
  "ufs_trim lba cnt s = (if \<not> ufs_ready s then -1 else 0)"

definition ufs_get_capacity :: "ufs_t \<Rightarrow> u64" where
  "ufs_get_capacity s = ufs_total_blocks s * UFS_BLOCK_SIZE"

section \<open>Fingerprint sensor\<close>

abbreviation FP_RST_GPIO :: u32 where "FP_RST_GPIO \<equiv> 18"
abbreviation FP_INT_GPIO :: u32 where "FP_INT_GPIO \<equiv> 19"
abbreviation FP_MAX_TEMPLATES :: nat where "FP_MAX_TEMPLATES \<equiv> 5"

record fp_template_t =
  fp_id :: int
  fp_name :: string
  fp_template :: "nat \<Rightarrow> u8"
  fp_enrolled :: bool

definition zero_template :: fp_template_t where
  "zero_template = \<lparr>fp_id = 0, fp_name = [], fp_template = (\<lambda>_. 0), fp_enrolled = False\<rparr>"

record fp_t =
  fp_regs :: regs
  fp_templates :: "nat \<Rightarrow> fp_template_t"
  fp_ready :: bool
  fp_count :: nat

definition fingerprint_init :: "fp_t \<Rightarrow> int \<times> fp_t" where
  "fingerprint_init s =
     (let r = write_reg SM8250_TLMM_BASE (FP_RST_GPIO * 4) 0x03 (fp_regs s);
          r = write_reg SM8250_TLMM_BASE (FP_INT_GPIO * 4) 0x00 r;
          r = write_reg SM8250_TLMM_BASE (FP_RST_GPIO * 4) 0 r;
          r = write_reg SM8250_TLMM_BASE (FP_RST_GPIO * 4) 0x03 r
      in (0, s\<lparr>fp_regs := r, fp_templates := (\<lambda>_. zero_template), fp_ready := True\<rparr>))"

definition fingerprint_enroll :: "string \<Rightarrow> fp_t \<Rightarrow> int \<times> fp_t" where
  "fingerprint_enroll name s =
     (if \<not> fp_ready s then (-1, s)
      else if fp_count s \<ge> FP_MAX_TEMPLATES then (-1, s)
      else
        let k = fp_count s;
            t = (fp_templates s k)\<lparr>fp_id := int k + 1, fp_name := take 63 name, fp_enrolled := True\<rparr>
        in (fp_id t, s\<lparr>fp_templates := (fp_templates s)(k := t), fp_count := k + 1\<rparr>))"

definition fingerprint_authenticate :: "fp_t \<Rightarrow> int" where
  "fingerprint_authenticate s =
     (if \<not> fp_ready s then -1 else if fp_count s = 0 then -1 else fp_id (fp_templates s 0))"

definition fingerprint_delete :: "int \<Rightarrow> fp_t \<Rightarrow> int \<times> fp_t" where
  "fingerprint_delete i s =
     (if \<not> fp_ready s then (-1, s)
      else case first_idx (\<lambda>k. fp_id (fp_templates s k) = i) (fp_count s) of
             None \<Rightarrow> (-1, s)
           | Some k \<Rightarrow> (0, s\<lparr>fp_templates := (fp_templates s)(k := (fp_templates s k)\<lparr>fp_enrolled := False\<rparr>)\<rparr>))"

definition fingerprint_count :: "fp_t \<Rightarrow> nat" where
  "fingerprint_count s = fp_count s"

section \<open>Audio\<close>

abbreviation ADSP_BASE :: u64 where "ADSP_BASE \<equiv> SM8250_ADSP_BASE"
abbreviation ADSP_CTRL :: u32 where "ADSP_CTRL \<equiv> 0x00"
abbreviation ADSP_I2S_TX :: u32 where "ADSP_I2S_TX \<equiv> 0x100"
abbreviation ADSP_I2S_RX :: u32 where "ADSP_I2S_RX \<equiv> 0x200"
abbreviation ADSP_DMA_BASE :: u64 where "ADSP_DMA_BASE \<equiv> 0x1000"

record audio_t =
  au_regs :: regs
  au_mem :: byte_mem
  audio_initialized :: bool
  audio_volume :: int
  mic_muted :: int

definition audio_init :: "audio_t \<Rightarrow> int \<times> audio_t" where
  "audio_init s =
     (let r = write_reg ADSP_BASE ADSP_CTRL 0x02 (au_regs s);
          r = write_reg ADSP_BASE (ADSP_I2S_TX + 0x00) 48000 r;
          r = write_reg ADSP_BASE (ADSP_I2S_TX + 0x04) (push_bit 16 16 OR 2) r;
          r = write_reg ADSP_BASE ADSP_CTRL 0x01 r
      in (0, s\<lparr>au_regs := r, audio_initialized := True\<rparr>))"

definition audio_play :: "u64 \<Rightarrow> u32 \<Rightarrow> audio_t \<Rightarrow> int \<times> audio_t" where
  "audio_play pcm frames s =
     (if \<not> audio_initialized s then (-1, s)
      else
        let bytes = (ucast (ucast (frames * 2) * 2 :: u64) :: u32);
            bytes = (if bytes > 0x1000 then 0x1000 else bytes)
        in (sint frames, s\<lparr>au_mem := memcpy (ADSP_BASE + ADSP_DMA_BASE) pcm (ucast bytes) (au_mem s),
                           au_regs := write_reg ADSP_BASE (ADSP_I2S_TX + 0x10) bytes (au_regs s)\<rparr>))"

definition audio_record :: "u64 \<Rightarrow> u32 \<Rightarrow> audio_t \<Rightarrow> int \<times> audio_t" where
  "audio_record pcm max_frames s =
     (if \<not> audio_initialized s then (-1, s)
      else
        let avail = read_reg ADSP_BASE (ADSP_I2S_RX + 0x10) (au_regs s) in
        if avail = 0 then (0, s)
        else
          let frames = (ucast (ucast avail div 4 :: u64) :: u32);
              frames = (if frames > max_frames then max_frames else frames)
          in (sint frames, s\<lparr>au_mem := memcpy pcm (ADSP_BASE + ucast ADSP_I2S_RX) (ucast (frames * 2) * 2) (au_mem s)\<rparr>))"

definition audio_set_volume :: "int \<Rightarrow> audio_t \<Rightarrow> audio_t" where
  "audio_set_volume percent s =
     (let percent = (if percent < 0 then 0 else percent);
          percent = (if percent > 100 then 100 else percent)
      in s\<lparr>audio_volume := percent, au_regs := write_reg ADSP_BASE (ADSP_I2S_TX + 0x20) (word_of_int percent) (au_regs s)\<rparr>)"

definition audio_get_volume :: "audio_t \<Rightarrow> int" where
  "audio_get_volume s = audio_volume s"

definition audio_set_mic_mute :: "int \<Rightarrow> audio_t \<Rightarrow> audio_t" where
  "audio_set_mic_mute mute s =
     s\<lparr>mic_muted := mute, au_regs := write_reg ADSP_BASE (ADSP_I2S_TX + 0x24) (if mute \<noteq> 0 then 1 else 0) (au_regs s)\<rparr>"

definition audio_is_mic_muted :: "audio_t \<Rightarrow> int" where
  "audio_is_mic_muted s = mic_muted s"

definition audio_play_tone :: "u32 \<Rightarrow> u32 \<Rightarrow> audio_t \<Rightarrow> audio_t" where
  "audio_play_tone freq_hz duration_ms s =
     (if \<not> audio_initialized s then s
      else s\<lparr>au_regs := write_reg ADSP_BASE (ADSP_I2S_TX + 0x34) duration_ms
                          (write_reg ADSP_BASE (ADSP_I2S_TX + 0x30) freq_hz (au_regs s))\<rparr>)"

section \<open>Near-field communication\<close>

abbreviation NFC_I2C_BASE :: u64 where "NFC_I2C_BASE \<equiv> SM8250_QUPV3_BASE + 0x20000"
abbreviation NFC_VEN_GPIO :: u32 where "NFC_VEN_GPIO \<equiv> 12"

record nfc_t =
  nfc_regs :: regs
  nfc_ready :: bool

definition nfc_init :: "nfc_t \<Rightarrow> int \<times> nfc_t" where
  "nfc_init s =
     (let r = write_reg SM8250_TLMM_BASE (NFC_VEN_GPIO * 4) 0x03 (nfc_regs s);
          r = write_reg NFC_I2C_BASE 0 0x00 r;
          r = write_reg NFC_I2C_BASE 0 0x01 r
      in (0, s\<lparr>nfc_regs := r, nfc_ready := True\<rparr>))"

definition nfc_discover :: "nfc_t \<Rightarrow> int \<times> nfc_t" where
  "nfc_discover s =
     (if \<not> nfc_ready s then (-1, s)
      else let r = write_reg NFC_I2C_BASE 0 0x02 (nfc_regs s)
           in (sint (read_reg NFC_I2C_BASE 4 r), s\<lparr>nfc_regs := r\<rparr>))"

definition nfc_read_ndef :: "u32 \<Rightarrow> nfc_t \<Rightarrow> int \<times> nfc_t" where
  "nfc_read_ndef maxlen s =
     (if \<not> nfc_ready s then (-1, s)
      else
        let r = write_reg NFC_I2C_BASE 0 0x10 (nfc_regs s);
            len = read_reg NFC_I2C_BASE 8 r;
            len = (if len > maxlen then maxlen else len)
        in (sint len, s\<lparr>nfc_regs := r\<rparr>))"

definition nfc_write_ndef :: "u64 \<Rightarrow> u32 \<Rightarrow> nfc_t \<Rightarrow> int \<times> nfc_t" where
  "nfc_write_ndef data len s =
     (if \<not> nfc_ready s \<or> data = 0 then (-1, s)
      else (sint len, s\<lparr>nfc_regs := write_reg NFC_I2C_BASE 8 len (write_reg NFC_I2C_BASE 0 0x11 (nfc_regs s))\<rparr>))"

section \<open>Modem\<close>

record ril_t =
  ril_regs :: regs
  signal_strength :: int
  cell_id :: int
  mcc_mnc :: int
  ims_registered :: bool

definition ril_init :: "ril_t \<Rightarrow> int \<times> ril_t" where
  "ril_init s =
     (let r = snd (mss_start (snd (mss_init (ril_regs s))))
      in (0, s\<lparr>ril_regs := r, signal_strength := -85, mcc_mnc := 310410, cell_id := 0x12345\<rparr>))"

definition ril_get_signal :: "ril_t \<Rightarrow> int" where "ril_get_signal s = signal_strength s"
definition ril_get_cell_id :: "ril_t \<Rightarrow> int" where "ril_get_cell_id s = cell_id s"
definition ril_get_mcc_mnc :: "ril_t \<Rightarrow> int" where "ril_get_mcc_mnc s = mcc_mnc s"
definition ril_get_imei :: string where "ril_get_imei = ''358260131234567''"

text \<open>These calls print a line and succeed.\<close>

definition ril_dial :: "string \<Rightarrow> int" where "ril_dial number = 0"
definition ril_hangup :: int where "ril_hangup = 0"
definition ril_send_sms :: "string \<Rightarrow> string \<Rightarrow> int" where "ril_send_sms number msg = 0"
definition ril_activate_data :: int where "ril_activate_data = 0"
definition ril_deactivate_data :: int where "ril_deactivate_data = 0"

definition ims_init :: "ril_t \<Rightarrow> int \<times> ril_t" where
  "ims_init s = (0, s\<lparr>ims_registered := True\<rparr>)"

definition ims_is_registered :: "ril_t \<Rightarrow> bool" where
  "ims_is_registered s = ims_registered s"

definition ims_volte_enable :: "ril_t \<Rightarrow> int" where
  "ims_volte_enable s = (if \<not> ims_registered s then -1 else 0)"

definition ims_volte_disable :: int where "ims_volte_disable = 0"
definition ims_wifi_calling_enable :: int where "ims_wifi_calling_enable = 0"
definition ims_wifi_calling_disable :: int where "ims_wifi_calling_disable = 0"

section \<open>USB\<close>

abbreviation USB_GADGET_BASE :: u64 where "USB_GADGET_BASE \<equiv> SM8250_USB3_BASE + 0x10000"
abbreviation GADGET_CTRL :: u32 where "GADGET_CTRL \<equiv> 0x000"
abbreviation GADGET_STATUS :: u32 where "GADGET_STATUS \<equiv> 0x004"
abbreviation GADGET_EP_BASE :: u32 where "GADGET_EP_BASE \<equiv> 0x100"
abbreviation GADGET_FIFO_BASE :: u64 where "GADGET_FIFO_BASE \<equiv> 0x1000"
abbreviation DWC3_BASE :: u64 where "DWC3_BASE \<equiv> 0x0A600000"
abbreviation DWC3_GCTL :: u32 where "DWC3_GCTL \<equiv> 0x0C110"
abbreviation DWC3_GSTS :: u32 where "DWC3_GSTS \<equiv> 0x0C118"

record usb_t =
  usb_regs :: regs
  usb_mem :: byte_mem

definition usb_gadget_init :: "usb_t \<Rightarrow> int \<times> usb_t" where
  "usb_gadget_init s =
     (let r = write_reg USB_GADGET_BASE GADGET_CTRL 0x02 (usb_regs s);
          r = write_reg USB_GADGET_BASE (GADGET_EP_BASE + 0x00) 0x80 r;
          r = write_reg USB_GADGET_BASE (GADGET_EP_BASE + 0x04) 0x02 r;
          r = write_reg USB_GADGET_BASE (GADGET_EP_BASE + 0x08) 0x82 r;
          r = write_reg USB_GADGET_BASE GADGET_CTRL 0x01 r
      in (0, s\<lparr>usb_regs := r\<rparr>))"

definition usb_gadget_connected :: "usb_t \<Rightarrow> int" where
  "usb_gadget_connected s = uint (read_reg USB_GADGET_BASE GADGET_STATUS (usb_regs s) AND 0x01)"

definition adb_send :: "u64 \<Rightarrow> u32 \<Rightarrow> usb_t \<Rightarrow> int \<times> usb_t" where
  "adb_send data len s =
     (let len = (if len > 4096 then 4096 else len)
      in (sint len, s\<lparr>usb_mem := memcpy (USB_GADGET_BASE + GADGET_FIFO_BASE) data (ucast len) (usb_mem s),
                      usb_regs := write_reg USB_GADGET_BASE (GADGET_EP_BASE + 0x08) (len OR 0x80000000) (usb_regs s)\<rparr>))"

definition adb_recv :: "u64 \<Rightarrow> u32 \<Rightarrow> usb_t \<Rightarrow> int \<times> usb_t" where
  "adb_recv buf maxlen s =
     (let avail = read_reg USB_GADGET_BASE (GADGET_EP_BASE + 0x04) (usb_regs s) in
      if avail = 0 then (0, s)
      else
        let avail = (if avail > maxlen then maxlen else avail)
        in (sint avail, s\<lparr>usb_mem := memcpy buf (USB_GADGET_BASE + GADGET_FIFO_BASE + 0x1000) (ucast avail) (usb_mem s)\<rparr>))"

definition mtp_send_object :: "u64 \<Rightarrow> u32 \<Rightarrow> usb_t \<Rightarrow> int \<times> usb_t" where
  "mtp_send_object data sz s =
     (if sz > 65536 then (-1, s)
      else (sint sz, s\<lparr>usb_mem := memcpy (USB_GADGET_BASE + GADGET_FIFO_BASE + 0x2000) data (ucast sz) (usb_mem s)\<rparr>))"

text \<open>The name that is printed for a received object is left out.\<close>

definition mtp_recv_object :: "u64 \<Rightarrow> u32 \<Rightarrow> usb_t \<Rightarrow> int \<times> usb_t" where
  "mtp_recv_object buf maxlen s =
     (let avail = read_reg USB_GADGET_BASE (GADGET_EP_BASE + 0x04) (usb_regs s) in
      if avail = 0 then (0, s)
      else
        let avail = (if avail > maxlen then maxlen else avail)
        in (sint avail, s\<lparr>usb_mem := memcpy buf (USB_GADGET_BASE + GADGET_FIFO_BASE + 0x2000) (ucast avail) (usb_mem s)\<rparr>))"

definition usb_otg_init :: "usb_t \<Rightarrow> int \<times> usb_t" where
  "usb_otg_init s =
     (0, s\<lparr>usb_regs := write_reg DWC3_BASE DWC3_GCTL 0x01 (write_reg DWC3_BASE DWC3_GCTL 0x02 (usb_regs s))\<rparr>)"

definition usb_otg_mode_host :: "usb_t \<Rightarrow> int \<times> usb_t" where
  "usb_otg_mode_host s = (0, s\<lparr>usb_regs := write_reg DWC3_BASE DWC3_GCTL 0x03 (usb_regs s)\<rparr>)"

definition usb_otg_mode_device :: "usb_t \<Rightarrow> int \<times> usb_t" where
  "usb_otg_mode_device s = (0, s\<lparr>usb_regs := write_reg DWC3_BASE DWC3_GCTL 0x01 (usb_regs s)\<rparr>)"

definition usb_otg_charging_current :: "usb_t \<Rightarrow> int" where
  "usb_otg_charging_current s =
     (let sts = read_reg DWC3_BASE DWC3_GSTS (usb_regs s) in
      if sts AND 0x100 \<noteq> 0 then 3000 else if sts AND 0x080 \<noteq> 0 then 1500 else 500)"

section \<open>Wireless\<close>

abbreviation WIFI_SDIO_BASE :: u64 where "WIFI_SDIO_BASE \<equiv> 0x01D00000"
abbreviation BT_UART_BASE :: u64 where "BT_UART_BASE \<equiv> SM8250_QUPV3_BASE + 0x10000"

record wl_t =
  wl_regs :: regs
  wifi_active :: bool
  bt_active :: bool

definition wifi_init :: "wl_t \<Rightarrow> int \<times> wl_t" where
  "wifi_init s =
     (0, s\<lparr>wl_regs := write_reg WIFI_SDIO_BASE 0x04 0x3 (write_reg WIFI_SDIO_BASE 0x00 1 (wl_regs s)), wifi_active := True\<rparr>)"

definition wifi_scan :: "wl_t \<Rightarrow> int" where
  "wifi_scan s = (if \<not> wifi_active s then -1 else 0)"

definition wifi_connect :: "wl_t \<Rightarrow> int" where
  "wifi_connect s = (if \<not> wifi_active s then -1 else 0)"

definition bt_init :: "wl_t \<Rightarrow> int \<times> wl_t" where
  "bt_init s =
     (let r = write_reg BT_UART_BASE 0x00 0x01 (wl_regs s);
          r = write_reg BT_UART_BASE 0x30 0x01 r;
          r = write_reg BT_UART_BASE 0x34 0x40 r;
          r = write_reg BT_UART_BASE 0x38 0x60 r
      in (0, s\<lparr>wl_regs := r, bt_active := True\<rparr>))"

definition bt_scan :: "wl_t \<Rightarrow> int" where
  "bt_scan s = (if \<not> bt_active s then -1 else 0)"

definition gps_init :: "wl_t \<Rightarrow> int \<times> wl_t" where
  "gps_init s =
     (if \<not> bt_active s then (let (ret, s') = bt_init s in if ret \<noteq> 0 then (ret, s') else (0, s')) else (0, s))"

section \<open>Boot sequence\<close>

text \<open>All drivers see the same registers and memory: a driver runs on its own variables with the shared
  registers put in, and what it leaves is taken out again.\<close>

record phone_t =
  ph_regs :: regs
  ph_mem :: byte_mem
  ph_ufs :: ufs_t
  ph_fb :: fb_t
  ph_input :: input_t
  ph_audio :: audio_t
  ph_wl :: wl_t
  ph_nfc :: nfc_t
  ph_ril :: ril_t
  ph_fp :: fp_t
  ph_rtc :: rtc_t
  ph_usb :: usb_t
  ph_power :: power_t
  init_done :: bool

definition on_ufs :: "(ufs_t \<Rightarrow> int \<times> ufs_t) \<Rightarrow> phone_t \<Rightarrow> phone_t" where
  "on_ufs f s = (let d = snd (f ((ph_ufs s)\<lparr>ufs_regs := ph_regs s, ufs_mem := ph_mem s\<rparr>))
                 in s\<lparr>ph_ufs := d, ph_regs := ufs_regs d, ph_mem := ufs_mem d\<rparr>)"

definition on_fb :: "(fb_t \<Rightarrow> int \<times> fb_t) \<Rightarrow> phone_t \<Rightarrow> phone_t" where
  "on_fb f s = (let d = snd (f ((ph_fb s)\<lparr>fb_regs := ph_regs s\<rparr>)) in s\<lparr>ph_fb := d, ph_regs := fb_regs d\<rparr>)"

definition on_audio :: "(audio_t \<Rightarrow> int \<times> audio_t) \<Rightarrow> phone_t \<Rightarrow> phone_t" where
  "on_audio f s = (let d = snd (f ((ph_audio s)\<lparr>au_regs := ph_regs s, au_mem := ph_mem s\<rparr>))
                   in s\<lparr>ph_audio := d, ph_regs := au_regs d, ph_mem := au_mem d\<rparr>)"

definition on_wl :: "(wl_t \<Rightarrow> int \<times> wl_t) \<Rightarrow> phone_t \<Rightarrow> phone_t" where
  "on_wl f s = (let d = snd (f ((ph_wl s)\<lparr>wl_regs := ph_regs s\<rparr>)) in s\<lparr>ph_wl := d, ph_regs := wl_regs d\<rparr>)"

definition on_nfc :: "(nfc_t \<Rightarrow> int \<times> nfc_t) \<Rightarrow> phone_t \<Rightarrow> phone_t" where
  "on_nfc f s = (let d = snd (f ((ph_nfc s)\<lparr>nfc_regs := ph_regs s\<rparr>)) in s\<lparr>ph_nfc := d, ph_regs := nfc_regs d\<rparr>)"

definition on_ril :: "(ril_t \<Rightarrow> int \<times> ril_t) \<Rightarrow> phone_t \<Rightarrow> phone_t" where
  "on_ril f s = (let d = snd (f ((ph_ril s)\<lparr>ril_regs := ph_regs s\<rparr>)) in s\<lparr>ph_ril := d, ph_regs := ril_regs d\<rparr>)"

definition on_fp :: "(fp_t \<Rightarrow> int \<times> fp_t) \<Rightarrow> phone_t \<Rightarrow> phone_t" where
  "on_fp f s = (let d = snd (f ((ph_fp s)\<lparr>fp_regs := ph_regs s\<rparr>)) in s\<lparr>ph_fp := d, ph_regs := fp_regs d\<rparr>)"

definition on_rtc :: "(rtc_t \<Rightarrow> int \<times> rtc_t) \<Rightarrow> phone_t \<Rightarrow> phone_t" where
  "on_rtc f s = (let d = snd (f ((ph_rtc s)\<lparr>rtc_regs := ph_regs s\<rparr>)) in s\<lparr>ph_rtc := d, ph_regs := rtc_regs d\<rparr>)"

definition on_usb :: "(usb_t \<Rightarrow> int \<times> usb_t) \<Rightarrow> phone_t \<Rightarrow> phone_t" where
  "on_usb f s = (let d = snd (f ((ph_usb s)\<lparr>usb_regs := ph_regs s, usb_mem := ph_mem s\<rparr>))
                 in s\<lparr>ph_usb := d, ph_regs := usb_regs d, ph_mem := usb_mem d\<rparr>)"

definition on_power :: "(power_t \<Rightarrow> int \<times> power_t) \<Rightarrow> phone_t \<Rightarrow> phone_t" where
  "on_power f s = (let d = snd (f ((ph_power s)\<lparr>pw_regs := ph_regs s\<rparr>)) in s\<lparr>ph_power := d, ph_regs := pw_regs d\<rparr>)"

definition mobile_boot_init :: "(nat \<Rightarrow> u32) \<Rightarrow> (nat \<Rightarrow> u32) \<Rightarrow> phone_t \<Rightarrow> phone_t" where
  "mobile_boot_init reset_vals start_vals s =
     (let s = on_ufs (ufs_init reset_vals start_vals) s;
          s = on_fb display_fb_init s;
          s = s\<lparr>ph_input := snd (input_init (ph_input s))\<rparr>;
          s = on_audio audio_init s;
          s = on_wl wifi_init s;
          s = on_wl bt_init s;
          s = on_wl gps_init s;
          s = on_nfc nfc_init s;
          s = on_ril ril_init s;
          s = on_ril ims_init s;
          s = on_fp fingerprint_init s;
          s = on_rtc rtc_init s;
          s = on_usb usb_gadget_init s;
          s = on_usb usb_otg_init s;
          s = on_power mobile_power_init s;
          s = s\<lparr>ph_regs := mdss_panel_on (ph_regs s)\<rparr>;
          s = s\<lparr>ph_regs := mdss_set_brightness 128 (ph_regs s)\<rparr>
      in s\<lparr>init_done := True\<rparr>)"

definition mobile_boot_is_complete :: "phone_t \<Rightarrow> bool" where
  "mobile_boot_is_complete s = init_done s"

section \<open>Properties of the drivers\<close>

text \<open>Blocks that were written are read back, into any buffer.\<close>

lemma ufs_write_read:
  assumes "ufs_ready s" "lba + ucast cnt \<le> ufs_total_blocks s" "i < ucast (cnt * 4096)"
  shows "ufs_mem (snd (ufs_read lba dst cnt (snd (ufs_write lba src cnt s)))) (dst + i) = ufs_mem s (src + i)"
proof -
  have "\<not> ufs_total_blocks s < lba + ucast cnt" using assms(2) by (simp add: linorder_not_less)
  with assms(1,3) show ?thesis by (simp add: ufs_read_def ufs_write_def memcpy_def Let_def)
qed

text \<open>The bound on the blocks is computed with wrap-around, and never compared with the data window.\<close>

lemma ufs_bound_wraps: "ufs_ready s \<Longrightarrow> fst (ufs_write (- 1) src 1 s) = 4096"
  by (simp add: ufs_write_def Let_def)

lemma ufs_outside_window:
  assumes "ufs_ready s" "ufs_total_blocks s = 122880"
  shows "fst (ufs_write 256 src 1 s) = 4096 \<and> ufs_addr 256 = UFS_HCI_BASE + UFS_DATA_BASE + UFS_DATA_SIZE"
  using assms by (simp add: ufs_write_def ufs_addr_def Let_def)

text \<open>Identifiers are given out from 1 on; deleting a template does not stop it from being matched.\<close>

lemma fingerprint_enrolls:
  assumes "fp_ready s" "fp_count s < FP_MAX_TEMPLATES"
  shows "fst (fingerprint_enroll name s) = int (fp_count s) + 1"
    "fingerprint_count (snd (fingerprint_enroll name s)) = fp_count s + 1"
    "fp_enrolled (fp_templates (snd (fingerprint_enroll name s)) (fp_count s))"
  using assms by (simp_all add: fingerprint_enroll_def fingerprint_count_def Let_def)

lemma deleted_fingerprint_matches:
  fixes name :: string and s :: fp_t
  assumes "fp_ready s" "fp_count s = 0"
  defines "s1 \<equiv> snd (fingerprint_enroll name s)"
  shows "fst (fingerprint_delete 1 s1) = 0 \<and> fingerprint_authenticate (snd (fingerprint_delete 1 s1)) = 1
    \<and> fingerprint_count (snd (fingerprint_delete 1 s1)) = 1"
  using assms by (simp add: fingerprint_enroll_def fingerprint_delete_def fingerprint_authenticate_def fingerprint_count_def Let_def)

lemma audio_volume_range: "0 \<le> audio_get_volume (audio_set_volume v s) \<and> audio_get_volume (audio_set_volume v s) \<le> 100"
  by (simp add: audio_set_volume_def audio_get_volume_def Let_def)

lemma audio_play_in_buffer:
  assumes "audio_initialized s" "au_mem (snd (audio_play pcm frames s)) a \<noteq> au_mem s a"
  shows "a - (ADSP_BASE + ADSP_DMA_BASE) < 0x1000"
proof -
  have "a - (ADSP_BASE + ADSP_DMA_BASE) < ucast (if b > 0x1000 then 0x1000 else b :: u32) \<Longrightarrow> a - (ADSP_BASE + ADSP_DMA_BASE) < 0x1000" for b
    by (auto simp: word_less_nat_alt unsigned_ucast_eq take_bit_nat_eq_self split: if_splits)
  then show ?thesis using assms by (auto simp: audio_play_def memcpy_def Let_def split: if_splits)
qed

text \<open>A driver leaves the variables of the others alone.\<close>

lemma on_ufs_frame [simp]:
  "ph_fb (on_ufs f s) = ph_fb s" "ph_input (on_ufs f s) = ph_input s" "ph_audio (on_ufs f s) = ph_audio s"
    "ph_wl (on_ufs f s) = ph_wl s" "ph_nfc (on_ufs f s) = ph_nfc s" "ph_ril (on_ufs f s) = ph_ril s"
    "ph_fp (on_ufs f s) = ph_fp s" "ph_rtc (on_ufs f s) = ph_rtc s" "ph_usb (on_ufs f s) = ph_usb s"
    "ph_power (on_ufs f s) = ph_power s" "init_done (on_ufs f s) = init_done s"
  by (simp_all add: on_ufs_def Let_def)

lemma on_fb_frame [simp]:
  "ph_ufs (on_fb f s) = ph_ufs s" "ph_input (on_fb f s) = ph_input s" "ph_audio (on_fb f s) = ph_audio s"
    "ph_wl (on_fb f s) = ph_wl s" "ph_nfc (on_fb f s) = ph_nfc s" "ph_ril (on_fb f s) = ph_ril s"
    "ph_fp (on_fb f s) = ph_fp s" "ph_rtc (on_fb f s) = ph_rtc s" "ph_usb (on_fb f s) = ph_usb s"
    "ph_power (on_fb f s) = ph_power s" "init_done (on_fb f s) = init_done s"
  by (simp_all add: on_fb_def Let_def)

lemma on_audio_frame [simp]:
  "ph_ufs (on_audio f s) = ph_ufs s" "ph_fb (on_audio f s) = ph_fb s" "ph_input (on_audio f s) = ph_input s"
    "ph_wl (on_audio f s) = ph_wl s" "ph_nfc (on_audio f s) = ph_nfc s" "ph_ril (on_audio f s) = ph_ril s"
    "ph_fp (on_audio f s) = ph_fp s" "ph_rtc (on_audio f s) = ph_rtc s" "ph_usb (on_audio f s) = ph_usb s"
    "ph_power (on_audio f s) = ph_power s" "init_done (on_audio f s) = init_done s"
  by (simp_all add: on_audio_def Let_def)

lemma on_wl_frame [simp]:
  "ph_ufs (on_wl f s) = ph_ufs s" "ph_fb (on_wl f s) = ph_fb s" "ph_input (on_wl f s) = ph_input s"
    "ph_audio (on_wl f s) = ph_audio s" "ph_nfc (on_wl f s) = ph_nfc s" "ph_ril (on_wl f s) = ph_ril s"
    "ph_fp (on_wl f s) = ph_fp s" "ph_rtc (on_wl f s) = ph_rtc s" "ph_usb (on_wl f s) = ph_usb s"
    "ph_power (on_wl f s) = ph_power s" "init_done (on_wl f s) = init_done s"
  by (simp_all add: on_wl_def Let_def)

lemma on_nfc_frame [simp]:
  "ph_ufs (on_nfc f s) = ph_ufs s" "ph_fb (on_nfc f s) = ph_fb s" "ph_input (on_nfc f s) = ph_input s"
    "ph_audio (on_nfc f s) = ph_audio s" "ph_wl (on_nfc f s) = ph_wl s" "ph_ril (on_nfc f s) = ph_ril s"
    "ph_fp (on_nfc f s) = ph_fp s" "ph_rtc (on_nfc f s) = ph_rtc s" "ph_usb (on_nfc f s) = ph_usb s"
    "ph_power (on_nfc f s) = ph_power s" "init_done (on_nfc f s) = init_done s"
  by (simp_all add: on_nfc_def Let_def)

lemma on_ril_frame [simp]:
  "ph_ufs (on_ril f s) = ph_ufs s" "ph_fb (on_ril f s) = ph_fb s" "ph_input (on_ril f s) = ph_input s"
    "ph_audio (on_ril f s) = ph_audio s" "ph_wl (on_ril f s) = ph_wl s" "ph_nfc (on_ril f s) = ph_nfc s"
    "ph_fp (on_ril f s) = ph_fp s" "ph_rtc (on_ril f s) = ph_rtc s" "ph_usb (on_ril f s) = ph_usb s"
    "ph_power (on_ril f s) = ph_power s" "init_done (on_ril f s) = init_done s"
  by (simp_all add: on_ril_def Let_def)

lemma on_fp_frame [simp]:
  "ph_ufs (on_fp f s) = ph_ufs s" "ph_fb (on_fp f s) = ph_fb s" "ph_input (on_fp f s) = ph_input s"
    "ph_audio (on_fp f s) = ph_audio s" "ph_wl (on_fp f s) = ph_wl s" "ph_nfc (on_fp f s) = ph_nfc s"
    "ph_ril (on_fp f s) = ph_ril s" "ph_rtc (on_fp f s) = ph_rtc s" "ph_usb (on_fp f s) = ph_usb s"
    "ph_power (on_fp f s) = ph_power s" "init_done (on_fp f s) = init_done s"
  by (simp_all add: on_fp_def Let_def)

lemma on_rtc_frame [simp]:
  "ph_ufs (on_rtc f s) = ph_ufs s" "ph_fb (on_rtc f s) = ph_fb s" "ph_input (on_rtc f s) = ph_input s"
    "ph_audio (on_rtc f s) = ph_audio s" "ph_wl (on_rtc f s) = ph_wl s" "ph_nfc (on_rtc f s) = ph_nfc s"
    "ph_ril (on_rtc f s) = ph_ril s" "ph_fp (on_rtc f s) = ph_fp s" "ph_usb (on_rtc f s) = ph_usb s"
    "ph_power (on_rtc f s) = ph_power s" "init_done (on_rtc f s) = init_done s"
  by (simp_all add: on_rtc_def Let_def)

lemma on_usb_frame [simp]:
  "ph_ufs (on_usb f s) = ph_ufs s" "ph_fb (on_usb f s) = ph_fb s" "ph_input (on_usb f s) = ph_input s"
    "ph_audio (on_usb f s) = ph_audio s" "ph_wl (on_usb f s) = ph_wl s" "ph_nfc (on_usb f s) = ph_nfc s"
    "ph_ril (on_usb f s) = ph_ril s" "ph_fp (on_usb f s) = ph_fp s" "ph_rtc (on_usb f s) = ph_rtc s"
    "ph_power (on_usb f s) = ph_power s" "init_done (on_usb f s) = init_done s"
  by (simp_all add: on_usb_def Let_def)

lemma on_power_frame [simp]:
  "ph_ufs (on_power f s) = ph_ufs s" "ph_fb (on_power f s) = ph_fb s" "ph_input (on_power f s) = ph_input s"
    "ph_audio (on_power f s) = ph_audio s" "ph_wl (on_power f s) = ph_wl s" "ph_nfc (on_power f s) = ph_nfc s"
    "ph_ril (on_power f s) = ph_ril s" "ph_fp (on_power f s) = ph_fp s" "ph_rtc (on_power f s) = ph_rtc s"
    "ph_usb (on_power f s) = ph_usb s" "init_done (on_power f s) = init_done s"
  by (simp_all add: on_power_def Let_def)

lemma boot_starts [simp]:
  "fb_ready (ph_fb (on_fb display_fb_init s))" "audio_initialized (ph_audio (on_audio audio_init s))"
  "nfc_ready (ph_nfc (on_nfc nfc_init s))" "ims_registered (ph_ril (on_ril ims_init s))"
  "rtc_initialized (ph_rtc (on_rtc rtc_init s))" "fp_ready (ph_fp (on_fp fingerprint_init s))"
  "fp_count (ph_fp (on_fp fingerprint_init s)) = fp_count (ph_fp s)"
  by (simp_all add: on_fb_def on_audio_def on_nfc_def on_ril_def on_rtc_def on_fp_def Let_def display_fb_init_def
      audio_init_def nfc_init_def ims_init_def rtc_init_def fingerprint_init_def)

lemma boot_wireless [simp]:
  "wifi_active (ph_wl (on_wl wifi_init s))" "wifi_active (ph_wl (on_wl bt_init s)) = wifi_active (ph_wl s)"
  "wifi_active (ph_wl (on_wl gps_init s)) = wifi_active (ph_wl s)" "bt_active (ph_wl (on_wl gps_init s))"
  by (simp_all add: on_wl_def Let_def wifi_init_def bt_init_def gps_init_def)

text \<open>After the boot sequence every driver whose start does not depend on a device is ready; the
  number of enrolled fingerprints survives although the templates are cleared.\<close>

lemma mobile_boot_ready:
  fixes s :: phone_t and reset_vals start_vals :: "nat \<Rightarrow> u32"
  defines "s' \<equiv> mobile_boot_init reset_vals start_vals s"
  shows "mobile_boot_is_complete s'" "fb_ready (ph_fb s')" "audio_initialized (ph_audio s')" "nfc_ready (ph_nfc s')"
    "ims_is_registered (ph_ril s')" "fp_ready (ph_fp s')" "fingerprint_count (ph_fp s') = fingerprint_count (ph_fp s)"
    "wifi_active (ph_wl s')" "bt_active (ph_wl s')" "rtc_initialized (ph_rtc s')"
  unfolding s'_def mobile_boot_init_def Let_def
  by (simp_all add: mobile_boot_is_complete_def ims_is_registered_def fingerprint_count_def)

section \<open>Sensors\<close>

text \<open>The functions of \<^verbatim>\<open>sensors.c\<close> on integers; those in floating point are in the theory Sensors.\<close>

record sensors_t =
  sens_regs :: regs
  sensor_init_done :: bool

definition mobile_sensors_init :: "sensors_t \<Rightarrow> int \<times> sensors_t" where
  "mobile_sensors_init s = (0, s\<lparr>sens_regs := snd (slpi_init (sens_regs s)), sensor_init_done := True\<rparr>)"

definition mobile_sensors_read_light :: "sensors_t \<Rightarrow> int" where
  "mobile_sensors_read_light s = (if \<not> sensor_init_done s then -1 else slpi_read_light (sens_regs s))"

definition mobile_sensors_read_proximity :: "sensors_t \<Rightarrow> int" where
  "mobile_sensors_read_proximity s = (if \<not> sensor_init_done s then -1 else slpi_read_proximity (sens_regs s))"

definition mobile_sensors_is_covered :: "sensors_t \<Rightarrow> bool" where
  "mobile_sensors_is_covered s = (if \<not> sensor_init_done s then False else slpi_read_proximity (sens_regs s) < 5)"

lemma covered_means_near:
  "mobile_sensors_is_covered s \<longleftrightarrow> 0 \<le> mobile_sensors_read_proximity s \<and> mobile_sensors_read_proximity s < 5"
  by (simp add: mobile_sensors_is_covered_def mobile_sensors_read_proximity_def slpi_read_proximity_def)

end
