(* ===== verification/Sensors.thy ===== *)
theory Sensors
  imports Complex_Main "HOL-Library.Log_Nat" Phone
begin

text \<open>
  The motion sensors (\<^verbatim>\<open>slpi_read_accel\<close> and \<^verbatim>\<open>slpi_read_gyro\<close> of \<^verbatim>\<open>src/kernel/bsp/sm8250/sm8250.c\<close> and the functions of
  \<^verbatim>\<open>src/kernel/bsp/sm8250/drivers/sensors.c\<close> that use them).  A \<^verbatim>\<open>float\<close> is the rational number it stands for; a literal and the
  result of a division are rounded to 24 significant bits, to nearest and to even on a tie.  No value here is large or small enough
  to leave the normal range, so the exponent is not bounded.
\<close>

section \<open>Single precision\<close>

type_synonym float32 = rat

text \<open>The exponent of the leading bit of a positive number.\<close>

definition binexp :: "rat \<Rightarrow> int" where
  "binexp q = (let (n, d) = quotient_of q; k = int (floorlog 2 (nat n)) - int (floorlog 2 (nat d))
     in if 2 powi k \<le> q then k else k - 1)"

definition round_even :: "rat \<Rightarrow> int" where
  "round_even x = (let f = \<lfloor>x\<rfloor>; r = x - of_int f
     in if r < 1 / 2 then f else if r > 1 / 2 then f + 1 else if even f then f else f + 1)"

definition round32 :: "rat \<Rightarrow> float32" where
  "round32 q = (if q = 0 then 0 else let u = 2 powi (binexp \<bar>q\<bar> - 23) in of_int (round_even (q / u)) * u)"

definition fdiv :: "float32 \<Rightarrow> float32 \<Rightarrow> float32" where "fdiv x y = round32 (x / y)"

section \<open>Readings\<close>

abbreviation SLPI_ACCEL_DATA :: u32 where "SLPI_ACCEL_DATA \<equiv> 0x100"
abbreviation SLPI_GYRO_DATA :: u32 where "SLPI_GYRO_DATA \<equiv> 0x108"

text \<open>The conversion \<^verbatim>\<open>(float)(int16_t)\<close> is exact.\<close>

definition float_of_int16 :: "u32 \<Rightarrow> float32" where "float_of_int16 w = of_int (sint (ucast w :: 16 word))"

definition slpi_read_accel :: "regs \<Rightarrow> float32 \<times> float32 \<times> float32" where
  "slpi_read_accel r =
     (let raw = read_reg SM8250_SENSOR_BASE SLPI_ACCEL_DATA r
      in (fdiv (float_of_int16 (raw AND 0xFFFF)) 16384,
          fdiv (float_of_int16 (drop_bit 16 raw AND 0xFFFF)) 16384,
          round32 (981 / 100)))"

definition slpi_read_gyro :: "regs \<Rightarrow> float32 \<times> float32 \<times> float32" where
  "slpi_read_gyro r =
     (let raw = read_reg SM8250_SENSOR_BASE SLPI_GYRO_DATA r
      in (fdiv (float_of_int16 (raw AND 0xFFFF)) 131,
          fdiv (float_of_int16 (drop_bit 16 raw AND 0xFFFF)) 131,
          0))"

definition mobile_sensors_read_accel :: "sensors_t \<Rightarrow> (float32 \<times> float32 \<times> float32) option" where
  "mobile_sensors_read_accel s = (if \<not> sensor_init_done s then None else Some (slpi_read_accel (sens_regs s)))"

definition mobile_sensors_read_gyro :: "sensors_t \<Rightarrow> (float32 \<times> float32 \<times> float32) option" where
  "mobile_sensors_read_gyro s = (if \<not> sensor_init_done s then None else Some (slpi_read_gyro (sens_regs s)))"

definition mobile_sensors_orientation :: "sensors_t \<Rightarrow> int" where
  "mobile_sensors_orientation s =
     (case mobile_sensors_read_accel s of None \<Rightarrow> 0
      | Some (x, y, z) \<Rightarrow> if z < -7 then 1 else if z > 7 then 2 else 0)"

definition mobile_sensors_set_thresholds :: "int \<Rightarrow> int \<Rightarrow> sensors_t \<Rightarrow> sensors_t" where
  "mobile_sensors_set_thresholds prox_cm light_lux s = s"

section \<open>Rounding\<close>

lemma round_even_int [simp]: "round_even (of_int n) = n"
  by (simp add: round_even_def)

lemma round_even_error: "\<bar>of_int (round_even x) - x\<bar> \<le> 1 / 2"
  unfolding round_even_def Let_def using floor_correct [of x] by auto

lemma powi_2_pos [simp]: "(0 :: rat) < 2 powi k" by simp

lemma floorlog_2_bounds:
  assumes "0 < n"
  shows "(2 :: rat) powi (int (floorlog 2 n) - 1) \<le> of_nat n" "of_nat n < (2 :: rat) powi int (floorlog 2 n)"
proof -
  have "2 ^ (floorlog 2 n - 1) \<le> n" "n < 2 ^ floorlog 2 n" "0 < floorlog 2 n"
    using floorlog_bounds [of n 2] assms by (auto simp: floorlog_def)
  moreover from this(3) have "int (floorlog 2 n) - 1 = int (floorlog 2 n - 1)" by simp
  ultimately show "(2 :: rat) powi (int (floorlog 2 n) - 1) \<le> of_nat n" "of_nat n < (2 :: rat) powi int (floorlog 2 n)"
    by (simp_all only: power_int_of_nat) (metis of_nat_le_iff of_nat_less_iff of_nat_numeral of_nat_power)+
qed

lemma binexp_bounds:
  assumes "0 < q"
  shows "2 powi binexp q \<le> q \<and> q < 2 powi (binexp q + 1)"
proof -
  obtain n d where nd: "quotient_of q = (n, d)" by fastforce
  have d: "0 < d" using quotient_of_denom_pos [OF nd] .
  have q: "q = of_int n / of_int d" using quotient_of_div [OF nd] .
  have n: "0 < n" using assms d q by (simp add: zero_less_divide_iff)
  define a b where "a = int (floorlog 2 (nat n))" and "b = int (floorlog 2 (nat d))"
  have N: "(2 :: rat) powi (a - 1) \<le> of_int n" "of_int n < (2 :: rat) powi a"
    and D: "(2 :: rat) powi (b - 1) \<le> of_int d" "of_int d < (2 :: rat) powi b"
    using floorlog_2_bounds [of "nat n"] floorlog_2_bounds [of "nat d"] n d by (simp_all add: a_def b_def)
  have "of_int n / of_int d < (2 :: rat) powi a / 2 powi (b - 1)"
    using N(2) D(1) d n by (intro frac_less) auto
  then have up: "q < 2 powi (a - b + 1)" by (simp add: q power_int_diff power_int_add)
  have "(2 :: rat) powi (a - 1) / 2 powi b \<le> of_int n / of_int d"
    using N(1) D(2) d n by (intro frac_le) auto
  then have lo: "2 powi (a - b - 1) \<le> q" by (simp add: q power_int_diff)
  have "binexp q = (if 2 powi (a - b) \<le> q then a - b else a - b - 1)"
    by (simp add: binexp_def nd a_def b_def)
  then show ?thesis using up lo by auto
qed

text \<open>The error of a rounding is at most half a unit in the last place, that is at most one part in \<open>2\<^sup>24\<close>.\<close>

lemma round32_error: "\<bar>round32 q - q\<bar> \<le> \<bar>q\<bar> / 2 ^ 24"
proof (cases "q = 0")
  case False
  define u :: rat where "u = 2 powi (binexp \<bar>q\<bar> - 23)"
  have u: "0 < u" "round32 q = of_int (round_even (q / u)) * u" using False by (simp_all add: u_def round32_def Let_def)
  have "round32 q - q = (of_int (round_even (q / u)) - q / u) * u"
    using u(1) by (simp add: u(2) left_diff_distrib)
  then have "\<bar>round32 q - q\<bar> = \<bar>of_int (round_even (q / u)) - q / u\<bar> * u" using u(1) by (simp add: abs_mult)
  also have "\<dots> \<le> 1 / 2 * u" using round_even_error u(1) by (intro mult_right_mono) auto
  also have "\<dots> \<le> \<bar>q\<bar> / 2 ^ 24"
    using binexp_bounds [of "\<bar>q\<bar>"] False by (simp add: u_def power_int_diff field_simps)
  finally show ?thesis .
qed (simp add: round32_def)

text \<open>A number that fits in 24 bits, at a scale that is a power of two, is not changed.\<close>

lemma round32_exact:
  assumes "\<bar>n\<bar> < 2 ^ 24"
  shows "round32 (of_int n / 2 ^ k) = of_int n / 2 ^ k"
proof (cases "n = 0")
  case False
  let ?q = "of_int n / 2 ^ k :: rat"
  define e where "e = binexp \<bar>?q\<bar>"
  have "2 powi e \<le> \<bar>?q\<bar>" using binexp_bounds [of "\<bar>?q\<bar>"] False by (simp add: e_def)
  also have "\<bar>?q\<bar> < 2 powi (24 - int k)"
  proof -
    have "\<bar>of_int n :: rat\<bar> < 2 ^ 24" using assms by (metis of_int_abs of_int_less_iff of_int_numeral of_int_power)
    then show ?thesis by (simp add: power_int_diff abs_divide divide_strict_right_mono)
  qed
  finally have "(2 :: rat) powi e < 2 powi (24 - int k)" .
  then have "e < 24 - int k" using power_int_increasing [of "24 - int k" e "2 :: rat"] by (meson leI not_less one_le_numeral)
  then have "24 - int k - 1 - e = int (nat (24 - int k - 1 - e))" by simp
  then obtain j where j: "24 - int k - 1 - e = int j" by blast
  then have e: "e - 23 = - int (k + j)" by simp
  have u: "?q / 2 powi (e - 23) = of_int (n * 2 ^ j)"
    unfolding e power_int_minus power_int_of_nat by (simp add: power_add field_simps)
  have "round32 ?q = of_int (round_even (?q / 2 powi (e - 23))) * 2 powi (e - 23)"
    using False by (simp add: round32_def Let_def e_def)
  also have "\<dots> = of_int (n * 2 ^ j) * 2 powi (e - 23)" by (simp only: u round_even_int)
  also have "\<dots> = ?q" by (simp only: u [symmetric]) simp
  finally show ?thesis .
qed (simp add: round32_def)

section \<open>What the readings are\<close>

lemma sint16_bounds: "- 32768 \<le> sint (w :: 16 word)" "sint (w :: 16 word) < 32768"
  using sint_greater_eq [of w] sint_less [of w] by simp_all

lemma accel_exact [simp]: "fdiv (float_of_int16 w) 16384 = float_of_int16 w / 16384"
  using round32_exact [of "sint (ucast w :: 16 word)" 14] sint16_bounds [of "ucast w"]
  by (simp add: fdiv_def float_of_int16_def)

text \<open>The accelerometer values are the register's two halves in units of 1/16384, without rounding error, between -2 and 2; those of
  the gyroscope are the halves divided by 131 up to one part in \<open>2\<^sup>24\<close>.\<close>

lemma accel_readings:
  assumes "slpi_read_accel r = (x, y, z)"
  defines "raw \<equiv> read_reg SM8250_SENSOR_BASE SLPI_ACCEL_DATA r"
  shows "x * 16384 = of_int (sint (ucast raw :: 16 word)) \<and> y * 16384 = of_int (sint (ucast (drop_bit 16 raw) :: 16 word))
    \<and> \<bar>x\<bar> \<le> 2 \<and> \<bar>y\<bar> \<le> 2"
proof -
  have m: "ucast (w AND 0xFFFF) = (ucast w :: 16 word)" for w :: u32
  proof -
    have "(0xFFFF :: u32) = mask 16" by (simp add: mask_eq_exp_minus_1)
    then show ?thesis by (simp only: take_bit_eq_mask [symmetric]) (intro bit_word_eqI, auto simp: bit_simps)
  qed
  have "\<bar>of_int i / 16384 :: rat\<bar> \<le> 2" if "- 32768 \<le> i" "i < 32768" for i
    using that by (auto simp: abs_le_iff field_simps)
  from this [OF sint16_bounds] have "\<bar>of_int (sint w) / 16384 :: rat\<bar> \<le> 2" for w :: "16 word" .
  moreover have "x = float_of_int16 (raw AND 0xFFFF) / 16384" "y = float_of_int16 (drop_bit 16 raw AND 0xFFFF) / 16384"
    using assms by (simp_all add: slpi_read_accel_def Let_def)
  ultimately have "\<bar>x\<bar> \<le> 2" "\<bar>y\<bar> \<le> 2" "x * 16384 = float_of_int16 (raw AND 0xFFFF)"
    "y * 16384 = float_of_int16 (drop_bit 16 raw AND 0xFFFF)"
    by (metis float_of_int16_def, metis float_of_int16_def, simp_all)
  then show ?thesis by (simp add: float_of_int16_def m)
qed

lemma gyro_readings:
  assumes "slpi_read_gyro r = (x, y, z)"
  defines "raw \<equiv> read_reg SM8250_SENSOR_BASE SLPI_GYRO_DATA r"
  shows "\<bar>x - float_of_int16 (raw AND 0xFFFF) / 131\<bar> \<le> \<bar>float_of_int16 (raw AND 0xFFFF) / 131\<bar> / 2 ^ 24 \<and> z = 0"
proof -
  have "x = round32 (float_of_int16 (raw AND 0xFFFF) / 131)" "z = 0"
    using assms by (simp_all add: slpi_read_gyro_def Let_def fdiv_def)
  then show ?thesis using round32_error by metis
qed

text \<open>The vertical acceleration is a constant, so the orientation never depends on the sensor: an initialised driver always
  reports orientation 2.\<close>

lemma orientation_constant: "mobile_sensors_orientation s = (if sensor_init_done s then 2 else 0)"
proof -
  have "\<bar>round32 (981 / 100) - 981 / 100\<bar> \<le> 1"
    by (rule order_trans [OF round32_error]) simp
  then have "\<not> round32 (981 / 100) < - 7 \<and> 7 < round32 (981 / 100)" by linarith
  then show ?thesis by (simp add: mobile_sensors_orientation_def mobile_sensors_read_accel_def slpi_read_accel_def Let_def)
qed

end
