(* ===== verification/Pipe.thy ===== *)
theory Pipe
  imports Ring Proc_Types
begin

text \<open>
  Pipes (\<^verbatim>\<open>kernel/ipc/pipe.c\<close>): a table of \<open>MAX_PIPES\<close> byte rings. The two loops of
  \<^verbatim>\<open>pipe_write\<close> and \<^verbatim>\<open>pipe_read\<close> are \<open>pipe_write_loop\<close> and \<open>pipe_read_loop\<close>;
  \<open>pipe_put\<close> and \<open>pipe_get\<close> are one round of each and give the interpretation of the
  bounded queue. Pointer arguments that the code tests against \<^verbatim>\<open>NULL\<close> are booleans, the
  two result pointers of \<^verbatim>\<open>pipe_create\<close> are part of the result and do not alias.
\<close>

abbreviation PIPE_BUF_SIZE :: nat where "PIPE_BUF_SIZE \<equiv> 4096"

record pipe_t =
  pipe_buf :: "nat \<Rightarrow> u8"
  pipe_head :: nat
  pipe_tail :: nat
  pipe_read_open :: bool
  pipe_write_open :: bool
  pipe_in_use :: bool

type_synonym pipes = "nat \<Rightarrow> pipe_t"

definition zero_pipe :: pipe_t where
  "zero_pipe = \<lparr>pipe_buf = (\<lambda>_. 0), pipe_head = 0, pipe_tail = 0, pipe_read_open = False,
     pipe_write_open = False, pipe_in_use = False\<rparr>"

definition pipe_init :: pipes where
  "pipe_init = (\<lambda>_. zero_pipe)"

text \<open>The descriptor scan of \<^verbatim>\<open>pipe_create\<close>: \<open>r\<close> and \<open>w\<close> are \<^verbatim>\<open>*read_fd\<close> and
  \<^verbatim>\<open>*write_fd\<close>, -1 until found.\<close>

function pipe_fd_scan ::
  "int \<Rightarrow> nat \<Rightarrow> int \<Rightarrow> int \<Rightarrow> (nat \<Rightarrow> file_descriptor_t) \<Rightarrow> int \<times> int \<times> (nat \<Rightarrow> file_descriptor_t)" where
  "pipe_fd_scan pid i r w fds =
     (if i < MAX_OPEN_FILES then
        if \<not> fd_in_use (fds i) then
          if r < 0 then
            pipe_fd_scan pid (Suc i) (int i) w
              (fds(i := (fds i)\<lparr>fd_fd := int i, fd_type := 1, fd_pipe_id := pid, fd_flags := 0,
                               fd_in_use := True\<rparr>))
          else if w < 0 then
            pipe_fd_scan pid (Suc i) r (int i)
              (fds(i := (fds i)\<lparr>fd_fd := int i, fd_type := 1, fd_pipe_id := pid, fd_flags := 1,
                               fd_in_use := True\<rparr>))
          else (r, w, fds)
        else pipe_fd_scan pid (Suc i) r w fds
      else (r, w, fds))"
  by pat_completeness auto
termination
  by (relation "measure (\<lambda>(pid, i, r, w, fds). MAX_OPEN_FILES - i)") auto

declare pipe_fd_scan.simps [simp del]

definition pipe_create ::
  "bool \<Rightarrow> bool \<Rightarrow> pipes \<Rightarrow> process_t option \<Rightarrow> int \<times> (int \<times> int) option \<times> pipes \<times> process_t option" where
  "pipe_create read_fd write_fd ps cur =
     (if \<not> read_fd \<or> \<not> write_fd then (-1, None, ps, cur)
      else case first_idx (\<lambda>i. \<not> pipe_in_use (ps i)) MAX_PIPES of
        None \<Rightarrow> (-1, None, ps, cur)
      | Some k \<Rightarrow>
          let ps' = ps(k := zero_pipe\<lparr>pipe_in_use := True, pipe_read_open := True,
                                     pipe_write_open := True\<rparr>) in
          case cur of None \<Rightarrow> (-1, None, ps', cur)
          | Some p \<Rightarrow>
              let (r, w, fds) = pipe_fd_scan (int k) 0 (-1) (-1) (pr_fds p)
              in (0, Some (r, w), ps', Some (p\<lparr>pr_fds := fds\<rparr>)))"

definition pipe_valid :: "int \<Rightarrow> pipes \<Rightarrow> bool" where
  "pipe_valid pid ps \<longleftrightarrow> \<not> (pid < 0 \<or> pid \<ge> int MAX_PIPES \<or> \<not> pipe_in_use (ps (nat pid)))"

definition pipe_put :: "u8 \<Rightarrow> pipe_t \<Rightarrow> pipe_t" where
  "pipe_put x p = (let next = (pipe_head p + 1) mod PIPE_BUF_SIZE in
     if next = pipe_tail p then p
     else p\<lparr>pipe_buf := (pipe_buf p)(pipe_head p := x), pipe_head := next\<rparr>)"

fun pipe_write_loop :: "u8 list \<Rightarrow> pipe_t \<Rightarrow> nat \<times> pipe_t" where
  "pipe_write_loop [] p = (0, p)"
| "pipe_write_loop (x # xs) p =
     (if (pipe_head p + 1) mod PIPE_BUF_SIZE = pipe_tail p then (0, p)
      else let (n, p') = pipe_write_loop xs (pipe_put x p) in (Suc n, p'))"

definition pipe_write :: "int \<Rightarrow> u8 list \<Rightarrow> pipes \<Rightarrow> int \<times> pipes" where
  "pipe_write pid data ps =
     (if \<not> pipe_valid pid ps then (-1, ps)
      else if \<not> pipe_write_open (ps (nat pid)) then (-1, ps)
      else let (n, p') = pipe_write_loop data (ps (nat pid)) in (int n, ps(nat pid := p')))"

definition pipe_get :: "pipe_t \<Rightarrow> (u8 \<times> pipe_t) option" where
  "pipe_get p = (if pipe_tail p \<noteq> pipe_head p
     then Some (pipe_buf p (pipe_tail p), p\<lparr>pipe_tail := (pipe_tail p + 1) mod PIPE_BUF_SIZE\<rparr>)
     else None)"

fun pipe_read_loop :: "nat \<Rightarrow> pipe_t \<Rightarrow> u8 list \<times> pipe_t" where
  "pipe_read_loop 0 p = ([], p)"
| "pipe_read_loop (Suc n) p =
     (case pipe_get p of None \<Rightarrow> ([], p)
      | Some (x, p') \<Rightarrow> let (xs, p'') = pipe_read_loop n p' in (x # xs, p''))"

definition pipe_read :: "int \<Rightarrow> nat \<Rightarrow> pipes \<Rightarrow> int \<times> u8 list \<times> pipes" where
  "pipe_read pid maxlen ps =
     (if \<not> pipe_valid pid ps then (-1, [], ps)
      else if \<not> pipe_read_open (ps (nat pid)) then (-1, [], ps)
      else let (xs, p') = pipe_read_loop maxlen (ps (nat pid))
           in (int (length xs), xs, ps(nat pid := p')))"

definition pipe_close :: "int \<Rightarrow> bool \<Rightarrow> pipes \<Rightarrow> int \<times> pipes" where
  "pipe_close pid is_write ps =
     (if \<not> pipe_valid pid ps then (-1, ps)
      else let p = ps (nat pid);
               p1 = (if is_write then p\<lparr>pipe_write_open := False\<rparr> else p\<lparr>pipe_read_open := False\<rparr>);
               p2 = (if \<not> pipe_read_open p1 \<and> \<not> pipe_write_open p1
                     then p1\<lparr>pipe_in_use := False\<rparr> else p1)
           in (0, ps(nat pid := p2)))"

section \<open>The ring of one pipe is a bounded queue\<close>

definition pipe_inv :: "pipe_t \<Rightarrow> bool" where
  "pipe_inv p \<longleftrightarrow> pipe_head p < PIPE_BUF_SIZE \<and> pipe_tail p < PIPE_BUF_SIZE"

definition pipe_contents :: "pipe_t \<Rightarrow> u8 list" where
  "pipe_contents p = ring_list PIPE_BUF_SIZE (pipe_buf p) (pipe_head p) (pipe_tail p)"

lemma pipe_full_iff:
  "pipe_inv p \<Longrightarrow> Suc (pipe_head p) mod PIPE_BUF_SIZE = pipe_tail p \<longleftrightarrow> length (pipe_contents p) = 4095"
  by (simp add: pipe_inv_def pipe_contents_def ring_full_iff)

interpretation pq: bounded_queue pipe_inv pipe_contents 4095 pipe_put pipe_get
proof
  fix p x
  assume inv: "pipe_inv p"
  then show "length (pipe_contents p) \<le> 4095"
    using ring_len_bound [of "pipe_head p" PIPE_BUF_SIZE "pipe_tail p"]
    by (simp add: pipe_inv_def pipe_contents_def)
  from inv show "pipe_inv (pipe_put x p)" by (simp add: pipe_inv_def pipe_put_def Let_def)
  show "pipe_contents (pipe_put x p) = pipe_contents p @ [x]" if "length (pipe_contents p) < 4095"
    using inv that ring_list_put [of "pipe_head p" PIPE_BUF_SIZE "pipe_tail p"]
    by (simp add: pipe_put_def Let_def pipe_full_iff) (simp add: pipe_contents_def pipe_inv_def ring_full_iff)
  show "pipe_put x p = p" if "length (pipe_contents p) = 4095"
    using inv that by (simp add: pipe_put_def pipe_full_iff Let_def)
  show "pipe_get p = None" if "pipe_contents p = []"
    using inv that by (simp add: pipe_get_def pipe_contents_def pipe_inv_def ring_list_Nil_iff)
  show "\<exists>q'. pipe_get p = Some (x, q') \<and> pipe_inv q' \<and> pipe_contents q' = xs"
    if "pipe_contents p = x # xs" for xs
  proof -
    from that have ne: "pipe_tail p \<noteq> pipe_head p" by (auto simp: pipe_contents_def)
    with inv that show ?thesis
      using ring_list_get [of "pipe_head p" PIPE_BUF_SIZE "pipe_tail p" "pipe_buf p"]
      by (simp add: pipe_get_def pipe_contents_def pipe_inv_def)
  qed
qed

lemma pipe_write_loop_fold:
  assumes "pipe_inv p"
  shows "pipe_write_loop xs p = (min (length xs) (4095 - length (pipe_contents p)), fold pipe_put xs p)"
  using assms
proof (induction xs arbitrary: p)
  case Nil
  then show ?case by simp
next
  case (Cons x xs)
  show ?case
  proof (cases "length (pipe_contents p) = 4095")
    case True
    with Cons.prems pq.fold_put_full [OF Cons.prems, of "x # xs"] pipe_full_iff [of p]
    show ?thesis by simp
  next
    case False
    with pq.cap_bound [OF Cons.prems] have lt: "length (pipe_contents p) < 4095" by simp
    from Cons.IH [OF pq.inv_put [OF Cons.prems]] pq.put_fits [OF Cons.prems lt]
    show ?thesis using False Cons.prems pipe_full_iff [of p] lt by simp
  qed
qed

lemma pipe_read_loop_many: "pipe_read_loop n p = pq.get_many n p"
  by (induction n arbitrary: p) (simp_all split: option.splits prod.splits)

lemma pipe_read_loop_take:
  assumes "pipe_inv p"
  shows "fst (pipe_read_loop n p) = take n (pipe_contents p)"
    and "pipe_inv (snd (pipe_read_loop n p))"
    and "pipe_contents (snd (pipe_read_loop n p)) = drop n (pipe_contents p)"
  using pq.get_many_take [OF assms, of n] by (simp_all add: pipe_read_loop_many)

section \<open>Reading and writing as a stream\<close>

definition pipe_open :: "int \<Rightarrow> pipes \<Rightarrow> bool" where
  "pipe_open pid ps \<longleftrightarrow> pipe_valid pid ps \<and> pipe_read_open (ps (nat pid)) \<and>
     pipe_write_open (ps (nat pid)) \<and> pipe_inv (ps (nat pid))"

lemma pipe_put_flags [simp]:
  "pipe_in_use (pipe_put x p) = pipe_in_use p" "pipe_read_open (pipe_put x p) = pipe_read_open p"
  "pipe_write_open (pipe_put x p) = pipe_write_open p"
  by (simp_all add: pipe_put_def Let_def)

lemma fold_pipe_put_flags [simp]:
  "pipe_in_use (fold pipe_put xs p) = pipe_in_use p"
  "pipe_read_open (fold pipe_put xs p) = pipe_read_open p"
  "pipe_write_open (fold pipe_put xs p) = pipe_write_open p"
  by (induction xs arbitrary: p) simp_all

lemma pipe_read_loop_flags [simp]:
  "pipe_in_use (snd (pipe_read_loop n p)) = pipe_in_use p"
  "pipe_read_open (snd (pipe_read_loop n p)) = pipe_read_open p"
  "pipe_write_open (snd (pipe_read_loop n p)) = pipe_write_open p"
  by (induction n arbitrary: p) (simp_all add: pipe_get_def case_prod_unfold Let_def)

lemma pipe_write_spec:
  assumes "pipe_open pid ps" "pipe_write pid data ps = (n, ps')"
  shows "n = int (min (length data) (4095 - length (pipe_contents (ps (nat pid)))))"
    and "pipe_contents (ps' (nat pid)) = pipe_contents (ps (nat pid)) @ take (nat n) data"
    and "pipe_open pid ps'" "\<And>q. q \<noteq> nat pid \<Longrightarrow> ps' q = ps q"
  using assms pq.fold_put [of "ps (nat pid)" data]
  by (auto simp: pipe_open_def pipe_write_def pipe_valid_def pipe_write_loop_fold min_def)

lemma pipe_read_spec:
  assumes "pipe_open pid ps" "pipe_read pid m ps = (n, xs, ps')"
  shows "n = int (length xs)" "xs = take m (pipe_contents (ps (nat pid)))"
    and "pipe_contents (ps' (nat pid)) = drop m (pipe_contents (ps (nat pid)))"
    and "pipe_open pid ps'" "\<And>q. q \<noteq> nat pid \<Longrightarrow> ps' q = ps q"
proof -
  from assms have inv: "pipe_inv (ps (nat pid))" by (simp add: pipe_open_def)
  from assms have eqs: "xs = fst (pipe_read_loop m (ps (nat pid)))" "n = int (length xs)"
    "ps' = ps(nat pid := snd (pipe_read_loop m (ps (nat pid))))"
    by (auto simp: pipe_open_def pipe_read_def case_prod_unfold Let_def)
  with assms(1) pipe_read_loop_take [OF inv, of m]
  show "n = int (length xs)" "xs = take m (pipe_contents (ps (nat pid)))"
    "pipe_contents (ps' (nat pid)) = drop m (pipe_contents (ps (nat pid)))"
    "pipe_open pid ps'" "\<And>q. q \<noteq> nat pid \<Longrightarrow> ps' q = ps q"
    by (simp_all add: pipe_open_def pipe_valid_def)
qed

datatype pipe_op = PipeWrite "u8 list" | PipeRead nat

text \<open>A run of calls on one pipe: the bytes the writes accepted, the bytes the reads
  delivered, and the final table.\<close>

fun pipe_run :: "int \<Rightarrow> pipe_op list \<Rightarrow> pipes \<Rightarrow> u8 list \<times> u8 list \<times> pipes" where
  "pipe_run pid [] ps = ([], [], ps)"
| "pipe_run pid (PipeWrite d # ops) ps =
     (let (n, ps') = pipe_write pid d ps; (a, r, ps'') = pipe_run pid ops ps'
      in (take (nat n) d @ a, r, ps''))"
| "pipe_run pid (PipeRead m # ops) ps =
     (let (n, xs, ps') = pipe_read pid m ps; (a, r, ps'') = pipe_run pid ops ps'
      in (a, xs @ r, ps''))"

text \<open>C20: A pipe is a lossless byte stream: whatever calls to pipe_write and pipe_read are
  made on an open pipe, in any order and with any sizes, the bytes delivered by the reads
  followed by the bytes still buffered are exactly the bytes that were buffered at the start
  followed by the bytes the writes reported as accepted, in order; the pipe stays open,
  never holds more than 4095 bytes, and no other pipe changes.\<close>

theorem pipe_stream:
  assumes "pipe_open pid ps" "pipe_run pid ops ps = (accepted, delivered, ps')"
  shows "delivered @ pipe_contents (ps' (nat pid)) = pipe_contents (ps (nat pid)) @ accepted
    \<and> pipe_open pid ps' \<and> length (pipe_contents (ps' (nat pid))) \<le> 4095
    \<and> (\<forall>q. q \<noteq> nat pid \<longrightarrow> ps' q = ps q)"
  using assms
proof (induction ops arbitrary: ps accepted delivered)
  case Nil
  then show ?case by (auto simp: pipe_open_def intro: pq.cap_bound)
next
  case (Cons op ops)
  show ?case
  proof (cases op)
    case (PipeWrite d)
    obtain n p1 where w: "pipe_write pid d ps = (n, p1)" by fastforce
    obtain a r p2 where t: "pipe_run pid ops p1 = (a, r, p2)" by (metis prod_cases3)
    note spec = pipe_write_spec [OF Cons.prems(1) w]
    from Cons.prems(2) PipeWrite w t have eq: "accepted = take (nat n) d @ a" "delivered = r" "ps' = p2"
      by auto
    with Cons.IH [OF spec(3), of a r] t spec(2,4) show ?thesis by auto
  next
    case (PipeRead m)
    obtain n xs p1 where w: "pipe_read pid m ps = (n, xs, p1)" by (metis prod_cases3)
    obtain a r p2 where t: "pipe_run pid ops p1 = (a, r, p2)" by (metis prod_cases3)
    note spec = pipe_read_spec [OF Cons.prems(1) w]
    from Cons.prems(2) PipeRead w t have eq: "accepted = a" "delivered = xs @ r" "ps' = p2"
      by auto
    from Cons.IH [OF spec(4), of a r] t eq
    have IH: "r @ pipe_contents (ps' (nat pid)) = drop m (pipe_contents (ps (nat pid))) @ a"
      "pipe_open pid ps'" "length (pipe_contents (ps' (nat pid))) \<le> 4095"
      "\<forall>q. q \<noteq> nat pid \<longrightarrow> ps' q = p1 q"
      unfolding spec(3) by auto
    then have "delivered @ pipe_contents (ps' (nat pid)) = pipe_contents (ps (nat pid)) @ accepted"
      by (simp add: eq spec(2))
    with IH spec(5) show ?thesis by auto
  qed
qed

text \<open>The hypotheses of the stream theorem hold of a freshly created pipe, for a run that
  writes, reads across the writes and leaves bytes behind.\<close>

definition pipe_demo :: pipes where
  "pipe_demo = (\<lambda>_. zero_pipe\<lparr>pipe_in_use := True, pipe_read_open := True, pipe_write_open := True\<rparr>)"

theorem pipe_stream_witness:
  "pipe_open 0 pipe_demo \<and>
   fst (pipe_run 0 [PipeWrite [1, 2], PipeRead 1, PipeWrite [3], PipeRead 1] pipe_demo) = [1, 2, 3] \<and>
   fst (snd (pipe_run 0 [PipeWrite [1, 2], PipeRead 1, PipeWrite [3], PipeRead 1] pipe_demo)) = [1, 2] \<and>
   pipe_contents (snd (snd (pipe_run 0 [PipeWrite [1, 2], PipeRead 1, PipeWrite [3], PipeRead 1] pipe_demo)) 0)
     = [3]"
proof -
  let ?run = "pipe_run 0 [PipeWrite [1, 2], PipeRead 1, PipeWrite [3], PipeRead 1] pipe_demo"
  have o: "pipe_open 0 pipe_demo"
    by (simp add: pipe_open_def pipe_valid_def pipe_demo_def zero_pipe_def pipe_inv_def)
  have a: "fst ?run = [1, 2, 3]" and d: "fst (snd ?run) = [1, 2]"
    by (simp_all add: pipe_demo_def zero_pipe_def pipe_write_def pipe_read_def pipe_valid_def
        pipe_put_def pipe_get_def numeral_2_eq_2)
  have "?run = ([1, 2, 3], [1, 2], snd (snd ?run))" using a d by (metis prod.collapse)
  from pipe_stream [OF o this] o a d show ?thesis
    by (simp add: pipe_contents_def pipe_demo_def zero_pipe_def)
qed

section \<open>Creating a pipe\<close>

abbreviation pipe_fd :: "file_descriptor_t \<Rightarrow> nat \<Rightarrow> int \<Rightarrow> int \<Rightarrow> file_descriptor_t" where
  "pipe_fd d i pid flags \<equiv>
     d\<lparr>fd_fd := int i, fd_type := 1, fd_pipe_id := pid, fd_flags := flags, fd_in_use := True\<rparr>"

lemma pipe_fd_scan_done: "0 \<le> r \<Longrightarrow> 0 \<le> w \<Longrightarrow> pipe_fd_scan pid k r w fds = (r, w, fds)"
  by (induction pid k r w fds rule: pipe_fd_scan.induct) (simp add: pipe_fd_scan.simps)

lemma pipe_fd_scan_write:
  "0 \<le> r \<Longrightarrow> w < 0 \<Longrightarrow> pipe_fd_scan pid k r w fds =
     (case first_from (\<lambda>i. \<not> fd_in_use (fds i)) k MAX_OPEN_FILES of None \<Rightarrow> (r, w, fds)
      | Some j \<Rightarrow> (r, int j, fds(j := pipe_fd (fds j) j pid 1)))"
proof (induction pid k r w fds rule: pipe_fd_scan.induct)
  case (1 pid k r w fds)
  then show ?case
    by (subst pipe_fd_scan.simps, subst first_from.simps) (simp add: pipe_fd_scan_done)
qed

lemma pipe_fd_scan_read:
  "r < 0 \<Longrightarrow> pipe_fd_scan pid k r w fds =
     (case first_from (\<lambda>i. \<not> fd_in_use (fds i)) k MAX_OPEN_FILES of None \<Rightarrow> (r, w, fds)
      | Some i \<Rightarrow> pipe_fd_scan pid (Suc i) (int i) w (fds(i := pipe_fd (fds i) i pid 0)))"
proof (induction pid k r w fds rule: pipe_fd_scan.induct)
  case (1 pid k r w fds)
  then show ?case
    by (subst pipe_fd_scan.simps, subst first_from.simps) simp
qed

lemma first_from_upd_before: "i < k \<Longrightarrow> first_from (\<lambda>j. P ((f(i := x)) j)) k n = first_from (\<lambda>j. P (f j)) k n"
proof (induction "\<lambda>j. P (f j)" k n rule: first_from.induct)
  case (1 k n)
  then show ?case by (subst (1 2) first_from.simps) simp
qed

text \<open>When a pipe slot is free and the current process has two free descriptors,
  pipe_create takes the first free slot and the first two free descriptors, in that order:
  the new pipe is empty and open at both ends, the lower descriptor is its read end and the
  higher its write end, and every other pipe and descriptor is left as it was.\<close>

theorem pipe_create_ok:
  assumes "first_idx (\<lambda>k. \<not> pipe_in_use (ps k)) MAX_PIPES = Some k"
    and "first_from (\<lambda>i. \<not> fd_in_use (pr_fds p i)) 0 MAX_OPEN_FILES = Some i"
    and "first_from (\<lambda>i. \<not> fd_in_use (pr_fds p i)) (Suc i) MAX_OPEN_FILES = Some j"
  shows "\<exists>ps' p'. pipe_create True True ps (Some p) = (0, Some (int i, int j), ps', Some p')
    \<and> pipe_open (int k) ps' \<and> pipe_contents (ps' k) = []
    \<and> (\<forall>q. q \<noteq> k \<longrightarrow> ps' q = ps q) \<and> i < j
    \<and> fd_pipe_id (pr_fds p' i) = int k \<and> fd_flags (pr_fds p' i) = 0 \<and> fd_in_use (pr_fds p' i)
    \<and> fd_pipe_id (pr_fds p' j) = int k \<and> fd_flags (pr_fds p' j) = 1 \<and> fd_in_use (pr_fds p' j)
    \<and> (\<forall>d. d \<noteq> i \<and> d \<noteq> j \<longrightarrow> pr_fds p' d = pr_fds p d)"
proof -
  from assms(3) have ij: "i < j" by (simp add: first_from_Some_iff)
  have "pipe_fd_scan (int k) 0 (-1) (-1) (pr_fds p)
      = (int i, int j, (pr_fds p)(i := pipe_fd (pr_fds p i) i (int k) 0,
                                  j := pipe_fd (pr_fds p j) j (int k) 1))"
    using ij assms(2,3)
      first_from_upd_before [of i "Suc i" "\<lambda>d. \<not> fd_in_use d" "pr_fds p"]
    by (simp add: pipe_fd_scan_read pipe_fd_scan_write)
  moreover from assms(1) have "k < MAX_PIPES" by (simp add: first_idx_Some_iff)
  ultimately show ?thesis using assms(1) ij
    by (simp add: pipe_create_def pipe_open_def pipe_valid_def pipe_inv_def zero_pipe_def
        pipe_contents_def)
qed

theorem pipe_create_ok_witness:
  "fst (pipe_create True True pipe_init (Some zero_process)) = 0 \<and>
   fst (snd (pipe_create True True pipe_init (Some zero_process))) = Some (0, 1)"
proof -
  have 1: "first_idx (\<lambda>k. \<not> pipe_in_use (pipe_init k)) MAX_PIPES = Some 0"
    by (simp add: first_idx_Some_iff pipe_init_def zero_pipe_def)
  have 2: "first_from (\<lambda>i. \<not> fd_in_use (pr_fds zero_process i)) 0 MAX_OPEN_FILES = Some 0"
    by (simp add: first_from_Some_iff)
  have 3: "first_from (\<lambda>i. \<not> fd_in_use (pr_fds zero_process i)) (Suc 0) MAX_OPEN_FILES = Some 1"
    by (simp add: first_from_Some_iff)
  from pipe_create_ok [OF 1 2 3] show ?thesis by auto
qed

text \<open>Two error paths that do not undo their work: without a current process the call fails
  after the slot was taken, and with an exhausted descriptor table it reports success with
  both descriptors -1.\<close>

lemma pipe_create_leaks:
  assumes "first_idx (\<lambda>k. \<not> pipe_in_use (ps k)) MAX_PIPES = Some k"
  shows "fst (pipe_create True True ps None) = -1
    \<and> pipe_in_use (fst (snd (snd (pipe_create True True ps None))) k)"
  using assms by (simp add: pipe_create_def)

lemma pipe_create_no_fds:
  assumes "first_idx (\<lambda>k. \<not> pipe_in_use (ps k)) MAX_PIPES = Some k"
    and "\<forall>i<MAX_OPEN_FILES. fd_in_use (pr_fds p i)"
  shows "fst (pipe_create True True ps (Some p)) = 0
    \<and> fst (snd (pipe_create True True ps (Some p))) = Some (-1, -1)"
proof -
  have "first_from (\<lambda>i. \<not> fd_in_use (pr_fds p i)) 0 MAX_OPEN_FILES = None"
    using assms(2) by (simp add: first_from_None_iff)
  with assms(1) show ?thesis by (simp add: pipe_create_def pipe_fd_scan_read)
qed

end
