(* ===== verification/Tty.thy ===== *)
theory Tty
  imports Ring
begin

text \<open>
  The console device (\<^verbatim>\<open>kernel/drivers/tty.c\<close>): an input ring of 4096 characters that
  drops what does not fit, with echo. The characters sent to \<^verbatim>\<open>putchar\<close> are the output
  trace \<open>tty_out\<close>.
\<close>

abbreviation TTY_BUF_SIZE :: nat where "TTY_BUF_SIZE \<equiv> 4096"

record tty_device_t =
  tty_initialized :: bool
  tty_input_buf :: "nat \<Rightarrow> char"
  tty_input_head :: nat
  tty_input_tail :: nat
  tty_echo :: bool
  tty_line_buffer :: bool
  tty_out :: string

text \<open>The static object \<^verbatim>\<open>_console_tty\<close> before any call.\<close>

definition console_tty :: tty_device_t where
  "console_tty = \<lparr>tty_initialized = False, tty_input_buf = (\<lambda>_. CHR 0x00), tty_input_head = 0,
     tty_input_tail = 0, tty_echo = False, tty_line_buffer = False, tty_out = []\<rparr>"

definition tty_init :: "tty_device_t \<Rightarrow> tty_device_t" where
  "tty_init t = \<lparr>tty_initialized = True, tty_input_buf = (\<lambda>_. CHR 0x00), tty_input_head = 0,
     tty_input_tail = 0, tty_echo = True, tty_line_buffer = True, tty_out = tty_out t\<rparr>"

definition tty_putchar :: "char \<Rightarrow> tty_device_t \<Rightarrow> tty_device_t" where
  "tty_putchar c t = t\<lparr>tty_out := tty_out t @ [c]\<rparr>"

fun tty_puts :: "string \<Rightarrow> tty_device_t \<Rightarrow> tty_device_t" where
  "tty_puts [] t = t"
| "tty_puts (c # s) t = tty_puts s (tty_putchar c t)"

text \<open>The loop body of \<^verbatim>\<open>tty_readline\<close> breaks at once: the line is always empty. The
  result is the returned length with the terminated buffer contents.\<close>

definition tty_readline :: "tty_device_t \<Rightarrow> nat \<Rightarrow> int \<times> string option" where
  "tty_readline t bufsize = (if \<not> tty_initialized t then (0, None) else (0, Some []))"

definition tty_input_put :: "char \<Rightarrow> tty_device_t \<Rightarrow> tty_device_t" where
  "tty_input_put c t =
     (if \<not> tty_initialized t then t
      else let next = (tty_input_head t + 1) mod TTY_BUF_SIZE in
        if next = tty_input_tail t then t
        else let t' = t\<lparr>tty_input_buf := (tty_input_buf t)(tty_input_head t := c), tty_input_head := next\<rparr>
             in if tty_echo t' then tty_putchar c t' else t')"

definition tty_input_get :: "tty_device_t \<Rightarrow> (char \<times> tty_device_t) option" where
  "tty_input_get t =
     (if tty_input_tail t = tty_input_head t then None
      else Some (tty_input_buf t (tty_input_tail t),
                 t\<lparr>tty_input_tail := (tty_input_tail t + 1) mod TTY_BUF_SIZE\<rparr>))"

section \<open>The input ring is a bounded queue\<close>

definition tty_inv :: "tty_device_t \<Rightarrow> bool" where
  "tty_inv t \<longleftrightarrow> tty_initialized t \<and> tty_input_head t < TTY_BUF_SIZE \<and> tty_input_tail t < TTY_BUF_SIZE"

definition tty_pending :: "tty_device_t \<Rightarrow> string" where
  "tty_pending t = ring_list TTY_BUF_SIZE (tty_input_buf t) (tty_input_head t) (tty_input_tail t)"

lemma tty_full_iff:
  "tty_inv t \<Longrightarrow> Suc (tty_input_head t) mod TTY_BUF_SIZE = tty_input_tail t \<longleftrightarrow> length (tty_pending t) = 4095"
  by (simp add: tty_inv_def tty_pending_def ring_full_iff)

interpretation tq: bounded_queue tty_inv tty_pending 4095 tty_input_put tty_input_get
proof
  fix t c
  assume inv: "tty_inv t"
  then show "length (tty_pending t) \<le> 4095"
    using ring_len_bound [of "tty_input_head t" TTY_BUF_SIZE "tty_input_tail t"]
    by (simp add: tty_inv_def tty_pending_def)
  from inv show "tty_inv (tty_input_put c t)"
    by (simp add: tty_inv_def tty_input_put_def tty_putchar_def Let_def)
  show "tty_pending (tty_input_put c t) = tty_pending t @ [c]" if "length (tty_pending t) < 4095"
  proof -
    from that inv have "Suc (tty_input_head t) mod TTY_BUF_SIZE \<noteq> tty_input_tail t"
      by (simp add: tty_full_iff)
    with inv ring_list_put [of "tty_input_head t" TTY_BUF_SIZE "tty_input_tail t"] show ?thesis
      by (simp add: tty_input_put_def tty_inv_def tty_pending_def tty_putchar_def Let_def)
  qed
  show "tty_input_put c t = t" if "length (tty_pending t) = 4095"
    using inv that by (simp add: tty_input_put_def tty_full_iff Let_def)
  show "tty_input_get t = None" if "tty_pending t = []"
    using inv that by (simp add: tty_input_get_def tty_pending_def tty_inv_def ring_list_Nil_iff)
  show "\<exists>q'. tty_input_get t = Some (c, q') \<and> tty_inv q' \<and> tty_pending q' = cs"
    if "tty_pending t = c # cs" for cs
  proof -
    from that have "tty_input_tail t \<noteq> tty_input_head t" by (auto simp: tty_pending_def)
    with inv that show ?thesis
      using ring_list_get [of "tty_input_head t" TTY_BUF_SIZE "tty_input_tail t" "tty_input_buf t"]
      by (simp add: tty_input_get_def tty_pending_def tty_inv_def)
  qed
qed

text \<open>Draining the ring with repeated \<^verbatim>\<open>tty_input_get\<close>.\<close>

fun tty_drain :: "nat \<Rightarrow> tty_device_t \<Rightarrow> string \<times> tty_device_t" where
  "tty_drain 0 t = ([], t)"
| "tty_drain (Suc n) t = (case tty_input_get t of None \<Rightarrow> ([], t)
     | Some (c, t') \<Rightarrow> let (cs, t'') = tty_drain n t' in (c # cs, t''))"

lemma tty_drain_many: "tty_drain n t = tq.get_many n t"
  by (induction n arbitrary: t) (simp_all split: option.splits prod.splits)

lemma tty_input_put_echo:
  assumes "tty_inv t" "tty_echo t"
  shows "tty_echo (tty_input_put c t) \<and> tty_out (tty_input_put c t) =
    tty_out t @ (if length (tty_pending t) < 4095 then [c] else [])"
  using assms tq.cap_bound [OF assms(1)] tty_full_iff [OF assms(1)]
  by (simp add: tty_input_put_def tty_inv_def tty_putchar_def Let_def)

lemma tty_echo_fold:
  assumes "tty_inv t" "tty_echo t"
  shows "tty_out (fold tty_input_put s t) = tty_out t @ take (4095 - length (tty_pending t)) s"
  using assms
proof (induction s arbitrary: t)
  case Nil
  then show ?case by simp
next
  case (Cons c s)
  note e = tty_input_put_echo [OF Cons.prems, of c]
  note IH = Cons.IH [OF tq.inv_put [OF Cons.prems(1)]]
  show ?case
  proof (cases "length (tty_pending t) < 4095")
    case True
    then have "4095 - length (tty_pending t) = Suc (4095 - Suc (length (tty_pending t)))" by simp
    with IH e tq.put_fits [OF Cons.prems(1) True] True show ?thesis by simp
  next
    case False
    with IH e tq.put_full [OF Cons.prems(1)] tq.cap_bound [OF Cons.prems(1)] show ?thesis by simp
  qed
qed

text \<open>On a console whose input ring is empty, typing a line and draining the ring gives
  back the first 4095 characters of the line in order and leaves the ring empty, and exactly
  the characters that were kept were echoed, in order.\<close>

theorem tty_type_and_drain:
  assumes "tty_inv t" "tty_echo t" "tty_pending t = []"
  shows "fst (tty_drain (length s) (fold tty_input_put s t)) = take 4095 s
    \<and> tty_pending (snd (tty_drain (length s) (fold tty_input_put s t))) = []
    \<and> tty_out (fold tty_input_put s t) = tty_out t @ take 4095 s"
  using tq.fold_put [OF assms(1), of s] tty_echo_fold [OF assms(1,2), of s]
    tq.get_many_take [of "fold tty_input_put s t" "length s"] assms(3)
  by (simp add: tty_drain_many) (simp add: min_def)

theorem tty_type_and_drain_witness:
  "fst (tty_drain (length ''ls'') (fold tty_input_put ''ls'' (tty_init console_tty))) = ''ls''"
proof -
  let ?t = "tty_init console_tty"
  have "tty_inv ?t" "tty_echo ?t" "tty_pending ?t = []"
    by (simp_all add: tty_init_def tty_inv_def tty_pending_def)
  from tty_type_and_drain [OF this, of "''ls''"] show ?thesis
    by (elim conjE, elim trans) simp
qed

text \<open>Nothing that was typed is ever returned by \<^verbatim>\<open>tty_readline\<close>.\<close>

lemma tty_readline_empty: "tty_readline (fold tty_input_put s (tty_init t)) n = (0, Some [])"
proof -
  have "tty_inv (tty_init t)" by (simp add: tty_init_def tty_inv_def)
  then have "tty_inv (fold tty_input_put s (tty_init t))" using tq.fold_put by blast
  then show ?thesis by (simp add: tty_readline_def tty_inv_def)
qed

end
