(* ===== verification/Klog.thy ===== *)
theory Klog
  imports Ring
begin

text \<open>
  The kernel log (\<^verbatim>\<open>kernel/klog.c\<close>): a ring of 32768 characters in which a write that
  meets the tail advances the tail, so the oldest character is forgotten.
  \<^verbatim>\<open>__klog_putchar\<close> is \<open>klog_putchar\<close>; \<^verbatim>\<open>klog_write\<close> repeats its body for every
  character of the message. \<^verbatim>\<open>klog_printf\<close> does nothing in the source.
\<close>

abbreviation KLOG_SIZE :: nat where "KLOG_SIZE \<equiv> 32768"

record klog_t =
  klog_buffer :: "nat \<Rightarrow> char"
  klog_head :: nat
  klog_tail :: nat
  klog_initialized :: bool

text \<open>The static variables before any call.\<close>

definition klog_static :: klog_t where
  "klog_static = \<lparr>klog_buffer = (\<lambda>_. CHR 0x00), klog_head = 0, klog_tail = 0, klog_initialized = False\<rparr>"

definition klog_init :: "klog_t \<Rightarrow> klog_t" where
  "klog_init k = \<lparr>klog_buffer = (\<lambda>_. CHR 0x00), klog_head = 0, klog_tail = 0, klog_initialized = True\<rparr>"

definition klog_step :: "char \<Rightarrow> klog_t \<Rightarrow> klog_t" where
  "klog_step c k =
     (let k1 = k\<lparr>klog_buffer := (klog_buffer k)(klog_head k := c),
                 klog_head := (klog_head k + 1) mod KLOG_SIZE\<rparr>
      in if klog_head k1 = klog_tail k1
         then k1\<lparr>klog_tail := (klog_tail k1 + 1) mod KLOG_SIZE\<rparr> else k1)"

definition klog_putchar :: "char \<Rightarrow> klog_t \<Rightarrow> klog_t" where
  "klog_putchar c k = (if \<not> klog_initialized k then k else klog_step c k)"

fun klog_write_loop :: "string \<Rightarrow> klog_t \<Rightarrow> klog_t" where
  "klog_write_loop [] k = k"
| "klog_write_loop (c # s) k = klog_write_loop s (klog_step c k)"

definition klog_write :: "string \<Rightarrow> klog_t \<Rightarrow> klog_t" where
  "klog_write msg k =
     (if \<not> klog_initialized k then k
      else if length msg = 0 then k else klog_write_loop msg k)"

definition klog_printf :: "string \<Rightarrow> klog_t \<Rightarrow> klog_t" where
  "klog_printf fmt k = k"

text \<open>\<open>room\<close> is the number of characters that still fit before the terminator.\<close>

fun klog_read_loop :: "nat \<Rightarrow> klog_t \<Rightarrow> string \<times> klog_t" where
  "klog_read_loop 0 k = ([], k)"
| "klog_read_loop (Suc room) k =
     (if klog_tail k \<noteq> klog_head k then
        let (s, k') = klog_read_loop room (k\<lparr>klog_tail := (klog_tail k + 1) mod KLOG_SIZE\<rparr>)
        in (klog_buffer k (klog_tail k) # s, k')
      else ([], k))"

definition klog_read :: "bool \<Rightarrow> nat \<Rightarrow> klog_t \<Rightarrow> int \<times> string \<times> klog_t" where
  "klog_read buf bufsize k =
     (if \<not> klog_initialized k \<or> \<not> buf \<or> bufsize = 0 then (0, [], k)
      else let (s, k') = klog_read_loop (bufsize - 1) k in (int (length s), s, k'))"

definition klog_clear :: "klog_t \<Rightarrow> klog_t" where
  "klog_clear k = k\<lparr>klog_buffer := (\<lambda>_. CHR 0x00), klog_head := 0, klog_tail := 0\<rparr>"

section \<open>The log keeps the most recent characters\<close>

definition klog_inv :: "klog_t \<Rightarrow> bool" where
  "klog_inv k \<longleftrightarrow> klog_head k < KLOG_SIZE \<and> klog_tail k < KLOG_SIZE"

definition klog_contents :: "klog_t \<Rightarrow> string" where
  "klog_contents k = ring_list KLOG_SIZE (klog_buffer k) (klog_head k) (klog_tail k)"

lemma klog_step_initialized [simp]: "klog_initialized (klog_step c k) = klog_initialized k"
  by (simp add: klog_step_def Let_def)

lemma klog_step_full:
  assumes h: "h < N" and t: "t < N" and full: "Suc h mod N = t" and N: "1 < N"
  shows "ring_list N (buf(h := c)) t (Suc t mod N) = tl (ring_list N buf h t) @ [c]"
proof -
  have ne: "t \<noteq> h" using full N h by (auto simp: Suc_mod_eq split: if_splits)
  let ?t' = "Suc t mod N"
  have t': "?t' < N" using N by simp
  have nf: "Suc h mod N \<noteq> ?t'" using full t N by (auto simp: Suc_mod_eq split: if_splits)
  have "ring_list N (buf(h := c)) (Suc h mod N) ?t' = ring_list N buf h ?t' @ [c]"
    by (rule ring_list_put [OF h t' nf])
  with full ring_list_get [OF h t ne, of buf] show ?thesis by simp
qed

interpretation lq: overwriting_queue klog_inv klog_contents 32767 klog_step
proof
  fix k c
  assume inv: "klog_inv k"
  then show "length (klog_contents k) \<le> 32767"
    using ring_len_bound [of "klog_head k" KLOG_SIZE "klog_tail k"]
    by (simp add: klog_inv_def klog_contents_def)
  from inv show "klog_inv (klog_step c k)" by (simp add: klog_inv_def klog_step_def Let_def)
  have full: "Suc (klog_head k) mod KLOG_SIZE = klog_tail k \<longleftrightarrow> length (klog_contents k) = 32767"
    using inv by (simp add: klog_inv_def klog_contents_def ring_full_iff)
  show "klog_contents (klog_step c k) = klog_contents k @ [c]" if "length (klog_contents k) < 32767"
    using inv that full ring_list_put [of "klog_head k" KLOG_SIZE "klog_tail k"]
    by (simp add: klog_step_def klog_inv_def klog_contents_def Let_def)
  show "klog_contents (klog_step c k) = tl (klog_contents k) @ [c]"
    if "length (klog_contents k) = 32767"
  proof -
    from that full have eq: "Suc (klog_head k) mod KLOG_SIZE = klog_tail k" by simp
    with inv klog_step_full [of "klog_head k" KLOG_SIZE "klog_tail k"] show ?thesis
      by (simp add: klog_step_def klog_inv_def klog_contents_def Let_def)
  qed
qed simp

lemma klog_write_loop_fold: "klog_write_loop s k = fold klog_step s k"
  by (induction s arbitrary: k) simp_all

lemma klog_write_fold: "klog_initialized k \<Longrightarrow> klog_write s k = fold klog_step s k"
  by (simp add: klog_write_def klog_write_loop_fold)

lemma fold_klog_step_initialized [simp]: "klog_initialized (fold klog_step s k) = klog_initialized k"
  by (induction s arbitrary: k) simp_all

lemma klog_writes_fold:
  "klog_initialized k \<Longrightarrow> fold klog_write msgs k = fold klog_step (concat msgs) k"
  by (induction msgs arbitrary: k) (simp_all add: klog_write_fold)

lemma klog_read_loop_take_conj:
  assumes "klog_inv k"
  shows "fst (klog_read_loop n k) = take n (klog_contents k) \<and>
    klog_contents (snd (klog_read_loop n k)) = drop n (klog_contents k) \<and>
    klog_inv (snd (klog_read_loop n k))"
  using assms
proof (induction n arbitrary: k)
  case (Suc n)
  let ?k = "k\<lparr>klog_tail := (klog_tail k + 1) mod KLOG_SIZE\<rparr>"
  from Suc.prems have inv: "klog_inv ?k" by (simp add: klog_inv_def)
  from Suc.prems have "klog_contents k = (if klog_tail k = klog_head k then []
      else klog_buffer k (klog_tail k) # klog_contents ?k)"
    using ring_list_get [of "klog_head k" KLOG_SIZE "klog_tail k" "klog_buffer k"]
    by (simp add: klog_contents_def klog_inv_def)
  with Suc.IH [OF inv] Suc.prems show ?case
    by (simp add: case_prod_unfold Let_def)
qed simp

lemmas klog_read_loop_take = klog_read_loop_take_conj [THEN conjunct1]
  klog_read_loop_take_conj [THEN conjunct2, THEN conjunct1]
  klog_read_loop_take_conj [THEN conjunct2, THEN conjunct2]

text \<open>What a log of unbounded history would call its last 32767 characters.\<close>

definition klog_recent :: "string list \<Rightarrow> string" where
  "klog_recent msgs = drop (length (concat msgs) - 32767) (concat msgs)"

text \<open>After the log is initialised and any sequence of messages is written, klog_read
  returns the oldest characters of the last 32767 characters written, as many as fit before
  the terminator, reports their number, and the next read continues where it stopped.\<close>

theorem klog_keeps_recent:
  assumes "0 < bufsize"
  shows "\<exists>k'. klog_read True bufsize (fold klog_write msgs (klog_init k0))
      = (int (min (bufsize - 1) (length (klog_recent msgs))), take (bufsize - 1) (klog_recent msgs), k')
    \<and> klog_contents k' = drop (bufsize - 1) (klog_recent msgs)"
proof -
  define k where "k = fold klog_write msgs (klog_init k0)"
  have init: "klog_inv (klog_init k0)" "klog_contents (klog_init k0) = []" "klog_initialized (klog_init k0)"
    by (simp_all add: klog_init_def klog_inv_def klog_contents_def)
  have k: "k = fold klog_step (concat msgs) (klog_init k0)"
    unfolding k_def using init(3) by (rule klog_writes_fold)
  from lq.fold_put_last [OF init(1), of "concat msgs"] init(2)
  have inv: "klog_inv k" and c: "klog_contents k = klog_recent msgs"
    unfolding k klog_recent_def by simp_all
  have "klog_initialized k" unfolding k using init(3) by simp
  with klog_read_loop_take [OF inv, of "bufsize - 1"] c assms show ?thesis
    unfolding k_def [symmetric]
    by (cases "klog_read_loop (bufsize - 1) k") (simp add: klog_read_def min.commute)
qed

theorem klog_keeps_recent_witness:
  "fst (snd (klog_read True 4 (fold klog_write [''ab'', ''cd''] (klog_init klog_static)))) = ''abc''"
proof -
  obtain k' where "klog_read True 4 (fold klog_write [''ab'', ''cd''] (klog_init klog_static))
      = (3, ''abc'', k')"
    using klog_keeps_recent [of 4 "[''ab'', ''cd'']" klog_static] by (auto simp: klog_recent_def)
  then show ?thesis by (simp only: fst_conv snd_conv)
qed

end
