(* ===== verification/Heap.thy ===== *)
theory Heap
  imports Prelude
begin

unbundle bit_operations_syntax

text \<open>
  The kernel heap (\<^verbatim>\<open>kmalloc\<close>, \<^verbatim>\<open>kcalloc\<close>, \<^verbatim>\<open>krealloc\<close>, \<^verbatim>\<open>kfree\<close> of
  \<^verbatim>\<open>kernel/mm/memory.c\<close>). Pointers into the heap buffer are natural numbers with 0 for
  \<^verbatim>\<open>NULL\<close> (pointer arithmetic inside one object does not wrap); sizes are \<^verbatim>\<open>size_t\<close>, with
  the wrap-around of the additions on them written out. Block headers and payload bytes
  are two stores over the same addresses: \<open>hdrs\<close> and \<open>payload\<close>.

  The walk over the block list is a \<open>partial_function\<close>; on a heap that satisfies the
  invariant it is shown to return.
\<close>

abbreviation HEAP_SIZE :: nat where "HEAP_SIZE \<equiv> 67108864"
abbreviation HEAP_MAGIC :: u32 where "HEAP_MAGIC \<equiv> 0xDEADBEEF"
abbreviation MIN_BLOCK_SIZE :: nat where "MIN_BLOCK_SIZE \<equiv> 32"
abbreviation HDR :: nat where "HDR \<equiv> 40"

record heap_block_t =
  hb_magic :: u32
  hb_size :: nat
  hb_free :: bool
  hb_next :: nat
  hb_prev :: nat

record heap_t =
  hdrs :: "nat \<Rightarrow> heap_block_t"
  payload :: "nat \<Rightarrow> u8"
  heap_first :: nat
  heap_size :: nat
  heap_allocs :: u32
  heap_frees :: u32

definition size_add :: "nat \<Rightarrow> nat \<Rightarrow> nat" where
  "size_add a b = (a + b) mod 2 ^ 64"

definition upd_hdr :: "nat \<Rightarrow> (heap_block_t \<Rightarrow> heap_block_t) \<Rightarrow> heap_t \<Rightarrow> heap_t" where
  "upd_hdr a f h = h\<lparr>hdrs := (hdrs h)(a := f (hdrs h a))\<rparr>"

text \<open>The heap part of \<^verbatim>\<open>mm_init\<close>: one free block that fills the buffer.\<close>

definition heap_init :: "nat \<Rightarrow> heap_t \<Rightarrow> heap_t" where
  "heap_init heap_start h =
     h\<lparr>heap_size := HEAP_SIZE, heap_first := heap_start,
       hdrs := (hdrs h)(heap_start := \<lparr>hb_magic = HEAP_MAGIC, hb_size = HEAP_SIZE - HDR,
                                      hb_free = True, hb_next = 0, hb_prev = 0\<rparr>),
       heap_allocs := 0, heap_frees := 0\<rparr>"

text \<open>\<^verbatim>\<open>size = (size + ALIGNMENT - 1) & ~(ALIGNMENT - 1)\<close>, then at least \<open>MIN_BLOCK_SIZE\<close>.\<close>

definition round_size :: "u64 \<Rightarrow> nat" where
  "round_size sz = max (unat ((sz + 8 - 1) AND NOT 7)) MIN_BLOCK_SIZE"

definition split_block :: "nat \<Rightarrow> nat \<Rightarrow> heap_t \<Rightarrow> heap_t" where
  "split_block block sz h =
     (let nb = block + HDR + sz;
          b = hdrs h block;
          h1 = upd_hdr nb (\<lambda>_. \<lparr>hb_magic = HEAP_MAGIC, hb_size = hb_size b - sz - HDR, hb_free = True,
                                hb_next = hb_next b, hb_prev = block\<rparr>) h;
          h2 = (if hb_next b \<noteq> 0 then upd_hdr (hb_next b) (\<lambda>x. x\<lparr>hb_prev := nb\<rparr>) h1 else h1)
      in upd_hdr block (\<lambda>x. x\<lparr>hb_next := nb, hb_size := sz\<rparr>) h2)"

definition take_block :: "nat \<Rightarrow> nat \<Rightarrow> heap_t \<Rightarrow> nat \<times> heap_t" where
  "take_block block sz h =
     (let h1 = (if hb_size (hdrs h block) > size_add (size_add sz HDR) MIN_BLOCK_SIZE
                then split_block block sz h else h);
          h2 = upd_hdr block (\<lambda>x. x\<lparr>hb_free := False, hb_magic := HEAP_MAGIC\<rparr>) h1
      in (block + HDR, h2\<lparr>heap_allocs := heap_allocs h2 + 1\<rparr>))"

partial_function (option) kmalloc_loop :: "nat \<Rightarrow> nat \<Rightarrow> heap_t \<Rightarrow> (nat \<times> heap_t) option" where
  "kmalloc_loop block sz h =
     (if block = 0 then Some (0, h)
      else if hb_free (hdrs h block) \<and> sz \<le> hb_size (hdrs h block) then Some (take_block block sz h)
      else kmalloc_loop (hb_next (hdrs h block)) sz h)"

definition kmalloc :: "u64 \<Rightarrow> heap_t \<Rightarrow> (nat \<times> heap_t) option" where
  "kmalloc sz h =
     (if sz = 0 then Some (0, h)
      else if heap_first h = 0 then Some (0, h)
      else kmalloc_loop (heap_first h) (round_size sz) h)"

definition coalesce_next :: "nat \<Rightarrow> heap_t \<Rightarrow> heap_t" where
  "coalesce_next block h =
     (let nx = hb_next (hdrs h block) in
      if nx \<noteq> 0 \<and> hb_free (hdrs h nx) then
        let h1 = upd_hdr block (\<lambda>x. x\<lparr>hb_size := size_add (hb_size x) (size_add HDR (hb_size (hdrs h nx)))\<rparr>) h;
            h2 = upd_hdr block (\<lambda>x. x\<lparr>hb_next := hb_next (hdrs h1 nx)\<rparr>) h1;
            nn = hb_next (hdrs h2 block)
        in if nn \<noteq> 0 then upd_hdr nn (\<lambda>x. x\<lparr>hb_prev := block\<rparr>) h2 else h2
      else h)"

definition coalesce_prev :: "nat \<Rightarrow> heap_t \<Rightarrow> heap_t" where
  "coalesce_prev block h =
     (let pv = hb_prev (hdrs h block) in
      if pv \<noteq> 0 \<and> hb_free (hdrs h pv) then
        let h1 = upd_hdr pv (\<lambda>x. x\<lparr>hb_size := size_add (hb_size x) (size_add HDR (hb_size (hdrs h block)))\<rparr>) h;
            h2 = upd_hdr pv (\<lambda>x. x\<lparr>hb_next := hb_next (hdrs h1 block)\<rparr>) h1;
            nn = hb_next (hdrs h2 block)
        in if nn \<noteq> 0 then upd_hdr nn (\<lambda>x. x\<lparr>hb_prev := hb_prev (hdrs h2 block)\<rparr>) h2 else h2
      else h)"

definition kfree :: "nat \<Rightarrow> heap_t \<Rightarrow> heap_t" where
  "kfree ptr h =
     (if ptr = 0 then h
      else let block = ptr - HDR in
        if hb_magic (hdrs h block) \<noteq> HEAP_MAGIC then h
        else let h1 = (upd_hdr block (\<lambda>x. x\<lparr>hb_free := True\<rparr>) h)\<lparr>heap_frees := heap_frees h + 1\<rparr>
             in coalesce_prev block (coalesce_next block h1))"

definition mem_set :: "nat \<Rightarrow> nat \<Rightarrow> u8 \<Rightarrow> (nat \<Rightarrow> u8) \<Rightarrow> nat \<Rightarrow> u8" where
  "mem_set p n c m = (\<lambda>a. if p \<le> a \<and> a < p + n then c else m a)"

definition mem_copy :: "nat \<Rightarrow> nat \<Rightarrow> nat \<Rightarrow> (nat \<Rightarrow> u8) \<Rightarrow> nat \<Rightarrow> u8" where
  "mem_copy dst src n m = (\<lambda>a. if dst \<le> a \<and> a < dst + n then m (src + (a - dst)) else m a)"

definition kcalloc :: "u64 \<Rightarrow> u64 \<Rightarrow> heap_t \<Rightarrow> (nat \<times> heap_t) option" where
  "kcalloc num sz h =
     (let tot = num * sz in
      case kmalloc tot h of None \<Rightarrow> None
      | Some (ptr, h') \<Rightarrow>
          Some (ptr, if ptr \<noteq> 0 then h'\<lparr>payload := mem_set ptr (unat tot) 0 (payload h')\<rparr> else h'))"

definition krealloc :: "nat \<Rightarrow> u64 \<Rightarrow> heap_t \<Rightarrow> (nat \<times> heap_t) option" where
  "krealloc ptr sz h =
     (if ptr = 0 then kmalloc sz h
      else if sz = 0 then Some (0, kfree ptr h)
      else let block = ptr - HDR in
        if hb_magic (hdrs h block) \<noteq> HEAP_MAGIC then Some (0, h)
        else let old_size = hb_size (hdrs h block) in
          case kmalloc sz h of None \<Rightarrow> None
          | Some (new_ptr, h1) \<Rightarrow>
              if new_ptr \<noteq> 0 then
                Some (new_ptr, kfree ptr (h1\<lparr>payload :=
                  mem_copy new_ptr ptr (if old_size < unat sz then old_size else unat sz) (payload h1)\<rparr>))
              else Some (new_ptr, h1))"

section \<open>Segments of the block list\<close>

text \<open>A heap is described by the sizes and free flags of its blocks, in address order.
  \<open>seg H p a bs n\<close>: starting at address \<open>a\<close> there are the blocks \<open>bs\<close>, one after the
  other, doubly linked; the first has previous pointer \<open>p\<close>, the last has next pointer \<open>n\<close>.\<close>

type_synonym blocks = "(nat \<times> bool) list"

fun seg :: "(nat \<Rightarrow> heap_block_t) \<Rightarrow> nat \<Rightarrow> nat \<Rightarrow> blocks \<Rightarrow> nat \<Rightarrow> bool" where
  "seg H p a [] n \<longleftrightarrow> True"
| "seg H p a ((s, f) # bs) n \<longleftrightarrow>
     H a = \<lparr>hb_magic = HEAP_MAGIC, hb_size = s, hb_free = f,
            hb_next = (if bs = [] then n else a + HDR + s), hb_prev = p\<rparr>
     \<and> seg H a (a + HDR + s) bs n"

fun end_of :: "nat \<Rightarrow> blocks \<Rightarrow> nat" where
  "end_of a [] = a"
| "end_of a ((s, f) # bs) = end_of (a + HDR + s) bs"

fun last_of :: "nat \<Rightarrow> nat \<Rightarrow> blocks \<Rightarrow> nat" where
  "last_of p a [] = p"
| "last_of p a ((s, f) # bs) = last_of a (a + HDR + s) bs"

lemma end_of_append [simp]: "end_of a (xs @ ys) = end_of (end_of a xs) ys"
  by (induction xs arbitrary: a) auto

lemma last_of_append [simp]: "last_of p a (xs @ ys) = last_of (last_of p a xs) (end_of a xs) ys"
  by (induction xs arbitrary: p a) auto

lemma end_of_ge: "a \<le> end_of a bs"
proof (induction bs arbitrary: a)
  case (Cons b bs)
  show ?case using Cons.IH [of "a + HDR + fst b"] by (cases b) simp
qed simp

lemma end_of_strict: "bs \<noteq> [] \<Longrightarrow> a + HDR \<le> end_of a bs"
proof (cases bs)
  case (Cons b rest)
  then show ?thesis using end_of_ge [of "a + HDR + fst b" rest] by (cases b) simp
qed simp

lemma seg_append:
  "seg H p a (xs @ ys) n \<longleftrightarrow>
     seg H p a xs (if ys = [] then n else end_of a xs) \<and> seg H (last_of p a xs) (end_of a xs) ys n"
proof (induction xs arbitrary: p a)
  case (Cons x xs)
  then show ?case by (cases x; cases xs) auto
qed simp

lemma seg_cong:
  "(\<And>x. a \<le> x \<Longrightarrow> x < end_of a bs \<Longrightarrow> H x = H' x) \<Longrightarrow> seg H p a bs n = seg H' p a bs n"
proof (induction bs arbitrary: p a)
  case (Cons b bs)
  obtain s f where b: "b = (s, f)" by fastforce
  have "H a = H' a" using Cons.prems end_of_strict [of "b # bs" a] by simp
  moreover have "seg H a (a + HDR + s) bs n = seg H' a (a + HDR + s) bs n"
    using Cons.prems b by (intro Cons.IH) simp
  ultimately show ?case by (simp add: b)
qed simp

lemma seg_outside: "x < a \<or> end_of a bs \<le> x \<Longrightarrow> seg (H(x := v)) p a bs n = seg H p a bs n"
  by (rule seg_cong) auto

definition size_ok :: "nat \<Rightarrow> bool" where
  "size_ok s \<longleftrightarrow> MIN_BLOCK_SIZE \<le> s \<and> 8 dvd s"

definition heap_inv :: "nat \<Rightarrow> heap_t \<Rightarrow> blocks \<Rightarrow> bool" where
  "heap_inv base h bs \<longleftrightarrow> 0 < base \<and> heap_first h = base \<and> seg (hdrs h) 0 base bs 0 \<and> bs \<noteq> []
     \<and> end_of base bs = base + HEAP_SIZE \<and> (\<forall>b\<in>set bs. size_ok (fst b))
     \<and> successively (\<lambda>x y. \<not> (snd x \<and> snd y)) bs"

lemma seg_upd_prev:
  "seg H p a (b # bs) n \<Longrightarrow> seg (H(a := (H a)\<lparr>hb_prev := p'\<rparr>)) p' a (b # bs) n"
  by (cases b) (simp add: seg_outside)

lemma seg_upd_prev_opt:
  "seg H p a bs n \<Longrightarrow> bs \<noteq> [] \<Longrightarrow> seg (H(a := (H a)\<lparr>hb_prev := p'\<rparr>)) p' a bs n"
  by (cases bs) (simp_all only: seg_upd_prev, simp_all)

section \<open>Taking a block\<close>

definition taken :: "nat \<Rightarrow> nat \<Rightarrow> blocks" where
  "taken n s = (if s > n + HDR + MIN_BLOCK_SIZE then [(n, False), (s - n - HDR, True)] else [(s, False)])"

lemma end_of_taken: "n \<le> s \<Longrightarrow> end_of a (taken n s) = a + HDR + s"
  by (simp add: taken_def)

lemma hdrs_upd_hdr [simp]: "hdrs (upd_hdr a f h) = (hdrs h)(a := f (hdrs h a))"
  by (simp add: upd_hdr_def)

lemma upd_hdr_fields [simp]:
  "payload (upd_hdr a f h) = payload h" "heap_first (upd_hdr a f h) = heap_first h"
  by (simp_all add: upd_hdr_def)

lemma split_block_seg:
  assumes seg: "seg (hdrs h) p a ((s, f) # post) 0" and s: "n + HDR \<le> s"
  shows "seg (hdrs (split_block a n h)) p a ((n, f) # (s - n - HDR, True) # post) 0"
    and "x < a \<Longrightarrow> hdrs (split_block a n h) x = hdrs h x"
proof -
  let ?nb = "a + HDR + n" and ?e = "a + HDR + s"
  have e: "?nb + HDR + (s - n - HDR) = ?e" using s by simp
  from seg have post: "seg (hdrs h) a ?e post 0" and Ha: "hb_size (hdrs h a) = s"
    "hb_next (hdrs h a) = (if post = [] then 0 else ?e)" "hb_magic (hdrs h a) = HEAP_MAGIC"
    "hb_free (hdrs h a) = f" "hb_prev (hdrs h a) = p" by simp_all
  let ?new = "\<lparr>hb_magic = HEAP_MAGIC, hb_size = s - n - HDR, hb_free = True,
    hb_next = (if post = [] then 0 else ?e), hb_prev = a\<rparr>"
  let ?H1 = "(hdrs h)(?nb := ?new)"
  let ?H2 = "if post = [] then ?H1 else ?H1(?e := (?H1 ?e)\<lparr>hb_prev := ?nb\<rparr>)"
  have H: "hdrs (split_block a n h) = ?H2(a := (?H2 a)\<lparr>hb_next := ?nb, hb_size := n\<rparr>)"
    by (simp add: split_block_def Let_def Ha)
  have "seg ?H1 a ?e post 0" using post s by (simp add: seg_outside)
  then have "seg ?H2 ?nb ?e post 0"
    using seg_upd_prev_opt [of ?H1 a ?e post 0 ?nb] by (cases "post = []") simp_all
  then have "seg (hdrs (split_block a n h)) ?nb ?e post 0" unfolding H by (simp add: seg_outside)
  moreover have "hdrs (split_block a n h) ?nb = ?new" unfolding H using s by simp
  moreover have "hdrs (split_block a n h) a = \<lparr>hb_magic = HEAP_MAGIC, hb_size = n, hb_free = f,
    hb_next = ?nb, hb_prev = p\<rparr>"
    unfolding H using s Ha by (cases "hdrs h a") simp
  ultimately show "seg (hdrs (split_block a n h)) p a ((n, f) # (s - n - HDR, True) # post) 0"
    by (simp only: seg.simps e) simp
  show "hdrs (split_block a n h) x = hdrs h x" if "x < a" unfolding H using that s by simp
qed

lemma take_block_seg:
  assumes seg: "seg (hdrs h) p a ((s, True) # post) 0" and n: "n \<le> s" "s < 2 ^ 32"
    and t: "take_block a n h = (r, h')"
  shows "r = a + HDR" "seg (hdrs h') p a (taken n s @ post) 0"
    "x < a \<Longrightarrow> hdrs h' x = hdrs h x" "payload h' = payload h" "heap_first h' = heap_first h"
    "heap_allocs h' = heap_allocs h + 1"
proof -
  let ?big = "s > n + HDR + MIN_BLOCK_SIZE"
  have sz: "size_add (size_add n HDR) MIN_BLOCK_SIZE = n + HDR + MIN_BLOCK_SIZE"
    using n by (simp add: size_add_def)
  have Ha: "hb_size (hdrs h a) = s" using seg by simp
  let ?h1 = "if ?big then split_block a n h else h"
  have h': "h' = (let h2 = upd_hdr a (\<lambda>x. x\<lparr>hb_free := False, hb_magic := HEAP_MAGIC\<rparr>) ?h1
      in h2\<lparr>heap_allocs := heap_allocs h2 + 1\<rparr>)" and r: "r = a + HDR"
    using t by (simp_all add: take_block_def sz Ha Let_def split: if_splits)
  show "r = a + HDR" by (rule r)
  have "seg (hdrs ?h1) p a ((if ?big then [(n, True), (s - n - HDR, True)] else [(s, True)]) @ post) 0"
    using split_block_seg(1) [OF seg, of n] seg by auto
  then show "seg (hdrs h') p a (taken n s @ post) 0"
    unfolding h' taken_def by (auto simp: seg_outside Let_def)
  show "hdrs h' x = hdrs h x" if "x < a"
    unfolding h' using that split_block_seg(2) [OF seg, of n x] by (auto simp: Let_def)
  show "payload h' = payload h" "heap_first h' = heap_first h" "heap_allocs h' = heap_allocs h + 1"
    unfolding h' by (auto simp: Let_def split_block_def upd_hdr_def)
qed

section \<open>The walk is a first-fit search\<close>

fun first_fit :: "nat \<Rightarrow> blocks \<Rightarrow> (blocks \<times> nat \<times> blocks) option" where
  "first_fit n [] = None"
| "first_fit n ((s, f) # bs) =
     (if f \<and> n \<le> s then Some ([], s, bs)
      else map_option (\<lambda>(pre, t, post). ((s, f) # pre, t, post)) (first_fit n bs))"

lemma first_fit_Some:
  "first_fit n bs = Some (pre, s, post) \<Longrightarrow>
     bs = pre @ (s, True) # post \<and> n \<le> s \<and> (\<forall>(t, f)\<in>set pre. \<not> (f \<and> n \<le> t))"
proof (induction n bs arbitrary: pre rule: first_fit.induct)
  case (2 n t f bs)
  then show ?case by (cases "f \<and> n \<le> t") (auto split: option.splits)
qed simp

lemma first_fit_None: "first_fit n bs = None \<longleftrightarrow> (\<forall>(t, f)\<in>set bs. \<not> (f \<and> n \<le> t))"
  by (induction n bs rule: first_fit.induct) auto

lemma kmalloc_loop_null: "kmalloc_loop 0 n h = Some (0, h)"
  by (subst kmalloc_loop.simps) simp

lemma kmalloc_loop_first_fit:
  assumes "seg (hdrs h) p a bs 0" "0 < a"
  shows "kmalloc_loop (if bs = [] then 0 else a) n h =
    (case first_fit n bs of None \<Rightarrow> Some (0, h) | Some (pre, s, post) \<Rightarrow> Some (take_block (end_of a pre) n h))"
  using assms
proof (induction bs arbitrary: p a)
  case Nil
  then show ?case by (simp add: kmalloc_loop_null)
next
  case (Cons b bs)
  obtain s f where b: "b = (s, f)" by fastforce
  from Cons.prems b have Ha: "hb_free (hdrs h a) = f" "hb_size (hdrs h a) = s"
    "hb_next (hdrs h a) = (if bs = [] then 0 else a + HDR + s)"
    and tl: "seg (hdrs h) a (a + HDR + s) bs 0" by simp_all
  show ?case
  proof (cases "f \<and> n \<le> s")
    case True
    with Cons.prems(2) b show ?thesis by (subst kmalloc_loop.simps) (simp add: Ha)
  next
    case False
    have "kmalloc_loop a n h = kmalloc_loop (if bs = [] then 0 else a + HDR + s) n h"
      using Cons.prems(2) False by (subst kmalloc_loop.simps) (auto simp: Ha)
    with Cons.IH [OF tl] b False show ?thesis by (auto split: option.splits)
  qed
qed

section \<open>Freeing a block\<close>

definition merge_next :: "nat \<Rightarrow> blocks \<Rightarrow> nat \<times> blocks" where
  "merge_next s post = (case post of (t, True) # post' \<Rightarrow> (s + (HDR + t), post') | _ \<Rightarrow> (s, post))"

definition freed :: "blocks \<Rightarrow> nat \<Rightarrow> blocks \<Rightarrow> blocks" where
  "freed pre s post = (let (s1, post1) = merge_next s post in
     case rev pre of (t, True) # rp \<Rightarrow> rev rp @ (t + (HDR + s1), True) # post1
     | _ \<Rightarrow> pre @ (s1, True) # post1)"

lemma freed_no_merge:
  "\<nexists>pre' t. pre = pre' @ [(t, True)] \<Longrightarrow>
    freed pre s post = pre @ (fst (merge_next s post), True) # snd (merge_next s post)"
  by (cases pre rule: rev_cases) (auto simp: freed_def case_prod_unfold Let_def split: bool.splits)

lemma freed_merge:
  "freed (pre @ [(t, True)]) s post
    = pre @ (t + (HDR + fst (merge_next s post)), True) # snd (merge_next s post)"
  by (simp add: freed_def case_prod_unfold Let_def)

lemma size_add_small: "a + b < 2 ^ 64 \<Longrightarrow> size_add a b = a + b"
  by (simp add: size_add_def)

lemma coalesce_next_seg:
  assumes seg: "seg (hdrs h) p a ((s, True) # post) 0" and a: "0 < a"
    and small: "end_of a ((s, True) # post) < a + 2 ^ 32"
  shows "seg (hdrs (coalesce_next a h)) p a ((fst (merge_next s post), True) # snd (merge_next s post)) 0"
    and "x < a \<Longrightarrow> hdrs (coalesce_next a h) x = hdrs h x"
proof -
  let ?e = "a + HDR + s"
  show "seg (hdrs (coalesce_next a h)) p a ((fst (merge_next s post), True) # snd (merge_next s post)) 0"
  proof (cases "\<exists>t post'. post = (t, True) # post'")
    case False
    then have m: "merge_next s post = (s, post)"
      by (auto simp: merge_next_def split: list.splits prod.splits bool.splits)
    have "hb_next (hdrs h a) \<noteq> 0 \<Longrightarrow> \<not> hb_free (hdrs h (hb_next (hdrs h a)))"
      using seg False by (cases post) auto
    then have "coalesce_next a h = h" by (auto simp: coalesce_next_def Let_def)
    with seg m show ?thesis by simp
  next
    case True
    then obtain t post' where post: "post = (t, True) # post'" by blast
    let ?e' = "?e + HDR + t"
    from small post have st: "s + (HDR + t) < 2 ^ 32" using end_of_ge [of ?e' post'] by simp
    let ?H = "(hdrs h)(a := (hdrs h a)\<lparr>hb_size := s + (HDR + t), hb_next := (if post' = [] then 0 else ?e')\<rparr>)"
    have H: "hdrs (coalesce_next a h) = (if post' = [] then ?H else ?H(?e' := (?H ?e')\<lparr>hb_prev := a\<rparr>))"
      using seg a post st by (simp add: coalesce_next_def Let_def size_add_small)
    have "seg ?H ?e ?e' post' 0" using seg post by (simp add: seg_outside)
    then have "seg (hdrs (coalesce_next a h)) a ?e' post' 0"
      unfolding H using seg_upd_prev_opt [of ?H ?e ?e' post' 0 a] by (cases "post' = []") simp_all
    moreover have "hdrs (coalesce_next a h) a = \<lparr>hb_magic = HEAP_MAGIC, hb_size = s + (HDR + t),
        hb_free = True, hb_next = (if post' = [] then 0 else ?e'), hb_prev = p\<rparr>"
      unfolding H using seg post by simp
    ultimately show ?thesis by (simp add: merge_next_def post add.assoc)
  qed
  show "hdrs (coalesce_next a h) x = hdrs h x" if "x < a"
    using that seg
    by (cases post) (auto simp: coalesce_next_def Let_def)
qed

lemma coalesce_prev_merge:
  assumes seg: "seg (hdrs h) p a ((t, True) # (s, True) # post) 0" and a: "0 < a"
    and small: "t + (HDR + s) < 2 ^ 32"
  shows "seg (hdrs (coalesce_prev (a + HDR + t) h)) p a ((t + (HDR + s), True) # post) 0"
    and "x < a \<Longrightarrow> hdrs (coalesce_prev (a + HDR + t) h) x = hdrs h x"
proof -
  let ?b = "a + HDR + t" and ?e = "a + HDR + t + HDR + s"
  let ?H = "(hdrs h)(a := (hdrs h a)\<lparr>hb_size := t + (HDR + s), hb_next := (if post = [] then 0 else ?e)\<rparr>)"
  have H: "hdrs (coalesce_prev ?b h) = (if post = [] then ?H else ?H(?e := (?H ?e)\<lparr>hb_prev := a\<rparr>))"
    using seg a small by (simp add: coalesce_prev_def Let_def size_add_small)
  have "seg ?H ?b ?e post 0" using seg by (simp add: seg_outside)
  then have "seg (hdrs (coalesce_prev ?b h)) a ?e post 0"
    unfolding H using seg_upd_prev_opt [of ?H ?b ?e post 0 a] by (cases "post = []") simp_all
  moreover have "hdrs (coalesce_prev ?b h) a = \<lparr>hb_magic = HEAP_MAGIC, hb_size = t + (HDR + s),
      hb_free = True, hb_next = (if post = [] then 0 else ?e), hb_prev = p\<rparr>"
    unfolding H using seg by simp
  ultimately show "seg (hdrs (coalesce_prev ?b h)) p a ((t + (HDR + s), True) # post) 0"
    by (simp add: add.assoc)
  show "hdrs (coalesce_prev ?b h) x = hdrs h x" if "x < a" unfolding H using that by simp
qed

lemma coalesce_prev_skip:
  "hb_prev (hdrs h b) = 0 \<or> \<not> hb_free (hdrs h (hb_prev (hdrs h b))) \<Longrightarrow> coalesce_prev b h = h"
  by (auto simp: coalesce_prev_def Let_def)

lemma seg_pre_cong:
  assumes "seg H p a (xs @ ys) n" "ys' \<noteq> [] \<longleftrightarrow> ys \<noteq> []"
    "\<And>x. x < end_of a xs \<Longrightarrow> H' x = H x" "seg H' (last_of p a xs) (end_of a xs) ys' n"
  shows "seg H' p a (xs @ ys') n"
proof -
  have "seg H' p a xs (if ys = [] then n else end_of a xs)"
    using assms(1,3) by (auto simp: seg_append intro: seg_cong [THEN iffD1, rotated])
  with assms(2,4) show ?thesis by (auto simp: seg_append)
qed

lemma coalesce_fields [simp]:
  "payload (coalesce_next b h) = payload h" "heap_first (coalesce_next b h) = heap_first h"
  "payload (coalesce_prev b h) = payload h" "heap_first (coalesce_prev b h) = heap_first h"
  by (simp_all add: coalesce_next_def coalesce_prev_def Let_def)

lemma kfree_fields [simp]:
  "payload (kfree p h) = payload h" "heap_first (kfree p h) = heap_first h"
  by (simp_all add: kfree_def Let_def)

lemma kfree_seg:
  assumes seg: "seg (hdrs h) 0 base (pre @ (s, False) # post) 0" and base: "0 < base"
    and small: "end_of base (pre @ (s, False) # post) < base + 2 ^ 32"
  shows "seg (hdrs (kfree (end_of base pre + HDR) h)) 0 base (freed pre s post) 0"
proof -
  let ?b = "end_of base pre" and ?p = "last_of 0 base pre"
  have b: "base \<le> ?b" by (rule end_of_ge)
  let ?h1 = "(upd_hdr ?b (\<lambda>x. x\<lparr>hb_free := True\<rparr>) h)\<lparr>heap_frees := heap_frees h + 1\<rparr>"
  let ?h2 = "coalesce_next ?b ?h1"
  let ?m = "merge_next s post"
  have seg_b: "seg (hdrs h) ?p ?b ((s, False) # post) 0" using seg by (simp add: seg_append)
  then have s1: "seg (hdrs ?h1) ?p ?b ((s, True) # post) 0" by (simp add: seg_outside)
  have sm: "end_of ?b ((s, True) # post) < ?b + 2 ^ 32" using small b by simp
  note cn = coalesce_next_seg [OF s1 _ sm]
  have s2: "seg (hdrs ?h2) ?p ?b ((fst ?m, True) # snd ?m) 0" using cn(1) b base by simp
  have below: "hdrs ?h2 x = hdrs h x" if "x < ?b" for x using cn(2) [of x] that b base by simp
  have k: "kfree (?b + HDR) h = coalesce_prev ?b ?h2"
    using seg_b by (simp add: kfree_def Let_def)
  have full2: "seg (hdrs ?h2) 0 base (pre @ (fst ?m, True) # snd ?m) 0"
    using seg_pre_cong [OF seg _ below s2] by simp
  show ?thesis
  proof (cases "\<exists>pre' t. pre = pre' @ [(t, True)]")
    case False
    then have fr: "freed pre s post = pre @ (fst ?m, True) # snd ?m" by (rule freed_no_merge)
    have "?p = 0 \<or> \<not> hb_free (hdrs ?h2 ?p)"
      using False full2 by (cases pre rule: rev_cases) (auto simp: seg_append)
    moreover have "hb_prev (hdrs ?h2 ?b) = ?p" using s2 by simp
    ultimately show ?thesis using full2 unfolding k fr by (simp add: coalesce_prev_skip)
  next
    case True
    then obtain pre' t where pre: "pre = pre' @ [(t, True)]" by blast
    let ?a = "end_of base pre'"
    have fr: "freed pre s post = pre' @ (t + (HDR + fst ?m), True) # snd ?m"
      by (simp add: pre freed_merge)
    have bb: "?b = ?a + HDR + t" by (simp add: pre)
    have full3: "seg (hdrs ?h2) 0 base (pre' @ (t, True) # (fst ?m, True) # snd ?m) 0"
      using full2 by (simp add: pre)
    then have s3: "seg (hdrs ?h2) (last_of 0 base pre') ?a ((t, True) # (fst ?m, True) # snd ?m) 0"
      by (simp add: seg_append)
    have e: "end_of ?b ((fst ?m, True) # snd ?m) = end_of ?b ((s, True) # post)"
      by (auto simp: merge_next_def add.assoc split: list.splits prod.splits bool.splits)
    have "?b + HDR + fst ?m \<le> end_of ?b ((fst ?m, True) # snd ?m)"
      using end_of_ge [of "?b + HDR + fst ?m" "snd ?m"] by simp
    with small have "t + (HDR + fst ?m) < 2 ^ 32"
      using end_of_ge [of base pre'] unfolding e by (simp add: pre)
    from coalesce_prev_merge [OF s3 _ this] base end_of_ge [of base pre']
    have "seg (hdrs (coalesce_prev ?b ?h2)) (last_of 0 base pre') ?a ((t + (HDR + fst ?m), True) # snd ?m) 0"
      "\<And>x. x < ?a \<Longrightarrow> hdrs (coalesce_prev ?b ?h2) x = hdrs ?h2 x" unfolding bb by simp_all
    with seg_pre_cong [OF full3] show ?thesis unfolding k fr by simp
  qed
qed

section \<open>Allocated blocks\<close>

fun live :: "nat \<Rightarrow> blocks \<Rightarrow> (nat \<times> nat) list" where
  "live a [] = []"
| "live a ((s, f) # bs) = (if f then [] else [(a + HDR, s)]) @ live (a + HDR + s) bs"

lemma live_append [simp]: "live a (xs @ ys) = live a xs @ live (end_of a xs) ys"
  by (induction xs arbitrary: a) auto

lemma live_split:
  "(p, s) \<in> set (live a bs) \<Longrightarrow> \<exists>pre post. bs = pre @ (s, False) # post \<and> p = end_of a pre + HDR"
proof (induction bs arbitrary: a)
  case (Cons b bs)
  obtain t f where b: "b = (t, f)" by fastforce
  from Cons.prems b consider "\<not> f" "p = a + HDR" "s = t" | "(p, s) \<in> set (live (a + HDR + t) bs)"
    by (auto split: if_splits)
  then show ?case
  proof cases
    case 1
    with b show ?thesis by (intro exI [of _ "[]"] exI [of _ bs]) simp
  next
    case 2
    from Cons.IH [OF this] obtain pre post where
      "bs = pre @ (s, False) # post" "p = end_of (a + HDR + t) pre + HDR" by blast
    with b show ?thesis by (intro exI [of _ "(t, f) # pre"] exI [of _ post]) simp
  qed
qed simp

lemma live_bounds: "(p, s) \<in> set (live a bs) \<Longrightarrow> a + HDR \<le> p \<and> p + s \<le> end_of a bs"
proof -
  assume "(p, s) \<in> set (live a bs)"
  then obtain pre post where *: "bs = pre @ (s, False) # post" "p = end_of a pre + HDR"
    by (blast dest: live_split)
  show ?thesis using end_of_ge [of a pre] end_of_ge [of "end_of a pre + HDR + s" post] * by simp
qed

lemma end_of_dvd: "\<forall>b\<in>set bs. size_ok (fst b) \<Longrightarrow> 8 dvd end_of a bs - a"
proof (induction bs arbitrary: a)
  case (Cons b bs)
  obtain s f where b: "b = (s, f)" by fastforce
  from Cons.prems b have "8 dvd HDR + s" by (auto simp: size_ok_def)
  moreover from Cons.IH [of "a + HDR + s"] Cons.prems have "8 dvd end_of (a + HDR + s) bs - (a + HDR + s)" by simp
  ultimately have "8 dvd (HDR + s) + (end_of (a + HDR + s) bs - (a + HDR + s))" by (rule dvd_add)
  also have "(HDR + s) + (end_of (a + HDR + s) bs - (a + HDR + s)) = end_of (a + HDR + s) bs - a"
    using end_of_ge [of "a + HDR + s" bs] by simp
  finally show ?case by (simp add: b)
qed simp

lemma live_aligned: "(p, s) \<in> set (live a bs) \<Longrightarrow> \<forall>b\<in>set bs. size_ok (fst b) \<Longrightarrow> 8 dvd p - a"
proof -
  assume "(p, s) \<in> set (live a bs)" and ok: "\<forall>b\<in>set bs. size_ok (fst b)"
  then obtain pre post where *: "bs = pre @ (s, False) # post" "p = end_of a pre + HDR"
    by (blast dest: live_split)
  with ok end_of_dvd [of pre a] have "8 dvd end_of a pre - a" by simp
  then have "8 dvd HDR + (end_of a pre - a)" by (simp add: dvd_add_right_iff)
  with end_of_ge [of a pre] * show ?thesis by (simp add: add.commute)
qed

lemma live_sorted: "sorted_wrt (\<lambda>(p, s) (q, t). p + s < q) (live a bs)"
proof (induction bs arbitrary: a)
  case (Cons b bs)
  obtain s f where b: "b = (s, f)" by fastforce
  have "a + HDR + s < q" if "(q, t) \<in> set (live (a + HDR + s) bs)" for q t
    using live_bounds [OF that] by simp
  with Cons.IH [of "a + HDR + s"] b show ?case by auto
qed simp

lemma live_distinct: "distinct (map fst (live a bs))"
proof -
  have "sorted_wrt (\<lambda>p q. p < q) (map fst (live a bs))"
    unfolding sorted_wrt_map using live_sorted by (rule sorted_wrt_mono_rel [rotated]) auto
  then show ?thesis by (simp add: strict_sorted_iff)
qed

lemma live_disjoint:
  assumes "(p, s) \<in> set (live a bs)" "(q, t) \<in> set (live a bs)" "p \<noteq> q"
  shows "p + s \<le> q \<or> q + t \<le> p"
proof -
  from assms obtain i j where "i < length (live a bs)" "live a bs ! i = (p, s)"
    "j < length (live a bs)" "live a bs ! j = (q, t)" by (metis in_set_conv_nth)
  moreover from this assms(3) have "i < j \<or> j < i" by (metis fst_conv nat_neq_iff)
  ultimately show ?thesis using live_sorted [of a bs] unfolding sorted_wrt_iff_nth_less
    by (metis case_prod_conv less_imp_le)
qed

lemma live_freed: "live a (freed pre s post) = live a pre @ live (end_of a pre + HDR + s) post"
proof -
  have m: "live b ((fst (merge_next s post), True) # snd (merge_next s post)) = live (b + HDR + s) post" for b
    by (auto simp: merge_next_def add.assoc split: list.splits prod.splits bool.splits)
  show ?thesis
  proof (cases "\<exists>pre' t. pre = pre' @ [(t, True)]")
    case False
    then show ?thesis using m by (simp add: freed_no_merge)
  next
    case True
    then obtain pre' t where pre: "pre = pre' @ [(t, True)]" by blast
    then show ?thesis using m [of "end_of a pre' + HDR + t"] by (simp add: freed_merge add_ac)
  qed
qed

lemma live_taken: "live a (taken n s) = [(a + HDR, if s > n + HDR + MIN_BLOCK_SIZE then n else s)]"
  by (simp add: taken_def)

section \<open>The operations on the block view\<close>

lemma round_size_ok: "MIN_BLOCK_SIZE \<le> round_size n" "8 dvd round_size n"
proof -
  show "MIN_BLOCK_SIZE \<le> round_size n" by (simp add: round_size_def)
  have m: "(7 :: u64) = mask 3" by (simp add: mask_eq_exp_minus_1)
  have "8 dvd unat ((n + 8 - 1) AND NOT 7)"
    unfolding m unat_and_not_mask by (simp add: minus_mod_eq_mult_div)
  then show "8 dvd round_size n" by (simp add: round_size_def max_def)
qed

text \<open>Below \<open>2 ^ 64 - 7\<close> rounding never shrinks a request.\<close>

lemma round_size_ge: "unat n + 7 < 2 ^ 64 \<Longrightarrow> unat n \<le> round_size n"
proof -
  assume "unat n + 7 < 2 ^ 64"
  then have un: "unat (n + 8 - 1) = unat n + 7"
    using unat_add_lem [of n 7] by (simp add: add_diff_eq [symmetric])
  have m: "(7 :: u64) = mask 3" by (simp add: mask_eq_exp_minus_1)
  have "unat ((n + 8 - 1) AND NOT 7) = unat n + 7 - (unat n + 7) mod 8"
    unfolding m unat_and_not_mask un by simp
  moreover have "(unat n + 7) mod 8 \<le> 7" by (simp add: less_Suc_eq_le [symmetric])
  ultimately show ?thesis by (simp add: round_size_def)
qed

abbreviation not_both_free :: "nat \<times> bool \<Rightarrow> nat \<times> bool \<Rightarrow> bool" where
  "not_both_free x y \<equiv> \<not> (snd x \<and> snd y)"

lemma not_both_taken:
  "successively not_both_free (pre @ (s, True) # post) \<Longrightarrow> successively not_both_free (pre @ taken n s @ post)"
  by (cases post) (auto simp: successively_append_iff taken_def)

lemma not_both_freed:
  "successively not_both_free (pre @ (s, False) # post) \<Longrightarrow> successively not_both_free (freed pre s post)"
proof -
  assume a: "successively not_both_free (pre @ (s, False) # post)"
  have post: "successively not_both_free ((x, True) # snd (merge_next s post))" for x
  proof (cases post)
    case (Cons b post')
    with a show ?thesis
      by (cases b; cases "snd b"; cases post') (auto simp: merge_next_def successively_append_iff)
  qed (simp add: merge_next_def)
  show ?thesis
  proof (cases pre rule: rev_cases)
    case Nil
    then show ?thesis using post by (simp add: freed_def case_prod_unfold Let_def)
  next
    case (snoc pre' b)
    obtain t f where b: "b = (t, f)" by fastforce
    show ?thesis
    proof (cases f)
      case True
      with snoc a post b show ?thesis
        by (cases pre' rule: rev_cases) (auto simp: freed_def case_prod_unfold Let_def successively_append_iff)
    next
      case False
      with snoc a post b show ?thesis
        by (auto simp: freed_def case_prod_unfold Let_def successively_append_iff)
    qed
  qed
qed

lemma size_ok_merge: "size_ok s \<Longrightarrow> size_ok t \<Longrightarrow> size_ok (s + (HDR + t))"
  by (auto simp: size_ok_def)

lemma freed_sizes:
  assumes "\<forall>b\<in>set (pre @ (s, False) # post). size_ok (fst b)"
  shows "\<forall>b\<in>set (freed pre s post). size_ok (fst b)"
proof -
  have m: "size_ok (fst (merge_next s post))" "set (snd (merge_next s post)) \<subseteq> set post"
    using assms by (auto simp: merge_next_def size_ok_merge split: list.splits prod.splits bool.splits)
  show ?thesis
  proof (cases "\<exists>pre' t. pre = pre' @ [(t, True)]")
    case False
    with m assms show ?thesis by (auto simp: freed_no_merge)
  next
    case True
    then obtain pre' t where pre: "pre = pre' @ [(t, True)]" by blast
    with m assms show ?thesis by (auto simp: freed_merge size_ok_merge)
  qed
qed

lemma end_of_freed: "end_of a (freed pre s post) = end_of a (pre @ (s, False) # post)"
proof -
  have m: "end_of b ((fst (merge_next s post), x) # snd (merge_next s post)) = end_of b ((s, False) # post)" for b x
    by (auto simp: merge_next_def add.assoc split: list.splits prod.splits bool.splits)
  show ?thesis
  proof (cases pre rule: rev_cases)
    case Nil
    then show ?thesis using m by (simp add: freed_def case_prod_unfold Let_def)
  next
    case (snoc pre' b)
    then show ?thesis using m [of "end_of a pre' + HDR + fst b"] m [of "end_of a pre"]
      by (cases b; cases "snd b") (simp_all add: freed_def case_prod_unfold Let_def add_ac)
  qed
qed

lemma heap_inv_small:
  assumes "heap_inv base h (pre @ (s, f) # post)"
  shows "s < 2 ^ 32"
proof -
  from assms have "end_of base (pre @ (s, f) # post) = base + HEAP_SIZE" by (simp add: heap_inv_def)
  with end_of_ge [of base pre] end_of_ge [of "end_of base pre + HDR + s" post] show ?thesis by simp
qed

lemma kmalloc_view:
  assumes inv: "heap_inv base h bs" and sz: "sz \<noteq> 0"
  shows "case first_fit (round_size sz) bs of
      None \<Rightarrow> kmalloc sz h = Some (0, h)
    | Some (pre, s, post) \<Rightarrow> \<exists>h'. kmalloc sz h = Some (end_of base pre + HDR, h') \<and> payload h' = payload h
        \<and> heap_inv base h' (pre @ taken (round_size sz) s @ post)"
proof -
  let ?n = "round_size sz"
  from inv have seg: "seg (hdrs h) 0 base bs 0" "0 < base" "bs \<noteq> []" "heap_first h = base"
    by (simp_all add: heap_inv_def)
  then have k: "kmalloc sz h = (case first_fit ?n bs of None \<Rightarrow> Some (0, h)
      | Some (pre, s, post) \<Rightarrow> Some (take_block (end_of base pre) ?n h))"
    using kmalloc_loop_first_fit [OF seg(1,2), of ?n] sz by (simp add: kmalloc_def)
  show ?thesis
  proof (cases "first_fit ?n bs")
    case None
    with k show ?thesis by simp
  next
    case (Some x)
    obtain pre s post where x: "x = (pre, s, post)" by (metis prod_cases3)
    with Some first_fit_Some have bs: "bs = pre @ (s, True) # post" "?n \<le> s" by blast+
    obtain r h' where t: "take_block (end_of base pre) ?n h = (r, h')" by fastforce
    have seg_b: "seg (hdrs h) (last_of 0 base pre) (end_of base pre) ((s, True) # post) 0"
      using seg(1) bs(1) by (simp add: seg_append)
    have "s < 2 ^ 32" using inv bs(1) by (metis heap_inv_small)
    note tb = take_block_seg [OF seg_b bs(2) this t]
    have ne: "(taken ?n s @ post \<noteq> []) = ((s, True) # post \<noteq> [])" by (simp add: taken_def)
    have "seg (hdrs h') 0 base (pre @ taken ?n s @ post) 0"
      using seg_pre_cong [OF seg(1) [unfolded bs(1)] ne tb(3) tb(2)] .
    moreover have "\<forall>b\<in>set (pre @ taken ?n s @ post). size_ok (fst b)"
      using inv round_size_ok [of sz] bs by (auto simp: heap_inv_def taken_def size_ok_def)
    moreover have "end_of base (pre @ taken ?n s @ post) = end_of base bs"
      using bs by (simp add: end_of_taken)
    moreover have "successively not_both_free (pre @ taken ?n s @ post)"
      using inv bs(1) by (intro not_both_taken) (simp add: heap_inv_def)
    ultimately have "heap_inv base h' (pre @ taken ?n s @ post)"
      using inv tb(5) by (simp add: heap_inv_def taken_def)
    with k Some x t tb(1,4) show ?thesis by simp
  qed
qed

lemma kfree_view:
  assumes inv: "heap_inv base h (pre @ (s, False) # post)"
  shows "heap_inv base (kfree (end_of base pre + HDR) h) (freed pre s post)"
proof -
  let ?bs = "pre @ (s, False) # post"
  from inv have b: "seg (hdrs h) 0 base ?bs 0" "0 < base" "end_of base ?bs = base + HEAP_SIZE"
    "\<forall>b\<in>set ?bs. size_ok (fst b)" "successively not_both_free ?bs"
    unfolding heap_inv_def by blast+
  have "end_of base ?bs < base + 2 ^ 32" unfolding b(3) by simp
  from kfree_seg [OF b(1,2) this] have "seg (hdrs (kfree (end_of base pre + HDR) h)) 0 base (freed pre s post) 0" .
  moreover have "freed pre s post \<noteq> []"
    by (cases "\<exists>pre' t. pre = pre' @ [(t, True)]") (auto simp: freed_no_merge freed_merge)
  moreover have "heap_first h = base" using inv by (simp add: heap_inv_def)
  ultimately show ?thesis
    using b(2) freed_sizes [OF b(4)] end_of_freed [of base pre s post] b(3) not_both_freed [OF b(5)]
    by (simp add: heap_inv_def)
qed

section \<open>Running the heap\<close>

text \<open>\<open>owned\<close>: the pointers clients hold, with the size they asked for. A client frees only
  pointers it holds.\<close>

inductive heap_steps :: "heap_t \<Rightarrow> heap_t \<Rightarrow> (nat \<times> u64) list \<Rightarrow> bool" for h0 where
  start: "heap_steps h0 h0 []"
| malloc: "heap_steps h0 h owned \<Longrightarrow> kmalloc n h = Some (p, h') \<Longrightarrow> p \<noteq> 0
    \<Longrightarrow> heap_steps h0 h' ((p, n) # owned)"
| malloc_null: "heap_steps h0 h owned \<Longrightarrow> kmalloc n h = Some (0, h') \<Longrightarrow> heap_steps h0 h' owned"
| free: "heap_steps h0 h (xs @ (p, n) # ys) \<Longrightarrow> heap_steps h0 (kfree p h) (xs @ ys)"

definition owned_ok :: "nat \<Rightarrow> blocks \<Rightarrow> (nat \<times> u64) list \<Rightarrow> bool" where
  "owned_ok base bs owned \<longleftrightarrow> distinct (map fst owned) \<and> set (map fst owned) = set (map fst (live base bs))
     \<and> (\<forall>p n. (p, n) \<in> set owned \<longrightarrow> (\<exists>s. (p, s) \<in> set (live base bs) \<and> round_size n \<le> s))"

lemma owned_okD:
  "owned_ok base bs owned \<Longrightarrow> (p, n) \<in> set owned \<Longrightarrow> \<exists>s. (p, s) \<in> set (live base bs) \<and> round_size n \<le> s"
  by (simp add: owned_ok_def)

lemma kmalloc_owned:
  assumes inv: "heap_inv base h bs" and own: "owned_ok base bs owned"
    and k: "kmalloc n h = Some (p, h')" "p \<noteq> 0"
  shows "\<exists>bs'. heap_inv base h' bs' \<and> owned_ok base bs' ((p, n) # owned)"
proof -
  have n: "n \<noteq> 0" using k by (auto simp: kmalloc_def)
  from kmalloc_view [OF inv n] k obtain pre s post where
    ff: "first_fit (round_size n) bs = Some (pre, s, post)" and p: "p = end_of base pre + HDR"
    and inv': "heap_inv base h' (pre @ taken (round_size n) s @ post)"
    by (auto split: option.splits)
  from first_fit_Some [OF ff] have bs: "bs = pre @ (s, True) # post" "round_size n \<le> s" by auto
  let ?t = "if s > round_size n + HDR + MIN_BLOCK_SIZE then round_size n else s"
  have l: "live base (pre @ taken (round_size n) s @ post)
      = live base pre @ (p, ?t) # live (end_of base pre + HDR + s) post"
    using bs(2) by (simp add: live_taken end_of_taken p)
  have l0: "live base bs = live base pre @ live (end_of base pre + HDR + s) post" by (simp add: bs(1))
  have "p \<notin> set (map fst (live base bs))"
    using live_distinct [of base "pre @ taken (round_size n) s @ post"] unfolding l l0 by auto
  then have "owned_ok base (pre @ taken (round_size n) s @ post) ((p, n) # owned)"
    using own bs(2) unfolding owned_ok_def l l0 by auto blast+
  with inv' show ?thesis by blast
qed

lemma kfree_owned:
  assumes inv: "heap_inv base h bs" and own: "owned_ok base bs (xs @ (p, n) # ys)"
  shows "\<exists>bs'. heap_inv base (kfree p h) bs' \<and> owned_ok base bs' (xs @ ys)"
proof -
  from owned_okD [OF own, of p n] obtain s where "(p, s) \<in> set (live base bs)" by auto
  then obtain pre post where bs: "bs = pre @ (s, False) # post" "p = end_of base pre + HDR"
    by (blast dest: live_split)
  let ?A = "live base pre" and ?B = "live (end_of base pre + HDR + s) post"
  have l: "live base (freed pre s post) = ?A @ ?B" by (rule live_freed)
  have l0: "live base bs = ?A @ (p, s) # ?B" by (simp add: bs)
  have d: "p \<notin> set (map fst (?A @ ?B))" using live_distinct [of base bs] unfolding l0 by auto
  from own have d': "p \<notin> set (map fst (xs @ ys))" "distinct (map fst (xs @ ys))"
    and eq: "insert p (set (map fst (xs @ ys))) = insert p (set (map fst (?A @ ?B)))"
    unfolding owned_ok_def l0 by auto
  have "set (map fst (xs @ ys)) = set (map fst (?A @ ?B))"
    using eq d d'(1) by (metis insert_ident)
  moreover have "\<exists>t. (q, t) \<in> set (?A @ ?B) \<and> round_size m \<le> t" if "(q, m) \<in> set (xs @ ys)" for q m
  proof -
    from that d'(1) have "q \<noteq> p" by force
    moreover from owned_okD [OF own, of q m] that
    obtain t where "(q, t) \<in> set (live base bs)" "round_size m \<le> t" by auto
    ultimately show ?thesis unfolding l0 by auto
  qed
  ultimately have "owned_ok base (freed pre s post) (xs @ ys)"
    using d'(2) unfolding owned_ok_def l by blast
  with kfree_view [of base h pre s post] inv bs show ?thesis by auto
qed

lemma heap_steps_inv:
  assumes "heap_steps h0 h owned" "heap_inv base h0 bs0" "live base bs0 = []"
  shows "\<exists>bs. heap_inv base h bs \<and> owned_ok base bs owned"
  using assms
proof (induction rule: heap_steps.induct)
  case start
  then show ?case by (auto simp: owned_ok_def)
next
  case (malloc h owned n p h')
  then show ?case by (meson kmalloc_owned)
next
  case (malloc_null h owned n h')
  then obtain bs where bs: "heap_inv base h bs" "owned_ok base bs owned" by blast
  have "h' = h"
  proof (cases "n = 0")
    case False
    with kmalloc_view [OF bs(1) False] malloc_null.hyps(2) show ?thesis
      by (auto split: option.splits)
  qed (use malloc_null.hyps(2) in \<open>simp add: kmalloc_def\<close>)
  with bs show ?case by blast
next
  case (free h xs p n ys)
  then show ?case by (meson kfree_owned)
qed

lemma heap_init_inv: "0 < base \<Longrightarrow> heap_inv base (heap_init base h) [(HEAP_SIZE - HDR, True)]"
  by (simp add: heap_inv_def heap_init_def size_ok_def dvd_def)

text \<open>C3: From the freshly initialised heap, however clients interleave kmalloc and kfree of
  pointers they hold, the blocks they hold never overlap each other or any block header, each
  lies inside the 64 MB buffer, is 8-byte aligned in it and is at least as large as the
  rounded request, and the free blocks and held blocks always tile the buffer with no two
  neighbouring free blocks left unmerged.\<close>

theorem heap_safety:
  assumes "0 < base" "heap_steps (heap_init base h) h' owned"
  shows "\<exists>bs. heap_inv base h' bs \<and> distinct (map fst owned)
    \<and> set (map fst owned) = set (map fst (live base bs))
    \<and> (\<forall>(p, n)\<in>set owned. base + HDR \<le> p \<and> p + round_size n \<le> base + HEAP_SIZE \<and> 8 dvd p - base)
    \<and> (\<forall>(p, n)\<in>set owned. \<forall>(q, m)\<in>set owned. p \<noteq> q \<longrightarrow> p + round_size n \<le> q \<or> q + round_size m \<le> p)"
proof -
  have "live base [(HEAP_SIZE - HDR, True)] = []" by simp
  from heap_steps_inv [OF assms(2) heap_init_inv [OF assms(1)] this] obtain bs where
    inv: "heap_inv base h' bs" and own: "owned_ok base bs owned" by blast
  have e: "end_of base bs = base + HEAP_SIZE" using inv by (simp add: heap_inv_def)
  have a: "base + HDR \<le> p \<and> p + round_size n \<le> base + HEAP_SIZE \<and> 8 dvd p - base" if "(p, n) \<in> set owned" for p n
  proof -
    from owned_okD [OF own that] obtain s where "(p, s) \<in> set (live base bs)" "round_size n \<le> s" by blast
    with live_bounds [of p s base bs] live_aligned [of p s base bs] e inv show ?thesis
      by (simp add: heap_inv_def)
  qed
  have b: "p + round_size n \<le> q \<or> q + round_size m \<le> p"
    if "(p, n) \<in> set owned" "(q, m) \<in> set owned" "p \<noteq> q" for p n q m
  proof -
    from owned_okD [OF own that(1)] owned_okD [OF own that(2)] obtain s t where
      "(p, s) \<in> set (live base bs)" "round_size n \<le> s"
      "(q, t) \<in> set (live base bs)" "round_size m \<le> t" by blast
    with live_disjoint [of p s base bs q t] that(3) show ?thesis by auto
  qed
  from own have "distinct (map fst owned)" "set (map fst owned) = set (map fst (live base bs))"
    by (simp_all add: owned_ok_def)
  with inv a b show ?thesis by (intro exI [of _ bs]) blast
qed

definition heap_static :: heap_t where
  "heap_static = \<lparr>hdrs = (\<lambda>_. \<lparr>hb_magic = 0, hb_size = 0, hb_free = False, hb_next = 0, hb_prev = 0\<rparr>),
     payload = (\<lambda>_. 0), heap_first = 0, heap_size = 0, heap_allocs = 0, heap_frees = 0\<rparr>"

lemma demo_alloc:
  "\<exists>h. kmalloc 100 (heap_init 4096 heap_static) = Some (4136, h)
     \<and> heap_inv 4096 h [(104, False), (67108680, True)]"
proof -
  have "(107 :: u64) AND NOT 7 = 104" by simp
  then have r: "round_size 100 = 104" by (simp add: round_size_def)
  from kmalloc_view [OF heap_init_inv [of 4096 heap_static], of 100] show ?thesis
    by (auto simp: r taken_def)
qed

theorem heap_safety_witness:
  "\<exists>h' bs. heap_steps (heap_init 4096 heap_static) h' [(4136, 100)] \<and> heap_inv 4096 h' bs
     \<and> set (map fst (live 4096 bs)) = {4136}"
proof -
  obtain h where k: "kmalloc 100 (heap_init 4096 heap_static) = Some (4136, h)" using demo_alloc by blast
  have run: "heap_steps (heap_init 4096 heap_static) h [(4136, 100)]"
    using heap_steps.malloc [OF heap_steps.start k] by simp
  from heap_safety [OF _ run] obtain bs where "heap_inv 4096 h bs" "set (map fst (live 4096 bs)) = {4136}"
    by auto
  with run show ?thesis by blast
qed

text \<open>C24: kmalloc always returns. It returns NULL, leaving the heap as it was, exactly when no
  free block is as large as the rounded request; otherwise it adds one block to the allocated
  ones, at least as large as the rounded request, and every other allocated block and every
  payload byte is left alone.\<close>

theorem kmalloc_spec:
  assumes "heap_inv base h bs" "sz \<noteq> 0"
  shows "\<exists>p h'. kmalloc sz h = Some (p, h') \<and> payload h' = payload h
    \<and> (p = 0 \<longleftrightarrow> (\<forall>(s, f)\<in>set bs. \<not> (f \<and> round_size sz \<le> s))) \<and> (p = 0 \<longrightarrow> h' = h)
    \<and> (p \<noteq> 0 \<longrightarrow> (\<exists>bs' t. heap_inv base h' bs' \<and> round_size sz \<le> t \<and> (p, t) \<notin> set (live base bs)
        \<and> set (live base bs') = insert (p, t) (set (live base bs))))"
proof (cases "first_fit (round_size sz) bs")
  case None
  with kmalloc_view [OF assms] show ?thesis by (simp add: first_fit_None)
next
  case (Some x)
  obtain pre s post where x: "x = (pre, s, post)" by (metis prod_cases3)
  with Some first_fit_Some [of "round_size sz" bs pre s post] have
    bs: "bs = pre @ (s, True) # post" "round_size sz \<le> s" by simp_all
  from kmalloc_view [OF assms] Some x obtain h' where
    k: "kmalloc sz h = Some (end_of base pre + HDR, h')" "payload h' = payload h"
    "heap_inv base h' (pre @ taken (round_size sz) s @ post)" by auto
  let ?p = "end_of base pre + HDR"
  let ?t = "if s > round_size sz + HDR + MIN_BLOCK_SIZE then round_size sz else s"
  let ?bs' = "pre @ taken (round_size sz) s @ post"
  have l: "live base ?bs' = live base pre @ (?p, ?t) # live (end_of base pre + HDR + s) post"
    using bs(2) by (simp add: live_taken end_of_taken)
  have l0: "live base bs = live base pre @ live (end_of base pre + HDR + s) post" by (simp add: bs(1))
  have "(?p, ?t) \<notin> set (live base bs)" using live_distinct [of base ?bs'] unfolding l l0 by force
  moreover have "set (live base ?bs') = insert (?p, ?t) (set (live base bs))" unfolding l l0 by auto
  moreover have "round_size sz \<le> ?t" using bs(2) by simp
  ultimately have "\<exists>bs' t. heap_inv base h' bs' \<and> round_size sz \<le> t \<and> (?p, t) \<notin> set (live base bs)
      \<and> set (live base bs') = insert (?p, t) (set (live base bs))" using k(3) by blast
  moreover have "\<not> (\<forall>(s, f)\<in>set bs. \<not> (f \<and> round_size sz \<le> s))" using bs by auto
  ultimately show ?thesis using k(1,2) by auto
qed

theorem kmalloc_spec_witness:
  "heap_inv 4096 (heap_init 4096 heap_static) [(HEAP_SIZE - HDR, True)] \<and>
   (\<exists>h'. kmalloc 67108864 (heap_init 4096 heap_static) = Some (0, h') \<and> h' = heap_init 4096 heap_static)"
proof -
  have inv: "heap_inv 4096 (heap_init 4096 heap_static) [(HEAP_SIZE - HDR, True)]" by (rule heap_init_inv) simp
  have r: "round_size 67108864 = HEAP_SIZE" by (simp add: round_size_def)
  from kmalloc_spec [OF inv, of 67108864] inv show ?thesis by (auto simp: r)
qed

text \<open>krealloc of an allocated block to a non-zero size either fails and changes nothing,
  or returns a block that starts with the old contents up to the smaller of the old block
  size and the new size, releases the old block, and leaves the contents of every other
  allocated block as they were.\<close>

theorem krealloc_spec:
  assumes inv: "heap_inv base h bs" and old: "(p, s) \<in> set (live base bs)"
    and sz: "sz \<noteq> 0" "unat sz + 7 < 2 ^ 64"
  shows "\<exists>q h'. krealloc p sz h = Some (q, h') \<and> (q = 0 \<longrightarrow> h' = h)
    \<and> (q \<noteq> 0 \<longrightarrow> (\<forall>i < min s (unat sz). payload h' (q + i) = payload h (p + i))
        \<and> (\<exists>bs' t. heap_inv base h' bs' \<and> unat sz \<le> t
            \<and> set (live base bs') = insert (q, t) (set (live base bs) - {(p, s)}))
        \<and> (\<forall>(r, u)\<in>set (live base bs) - {(p, s)}. \<forall>i<u. payload h' (r + i) = payload h (r + i)))"
proof -
  from live_split [OF old] obtain pre post where
    bs: "bs = pre @ (s, False) # post" "p = end_of base pre + HDR" by blast
  have "seg (hdrs h) 0 base bs 0" using inv by (simp add: heap_inv_def)
  then have hp: "hb_magic (hdrs h (p - HDR)) = HEAP_MAGIC" "hb_size (hdrs h (p - HDR)) = s" "p \<noteq> 0"
    by (simp_all add: bs seg_append)
  from kmalloc_spec [OF inv sz(1)] obtain q h1 where
    k: "kmalloc sz h = Some (q, h1)" "payload h1 = payload h" "q = 0 \<longrightarrow> h1 = h"
    "q \<noteq> 0 \<longrightarrow> (\<exists>bs' t. heap_inv base h1 bs' \<and> round_size sz \<le> t \<and> (q, t) \<notin> set (live base bs)
        \<and> set (live base bs') = insert (q, t) (set (live base bs)))" by blast
  show ?thesis
  proof (cases "q = 0")
    case True
    with k hp sz(1) show ?thesis by (simp add: krealloc_def Let_def)
  next
    case False
    with k(4) obtain bs1 t where b1: "heap_inv base h1 bs1" "round_size sz \<le> t" "(q, t) \<notin> set (live base bs)"
      "set (live base bs1) = insert (q, t) (set (live base bs))" by blast
    let ?n = "min s (unat sz)"
    let ?h2 = "h1\<lparr>payload := mem_copy q p ?n (payload h)\<rparr>"
    have kr: "krealloc p sz h = Some (q, kfree p ?h2)"
      using False k(1,2) hp sz(1) by (simp add: krealloc_def Let_def min_def)
    have nt: "?n \<le> t" using round_size_ge [OF sz(2)] b1(2) by simp
    have apart: "q + t \<le> r \<or> r + u \<le> q" if "(r, u) \<in> set (live base bs)" for r u
    proof -
      have "r \<noteq> q" using that b1(3,4) live_distinct [of base bs1]
        by (metis distinct_map eq_key_imp_eq_value insert_iff)
      with live_disjoint [of q t base bs1 r u] that b1(4) show ?thesis by auto
    qed
    have copied: "payload (kfree p ?h2) (q + i) = payload h (p + i)" if "i < ?n" for i
      using that by (simp add: mem_copy_def)
    have others: "payload (kfree p ?h2) (r + i) = payload h (r + i)"
      if "(r, u) \<in> set (live base bs)" "i < u" for r u i
      using apart [OF that(1)] that(2) nt by (auto simp: mem_copy_def)
    from live_split [of p s base bs1] old b1(4) obtain pre1 post1 where
      s1: "bs1 = pre1 @ (s, False) # post1" "p = end_of base pre1 + HDR" by blast
    have "heap_inv base ?h2 bs1" using b1(1) by (simp add: heap_inv_def)
    then have inv': "heap_inv base (kfree p ?h2) (freed pre1 s post1)"
      using kfree_view s1 by blast
    have "set (live base (freed pre1 s post1)) = set (live base bs1) - {(p, s)}"
      using live_distinct [of base bs1] unfolding s1 live_freed by (auto simp: image_iff)
    also have "\<dots> = insert (q, t) (set (live base bs) - {(p, s)})"
      using b1(3,4) old by auto
    finally have "\<exists>bs' t. heap_inv base (kfree p ?h2) bs' \<and> unat sz \<le> t
        \<and> set (live base bs') = insert (q, t) (set (live base bs) - {(p, s)})"
      using inv' round_size_ge [OF sz(2)] b1(2) order_trans by blast
    with kr False copied others show ?thesis by (intro exI [of _ q] exI [of _ "kfree p ?h2"]) auto
  qed
qed

theorem krealloc_spec_witness:
  "\<exists>h q h'. heap_inv 4096 h [(104, False), (67108680, True)]
     \<and> krealloc 4136 200 h = Some (q, h') \<and> (q = 0 \<or> payload h' (q + 7) = payload h (4136 + 7))"
proof -
  obtain h where h: "heap_inv 4096 h [(104, False), (67108680, True)]" using demo_alloc by blast
  have "(4136, 104) \<in> set (live 4096 [(104, False), (67108680, True)])" by simp
  from krealloc_spec [OF h this, of 200] obtain q h' where
    "krealloc 4136 200 h = Some (q, h')" "q = 0 \<or> payload h' (q + 7) = payload h (4136 + 7)" by fastforce
  with h show ?thesis by blast
qed

text \<open>The rounding of a request within 7 of \<open>2 ^ 64\<close> wraps to the minimum block.\<close>

lemma round_size_wraps: "round_size (- 1) = 32"
  by (simp add: round_size_def)

lemma kcalloc_wraps: "kcalloc (2 ^ 61 + 1) 8 h = kcalloc 1 8 h"
proof -
  have "(2 ^ 61 + 1) * 8 = (1 * 8 :: u64)" by simp
  then show ?thesis by (simp only: kcalloc_def)
qed

end
