(* ===== verification/PageBitmap.thy ===== *)
theory PageBitmap
  imports Heap
begin

unbundle bit_operations_syntax

text \<open>
  The page allocator of \<^verbatim>\<open>kernel/mm/memory.c\<close>: a bitmap with one bit per page, 32-bit
  counters, and a \<^verbatim>\<open>page_t\<close> descriptor from the heap for every page handed out. The heap
  buffer's address is an argument of \<^verbatim>\<open>mm_init\<close>. Descriptors are a typed store over
  heap addresses.
\<close>

abbreviation MAX_PAGES :: u32 where "MAX_PAGES \<equiv> 1024"

record page_t =
  page_phys_addr :: u64
  page_virt_addr :: u64
  page_flags :: u32
  page_ref_count :: u32
  page_next :: nat

record mm_t =
  page_bitmap :: "nat \<Rightarrow> u8"
  mm_total_pages :: u32
  mm_free_pages :: u32
  mm_total_memory :: u32
  mm_used_memory :: u32
  mm_heap :: heap_t
  page_descs :: "nat \<Rightarrow> page_t"

definition page_used :: "(nat \<Rightarrow> u8) \<Rightarrow> nat \<Rightarrow> bool" where
  "page_used bm i \<longleftrightarrow> bm (i div 8) AND push_bit (i mod 8) 1 \<noteq> 0"

definition bitmap_set :: "nat \<Rightarrow> (nat \<Rightarrow> u8) \<Rightarrow> nat \<Rightarrow> u8" where
  "bitmap_set i bm = bm(i div 8 := bm (i div 8) OR push_bit (i mod 8) 1)"

definition bitmap_clear :: "nat \<Rightarrow> (nat \<Rightarrow> u8) \<Rightarrow> nat \<Rightarrow> u8" where
  "bitmap_clear i bm = bm(i div 8 := bm (i div 8) AND NOT (push_bit (i mod 8) 1))"

text \<open>The loop that marks the first 16 MB: \<open>n\<close> rounds starting at page \<open>i\<close>.\<close>

fun reserve_loop :: "nat \<Rightarrow> nat \<Rightarrow> mm_t \<Rightarrow> mm_t" where
  "reserve_loop i 0 s = s"
| "reserve_loop i (Suc n) s =
     (if i < unat (mm_total_pages s)
      then reserve_loop (Suc i) n
             (s\<lparr>page_bitmap := bitmap_set i (page_bitmap s), mm_free_pages := mm_free_pages s - 1,
                mm_used_memory := mm_used_memory s + 4096\<rparr>)
      else s)"

definition mm_page_count :: "u32 \<Rightarrow> u32" where
  "mm_page_count total_memory_mb =
     (let n = (total_memory_mb * 1024 * 1024) div 4096 in if n > MAX_PAGES then MAX_PAGES else n)"

definition mm_init :: "nat \<Rightarrow> u32 \<Rightarrow> mm_t \<Rightarrow> (status_t \<times> mm_t) option" where
  "mm_init heap_buffer total_memory_mb s =
     (let n = mm_page_count total_memory_mb;
          s1 = s\<lparr>mm_total_memory := total_memory_mb, mm_used_memory := 0, mm_total_pages := n,
                 mm_free_pages := n, page_bitmap := (\<lambda>_. 0)\<rparr>;
          s2 = reserve_loop 0 4096 s1
      in case kmalloc 67108864 (mm_heap s2) of None \<Rightarrow> None
         | Some (p, h) \<Rightarrow>
             Some (STATUS_SUCCESS, s2\<lparr>mm_heap := heap_init (if p = 0 then heap_buffer else p) h\<rparr>))"

definition mm_alloc_page :: "u32 \<Rightarrow> mm_t \<Rightarrow> (nat \<times> mm_t) option" where
  "mm_alloc_page flags s =
     (if mm_free_pages s = 0 then Some (0, s)
      else case first_idx (\<lambda>i. \<not> page_used (page_bitmap s) i) (unat (mm_total_pages s)) of
        None \<Rightarrow> Some (0, s)
      | Some i \<Rightarrow>
          let s1 = s\<lparr>page_bitmap := bitmap_set i (page_bitmap s), mm_free_pages := mm_free_pages s - 1,
                     mm_used_memory := mm_used_memory s + 4096\<rparr>
          in case kmalloc 32 (mm_heap s1) of None \<Rightarrow> None
             | Some (p, h') \<Rightarrow>
                 if p = 0 then Some (0, s1\<lparr>mm_heap := h'\<rparr>)
                 else Some (p, s1\<lparr>mm_heap := h', page_descs := (page_descs s1)(p :=
                   \<lparr>page_phys_addr = ucast (of_nat i * 4096 :: u32), page_virt_addr = 0, page_flags = flags,
                    page_ref_count = 1, page_next = 0\<rparr>)\<rparr>))"

definition mm_free_page :: "nat \<Rightarrow> mm_t \<Rightarrow> status_t \<times> mm_t" where
  "mm_free_page page s =
     (if page = 0 then (STATUS_INVALID, s)
      else let d = page_descs s page in
        if page_ref_count d > 1
        then (STATUS_SUCCESS, s\<lparr>page_descs := (page_descs s)(page := d\<lparr>page_ref_count := page_ref_count d - 1\<rparr>)\<rparr>)
        else let idx = ucast (page_phys_addr d div 4096) :: u32;
                 s1 = (if idx < mm_total_pages s
                       then s\<lparr>page_bitmap := bitmap_clear (unat idx) (page_bitmap s),
                              mm_free_pages := mm_free_pages s + 1, mm_used_memory := mm_used_memory s - 4096\<rparr>
                       else s)
             in (STATUS_SUCCESS, s1\<lparr>mm_heap := kfree page (mm_heap s1)\<rparr>))"

definition mm_get_total_pages :: "mm_t \<Rightarrow> u32" where
  "mm_get_total_pages s = mm_total_pages s"

definition mm_get_free_pages :: "mm_t \<Rightarrow> u32" where
  "mm_get_free_pages s = mm_free_pages s"

definition mm_get_used_memory :: "mm_t \<Rightarrow> u32" where
  "mm_get_used_memory s = mm_used_memory s div (1024 * 1024)"

definition mm_map_io :: "u64 \<Rightarrow> u64 \<Rightarrow> nat" where
  "mm_map_io phys_addr sz = 0"

section \<open>Bits of the map\<close>

lemma page_used_bit: "page_used bm i \<longleftrightarrow> bit (bm (i div 8)) (i mod 8)"
  using and_exp_eq_0_iff_not_bit [of "bm (i div 8)" "i mod 8"] by (simp add: page_used_def push_bit_eq_mult)

lemma same_byte: "i div 8 = j div 8 \<Longrightarrow> i mod 8 = j mod 8 \<longleftrightarrow> i = (j :: nat)"
  by (metis div_mult_mod_eq)

lemma page_used_set: "page_used (bitmap_set i bm) j \<longleftrightarrow> j = i \<or> page_used bm j"
  using same_byte [of j i]
  by (auto simp: page_used_bit bitmap_set_def bit_simps)

lemma page_used_clear: "page_used (bitmap_clear i bm) j \<longleftrightarrow> j \<noteq> i \<and> page_used bm j"
  using same_byte [of j i]
  by (auto simp: page_used_bit bitmap_clear_def bit_simps)

lemma page_used_zero [simp]: "\<not> page_used (\<lambda>_. 0) i"
  by (simp add: page_used_bit)

text \<open>The counter agrees with the map.\<close>

definition mm_inv :: "mm_t \<Rightarrow> bool" where
  "mm_inv s \<longleftrightarrow> mm_total_pages s \<le> MAX_PAGES \<and>
     unat (mm_free_pages s) = count_slots (\<lambda>i. \<not> page_used (page_bitmap s) i) (unat (mm_total_pages s))"

lemma count_free_set:
  assumes "i < n" "\<not> page_used bm i"
  shows "Suc (count_slots (\<lambda>j. \<not> page_used (bitmap_set i bm) j) n) = count_slots (\<lambda>j. \<not> page_used bm j) n"
proof -
  have "(\<lambda>j. \<not> page_used (bitmap_set i bm) j) = (\<lambda>j. \<not> page_used bm j)(i := False)"
    by (rule ext) (simp add: page_used_set)
  with count_slots_clear [of i n "\<lambda>j. \<not> page_used bm j"] assms show ?thesis by simp
qed

lemma count_free_clear:
  assumes "i < n" "page_used bm i"
  shows "count_slots (\<lambda>j. \<not> page_used (bitmap_clear i bm) j) n = Suc (count_slots (\<lambda>j. \<not> page_used bm j) n)"
proof -
  have "(\<lambda>j. \<not> page_used (bitmap_clear i bm) j) = (\<lambda>j. \<not> page_used bm j)(i := True)"
    by (rule ext) (simp add: page_used_clear)
  with count_slots_set [of i n "\<lambda>j. \<not> page_used bm j"] assms show ?thesis by simp
qed

definition take_page :: "nat \<Rightarrow> mm_t \<Rightarrow> mm_t" where
  "take_page i s = s\<lparr>page_bitmap := bitmap_set i (page_bitmap s), mm_free_pages := mm_free_pages s - 1,
     mm_used_memory := mm_used_memory s + 4096\<rparr>"

lemma take_page_inv:
  assumes "mm_inv s" "i < unat (mm_total_pages s)" "\<not> page_used (page_bitmap s) i"
  shows "mm_inv (take_page i s)" "mm_free_pages s \<noteq> 0"
proof -
  note c = count_free_set [OF assms(2,3)]
  with assms(1) have "unat (mm_free_pages s) \<noteq> 0" unfolding mm_inv_def by linarith
  then show nz: "mm_free_pages s \<noteq> 0" by auto
  then have "1 \<le> mm_free_pages s" by (simp add: word_le_nat_alt Suc_le_eq unat_gt_0)
  then have "unat (mm_free_pages s - 1) = unat (mm_free_pages s) - 1" by (simp add: unat_sub)
  with assms(1) c show "mm_inv (take_page i s)" unfolding mm_inv_def take_page_def by simp
qed

lemma reserve_loop_inv:
  "mm_inv s \<Longrightarrow> (\<forall>j\<ge>i. \<not> page_used (page_bitmap s) j) \<Longrightarrow> mm_inv (reserve_loop i n s)"
proof (induction n arbitrary: i s)
  case (Suc n)
  show ?case
  proof (cases "i < unat (mm_total_pages s)")
    case True
    then have "mm_inv (take_page i s)" using Suc.prems by (intro take_page_inv) simp_all
    moreover have "\<forall>j\<ge>Suc i. \<not> page_used (page_bitmap (take_page i s)) j"
      using Suc.prems(2) by (simp add: take_page_def page_used_set)
    ultimately show ?thesis using Suc.IH [of "take_page i s" "Suc i"] True by (simp add: take_page_def)
  qed (use Suc.prems in simp)
qed simp

lemma reserve_loop_fields [simp]:
  "mm_total_pages (reserve_loop i n s) = mm_total_pages s" "mm_heap (reserve_loop i n s) = mm_heap s"
  by (induction n arbitrary: i s) simp_all

lemma reserve_loop_used:
  "page_used (page_bitmap (reserve_loop i n s)) j \<longleftrightarrow>
     page_used (page_bitmap s) j \<or> (i \<le> j \<and> j < i + n \<and> j < unat (mm_total_pages s))"
proof (induction n arbitrary: i s)
  case (Suc n)
  show ?case by (cases "i < unat (mm_total_pages s)") (auto simp: Suc.IH page_used_set)
qed auto

lemma mm_page_count_le: "mm_page_count mb \<le> MAX_PAGES"
  by (simp add: mm_page_count_def Let_def not_less)

lemma mm_init_view:
  fixes s :: mm_t
  assumes "heap_first (mm_heap s) = 0"
  shows "\<exists>s'. mm_init buf mb s = Some (STATUS_SUCCESS, s') \<and> mm_inv s' \<and> mm_total_pages s' = mm_page_count mb
    \<and> (\<forall>i < unat (mm_page_count mb). page_used (page_bitmap s') i) \<and> mm_heap s' = heap_init buf (mm_heap s)"
proof -
  let ?s1 = "s\<lparr>mm_total_memory := mb, mm_used_memory := 0, mm_total_pages := mm_page_count mb,
    mm_free_pages := mm_page_count mb, page_bitmap := (\<lambda>_. 0)\<rparr>"
  have "mm_inv ?s1" using mm_page_count_le by (simp add: mm_inv_def count_slots_def)
  then have inv: "mm_inv (reserve_loop 0 4096 ?s1)" by (rule reserve_loop_inv) simp
  have "unat (mm_page_count mb) \<le> 1024" using mm_page_count_le [of mb] by (simp add: word_le_nat_alt)
  then have used: "\<forall>i < unat (mm_page_count mb). page_used (page_bitmap (reserve_loop 0 4096 ?s1)) i"
    by (auto simp: reserve_loop_used)
  show ?thesis using assms inv used
    by (simp add: mm_init_def kmalloc_def Let_def mm_inv_def)
qed

text \<open>Whatever memory size it is told, mm_init at boot succeeds and leaves no page to
  allocate: the page table is clamped to 1024 pages, of which the first 4096 are then marked
  reserved, so mm_get_free_pages is 0 and every mm_alloc_page returns NULL and changes
  nothing.\<close>

theorem mm_init_leaves_no_pages:
  assumes "heap_first (mm_heap s) = 0"
  shows "\<exists>s'. mm_init buf mb s = Some (STATUS_SUCCESS, s') \<and> mm_get_free_pages s' = 0
    \<and> (\<forall>flags. mm_alloc_page flags s' = Some (0, s'))"
proof -
  from mm_init_view [OF assms, of buf mb] obtain s' where
    s': "mm_init buf mb s = Some (STATUS_SUCCESS, s')" "mm_inv s'" "mm_total_pages s' = mm_page_count mb"
    "\<forall>i < unat (mm_page_count mb). page_used (page_bitmap s') i" by blast
  have "count_slots (\<lambda>i. \<not> page_used (page_bitmap s') i) (unat (mm_page_count mb)) = 0"
    using s'(4) by (auto simp: count_slots_def)
  with s'(2,3) have "mm_free_pages s' = 0" by (simp add: mm_inv_def unat_eq_0)
  with s'(1) show ?thesis by (simp add: mm_get_free_pages_def mm_alloc_page_def)
qed

definition mm_static :: mm_t where
  "mm_static = \<lparr>page_bitmap = (\<lambda>_. 0), mm_total_pages = 0, mm_free_pages = 0, mm_total_memory = 0,
     mm_used_memory = 0, mm_heap = heap_static,
     page_descs = (\<lambda>_. \<lparr>page_phys_addr = 0, page_virt_addr = 0, page_flags = 0, page_ref_count = 0, page_next = 0\<rparr>)\<rparr>"

theorem mm_init_leaves_no_pages_witness:
  "\<exists>s'. mm_init 4096 512 mm_static = Some (STATUS_SUCCESS, s') \<and> mm_alloc_page 3 s' = Some (0, s')"
proof -
  have "heap_first (mm_heap mm_static) = 0" by (simp add: mm_static_def heap_static_def)
  from mm_init_leaves_no_pages [OF this, of 4096 512] show ?thesis by blast
qed

text \<open>The default configuration of 4096 MB multiplies to \<open>2 ^ 32\<close> and wraps to no pages at all.\<close>

lemma mm_page_count_wraps: "mm_page_count 4096 = 0"
  by (simp add: mm_page_count_def)

lemma bitmap_clear_set: "\<not> page_used bm i \<Longrightarrow> bitmap_clear i (bitmap_set i bm) = bm"
proof (rule ext)
  fix k
  assume "\<not> page_used bm i"
  then have "\<not> bit (bm (i div 8)) (i mod 8)" by (simp add: page_used_bit)
  then have "(bm (i div 8) OR push_bit (i mod 8) 1) AND NOT (push_bit (i mod 8) 1) = bm (i div 8)"
    by (intro bit_eqI) (auto simp: bit_simps)
  then show "bitmap_clear i (bitmap_set i bm) k = bm k" by (simp add: bitmap_clear_def bitmap_set_def)
qed

lemma page_index_roundtrip:
  assumes "i < 1024"
  shows "ucast (ucast (of_nat i * 4096 :: u32) div 4096 :: u64) = (of_nat i :: u32)"
    and "unat (of_nat i :: u32) = i" "unat (ucast (of_nat i * 4096 :: u32) :: u64) = 4096 * i"
proof -
  have u: "unat (of_nat i * 4096 :: u32) = i * 4096"
  proof -
    have "of_nat i * 4096 = (of_nat (i * 4096) :: u32)" by simp
    then show ?thesis using assms by (simp only: unat_of_nat) (simp add: take_bit_nat_eq_self)
  qed
  have v: "unat (ucast (of_nat i * 4096 :: u32) :: u64) = i * 4096"
    using assms by (simp add: unsigned_ucast_eq u take_bit_nat_eq_self)
  then show "unat (ucast (of_nat i * 4096 :: u32) :: u64) = 4096 * i" by simp
  show w: "unat (of_nat i :: u32) = i" using assms by (simp add: unat_of_nat take_bit_nat_eq_self)
  have "unat (ucast (of_nat i * 4096 :: u32) div 4096 :: u64) = i" by (simp add: unat_div v)
  then have "unat (ucast (ucast (of_nat i * 4096 :: u32) div 4096 :: u64) :: u32) = unat (of_nat i :: u32)"
    using assms w by (simp add: unsigned_ucast_eq take_bit_nat_eq_self)
  then show "ucast (ucast (of_nat i * 4096 :: u32) div 4096 :: u64) = (of_nat i :: u32)"
    by (simp add: word_unat_eq_iff)
qed

text \<open>When the counters agree with the map, a successful mm_alloc_page hands out the lowest
  free page with its physical address in the descriptor, marks exactly that page used and keeps
  the counters in agreement; giving the descriptor back with mm_free_page restores the map
  and both counters.\<close>

theorem mm_alloc_free_roundtrip:
  assumes inv: "mm_inv s" and a: "mm_alloc_page flags s = Some (p, s')" "p \<noteq> 0"
  shows "\<exists>i < unat (mm_total_pages s). first_idx (\<lambda>i. \<not> page_used (page_bitmap s) i) (unat (mm_total_pages s)) = Some i
    \<and> unat (page_phys_addr (page_descs s' p)) = 4096 * i \<and> page_ref_count (page_descs s' p) = 1
    \<and> mm_inv s' \<and> (\<forall>j. page_used (page_bitmap s') j \<longleftrightarrow> j = i \<or> page_used (page_bitmap s) j)
    \<and> (\<exists>s''. mm_free_page p s' = (STATUS_SUCCESS, s'') \<and> page_bitmap s'' = page_bitmap s
         \<and> mm_free_pages s'' = mm_free_pages s \<and> mm_used_memory s'' = mm_used_memory s \<and> mm_inv s'')"
proof -
  let ?n = "unat (mm_total_pages s)"
  from a obtain i h' where
    i: "first_idx (\<lambda>i. \<not> page_used (page_bitmap s) i) ?n = Some i"
    and s': "s' = (take_page i s)\<lparr>mm_heap := h', page_descs := (page_descs s)(p :=
      \<lparr>page_phys_addr = ucast (of_nat i * 4096 :: u32), page_virt_addr = 0, page_flags = flags,
       page_ref_count = 1, page_next = 0\<rparr>)\<rparr>"
    by (auto simp: mm_alloc_page_def take_page_def Let_def split: if_splits option.splits)
  from i have i': "i < ?n" "\<not> page_used (page_bitmap s) i" by (simp_all add: first_idx_Some_iff)
  have n: "?n \<le> 1024" using inv by (simp add: mm_inv_def word_le_nat_alt)
  with i'(1) have i_small: "i < 1024" by simp
  note idx = page_index_roundtrip [OF i_small]
  have inv': "mm_inv s'" using take_page_inv(1) [OF inv i'] by (simp add: s' mm_inv_def)
  have lt: "(of_nat i :: u32) < mm_total_pages s" using i'(1) idx(2) by (simp add: word_less_nat_alt)
  have f: "\<exists>s''. mm_free_page p s' = (STATUS_SUCCESS, s'') \<and> page_bitmap s'' = page_bitmap s
         \<and> mm_free_pages s'' = mm_free_pages s \<and> mm_used_memory s'' = mm_used_memory s
         \<and> mm_total_pages s'' = mm_total_pages s"
    using a(2) lt bitmap_clear_set [OF i'(2)]
    by (simp add: mm_free_page_def s' take_page_def Let_def idx(1,2))
  show ?thesis
  proof (intro exI [of _ i] conjI i i'(1) inv')
    show "unat (page_phys_addr (page_descs s' p)) = 4096 * i" using idx(3) by (simp add: s')
    show "page_ref_count (page_descs s' p) = 1" by (simp add: s')
    show "\<forall>j. page_used (page_bitmap s') j \<longleftrightarrow> j = i \<or> page_used (page_bitmap s) j"
      by (simp add: s' take_page_def page_used_set)
    show "\<exists>s''. mm_free_page p s' = (STATUS_SUCCESS, s'') \<and> page_bitmap s'' = page_bitmap s
         \<and> mm_free_pages s'' = mm_free_pages s \<and> mm_used_memory s'' = mm_used_memory s \<and> mm_inv s''"
      using f inv by (auto simp: mm_inv_def)
  qed
qed

theorem mm_alloc_free_roundtrip_witness:
  "\<exists>p s' s''. mm_alloc_page 3 (mm_static\<lparr>mm_total_pages := 8, mm_free_pages := 8,
      mm_heap := heap_init 4096 heap_static\<rparr>) = Some (p, s')
    \<and> mm_free_page p s' = (STATUS_SUCCESS, s'') \<and> page_bitmap s'' = (\<lambda>_. 0)"
proof -
  let ?s = "mm_static\<lparr>mm_total_pages := 8, mm_free_pages := 8, mm_heap := heap_init 4096 heap_static\<rparr>"
  have inv: "mm_inv ?s" by (simp add: mm_inv_def mm_static_def count_slots_def)
  have "round_size 32 = 32" by (simp add: round_size_def)
  with kmalloc_view [OF heap_init_inv [of 4096 heap_static], of 32] obtain h where
    "kmalloc 32 (heap_init 4096 heap_static) = Some (4136, h)" by auto
  then obtain s' where a: "mm_alloc_page 3 ?s = Some (4136, s')"
    by (simp add: mm_alloc_page_def mm_static_def Let_def)
  from mm_alloc_free_roundtrip [OF inv a] a show ?thesis by (auto simp: mm_static_def)
qed

end
