(* ===== verification/Ipc.thy ===== *)
theory Ipc
  imports Packed
begin

text \<open>
  The IPC channels of \<^verbatim>\<open>kernel/ipc/ipc.c\<close>: a packed table of channels with a count of
  pending messages each. No message data is stored by the source. \<^verbatim>\<open>ipc_receive\<close> may
  sleep; what other threads do to the channels meanwhile is its argument \<open>others\<close>. The value
  passed to \<^verbatim>\<open>sched_wake\<close> is part of the result of \<^verbatim>\<open>ipc_send\<close>.
\<close>

abbreviation IPC_MAX_CHANNELS :: nat where "IPC_MAX_CHANNELS \<equiv> 256"

datatype ipc_channel_type_t = IPC_CHANNEL_UNUSED | IPC_CHANNEL_PIPE | IPC_CHANNEL_QUEUE | IPC_CHANNEL_SHARED_MEM

record ipc_channel_t =
  channel_id :: u32
  ch_type :: ipc_channel_type_t
  ch_owner :: u32
  ch_peer :: u32
  pending_count :: u32
  ch_blocked :: bool

record ipc_t =
  channels :: "nat \<Rightarrow> ipc_channel_t"
  channel_count :: nat
  next_channel_id :: u32

definition zero_channel :: ipc_channel_t where
  "zero_channel = \<lparr>channel_id = 0, ch_type = IPC_CHANNEL_UNUSED, ch_owner = 0, ch_peer = 0, pending_count = 0, ch_blocked = False\<rparr>"

definition ipc_init :: "ipc_t \<Rightarrow> status_t \<times> ipc_t" where
  "ipc_init s = (STATUS_SUCCESS, s\<lparr>channels := (\<lambda>_. zero_channel), channel_count := 0, next_channel_id := 1\<rparr>)"

definition push_channel :: "ipc_channel_t \<Rightarrow> ipc_t \<Rightarrow> ipc_t option" where
  "push_channel c s =
     (if channel_count s \<ge> IPC_MAX_CHANNELS then None
      else Some (s\<lparr>channels := (channels s)(channel_count s := c), channel_count := channel_count s + 1\<rparr>))"

definition ipc_channel_create :: "ipc_channel_t option \<Rightarrow> ipc_t \<Rightarrow> status_t \<times> ipc_channel_t option \<times> ipc_t" where
  "ipc_channel_create channel s =
     (case channel of None \<Rightarrow> (STATUS_INVALID, None, s)
      | Some c \<Rightarrow>
          let cid = next_channel_id s
          in (case push_channel \<lparr>channel_id = cid, ch_type = ch_type c, ch_owner = ch_owner c, ch_peer = ch_peer c,
                     pending_count = 0, ch_blocked = False\<rparr> s of
                None \<Rightarrow> (STATUS_NO_MEMORY, Some c, s)
              | Some s' \<Rightarrow> (STATUS_SUCCESS, Some (c\<lparr>channel_id := cid\<rparr>), s'\<lparr>next_channel_id := cid + 1\<rparr>)))"

definition channel_slot :: "u32 \<Rightarrow> ipc_t \<Rightarrow> nat option" where
  "channel_slot cid s = first_idx (\<lambda>i. channel_id (channels s i) = cid) (channel_count s)"

definition drop_channel :: "u32 \<Rightarrow> ipc_t \<Rightarrow> ipc_t option" where
  "drop_channel cid s =
     (case channel_slot cid s of None \<Rightarrow> None
      | Some i \<Rightarrow> Some (s\<lparr>channels := (channels s)(i := channels s (channel_count s - 1)), channel_count := channel_count s - 1\<rparr>))"

definition ipc_channel_close :: "u32 \<Rightarrow> ipc_t \<Rightarrow> status_t \<times> ipc_t" where
  "ipc_channel_close cid s =
     (case drop_channel cid s of None \<Rightarrow> (STATUS_NOT_FOUND, s) | Some s' \<Rightarrow> (STATUS_SUCCESS, s'))"

definition upd_channel :: "nat \<Rightarrow> (ipc_channel_t \<Rightarrow> ipc_channel_t) \<Rightarrow> ipc_t \<Rightarrow> ipc_t" where
  "upd_channel i f s = s\<lparr>channels := (channels s)(i := f (channels s i))\<rparr>"

definition ipc_send :: "u32 \<Rightarrow> ipc_t \<Rightarrow> status_t \<times> u32 option \<times> ipc_t" where
  "ipc_send cid s =
     (case channel_slot cid s of None \<Rightarrow> (STATUS_NOT_FOUND, None, s)
      | Some i \<Rightarrow>
          let s1 = upd_channel i (\<lambda>c. c\<lparr>pending_count := pending_count c + 1\<rparr>) s
          in if ch_blocked (channels s1 i)
             then (STATUS_SUCCESS, Some (ch_peer (channels s1 i)), upd_channel i (\<lambda>c. c\<lparr>ch_blocked := False\<rparr>) s1)
             else (STATUS_SUCCESS, None, s1))"

definition ipc_receive :: "(ipc_t \<Rightarrow> ipc_t) \<Rightarrow> u32 \<Rightarrow> u64 \<Rightarrow> ipc_t \<Rightarrow> status_t \<times> ipc_t" where
  "ipc_receive others cid timeout s =
     (case channel_slot cid s of None \<Rightarrow> (STATUS_NOT_FOUND, s)
      | Some i \<Rightarrow>
          let take_one = (\<lambda>s. (STATUS_SUCCESS, upd_channel i (\<lambda>c. c\<lparr>pending_count := pending_count c - 1\<rparr>) s))
          in if pending_count (channels s i) = 0 then
               if timeout = 0 then (STATUS_WOULD_BLOCK, s)
               else
                 let s2 = others (upd_channel i (\<lambda>c. c\<lparr>ch_blocked := True\<rparr>) s)
                 in if pending_count (channels s2 i) = 0 then (STATUS_TIMEOUT, s2) else take_one s2
             else take_one s)"

section \<open>The table as a store of channels\<close>

abbreviation chan_list :: "ipc_t \<Rightarrow> ipc_channel_t list" where
  "chan_list s \<equiv> packed (channels s) (channel_count s)"

definition channel_of :: "u32 \<Rightarrow> ipc_t \<Rightarrow> ipc_channel_t option" where
  "channel_of cid s = map_option (channels s) (channel_slot cid s)"

interpretation cs: keyed_store chan_list channel_id IPC_MAX_CHANNELS channel_of push_channel drop_channel
proof
  show "channel_of k s = List.find (\<lambda>e. channel_id e = k) (chan_list s)" for k s
    by (simp add: channel_of_def channel_slot_def find_packed)
  show "IPC_MAX_CHANNELS \<le> length (chan_list s) \<Longrightarrow> push_channel e s = None" for s e
    by (simp add: push_channel_def)
  show "length (chan_list s) < IPC_MAX_CHANNELS \<Longrightarrow> \<exists>s'. push_channel e s = Some s' \<and> chan_list s' = chan_list s @ [e]" for s e
    by (simp add: push_channel_def)
  show "channel_of k s = None \<Longrightarrow> drop_channel k s = None" for k s
    by (simp add: channel_of_def drop_channel_def)
  show "\<exists>s'. drop_channel k s = Some s' \<and> mset (chan_list s') = mset (chan_list s) - {#e#}" if c: "channel_of k s = Some e" for k s e
  proof -
    from c obtain i where i: "channel_slot k s = Some i" "e = channels s i" by (auto simp: channel_of_def)
    then have "i < channel_count s" by (auto simp: channel_slot_def dest: first_idx_SomeD)
    with i packed_remove [of i "channel_count s" "channels s"] show ?thesis by (simp add: drop_channel_def)
  qed
qed

text \<open>Identifiers are below the next one to be given out.\<close>

definition ipc_inv :: "ipc_t \<Rightarrow> bool" where
  "ipc_inv s \<longleftrightarrow> cs.keys_ok s \<and> (\<forall>c\<in>set (chan_list s). channel_id c < next_channel_id s)"

text \<open>What a client can observe: the open channels and the number of messages pending in each.\<close>

definition pending_map :: "ipc_t \<Rightarrow> u32 \<Rightarrow> u32 option" where
  "pending_map s cid = map_option pending_count (channel_of cid s)"

lemma keys_upd:
  assumes "\<And>c. channel_id (f c) = channel_id c"
  shows "map channel_id (chan_list (upd_channel i f s)) = map channel_id (chan_list s)"
  using assms by (auto simp: packed_def upd_channel_def)

lemma upd_channel_slot:
  assumes "\<And>c. channel_id (f c) = channel_id c"
  shows "channel_slot cid (upd_channel i f s) = channel_slot cid s"
proof -
  have "(\<lambda>j. channel_id (channels (upd_channel i f s) j) = cid) = (\<lambda>j. channel_id (channels s j) = cid)"
    using assms by (auto simp: upd_channel_def)
  then show ?thesis by (simp add: channel_slot_def upd_channel_def)
qed

lemma ipc_inv_ids:
  "ipc_inv s \<longleftrightarrow> distinct (map channel_id (chan_list s)) \<and> list_all (\<lambda>x. x < next_channel_id s) (map channel_id (chan_list s))"
  by (simp add: ipc_inv_def cs.keys_ok_def list_all_iff)

lemma upd_channel_inv:
  assumes "ipc_inv s" "\<And>c. channel_id (f c) = channel_id c"
  shows "ipc_inv (upd_channel i f s)"
proof -
  have "next_channel_id (upd_channel i f s) = next_channel_id s" by (simp add: upd_channel_def)
  with assms(1) show ?thesis unfolding ipc_inv_ids keys_upd [where f = f, OF assms(2)] by (simp only:)
qed

lemma pending_map_upd:
  assumes f: "\<And>c. channel_id (f c) = channel_id c" and i: "channel_slot cid s = Some i"
  shows "pending_map (upd_channel i f s) = (pending_map s)(cid \<mapsto> pending_count (f (channels s i)))"
proof
  fix k
  have "channel_id (channels s i) = cid" using i by (auto simp: channel_slot_def dest: first_idx_SomeD)
  then have "j \<noteq> i" if "channel_slot k s = Some j" "k \<noteq> cid" for j
    using that by (auto simp: channel_slot_def dest: first_idx_SomeD)
  moreover note upd_channel_slot [where f = f, OF f, where cid = k and i = i and s = s]
  ultimately show "pending_map (upd_channel i f s) k = ((pending_map s)(cid \<mapsto> pending_count (f (channels s i)))) k"
    using i by (cases "channel_slot k s") (auto simp: pending_map_def channel_of_def upd_channel_def)
qed

lemma create_pending:
  assumes inv: "ipc_inv s" "next_channel_id s \<noteq> 0xFFFFFFFF" and room: "channel_count s < IPC_MAX_CHANNELS"
  shows "\<exists>s'. ipc_channel_create (Some c) s = (STATUS_SUCCESS, Some (c\<lparr>channel_id := next_channel_id s\<rparr>), s')
    \<and> pending_map s (next_channel_id s) = None \<and> pending_map s' = (pending_map s)(next_channel_id s \<mapsto> 0) \<and> ipc_inv s'"
proof -
  let ?n = "next_channel_id s"
  let ?c = "\<lparr>channel_id = ?n, ch_type = ch_type c, ch_owner = ch_owner c, ch_peer = ch_peer c, pending_count = 0, ch_blocked = False\<rparr>"
  obtain s1 where p: "push_channel ?c s = Some s1" using room by (simp add: push_channel_def)
  let ?s' = "s1\<lparr>next_channel_id := ?n + 1\<rparr>"
  have fresh: "channel_of ?n s = None" using inv(1) by (auto simp: cs.find_None ipc_inv_def)
  have k: "cs.keys_ok s" using inv(1) by (simp add: ipc_inv_def)
  have fn: "channel_of x s1 = (if x = ?n then Some ?c else channel_of x s)" for x
    using cs.find_add [OF p k] fresh by simp
  have "channel_of x ?s' = channel_of x s1" for x by (simp add: channel_of_def channel_slot_def)
  then have m: "pending_map ?s' = (pending_map s)(?n \<mapsto> 0)" by (auto simp: pending_map_def fn)
  have lt: "x < ?n \<Longrightarrow> x < ?n + 1" "?n < ?n + 1" for x
    using inv(2) by (simp_all add: less_inc_u32)
  have el: "chan_list ?s' = chan_list s @ [?c]" using cs.add_SomeD [OF p] by simp
  have "cs.keys_ok ?s'" using k fresh unfolding cs.keys_ok_def el by (auto simp: cs.find_None)
  moreover have "\<forall>x\<in>set (chan_list ?s'). channel_id x < next_channel_id ?s'"
    using inv(1) lt unfolding el by (auto simp: ipc_inv_def)
  ultimately have "ipc_inv ?s'" by (simp add: ipc_inv_def)
  with p m fresh show ?thesis by (simp add: ipc_channel_create_def pending_map_def Let_def)
qed

lemma close_pending:
  assumes inv: "ipc_inv s"
  shows "\<exists>s'. ipc_channel_close cid s = (if pending_map s cid = None then STATUS_NOT_FOUND else STATUS_SUCCESS, s')
    \<and> pending_map s' = (pending_map s)(cid := None) \<and> ipc_inv s'"
proof (cases "channel_of cid s")
  case None
  then have "pending_map s cid = None" by (simp add: pending_map_def)
  with cs.remove_absent [OF None] inv show ?thesis by (auto simp: ipc_channel_close_def)
next
  case (Some c)
  have k: "cs.keys_ok s" using inv by (simp add: ipc_inv_def)
  from cs.remove_found [OF Some] obtain s' where r: "drop_channel cid s = Some s'" by blast
  have "pending_map s' = (pending_map s)(cid := None)" by (auto simp: pending_map_def cs.find_remove [OF r k])
  moreover from cs.remove_elems [OF r k] have "cs.keys_ok s'" "set (chan_list s') \<subseteq> set (chan_list s)" by auto
  moreover have "next_channel_id s' = next_channel_id s" using r by (auto simp: drop_channel_def split: option.splits)
  ultimately show ?thesis using r inv Some by (auto simp: ipc_channel_close_def ipc_inv_def pending_map_def)
qed

lemma send_pending:
  assumes inv: "ipc_inv s"
  shows "case pending_map s cid of
      None \<Rightarrow> ipc_send cid s = (STATUS_NOT_FOUND, None, s)
    | Some n \<Rightarrow> \<exists>w s'. ipc_send cid s = (STATUS_SUCCESS, w, s') \<and> pending_map s' = (pending_map s)(cid \<mapsto> n + 1) \<and> ipc_inv s'"
proof (cases "channel_slot cid s")
  case None
  then show ?thesis by (simp add: pending_map_def channel_of_def ipc_send_def)
next
  case (Some i)
  let ?f = "\<lambda>c. c\<lparr>pending_count := pending_count c + 1\<rparr>" and ?g = "\<lambda>c. c\<lparr>ch_blocked := False\<rparr>"
  let ?s1 = "upd_channel i ?f s"
  have i: "channel_slot cid ?s1 = Some i" using Some by (subst upd_channel_slot) simp_all
  have m: "pending_map ?s1 = (pending_map s)(cid \<mapsto> pending_count (channels s i) + 1)"
    using pending_map_upd [where f = ?f, OF _ Some] by simp
  have "pending_map (upd_channel i ?g ?s1) = (pending_map ?s1)(cid \<mapsto> pending_count (channels ?s1 i))"
    using pending_map_upd [where f = ?g, OF _ i] by simp
  then have "pending_map (upd_channel i ?g ?s1) = pending_map ?s1" using m by (simp add: upd_channel_def)
  moreover have "ipc_inv ?s1" "ipc_inv (upd_channel i ?g ?s1)" using inv by (auto intro!: upd_channel_inv)
  ultimately show ?thesis using Some m by (simp add: pending_map_def channel_of_def ipc_send_def Let_def)
qed

lemma receive_pending:
  assumes inv: "ipc_inv s"
  shows "case pending_map s cid of
      None \<Rightarrow> ipc_receive others cid t s = (STATUS_NOT_FOUND, s)
    | Some n \<Rightarrow> if n = 0 then ipc_receive others cid 0 s = (STATUS_WOULD_BLOCK, s)
        else \<exists>s'. ipc_receive others cid t s = (STATUS_SUCCESS, s') \<and> pending_map s' = (pending_map s)(cid \<mapsto> n - 1) \<and> ipc_inv s'"
proof (cases "channel_slot cid s")
  case None
  then show ?thesis by (simp add: pending_map_def channel_of_def ipc_receive_def)
next
  case (Some i)
  let ?f = "\<lambda>c. c\<lparr>pending_count := pending_count c - 1\<rparr>"
  have "pending_map (upd_channel i ?f s) = (pending_map s)(cid \<mapsto> pending_count (channels s i) - 1)"
    using pending_map_upd [where f = ?f, OF _ Some] by simp
  moreover have "ipc_inv (upd_channel i ?f s)" using inv by (auto intro!: upd_channel_inv)
  ultimately show ?thesis using Some by (simp add: pending_map_def channel_of_def ipc_receive_def Let_def)
qed


definition ipc_static :: ipc_t where
  "ipc_static = \<lparr>channels = (\<lambda>_. zero_channel), channel_count = 0, next_channel_id = 1\<rparr>"


text \<open>A receiver whose sleep ends without a message leaves the channel marked as blocked.\<close>

lemma ipc_timeout_leaves_blocked:
  assumes "channel_slot cid s = Some i" "pending_count (channels s i) = 0" "t \<noteq> 0"
  shows "\<exists>s'. ipc_receive (\<lambda>s. s) cid t s = (STATUS_TIMEOUT, s') \<and> ch_blocked (channels s' i)"
  using assms by (simp add: ipc_receive_def upd_channel_def)

end
