(* ===== verification/Timer.thy ===== *)
theory Timer
  imports Prelude
begin

text \<open>
  The timers of \<^verbatim>\<open>kernel/timer.c\<close>. Calls of callbacks are logged with the timer's slot, the
  callback's address and its argument; the callbacks themselves do not touch the timer
  table. \<open>None\<close> is the division by zero of a timer with interval 0.
\<close>

abbreviation MAX_TIMERS :: nat where "MAX_TIMERS \<equiv> 64"

record timer_t =
  timer_id :: u32
  interval_ms :: u64
  tm_callback :: u64
  tm_arg :: u64
  tm_periodic :: bool
  tm_active :: bool

record timers_t =
  timers :: "nat \<Rightarrow> timer_t"
  timer_count :: nat
  next_timer_id :: u32
  uptime_ms :: u64
  fired :: "(nat \<times> u64 \<times> u64) list"

definition zero_timer :: timer_t where
  "zero_timer = \<lparr>timer_id = 0, interval_ms = 0, tm_callback = 0, tm_arg = 0, tm_periodic = False, tm_active = False\<rparr>"

definition timer_init :: "timers_t \<Rightarrow> status_t \<times> timers_t" where
  "timer_init s = (STATUS_SUCCESS, s\<lparr>timers := (\<lambda>_. zero_timer), timer_count := 0, next_timer_id := 1, uptime_ms := 0\<rparr>)"

definition timer_create :: "u64 \<Rightarrow> u64 \<Rightarrow> u64 \<Rightarrow> bool \<Rightarrow> timers_t \<Rightarrow> u32 \<times> timers_t" where
  "timer_create interval callback arg periodic s =
     (if callback = 0 then (0, s)
      else if timer_count s \<ge> MAX_TIMERS then (0, s)
      else (next_timer_id s,
            s\<lparr>timers := (timers s)(timer_count s := \<lparr>timer_id = next_timer_id s, interval_ms = interval, tm_callback = callback,
                 tm_arg = arg, tm_periodic = periodic, tm_active = True\<rparr>),
              next_timer_id := next_timer_id s + 1, timer_count := timer_count s + 1\<rparr>))"

definition timer_cancel :: "u32 \<Rightarrow> timers_t \<Rightarrow> status_t \<times> timers_t" where
  "timer_cancel tid s =
     (case first_idx (\<lambda>i. timer_id (timers s i) = tid \<and> tm_active (timers s i)) (timer_count s) of
        None \<Rightarrow> (STATUS_NOT_FOUND, s)
      | Some i \<Rightarrow> (STATUS_SUCCESS, s\<lparr>timers := (timers s)(i := (timers s i)\<lparr>tm_active := False\<rparr>)\<rparr>))"

definition timer_get_uptime :: "timers_t \<Rightarrow> u64" where
  "timer_get_uptime s = uptime_ms s"

text \<open>The body of the loop of \<^verbatim>\<open>timer_tick\<close> for slot \<open>i\<close>.\<close>

definition check_timer :: "nat \<Rightarrow> timers_t \<Rightarrow> timers_t option" where
  "check_timer i s =
     (let t = timers s i
      in if \<not> tm_active t then Some s
         else if interval_ms t = 0 then None
         else if uptime_ms s mod interval_ms t = 0 then
           let s1 = (if tm_callback t \<noteq> 0 then s\<lparr>fired := fired s @ [(i, tm_callback t, tm_arg t)]\<rparr> else s)
           in Some (if \<not> tm_periodic t then s1\<lparr>timers := (timers s1)(i := t\<lparr>tm_active := False\<rparr>)\<rparr> else s1)
         else Some s)"

fun check_timers :: "nat list \<Rightarrow> timers_t \<Rightarrow> timers_t option" where
  "check_timers [] s = Some s"
| "check_timers (i # is) s = (case check_timer i s of None \<Rightarrow> None | Some s' \<Rightarrow> check_timers is s')"

definition timer_tick :: "timers_t \<Rightarrow> timers_t option" where
  "timer_tick s = check_timers [0..<timer_count s] (s\<lparr>uptime_ms := uptime_ms s + 1\<rparr>)"

fun timer_ticks :: "nat \<Rightarrow> timers_t \<Rightarrow> timers_t option" where
  "timer_ticks 0 s = Some s"
| "timer_ticks (Suc n) s = (case timer_ticks n s of None \<Rightarrow> None | Some s' \<Rightarrow> timer_tick s')"

section \<open>When timers fire\<close>

definition timers_ok :: "timers_t \<Rightarrow> bool" where
  "timers_ok s \<longleftrightarrow> timer_count s \<le> MAX_TIMERS
     \<and> (\<forall>i<timer_count s. interval_ms (timers s i) \<noteq> 0 \<and> tm_callback (timers s i) \<noteq> 0)"

definition due :: "timers_t \<Rightarrow> nat \<Rightarrow> bool" where
  "due s i \<longleftrightarrow> tm_active (timers s i) \<and> uptime_ms s mod interval_ms (timers s i) = 0"

definition after_check :: "timers_t \<Rightarrow> nat list \<Rightarrow> timers_t" where
  "after_check s is = s\<lparr>timers := (\<lambda>i. if i \<in> set is \<and> due s i \<and> \<not> tm_periodic (timers s i)
       then (timers s i)\<lparr>tm_active := False\<rparr> else timers s i),
     fired := fired s @ map (\<lambda>i. (i, tm_callback (timers s i), tm_arg (timers s i))) (filter (due s) is)\<rparr>"

lemma timers_after_check: "timers (after_check s is) j =
    (if j \<in> set is \<and> due s j \<and> \<not> tm_periodic (timers s j) then (timers s j)\<lparr>tm_active := False\<rparr> else timers s j)"
  by (simp add: after_check_def)

lemma check_timers_spec:
  assumes "distinct is" "\<forall>i\<in>set is. interval_ms (timers s i) \<noteq> 0 \<and> tm_callback (timers s i) \<noteq> 0"
  shows "check_timers is s = Some (after_check s is)"
  using assms
proof (induction "is" arbitrary: s)
  case Nil
  then show ?case by (simp add: after_check_def)
next
  case (Cons i "is")
  define s1 where "s1 = after_check s [i]"
  have c: "check_timer i s = Some s1"
    using Cons.prems(2) by (auto simp: s1_def check_timer_def after_check_def due_def Let_def fun_eq_iff)
  have same: "timers s1 j = timers s j" if "j \<noteq> i" for j using that by (simp add: s1_def after_check_def)
  have up: "uptime_ms s1 = uptime_ms s" by (simp add: s1_def after_check_def)
  have ne: "j \<noteq> i" if "j \<in> set is" for j using that Cons.prems(1) by auto
  have t: "timers s1 j = timers s j" if "j \<in> set is" for j using ne [OF that] by (rule same)
  have d: "due s1 j = due s j" if "j \<in> set is" for j using t [OF that] by (simp add: due_def up)
  have "check_timers is s1 = Some (after_check s1 is)" using Cons.prems t by (intro Cons.IH) simp_all
  moreover have "after_check s1 is = after_check s (i # is)"
  proof -
    let ?e = "\<lambda>s j. (j, tm_callback (timers s j), tm_arg (timers s j))"
    have "filter (due s1) is = filter (due s) is" using d by (intro filter_cong) simp_all
    moreover have "map (?e s1) (filter (due s) is) = map (?e s) (filter (due s) is)" using t by (intro map_cong) simp_all
    ultimately have f: "fired (after_check s1 is) = fired (after_check s (i # is))" by (simp add: after_check_def s1_def)
    have i: "timers s1 i = timers (after_check s [i]) i" by (simp only: s1_def)
    have "timers (after_check s1 is) j = timers (after_check s (i # is)) j" for j
    proof (cases "j \<in> set is")
      case True
      then show ?thesis by (simp add: timers_after_check t d)
    next
      case False
      then show ?thesis using i same [of j] by (cases "j = i") (simp_all add: timers_after_check)
    qed
    then have "timers (after_check s1 is) = timers (after_check s (i # is))" by blast
    moreover have "timer_count s1 = timer_count s" "next_timer_id s1 = next_timer_id s" by (simp_all add: s1_def after_check_def)
    ultimately show ?thesis using f up by (simp add: after_check_def)
  qed
  ultimately show ?case using c by simp
qed

lemma timer_tick_spec:
  assumes "timers_ok s"
  shows "timer_tick s = Some (after_check (s\<lparr>uptime_ms := uptime_ms s + 1\<rparr>) [0..<timer_count s])"
    "timers_ok (after_check (s\<lparr>uptime_ms := uptime_ms s + 1\<rparr>) [0..<timer_count s])"
proof -
  show "timer_tick s = Some (after_check (s\<lparr>uptime_ms := uptime_ms s + 1\<rparr>) [0..<timer_count s])"
    unfolding timer_tick_def using assms by (intro check_timers_spec) (auto simp: timers_ok_def)
  show "timers_ok (after_check (s\<lparr>uptime_ms := uptime_ms s + 1\<rparr>) [0..<timer_count s])"
    using assms by (auto simp: timers_ok_def after_check_def)
qed

text \<open>How often slot \<open>i\<close> appears in a log.\<close>

definition firings :: "nat \<Rightarrow> timers_t \<Rightarrow> nat" where
  "firings i s = length (filter (\<lambda>e. fst e = i) (fired s))"

lemma firings_after_check:
  assumes "i < n"
  shows "firings i (after_check s [0..<n]) = firings i s + (if due s i then 1 else 0)"
proof -
  have c: "length (filter (\<lambda>j. j = i) (filter P [0..<m])) = (if i < m \<and> P i then 1 else 0)" for P m
    by (induction m) auto
  have e: "filter (\<lambda>e. fst e = i) (map (\<lambda>j. (j, tm_callback (timers s j), tm_arg (timers s j))) xs)
      = map (\<lambda>j. (j, tm_callback (timers s j), tm_arg (timers s j))) (filter (\<lambda>j. j = i) xs)" for xs
    by (induction xs) auto
  show ?thesis using assms c [of "due s" n] by (simp add: firings_def after_check_def e)
qed

lemma div_Suc_step: "(Suc n) div d = n div d + (if Suc n mod d = 0 then 1 else 0)" if "0 < d" for n d :: nat
  using that by (simp add: div_Suc)

text \<open>C32: A periodic timer fires exactly at the multiples of its interval: over any number of ticks
  during which the uptime does not wrap, the number of calls of its callback is the number of
  multiples of the interval among the uptimes passed, and the tick always returns as long as
  no interval is 0.\<close>

theorem timer_periodic_firings:
  assumes "timers_ok s" "i < timer_count s" "tm_active (timers s i)" "tm_periodic (timers s i)"
    and "unat (uptime_ms s) + n < 2 ^ 64"
  shows "\<exists>s'. timer_ticks n s = Some s' \<and> unat (uptime_ms s') = unat (uptime_ms s) + n \<and> timers s' i = timers s i
    \<and> firings i s' = firings i s
        + ((unat (uptime_ms s) + n) div unat (interval_ms (timers s i)) - unat (uptime_ms s) div unat (interval_ms (timers s i)))"
proof -
  let ?u = "unat (uptime_ms s)" and ?d = "unat (interval_ms (timers s i))"
  have d: "0 < ?d" using assms(1,2) by (auto simp: timers_ok_def unat_gt_0)
  have "\<exists>s'. timer_ticks n s = Some s' \<and> timers_ok s' \<and> timer_count s' = timer_count s \<and> unat (uptime_ms s') = ?u + n
      \<and> timers s' i = timers s i \<and> firings i s' + ?u div ?d = firings i s + (?u + n) div ?d"
    using assms(5)
  proof (induction n)
    case 0
    then show ?case using assms(1) by simp
  next
    case (Suc n)
    then obtain s1 where s1: "timer_ticks n s = Some s1" "timers_ok s1" "timer_count s1 = timer_count s"
      "unat (uptime_ms s1) = ?u + n" "timers s1 i = timers s i" "firings i s1 + ?u div ?d = firings i s + (?u + n) div ?d" by auto
    let ?t = "s1\<lparr>uptime_ms := uptime_ms s1 + 1\<rparr>"
    let ?s' = "after_check ?t [0..<timer_count s1]"
    have up: "unat (uptime_ms s1 + 1) = ?u + Suc n" using s1(4) Suc.prems by (simp add: unat_word_ariths)
    have due: "due ?t i \<longleftrightarrow> Suc (?u + n) mod ?d = 0"
      using s1(5) assms(3) up by (simp add: due_def word_unat_eq_iff unat_mod_distrib)
    have "firings i ?s' = firings i s1 + (if due ?t i then 1 else 0)"
      using firings_after_check [of i "timer_count s1" ?t] assms(2) s1(3) by (simp add: firings_def)
    then have "firings i ?s' + ?u div ?d = firings i s + (?u + Suc n) div ?d"
      using s1(6) due div_Suc_step [OF d, of "?u + n"] by simp
    moreover have "timers ?s' i = timers s i" using s1(5) assms(4) by (simp add: after_check_def)
    moreover have "unat (uptime_ms ?s') = ?u + Suc n" using up by (simp add: after_check_def)
    moreover have "timer_count ?s' = timer_count s" using s1(3) by (simp add: after_check_def)
    ultimately show ?case using s1(1) timer_tick_spec [OF s1(2)] by (intro exI [of _ ?s']) simp
  qed
  then obtain s' where s': "timer_ticks n s = Some s'" "unat (uptime_ms s') = ?u + n" "timers s' i = timers s i"
    "firings i s' + ?u div ?d = firings i s + (?u + n) div ?d" by blast
  have "?u div ?d \<le> (?u + n) div ?d" by (rule div_le_mono) simp
  with s' show ?thesis by (intro exI [of _ s']) simp
qed

definition demo_timers :: timers_t where
  "demo_timers = snd (timer_create 10 0x8000 7 True
     \<lparr>timers = (\<lambda>_. zero_timer), timer_count = 0, next_timer_id = 1, uptime_ms = 0, fired = []\<rparr>)"

theorem timer_periodic_firings_witness:
  "\<exists>s'. timer_ticks 35 demo_timers = Some s' \<and> firings 0 s' = 3"
proof -
  have "timers_ok demo_timers" "0 < timer_count demo_timers" "tm_active (timers demo_timers 0)" "tm_periodic (timers demo_timers 0)"
    "unat (uptime_ms demo_timers) + 35 < 2 ^ 64"
    by (simp_all add: demo_timers_def timer_create_def timers_ok_def)
  from timer_periodic_firings [OF this] show ?thesis
    by (auto simp: demo_timers_def timer_create_def firings_def)
qed

text \<open>A timer with interval 0 makes the next tick divide by zero.\<close>

lemma timer_zero_interval:
  assumes "callback \<noteq> 0" "timer_count s = 0"
  shows "timer_tick (snd (timer_create 0 callback arg periodic s)) = None"
  using assms by (simp add: timer_create_def timer_tick_def check_timer_def)

text \<open>Cancelled timers keep their slot: 64 creations exhaust the table for good.\<close>

lemma timer_cancel_keeps_slots: "timer_count (snd (timer_cancel tid s)) = timer_count s"
  by (simp add: timer_cancel_def split: option.split)

end
