(* ===== verification/Io.thy ===== *)
theory Io
  imports Prelude "HOL-Library.State_Monad"
begin

text \<open>
  Port and memory-mapped input and output, \<^verbatim>\<open>kernel/arch/x86_64/io.h\<close>, and the model-specific registers. The devices
  are not part of the program: a state carries the history of all accesses, newest
  first, and a function that says what the device answers to a read, given
  the history that ends with it. What a proof needs of a device it states about that function.

  The drivers are written in the state monad, on any state that extends \<open>hw_t\<close>.
\<close>

section \<open>Accesses\<close>

datatype hw_event =
    OutB u16 u8 | OutW u16 u16 | OutL u16 u32
  | InB u16 | InW u16 | InL u16
  | Store8 u64 u8 | Store16 u64 u16 | Store32 u64 u32 | Store64 u64 u64
  | Load8 u64 | Load16 u64 | Load32 u64 | Load64 u64
  | WrMsr u32 u64 | RdMsr u32

record hw_t =
  hw_log :: "hw_event list"
  hw_dev :: "hw_event list \<Rightarrow> u64"

definition hw_put :: "hw_event \<Rightarrow> ('a hw_t_scheme, unit) state" where
  "hw_put e = State (\<lambda>s. ((), s\<lparr>hw_log := e # hw_log s\<rparr>))"

definition hw_ask :: "hw_event \<Rightarrow> ('a hw_t_scheme, u64) state" where
  "hw_ask e = State (\<lambda>s. (hw_dev s (e # hw_log s), s\<lparr>hw_log := e # hw_log s\<rparr>))"

definition outb :: "u16 \<Rightarrow> u8 \<Rightarrow> ('a hw_t_scheme, unit) state" where
  "outb port val = hw_put (OutB port val)"

definition outw :: "u16 \<Rightarrow> u16 \<Rightarrow> ('a hw_t_scheme, unit) state" where
  "outw port val = hw_put (OutW port val)"

definition outl :: "u16 \<Rightarrow> u32 \<Rightarrow> ('a hw_t_scheme, unit) state" where
  "outl port val = hw_put (OutL port val)"

definition inb :: "u16 \<Rightarrow> ('a hw_t_scheme, u8) state" where
  "inb port = do { v \<leftarrow> hw_ask (InB port); State_Monad.return (ucast v) }"

definition inw :: "u16 \<Rightarrow> ('a hw_t_scheme, u16) state" where
  "inw port = do { v \<leftarrow> hw_ask (InW port); State_Monad.return (ucast v) }"

definition inl :: "u16 \<Rightarrow> ('a hw_t_scheme, u32) state" where
  "inl port = do { v \<leftarrow> hw_ask (InL port); State_Monad.return (ucast v) }"

definition io_wait :: "('a hw_t_scheme, unit) state" where
  "io_wait = outb 0x80 0"

definition mmio_read8 :: "u64 \<Rightarrow> ('a hw_t_scheme, u8) state" where
  "mmio_read8 addr = do { v \<leftarrow> hw_ask (Load8 addr); State_Monad.return (ucast v) }"

definition mmio_read16 :: "u64 \<Rightarrow> ('a hw_t_scheme, u16) state" where
  "mmio_read16 addr = do { v \<leftarrow> hw_ask (Load16 addr); State_Monad.return (ucast v) }"

definition mmio_read32 :: "u64 \<Rightarrow> ('a hw_t_scheme, u32) state" where
  "mmio_read32 addr = do { v \<leftarrow> hw_ask (Load32 addr); State_Monad.return (ucast v) }"

definition mmio_read64 :: "u64 \<Rightarrow> ('a hw_t_scheme, u64) state" where
  "mmio_read64 addr = hw_ask (Load64 addr)"

definition mmio_write8 :: "u64 \<Rightarrow> u8 \<Rightarrow> ('a hw_t_scheme, unit) state" where
  "mmio_write8 addr val = hw_put (Store8 addr val)"

definition mmio_write16 :: "u64 \<Rightarrow> u16 \<Rightarrow> ('a hw_t_scheme, unit) state" where
  "mmio_write16 addr val = hw_put (Store16 addr val)"

definition mmio_write32 :: "u64 \<Rightarrow> u32 \<Rightarrow> ('a hw_t_scheme, unit) state" where
  "mmio_write32 addr val = hw_put (Store32 addr val)"

definition mmio_write64 :: "u64 \<Rightarrow> u64 \<Rightarrow> ('a hw_t_scheme, unit) state" where
  "mmio_write64 addr val = hw_put (Store64 addr val)"

definition read_msr :: "u32 \<Rightarrow> ('a hw_t_scheme, u64) state" where
  "read_msr msr = hw_ask (RdMsr msr)"

definition write_msr :: "u32 \<Rightarrow> u64 \<Rightarrow> ('a hw_t_scheme, unit) state" where
  "write_msr msr val = hw_put (WrMsr msr val)"

section \<open>Running them\<close>

lemma run_bind [simp]: "run_state (State_Monad.bind m f) s = (case run_state m s of (a, t) \<Rightarrow> run_state (f a) t)"
  by (simp add: State_Monad.bind_def)

lemma run_return [simp]: "run_state (State_Monad.return a) s = (a, s)"
  by (simp add: State_Monad.return_def)

lemma run_update [simp]: "run_state (State_Monad.update f) s = ((), f s)"
  by (simp add: State_Monad.update_def State_Monad.get_def State_Monad.set_def State_Monad.bind_def)

lemma run_get [simp]: "run_state State_Monad.get s = (s, s)"
  by (simp add: State_Monad.get_def)

lemma run_put [simp]: "run_state (hw_put e) s = ((), s\<lparr>hw_log := e # hw_log s\<rparr>)"
  by (simp add: hw_put_def)

lemma run_ask [simp]: "run_state (hw_ask e) s = (hw_dev s (e # hw_log s), s\<lparr>hw_log := e # hw_log s\<rparr>)"
  by (simp add: hw_ask_def)

lemmas io_defs = outb_def outw_def outl_def inb_def inw_def inl_def io_wait_def mmio_read8_def mmio_read16_def mmio_read32_def
  mmio_read64_def mmio_write8_def mmio_write16_def mmio_write32_def mmio_write64_def read_msr_def write_msr_def

text \<open>Repeating an action for each element of a list, the counting loops of the drivers.\<close>

fun for_each :: "'b list \<Rightarrow> ('b \<Rightarrow> ('s, unit) state) \<Rightarrow> ('s, unit) state" where
  "for_each [] f = State_Monad.return ()"
| "for_each (x # xs) f = do { f x; for_each xs f }"

end
