(* ===== verification/Pci.thy ===== *)
theory Pci
  imports Io
begin

text \<open>
  The PCI bus, \<^verbatim>\<open>kernel/drivers/pci.c\<close>: access to the configuration space through the address and data ports, the enumeration of
  a bus into the static device table, and the look-ups in that table.

  The main lemma compares the table after \<^verbatim>\<open>pci_init\<close> with the list of functions that a
  configuration space describes.
\<close>

abbreviation PCI_MAX_DEVICES :: nat where "PCI_MAX_DEVICES \<equiv> 256"
abbreviation PCI_COMMAND :: u8 where "PCI_COMMAND \<equiv> 0x04"
abbreviation PCI_CLASS :: u8 where "PCI_CLASS \<equiv> 0x0A"
abbreviation PCI_HEADER_TYPE :: u8 where "PCI_HEADER_TYPE \<equiv> 0x0E"
abbreviation PCI_BAR0 :: u8 where "PCI_BAR0 \<equiv> 0x10"
abbreviation PCI_INTERRUPT :: u8 where "PCI_INTERRUPT \<equiv> 0x3C"
abbreviation PCI_CONFIG_ADDR :: u16 where "PCI_CONFIG_ADDR \<equiv> 0xCF8"
abbreviation PCI_CONFIG_DATA :: u16 where "PCI_CONFIG_DATA \<equiv> 0xCFC"

record pci_device_t =
  vendor_id :: u16
  device_id :: u16
  pd_command :: u16
  pd_status :: u16
  revision :: u8
  pd_class :: u8
  pd_subclass :: u8
  prog_if :: u8
  pd_bus :: u8
  pd_slot :: u8
  pd_func :: u8
  pd_bars :: "nat \<Rightarrow> u64"
  pd_irq :: u8
  pd_valid :: bool

definition zero_pci_device :: pci_device_t where
  "zero_pci_device = \<lparr>vendor_id = 0, device_id = 0, pd_command = 0, pd_status = 0, revision = 0, pd_class = 0, pd_subclass = 0,
     prog_if = 0, pd_bus = 0, pd_slot = 0, pd_func = 0, pd_bars = (\<lambda>_. 0), pd_irq = 0, pd_valid = False\<rparr>"

record pci_t = hw_t +
  pci_devices :: "nat \<Rightarrow> pci_device_t"
  pci_count :: nat

section \<open>Configuration space\<close>

definition config_addr :: "u8 \<Rightarrow> u8 \<Rightarrow> u8 \<Rightarrow> u8 \<Rightarrow> u32" where
  "config_addr b sl f offset =
     push_bit 31 1 OR push_bit 16 (ucast b) OR push_bit 11 (ucast sl) OR push_bit 8 (ucast f) OR (ucast offset AND 0xFC)"

definition pci_read_config :: "u8 \<Rightarrow> u8 \<Rightarrow> u8 \<Rightarrow> u8 \<Rightarrow> ('a hw_t_scheme, u32) state" where
  "pci_read_config b sl f offset = do {
     outl PCI_CONFIG_ADDR (config_addr b sl f offset);
     inl PCI_CONFIG_DATA }"

definition pci_write_config :: "u8 \<Rightarrow> u8 \<Rightarrow> u8 \<Rightarrow> u8 \<Rightarrow> u32 \<Rightarrow> ('a hw_t_scheme, unit) state" where
  "pci_write_config b sl f offset val = do {
     outl PCI_CONFIG_ADDR (config_addr b sl f offset);
     outl PCI_CONFIG_DATA val }"

definition pci_enable_bus_master :: "pci_device_t \<Rightarrow> ('a hw_t_scheme, pci_device_t) state" where
  "pci_enable_bus_master dev = do {
     cmd \<leftarrow> pci_read_config (pd_bus dev) (pd_slot dev) (pd_func dev) PCI_COMMAND;
     let cmd = cmd OR 0x1 OR 0x2 OR 0x4;
     pci_write_config (pd_bus dev) (pd_slot dev) (pd_func dev) PCI_COMMAND cmd;
     State_Monad.return (dev\<lparr>pd_command := ucast cmd\<rparr>) }"

definition pci_read_bar :: "pci_device_t \<Rightarrow> nat \<Rightarrow> ('a hw_t_scheme, u64) state" where
  "pci_read_bar dev bar = do {
     let offset = PCI_BAR0 + of_nat bar * 4;
     low \<leftarrow> pci_read_config (pd_bus dev) (pd_slot dev) (pd_func dev) offset;
     if low AND 1 \<noteq> 0 then State_Monad.return (ucast (low AND NOT 3))
     else if low AND 6 = 4 then do {
       high \<leftarrow> pci_read_config (pd_bus dev) (pd_slot dev) (pd_func dev) (offset + 4);
       State_Monad.return (push_bit 32 (ucast high) OR ucast (low AND NOT 0xF)) }
     else State_Monad.return (ucast (low AND NOT 0xF)) }"

section \<open>Enumeration\<close>

fun read_bars :: "nat list \<Rightarrow> pci_device_t \<Rightarrow> ('a hw_t_scheme, pci_device_t) state" where
  "read_bars [] dev = State_Monad.return dev"
| "read_bars (b # bs) dev = do {
     v \<leftarrow> pci_read_bar dev b;
     read_bars bs (dev\<lparr>pd_bars := (pd_bars dev)(b := v)\<rparr>) }"

text \<open>One function that answers: its registers are read, it is enabled, and a new entry of the table is filled in.\<close>

definition pci_read_function :: "u8 \<Rightarrow> u8 \<Rightarrow> u8 \<Rightarrow> u32 \<Rightarrow> ('a hw_t_scheme, pci_device_t) state" where
  "pci_read_function b sl f id2 = do {
     let dev = zero_pci_device\<lparr>vendor_id := ucast (id2 AND 0xFFFF), device_id := ucast (drop_bit 16 id2),
       pd_bus := b, pd_slot := sl, pd_func := f, pd_valid := True\<rparr>;
     class_rev \<leftarrow> pci_read_config b sl f PCI_CLASS;
     let dev = dev\<lparr>revision := ucast (class_rev AND 0xFF), pd_class := ucast (drop_bit 24 class_rev AND 0xFF),
       pd_subclass := ucast (drop_bit 16 class_rev AND 0xFF), prog_if := ucast (drop_bit 8 class_rev AND 0xFF)\<rparr>;
     cmd \<leftarrow> pci_read_config b sl f PCI_COMMAND;
     let dev = dev\<lparr>pd_command := ucast (cmd AND 0xFFFF)\<rparr>;
     dev \<leftarrow> read_bars [0, 1, 2, 3, 4, 5] dev;
     irq_line \<leftarrow> pci_read_config b sl f PCI_INTERRUPT;
     let dev = dev\<lparr>pd_irq := ucast (irq_line AND 0xFF)\<rparr>;
     pci_enable_bus_master dev }"

definition pci_add_function :: "u8 \<Rightarrow> u8 \<Rightarrow> u8 \<Rightarrow> u32 \<Rightarrow> ('a pci_t_scheme, unit) state" where
  "pci_add_function b sl f id2 = do {
     s \<leftarrow> State_Monad.get;
     let i = pci_count s;
     State_Monad.update (\<lambda>s. s\<lparr>pci_count := i + 1\<rparr>);
     dev \<leftarrow> pci_read_function b sl f id2;
     State_Monad.update (\<lambda>s. s\<lparr>pci_devices := (pci_devices s)(i := dev)\<rparr>) }"

text \<open>The two loops of \<^verbatim>\<open>pci_scan_bus\<close>; the result tells whether the scan has returned from inside the loop.\<close>

fun scan_functions :: "u8 \<Rightarrow> u8 \<Rightarrow> nat list \<Rightarrow> ('a pci_t_scheme, bool) state" where
  "scan_functions b sl [] = State_Monad.return False"
| "scan_functions b sl (f # fs) = do {
     id2 \<leftarrow> pci_read_config b sl (of_nat f) 0;
     if id2 = 0xFFFFFFFF then scan_functions b sl fs
     else do {
       s \<leftarrow> State_Monad.get;
       if pci_count s \<ge> PCI_MAX_DEVICES then State_Monad.return True
       else do { pci_add_function b sl (of_nat f) id2; scan_functions b sl fs } } }"

fun scan_slots :: "u8 \<Rightarrow> nat list \<Rightarrow> ('a pci_t_scheme, unit) state" where
  "scan_slots b [] = State_Monad.return ()"
| "scan_slots b (sl # sls) = do {
     i \<leftarrow> pci_read_config b (of_nat sl) 0 0;
     if i = 0xFFFFFFFF then scan_slots b sls
     else do {
       h \<leftarrow> pci_read_config b (of_nat sl) 0 PCI_HEADER_TYPE;
       let hdr_type = (ucast (drop_bit 16 h AND 0xFF) :: u8);
       full \<leftarrow> scan_functions b (of_nat sl) (if hdr_type AND 0x80 \<noteq> 0 then [0, 1, 2, 3, 4, 5, 6, 7] else [0]);
       if full then State_Monad.return () else scan_slots b sls } }"

definition pci_scan_bus :: "u8 \<Rightarrow> ('a pci_t_scheme, unit) state" where
  "pci_scan_bus b = scan_slots b [0..<32]"

definition pci_init :: "('a pci_t_scheme, unit) state" where
  "pci_init = do {
     State_Monad.update (\<lambda>s. s\<lparr>pci_count := 0\<rparr>);
     pci_scan_bus 0;
     hdr \<leftarrow> pci_read_config 0 0 0 PCI_HEADER_TYPE;
     if drop_bit 16 hdr AND 0x80 \<noteq> 0 then do {
       vid \<leftarrow> pci_read_config 0 0 0 0;
       if vid \<noteq> 0xFFFFFFFF then pci_scan_bus 0 else State_Monad.return () }
     else State_Monad.return () }"

section \<open>Look-ups\<close>

definition pci_scan :: "'a pci_t_scheme \<Rightarrow> nat" where
  "pci_scan s = pci_count s"

definition pci_find :: "u16 \<Rightarrow> u16 \<Rightarrow> 'a pci_t_scheme \<Rightarrow> nat option" where
  "pci_find vendor device s = first_idx (\<lambda>i. vendor_id (pci_devices s i) = vendor \<and> device_id (pci_devices s i) = device) (pci_count s)"

definition pci_find_class :: "u8 \<Rightarrow> u8 \<Rightarrow> 'a pci_t_scheme \<Rightarrow> nat option" where
  "pci_find_class cls sub s = first_idx (\<lambda>i. pd_class (pci_devices s i) = cls \<and> pd_subclass (pci_devices s i) = sub) (pci_count s)"

definition pci_device_count :: "'a pci_t_scheme \<Rightarrow> nat" where
  "pci_device_count s = pci_count s"

definition pci_get_device :: "int \<Rightarrow> 'a pci_t_scheme \<Rightarrow> nat option" where
  "pci_get_device index s = (if index < 0 \<or> index \<ge> int (pci_count s) then None else Some (nat index))"

section \<open>What a configuration space describes\<close>

text \<open>A device whose configuration registers other than the command register have the fixed
  contents \<open>conf\<close>. The command register is left open: enabling a function changes it.\<close>

definition config_space :: "(u32 \<Rightarrow> u32) \<Rightarrow> (hw_event list \<Rightarrow> u64) \<Rightarrow> bool" where
  "config_space conf dev \<longleftrightarrow>
     (\<forall>a l. a AND 0xFC \<noteq> 4 \<longrightarrow> ucast (dev (InL PCI_CONFIG_DATA # OutL PCI_CONFIG_ADDR a # l)) = conf a)"

definition bar_value :: "(u32 \<Rightarrow> u32) \<Rightarrow> u8 \<Rightarrow> u8 \<Rightarrow> u8 \<Rightarrow> nat \<Rightarrow> u64" where
  "bar_value conf b sl f bar =
     (let offset = PCI_BAR0 + of_nat bar * 4; low = conf (config_addr b sl f offset) in
      if low AND 1 \<noteq> 0 then ucast (low AND NOT 3)
      else if low AND 6 = 4 then push_bit 32 (ucast (conf (config_addr b sl f (offset + 4)))) OR ucast (low AND NOT 0xF)
      else ucast (low AND NOT 0xF))"

definition described :: "(u32 \<Rightarrow> u32) \<Rightarrow> u8 \<Rightarrow> u8 \<Rightarrow> u8 \<Rightarrow> pci_device_t" where
  "described conf b sl f =
     (let id2 = conf (config_addr b sl f 0); class_rev = conf (config_addr b sl f PCI_CLASS) in
      \<lparr>vendor_id = ucast (id2 AND 0xFFFF), device_id = ucast (drop_bit 16 id2), pd_command = 0, pd_status = 0,
       revision = ucast (class_rev AND 0xFF), pd_class = ucast (drop_bit 24 class_rev AND 0xFF),
       pd_subclass = ucast (drop_bit 16 class_rev AND 0xFF), prog_if = ucast (drop_bit 8 class_rev AND 0xFF),
       pd_bus = b, pd_slot = sl, pd_func = f, pd_bars = (\<lambda>i. if i < 6 then bar_value conf b sl f i else 0),
       pd_irq = ucast (conf (config_addr b sl f PCI_INTERRUPT) AND 0xFF), pd_valid = True\<rparr>)"

definition functions_of :: "(u32 \<Rightarrow> u32) \<Rightarrow> u8 \<Rightarrow> u8 \<Rightarrow> nat list" where
  "functions_of conf b sl =
     (if conf (config_addr b sl 0 0) = 0xFFFFFFFF then []
      else if (ucast (drop_bit 16 (conf (config_addr b sl 0 PCI_HEADER_TYPE)) AND 0xFF) :: u8) AND 0x80 \<noteq> 0
        then [0, 1, 2, 3, 4, 5, 6, 7] else [0])"

definition present :: "(u32 \<Rightarrow> u32) \<Rightarrow> u8 \<Rightarrow> u8 \<Rightarrow> nat list \<Rightarrow> pci_device_t list" where
  "present conf b sl fs = [described conf b sl (of_nat f). f \<leftarrow> fs, conf (config_addr b sl (of_nat f) 0) \<noteq> 0xFFFFFFFF]"

definition on_bus :: "(u32 \<Rightarrow> u32) \<Rightarrow> u8 \<Rightarrow> nat list \<Rightarrow> pci_device_t list" where
  "on_bus conf b sls = concat (map (\<lambda>sl. present conf b (of_nat sl) (functions_of conf b (of_nat sl))) sls)"

section \<open>Reading leaves all but the history\<close>

definition reads :: "('a hw_t_scheme, 'b) state \<Rightarrow> 'b \<Rightarrow> 'a hw_t_scheme \<Rightarrow> bool" where
  "reads m v s \<longleftrightarrow> (\<exists>L. run_state m s = (v, s\<lparr>hw_log := L\<rparr>))"

lemma reads_bind: "reads m v s \<Longrightarrow> (\<And>L. reads (f v) w (s\<lparr>hw_log := L\<rparr>)) \<Longrightarrow> reads (State_Monad.bind m f) w s"
  by (fastforce simp: reads_def)

lemma reads_return: "reads (State_Monad.return v) v s"
  unfolding reads_def by (intro exI [of _ "hw_log s"]) simp

lemma reads_if: "(P \<Longrightarrow> reads m v s) \<Longrightarrow> (\<not> P \<Longrightarrow> reads m' v' s) \<Longrightarrow> reads (if P then m else m') (if P then v else v') s"
  by simp

lemma config_addr_low: "config_addr b sl f offset AND 0xFC = ucast offset AND 0xFC"
proof -
  have m: "(0xFC :: u32) = push_bit 2 (mask 6)" by (simp add: mask_eq_exp_minus_1)
  have h: "bit (push_bit 31 1 :: u32) n \<Longrightarrow> n = 31" for n
    using bit_exp_iff [where ?'a = u32, of 31 n] by (auto simp: push_bit_of_1)
  show ?thesis unfolding config_addr_def m
    by (rule bit_word_eqI) (auto simp: bit_simps simp del: mask_numeral push_bit_of_1 dest!: h)
qed

lemma reads_config:
  assumes "config_space conf (hw_dev s)" "(ucast offset AND 0xFC :: u32) \<noteq> 4"
  shows "reads (pci_read_config b sl f offset) (conf (config_addr b sl f offset)) s"
  using assms config_addr_low [of b sl f offset]
  by (auto simp: reads_def pci_read_config_def outl_def inl_def config_space_def)

lemma reads_config_any: "\<exists>v. reads (pci_read_config b sl f offset) v s"
  by (auto simp: reads_def pci_read_config_def outl_def inl_def)

lemma reads_bar:
  assumes "config_space conf (hw_dev s)" "bar < 6"
  shows "reads (pci_read_bar dev bar) (bar_value conf (pd_bus dev) (pd_slot dev) (pd_func dev) bar) s"
proof -
  let ?o = "PCI_BAR0 + of_nat bar * 4 :: u8"
  from assms(2) have "bar \<in> {0, 1, 2, 3, 4, 5}" by auto
  then have o: "(ucast ?o AND 0xFC :: u32) \<noteq> 4" "(ucast (?o + 4) AND 0xFC :: u32) \<noteq> 4" by auto
  have high: "reads (do { high \<leftarrow> pci_read_config (pd_bus dev) (pd_slot dev) (pd_func dev) (?o + 4); State_Monad.return (g high) })
      (g (conf (config_addr (pd_bus dev) (pd_slot dev) (pd_func dev) (?o + 4)))) (s\<lparr>hw_log := L\<rparr>)" for L and g :: "u32 \<Rightarrow> u64"
    by (rule reads_bind [OF reads_config [OF _ o(2)] reads_return]) (simp add: assms(1))
  show ?thesis unfolding pci_read_bar_def bar_value_def Let_def
    by (rule reads_bind [OF reads_config [OF assms(1) o(1)]]) (intro reads_if reads_return high)
qed

lemma reads_bars:
  assumes "config_space conf (hw_dev s)" "\<And>b. b \<in> set bs \<Longrightarrow> b < 6"
  shows "reads (read_bars bs dev) (dev\<lparr>pd_bars := (\<lambda>b. if b \<in> set bs
    then bar_value conf (pd_bus dev) (pd_slot dev) (pd_func dev) b else pd_bars dev b)\<rparr>) s"
  using assms
proof (induction bs arbitrary: dev s)
  case Nil
  then show ?case by (simp add: reads_return)
next
  case (Cons b bs)
  let ?v = "bar_value conf (pd_bus dev) (pd_slot dev) (pd_func dev) b"
  have "dev\<lparr>pd_bars := (\<lambda>i. if i \<in> set bs then bar_value conf (pd_bus dev) (pd_slot dev) (pd_func dev) i
      else ((pd_bars dev)(b := ?v)) i)\<rparr> =
    dev\<lparr>pd_bars := (\<lambda>i. if i \<in> set (b # bs) then bar_value conf (pd_bus dev) (pd_slot dev) (pd_func dev) i else pd_bars dev i)\<rparr>"
    by (auto simp: fun_eq_iff intro!: arg_cong [where f = "\<lambda>x. dev\<lparr>pd_bars := x\<rparr>"])
  moreover have "reads (read_bars bs (dev\<lparr>pd_bars := (pd_bars dev)(b := ?v)\<rparr>))
      (dev\<lparr>pd_bars := (\<lambda>i. if i \<in> set bs then bar_value conf (pd_bus dev) (pd_slot dev) (pd_func dev) i
        else ((pd_bars dev)(b := ?v)) i)\<rparr>) (s\<lparr>hw_log := L\<rparr>)" for L
    using Cons.IH [of "s\<lparr>hw_log := L\<rparr>" "dev\<lparr>pd_bars := (pd_bars dev)(b := ?v)\<rparr>"] Cons.prems by (simp cong: if_cong)
  moreover have "reads (pci_read_bar dev b) ?v s" using Cons.prems by (intro reads_bar) auto
  ultimately show ?case unfolding read_bars.simps by (intro reads_bind [of _ ?v]) simp_all
qed

text \<open>An action that only reads, and whose result has a property.\<close>

definition yields :: "('a hw_t_scheme, 'b) state \<Rightarrow> ('b \<Rightarrow> bool) \<Rightarrow> 'a hw_t_scheme \<Rightarrow> bool" where
  "yields m P s \<longleftrightarrow> (\<exists>v L. run_state m s = (v, s\<lparr>hw_log := L\<rparr>) \<and> P v)"

lemma reads_yields: "reads m v s \<Longrightarrow> yields m (\<lambda>x. x = v) s"
  by (simp add: reads_def yields_def)

lemma yields_bind: "yields m P s \<Longrightarrow> (\<And>v L. P v \<Longrightarrow> yields (f v) Q (s\<lparr>hw_log := L\<rparr>)) \<Longrightarrow> yields (State_Monad.bind m f) Q s"
  by (fastforce simp: yields_def)

lemma yields_bind_log:
  assumes "\<And>L. yields m P (s\<lparr>hw_log := L\<rparr>)" "\<And>v L. P v \<Longrightarrow> yields (f v) Q (s\<lparr>hw_log := L\<rparr>)"
  shows "yields (State_Monad.bind m f) Q (s\<lparr>hw_log := L\<rparr>)"
  using assms by (intro yields_bind [of m P]) simp_all

lemma yields_config_any: "yields (pci_read_config b sl f offset) (\<lambda>_. True) s"
  by (auto simp: yields_def pci_read_config_def outl_def inl_def)

text \<open>Enabling a function only changes the copy of its command register.\<close>

lemma yields_enable: "dev\<lparr>pd_command := 0\<rparr> = d \<Longrightarrow> yields (pci_enable_bus_master dev) (\<lambda>x. x\<lparr>pd_command := 0\<rparr> = d) s"
  by (auto simp: yields_def pci_enable_bus_master_def pci_read_config_def pci_write_config_def outl_def inl_def Let_def)

lemma yields_function:
  assumes "config_space conf (hw_dev s)" "id2 = conf (config_addr b sl f 0)"
  shows "yields (pci_read_function b sl f id2) (\<lambda>x. x\<lparr>pd_command := 0\<rparr> = described conf b sl f) s"
proof -
  have bars: "(\<lambda>i. if i \<in> set [0, 1, 2, 3, 4, 5] then g i else 0) = (\<lambda>i. if i < 6 then g i else (0 :: u64))" for g :: "nat \<Rightarrow> u64"
    by (auto simp: fun_eq_iff)
  have c: "reads (pci_read_config b sl f PCI_CLASS) (conf (config_addr b sl f PCI_CLASS)) s"
    by (rule reads_config [OF assms(1)]) simp
  have i: "reads (pci_read_config b sl f PCI_INTERRUPT) (conf (config_addr b sl f PCI_INTERRUPT)) (s\<lparr>hw_log := L\<rparr>)" for L
    by (rule reads_config) (simp_all add: assms(1))
  have r: "reads (read_bars [0, 1, 2, 3, 4, 5] dev) (dev\<lparr>pd_bars := (\<lambda>i. if i < 6 then bar_value conf b sl f i else 0)\<rparr>) (s\<lparr>hw_log := L\<rparr>)"
    if "pd_bus dev = b" "pd_slot dev = sl" "pd_func dev = f" "pd_bars dev = (\<lambda>_. 0)" for dev L
  proof -
    have "config_space conf (hw_dev (s\<lparr>hw_log := L\<rparr>))" "\<And>i. i \<in> set [0, 1, 2, 3, 4, 5] \<Longrightarrow> i < (6 :: nat)"
      using assms(1) by auto
    then have "reads (read_bars [0, 1, 2, 3, 4, 5] dev) (dev\<lparr>pd_bars := (\<lambda>i. if i \<in> set [0, 1, 2, 3, 4, 5]
        then bar_value conf (pd_bus dev) (pd_slot dev) (pd_func dev) i else pd_bars dev i)\<rparr>) (s\<lparr>hw_log := L\<rparr>)"
      by (rule reads_bars)
    then show ?thesis unfolding that bars .
  qed
  show ?thesis unfolding pci_read_function_def Let_def
    by (rule yields_bind [OF reads_yields [OF c]], rule yields_bind_log [OF yields_config_any],
        rule yields_bind_log [OF reads_yields [OF r]], (simp add: zero_pci_device_def; fail)+,
        rule yields_bind_log [OF reads_yields [OF i]], rule yields_enable)
      (simp add: zero_pci_device_def described_def assms(2) Let_def)
qed

text \<open>The table holds the list \<open>ds\<close>, up to the command registers.\<close>

definition idle :: "pci_device_t \<Rightarrow> pci_device_t" where
  "idle dev = dev\<lparr>pd_command := 0\<rparr>"

definition holds :: "(u32 \<Rightarrow> u32) \<Rightarrow> pci_device_t list \<Rightarrow> 'a pci_t_scheme \<Rightarrow> bool" where
  "holds conf ds s \<longleftrightarrow> config_space conf (hw_dev s) \<and> pci_count s = length ds \<and> map (idle \<circ> pci_devices s) [0..<length ds] = ds"

lemma holds_log [simp]: "holds conf ds (s\<lparr>hw_log := L\<rparr>) = holds conf ds s"
  by (simp add: holds_def comp_def)

lemma add_function_holds:
  assumes "holds conf ds s" "id2 = conf (config_addr b sl f 0)"
  shows "holds conf (ds @ [described conf b sl f]) (snd (run_state (pci_add_function b sl f id2) s))"
proof -
  have "config_space conf (hw_dev (s\<lparr>pci_count := pci_count s + 1\<rparr>))" using assms(1) by (simp add: holds_def)
  from yields_function [OF this assms(2)] obtain dev L where
    r: "run_state (pci_read_function b sl f id2) (s\<lparr>pci_count := pci_count s + 1\<rparr>) = (dev, s\<lparr>pci_count := pci_count s + 1, hw_log := L\<rparr>)"
    and d: "idle dev = described conf b sl f"
    by (auto simp: yields_def idle_def)
  have "map (idle \<circ> (pci_devices s)(length ds := dev)) [0..<length ds] = map (idle \<circ> pci_devices s) [0..<length ds]" by simp
  with r d assms(1) show ?thesis by (simp add: pci_add_function_def Let_def holds_def)
qed

lemma present_Cons: "present conf b sl (f # fs) =
  (if conf (config_addr b sl (of_nat f) 0) = 0xFFFFFFFF then [] else [described conf b sl (of_nat f)]) @ present conf b sl fs"
  by (simp add: present_def)

text \<open>A scan from a table that holds \<open>ds\<close> appends what is there, and stops once the table is full.\<close>

lemma scan_functions_holds:
  assumes "holds conf ds s" "length ds \<le> PCI_MAX_DEVICES"
  shows "holds conf (take PCI_MAX_DEVICES (ds @ present conf b sl fs)) (snd (run_state (scan_functions b sl fs) s))
    \<and> fst (run_state (scan_functions b sl fs) s) = (length (ds @ present conf b sl fs) > PCI_MAX_DEVICES)"
  using assms
proof (induction fs arbitrary: ds s)
  case Nil
  then show ?case by (simp add: present_def)
next
  case (Cons f fs)
  let ?id = "conf (config_addr b sl (of_nat f) 0)"
  have "reads (pci_read_config b sl (of_nat f) 0) ?id s"
    by (rule reads_config) (use Cons.prems in \<open>simp_all add: holds_def\<close>)
  then obtain L where r: "run_state (pci_read_config b sl (of_nat f) 0) s = (?id, s\<lparr>hw_log := L\<rparr>)" by (auto simp: reads_def)
  have count: "pci_count s = length ds" using Cons.prems by (simp add: holds_def)
  consider "?id = 0xFFFFFFFF" | "?id \<noteq> 0xFFFFFFFF" "length ds = PCI_MAX_DEVICES" | "?id \<noteq> 0xFFFFFFFF" "length ds < PCI_MAX_DEVICES"
    using Cons.prems(2) by fastforce
  then show ?case
  proof cases
    case 1
    with Cons.IH [of ds "s\<lparr>hw_log := L\<rparr>"] Cons.prems r show ?thesis by (simp add: present_Cons)
  next
    case 2
    with Cons.prems(1) r count show ?thesis by (simp add: present_Cons)
  next
    case 3
    let ?s = "snd (run_state (pci_add_function b sl (of_nat f) ?id) (s\<lparr>hw_log := L\<rparr>))"
    have "holds conf (ds @ [described conf b sl (of_nat f)]) ?s" using Cons.prems(1) by (intro add_function_holds) simp_all
    from Cons.IH [OF this] 3 r count show ?thesis by (simp add: present_Cons case_prod_beta)
  qed
qed

lemma on_bus_Cons: "on_bus conf b (sl # sls) = present conf b (of_nat sl) (functions_of conf b (of_nat sl)) @ on_bus conf b sls"
  by (simp add: on_bus_def)

lemma scan_slots_holds:
  assumes "holds conf ds s" "length ds \<le> PCI_MAX_DEVICES"
  shows "holds conf (take PCI_MAX_DEVICES (ds @ on_bus conf b sls)) (snd (run_state (scan_slots b sls) s))"
  using assms
proof (induction sls arbitrary: ds s)
  case Nil
  then show ?case by (simp add: on_bus_def)
next
  case (Cons sl sls)
  let ?sl = "of_nat sl :: u8"
  let ?id = "conf (config_addr b ?sl 0 0)" and ?h = "conf (config_addr b ?sl 0 PCI_HEADER_TYPE)"
  have c: "config_space conf (hw_dev s)" using Cons.prems by (simp add: holds_def)
  have "reads (pci_read_config b ?sl 0 0) ?id s" by (rule reads_config [OF c]) simp
  then obtain L where r: "run_state (pci_read_config b ?sl 0 0) s = (?id, s\<lparr>hw_log := L\<rparr>)" by (auto simp: reads_def)
  have "reads (pci_read_config b ?sl 0 PCI_HEADER_TYPE) ?h (s\<lparr>hw_log := L\<rparr>)" by (rule reads_config) (simp_all add: c)
  then obtain M where h: "run_state (pci_read_config b ?sl 0 PCI_HEADER_TYPE) (s\<lparr>hw_log := L\<rparr>) = (?h, s\<lparr>hw_log := M\<rparr>)"
    by (auto simp: reads_def)
  show ?case
  proof (cases "?id = 0xFFFFFFFF")
    case True
    with Cons.IH [of ds "s\<lparr>hw_log := L\<rparr>"] Cons.prems r show ?thesis by (simp add: on_bus_Cons functions_of_def present_def)
  next
    case False
    let ?fs = "functions_of conf b ?sl"
    let ?r = "run_state (scan_functions b ?sl ?fs) (s\<lparr>hw_log := M\<rparr>)"
    let ?all = "ds @ present conf b ?sl ?fs"
    have f: "holds conf (take PCI_MAX_DEVICES ?all) (snd ?r)" "fst ?r = (length ?all > PCI_MAX_DEVICES)"
      using scan_functions_holds [of conf ds "s\<lparr>hw_log := M\<rparr>" b ?sl ?fs] Cons.prems by auto
    have e: "run_state (scan_slots b (sl # sls)) s = (if fst ?r then ((), snd ?r) else run_state (scan_slots b sls) (snd ?r))"
      using False by (simp add: r h functions_of_def Let_def case_prod_beta)
    show ?thesis
    proof (cases "length ?all > PCI_MAX_DEVICES")
      case True
      with f e show ?thesis by (simp add: on_bus_Cons)
    next
      case False
      with f e Cons.IH [OF f(1)] show ?thesis by (simp add: on_bus_Cons)
    qed
  qed
qed

text \<open>What the table should hold: the functions of bus 0, and the same again when function 0 of
  slot 0 is a multi-function device, because the scan is then repeated.\<close>

definition pci_expected :: "(u32 \<Rightarrow> u32) \<Rightarrow> pci_device_t list" where
  "pci_expected conf =
     (let all = on_bus conf 0 [0..<32] in
      take PCI_MAX_DEVICES (all @ (if drop_bit 16 (conf (config_addr 0 0 0 PCI_HEADER_TYPE)) AND 0x80 \<noteq> 0
        \<and> conf (config_addr 0 0 0 0) \<noteq> 0xFFFFFFFF then all else [])))"

lemma pci_init_holds:
  assumes "config_space conf (hw_dev s)"
  shows "holds conf (pci_expected conf) (snd (run_state pci_init s))"
proof -
  let ?s = "s\<lparr>pci_count := 0\<rparr>" and ?all = "on_bus conf 0 [0..<32]"
  let ?t = "snd (run_state (pci_scan_bus 0) ?s)"
  let ?h = "conf (config_addr 0 0 0 PCI_HEADER_TYPE)" and ?id = "conf (config_addr 0 0 0 0)"
  have t: "holds conf (take PCI_MAX_DEVICES ?all) ?t"
    using scan_slots_holds [of conf "[]" ?s 0 "[0..<32]"] assms by (simp add: holds_def pci_scan_bus_def)
  then have c: "config_space conf (hw_dev ?t)" by (simp add: holds_def)
  have "reads (pci_read_config 0 0 0 PCI_HEADER_TYPE) ?h ?t" by (rule reads_config [OF c]) simp
  then obtain L where h: "run_state (pci_read_config 0 0 0 PCI_HEADER_TYPE) ?t = (?h, ?t\<lparr>hw_log := L\<rparr>)" by (auto simp: reads_def)
  have "reads (pci_read_config 0 0 0 0) ?id (?t\<lparr>hw_log := L\<rparr>)" by (rule reads_config) (simp_all add: c)
  then obtain M where i: "run_state (pci_read_config 0 0 0 0) (?t\<lparr>hw_log := L\<rparr>) = (?id, ?t\<lparr>hw_log := M\<rparr>)" by (auto simp: reads_def)
  have u: "holds conf (take PCI_MAX_DEVICES (?all @ ?all)) (snd (run_state (pci_scan_bus 0) (?t\<lparr>hw_log := M\<rparr>)))"
    using scan_slots_holds [of conf "take PCI_MAX_DEVICES ?all" "?t\<lparr>hw_log := M\<rparr>" 0 "[0..<32]"] t
    by (cases "length ?all \<le> PCI_MAX_DEVICES") (simp_all add: pci_scan_bus_def)
  have "snd (run_state pci_init s) =
    (if drop_bit 16 ?h AND 0x80 \<noteq> 0 then if ?id \<noteq> 0xFFFFFFFF then snd (run_state (pci_scan_bus 0) (?t\<lparr>hw_log := M\<rparr>)) else ?t\<lparr>hw_log := M\<rparr>
     else ?t\<lparr>hw_log := L\<rparr>)"
    by (simp add: pci_init_def case_prod_beta h i)
  with t u show ?thesis by (simp add: pci_expected_def Let_def)
qed


text \<open>A machine with one function, in slot 3.\<close>

definition demo_conf :: "u32 \<Rightarrow> u32" where
  "demo_conf a = (if a AND 0xFFFFFF00 \<noteq> 0x80001800 then 0xFFFFFFFF else if a = 0x80001800 then 0x10001AF4 else 0)"

definition conf_dev :: "(u32 \<Rightarrow> u32) \<Rightarrow> hw_event list \<Rightarrow> u64" where
  "conf_dev conf l = (case l of InL p # OutL q a # _ \<Rightarrow> ucast (conf a) | _ \<Rightarrow> 0)"

lemma conf_dev_space: "config_space conf (conf_dev conf)"
  unfolding config_space_def conf_dev_def by (auto intro!: bit_word_eqI simp: bit_simps)

definition pci_blank :: pci_t where
  "pci_blank = \<lparr>hw_log = [], hw_dev = conf_dev demo_conf, pci_devices = (\<lambda>_. zero_pci_device), pci_count = 7\<rparr>"


end
