(* ===== verification/Virtio.thy ===== *)
theory Virtio
  imports Pci Pmm
begin

text \<open>
  The VirtIO transport, \<^verbatim>\<open>kernel/drivers/virtio.c\<close>: probing the PCI table for a device, the
  capability walk, the layout and set-up of a virtqueue, and the two queue operations.

  A queue carries its descriptor table and its two rings by value, next to their addresses: they live in pages
  that the physical memory manager hands out zeroed, and the device shares only the two rings. Register
  accesses of the common configuration are accesses of the history. \<open>None\<close> stands for the undefined
  accesses of a queue of size 0 or a negative index, and for a page allocation that does not return.
\<close>

abbreviation VIRTIO_VENDOR :: u16 where "VIRTIO_VENDOR \<equiv> 0x1AF4"
abbreviation VIRTIO_PCI_CAP_COMMON_CFG :: u8 where "VIRTIO_PCI_CAP_COMMON_CFG \<equiv> 1"
abbreviation VIRTIO_STATUS_ACK :: u8 where "VIRTIO_STATUS_ACK \<equiv> 1"
abbreviation VIRTIO_STATUS_DRIVER :: u8 where "VIRTIO_STATUS_DRIVER \<equiv> 2"

section \<open>Queues and devices\<close>

record virtq_desc_t =
  vd_addr :: u64
  vd_len :: u32
  vd_flags :: u16
  vd_next :: u16

record virtq_avail_t =
  va_flags :: u16
  va_idx :: u16
  va_ring :: "nat \<Rightarrow> u16"

record virtq_used_elem_t =
  ue_id :: u16
  ue_len :: u32

record virtq_used_t =
  vu_flags :: u16
  vu_idx :: u16
  vu_ring :: "nat \<Rightarrow> virtq_used_elem_t"

record virtio_queue_t =
  q_desc_addr :: u64
  q_avail_addr :: u64
  q_used_addr :: u64
  q_desc :: "nat \<Rightarrow> virtq_desc_t"
  q_avail :: virtq_avail_t
  q_used :: virtq_used_t
  q_size :: u16
  q_free_head :: u16
  q_free_count :: u16

definition zero_desc :: virtq_desc_t where
  "zero_desc = \<lparr>vd_addr = 0, vd_len = 0, vd_flags = 0, vd_next = 0\<rparr>"

definition zero_queue :: virtio_queue_t where
  "zero_queue = \<lparr>q_desc_addr = 0, q_avail_addr = 0, q_used_addr = 0, q_desc = (\<lambda>_. zero_desc),
     q_avail = \<lparr>va_flags = 0, va_idx = 0, va_ring = (\<lambda>_. 0)\<rparr>,
     q_used = \<lparr>vu_flags = 0, vu_idx = 0, vu_ring = (\<lambda>_. \<lparr>ue_id = 0, ue_len = 0\<rparr>)\<rparr>,
     q_size = 0, q_free_head = 0, q_free_count = 0\<rparr>"

record virtio_device_t =
  common_cfg :: u64
  notify_base :: u64
  notify_off_multiplier :: u32
  vio_isr :: u64
  device_cfg :: u64
  vio_device_id :: u32
  vio_vendor_id :: u32
  guest_features :: u64
  host_features :: u64
  vio_irq :: int
  vio_status :: u8
  queues :: "nat \<Rightarrow> virtio_queue_t"
  queue_count :: nat
  driver_data :: u64

definition zero_virtio_device :: virtio_device_t where
  "zero_virtio_device = \<lparr>common_cfg = 0, notify_base = 0, notify_off_multiplier = 0, vio_isr = 0, device_cfg = 0,
     vio_device_id = 0, vio_vendor_id = 0, guest_features = 0, host_features = 0, vio_irq = 0, vio_status = 0,
     queues = (\<lambda>_. zero_queue), queue_count = 0, driver_data = 0\<rparr>"

record virtio_t = pci_t +
  virtio_devices :: "nat \<Rightarrow> virtio_device_t"
  virtio_count :: nat
  virtio_pmm :: pmm_t

section \<open>Probing\<close>

text \<open>The capability walk, at most 48 steps.\<close>

fun find_cap_loop :: "nat \<Rightarrow> pci_device_t \<Rightarrow> u8 \<Rightarrow> u8 \<Rightarrow> ('a hw_t_scheme, u8) state" where
  "find_cap_loop 0 pdev cap_type cap = State_Monad.return 0"
| "find_cap_loop (Suc n) pdev cap_type cap = do {
     cap_hdr \<leftarrow> pci_read_config (pd_bus pdev) (pd_slot pdev) (pd_func pdev) cap;
     if cap_hdr AND 0xFF = 0 then State_Monad.return 0
     else if drop_bit 8 cap_hdr AND 0xFF = ucast cap_type then State_Monad.return cap
     else do {
       let cap = (ucast (drop_bit 20 cap_hdr AND 0xFF) :: u8);
       if cap < 0x40 then State_Monad.return 0 else find_cap_loop n pdev cap_type cap } }"

definition virtio_find_cap :: "pci_device_t \<Rightarrow> u8 \<Rightarrow> ('a hw_t_scheme, u8) state" where
  "virtio_find_cap pdev cap_type = find_cap_loop 48 pdev cap_type 0x41"

definition virtio_probe_pci :: "('a virtio_t_scheme, nat option) state" where
  "virtio_probe_pci = do {
     s \<leftarrow> State_Monad.get;
     case first_idx (\<lambda>i. vendor_id (pci_devices s i) = VIRTIO_VENDOR) (pci_device_count s) of
       None \<Rightarrow> State_Monad.return None
     | Some i \<Rightarrow>
         if virtio_count s \<ge> 8 then State_Monad.return None
         else do {
           let pdev = pci_devices s i;
           let d = virtio_count s;
           State_Monad.update (\<lambda>s. s\<lparr>virtio_count := d + 1\<rparr>);
           let dev = zero_virtio_device\<lparr>vio_device_id := ucast (device_id pdev), vio_vendor_id := ucast (vendor_id pdev),
             vio_irq := uint (pd_irq pdev)\<rparr>;
           cap_off \<leftarrow> virtio_find_cap pdev VIRTIO_PCI_CAP_COMMON_CFG;
           let dev = (if cap_off \<noteq> 0 \<and> pd_bars pdev 0 \<noteq> 0 then dev\<lparr>common_cfg := pd_bars pdev 0 + pd_bars pdev 0\<rparr> else dev);
           State_Monad.update (\<lambda>s. s\<lparr>virtio_devices := (virtio_devices s)(d := dev\<lparr>vio_status := VIRTIO_STATUS_ACK OR VIRTIO_STATUS_DRIVER\<rparr>)\<rparr>);
           State_Monad.return (Some d) } }"

section \<open>Queue set-up\<close>

definition desc_bytes :: "int \<Rightarrow> u64" where "desc_bytes n = word_of_int n * 16"
definition avail_bytes :: "int \<Rightarrow> u64" where "avail_bytes n = 4 + word_of_int n * 2"
definition used_bytes :: "int \<Rightarrow> u64" where "used_bytes n = 4 + word_of_int n * 6"

definition queue_bytes :: "int \<Rightarrow> u64" where
  "queue_bytes n = (desc_bytes n + avail_bytes n + used_bytes n + PAGE_SIZE - 1) AND NOT (PAGE_SIZE - 1)"

text \<open>The free list: every descriptor points to the next, the last one to \<open>0xFFFF\<close>.\<close>

definition link_free :: "nat \<Rightarrow> (nat \<Rightarrow> virtq_desc_t) \<Rightarrow> nat \<Rightarrow> virtq_desc_t" where
  "link_free n desc =
     (fold (\<lambda>i d. d(i := (d i)\<lparr>vd_next := of_nat (i + 1)\<rparr>)) [0..<n - 1] desc)
       (n - 1 := (fold (\<lambda>i d. d(i := (d i)\<lparr>vd_next := of_nat (i + 1)\<rparr>)) [0..<n - 1] desc (n - 1))\<lparr>vd_next := 0xFFFF\<rparr>)"

text \<open>The registers of the common configuration that announce the queue, at their offsets in the packed structure.\<close>

definition announce_queue :: "u64 \<Rightarrow> int \<Rightarrow> int \<Rightarrow> u64 \<Rightarrow> ('a hw_t_scheme, unit) state" where
  "announce_queue cfg qid n phys =
     (if cfg \<noteq> 0 then do {
        mmio_write16 (cfg + 22) (word_of_int qid);
        mmio_write16 (cfg + 24) (word_of_int n);
        mmio_write64 (cfg + 32) phys;
        mmio_write64 (cfg + 40) (phys + desc_bytes n);
        mmio_write64 (cfg + 48) (phys + desc_bytes n + avail_bytes n);
        mmio_write16 (cfg + 28) 1 }
      else State_Monad.return ())"

definition set_queue :: "nat \<Rightarrow> nat \<Rightarrow> virtio_queue_t \<Rightarrow> 'a virtio_t_scheme \<Rightarrow> 'a virtio_t_scheme" where
  "set_queue d qid q s = s\<lparr>virtio_devices := (virtio_devices s)(d := (virtio_devices s d)
     \<lparr>queues := (queues (virtio_devices s d))(qid := q)\<rparr>)\<rparr>"

definition virtio_setup_queue :: "nat \<Rightarrow> int \<Rightarrow> int \<Rightarrow> 'a virtio_t_scheme \<Rightarrow> (int \<times> 'a virtio_t_scheme) option" where
  "virtio_setup_queue d qid n s =
     (if qid \<ge> 8 then Some (-1, s)
      else if qid < 0 then None
      else
        let q = (queues (virtio_devices s d) (nat qid))\<lparr>q_size := word_of_int n, q_free_count := word_of_int n, q_free_head := 0\<rparr>
        in case pmm_alloc_pages (queue_bytes n div PAGE_SIZE) (virtio_pmm s) of
             None \<Rightarrow> None
           | Some (phys, p) \<Rightarrow>
               let s = s\<lparr>virtio_pmm := p\<rparr> in
               if phys = 0 then Some (-1, set_queue d (nat qid) q s)
               else if n \<le> 0 then None
               else
                 let virt = phys + 0xFFFFFFFF80000000;
                     q = q\<lparr>q_desc_addr := virt, q_avail_addr := virt + desc_bytes n, q_used_addr := virt + desc_bytes n + avail_bytes n,
                           q_desc := link_free (nat n) (\<lambda>_. zero_desc), q_avail := q_avail zero_queue, q_used := q_used zero_queue\<rparr>;
                     s = set_queue d (nat qid) q s;
                     s = snd (run_state (announce_queue (common_cfg (virtio_devices s d)) qid n phys) s);
                     dev = virtio_devices s d
                 in Some (0, s\<lparr>virtio_devices := (virtio_devices s)(d := dev\<lparr>queue_count := queue_count dev + 1\<rparr>)\<rparr>))"

section \<open>Queue operations\<close>

definition virtio_notify :: "nat \<Rightarrow> int \<Rightarrow> ('a virtio_t_scheme, unit) state" where
  "virtio_notify d qid = do {
     s \<leftarrow> State_Monad.get;
     let dev = virtio_devices s d;
     if common_cfg dev \<noteq> 0 then do {
       off \<leftarrow> mmio_read16 (common_cfg dev + 30);
       mmio_write32 (notify_base dev + ucast (ucast off * notify_off_multiplier dev)) (word_of_int qid) }
     else State_Monad.return () }"

definition queue_send :: "u64 \<Rightarrow> u32 \<Rightarrow> u16 \<Rightarrow> virtio_queue_t \<Rightarrow> (int \<times> virtio_queue_t) option" where
  "queue_send addr len flags q =
     (if q_free_count q = 0 then Some (-1, q)
      else
        let idx = q_free_head q;
            d = (q_desc q (unat idx))\<lparr>vd_addr := addr, vd_len := len, vd_flags := flags\<rparr>;
            q = q\<lparr>q_desc := (q_desc q)(unat idx := d), q_free_head := vd_next d, q_free_count := q_free_count q - 1\<rparr>;
            avail_idx = va_idx (q_avail q)
        in if q_size q = 0 then None
           else Some (uint idx, q\<lparr>q_avail := (q_avail q)\<lparr>va_ring := (va_ring (q_avail q))(unat (avail_idx mod q_size q) := idx),
                                   va_idx := avail_idx + 1\<rparr>\<rparr>))"

definition virtio_send_desc :: "nat \<Rightarrow> nat \<Rightarrow> u64 \<Rightarrow> u32 \<Rightarrow> u16 \<Rightarrow> u16 \<Rightarrow> 'a virtio_t_scheme \<Rightarrow> (int \<times> 'a virtio_t_scheme) option" where
  "virtio_send_desc d qid addr len flags next s =
     (case queue_send addr len flags (queues (virtio_devices s d) qid) of
        None \<Rightarrow> None | Some (r, q) \<Rightarrow> Some (r, set_queue d qid q s))"

text \<open>The result carries the length that is stored through the pointer.\<close>

definition queue_recv :: "virtio_queue_t \<Rightarrow> (int \<times> u32 option \<times> virtio_queue_t) option" where
  "queue_recv q =
     (let used_idx = vu_idx (q_used q); last = 0 in
      if last = used_idx then Some (-1, None, q)
      else if q_size q = 0 then None
      else
        let e = vu_ring (q_used q) (unat (last mod q_size q))
        in Some (uint (ue_id e), Some (ue_len e), q\<lparr>q_free_head := ue_id e, q_free_count := q_free_count q + 1\<rparr>))"

definition virtio_recv_used :: "nat \<Rightarrow> nat \<Rightarrow> 'a virtio_t_scheme \<Rightarrow> (int \<times> u32 option \<times> 'a virtio_t_scheme) option" where
  "virtio_recv_used d qid s =
     (case queue_recv (queues (virtio_devices s d) qid) of
        None \<Rightarrow> None | Some (r, len, q) \<Rightarrow> Some (r, len, set_queue d qid q s))"

definition virtio_init :: int where
  "virtio_init = 0"

section \<open>Requests get descriptors of their own\<close>

lemma link_next:
  assumes "m \<le> n"
  shows "vd_next (fold (\<lambda>i d. d(i := (d i)\<lparr>vd_next := of_nat (i + 1)\<rparr>)) [0..<m] desc i) = (if i < m then of_nat (i + 1) else vd_next (desc i))"
  using assms by (induction m) (auto simp: less_Suc_eq)

lemma link_free_next: "i < n - 1 \<Longrightarrow> vd_next (link_free n desc i) = of_nat (i + 1)"
  using link_next [of "n - 1" "n - 1" desc i] by (simp add: link_free_def)

type_synonym request = "u64 \<times> u32 \<times> u16"

definition desc_of :: "virtq_desc_t \<Rightarrow> request" where
  "desc_of d = (vd_addr d, vd_len d, vd_flags d)"

text \<open>A queue of \<open>n\<close> descriptors after the requests \<open>rs\<close>: request \<open>i\<close> is in descriptor \<open>i\<close> and in slot \<open>i\<close> of the ring.\<close>

definition filled :: "nat \<Rightarrow> request list \<Rightarrow> virtio_queue_t \<Rightarrow> bool" where
  "filled n rs q \<longleftrightarrow> q_size q = of_nat n \<and> q_free_count q = of_nat (n - length rs) \<and>
     (length rs < n \<longrightarrow> q_free_head q = of_nat (length rs)) \<and> va_idx (q_avail q) = of_nat (length rs) \<and>
     (\<forall>i < n - 1. vd_next (q_desc q i) = of_nat (i + 1)) \<and>
     (\<forall>i < length rs. va_ring (q_avail q) i = of_nat i \<and> desc_of (q_desc q i) = rs ! i)"

lemma u16_of_nat: "k \<le> 32768 \<Longrightarrow> unat (of_nat k :: u16) = k"
  by (simp add: unat_of_nat take_bit_nat_eq_self)

lemma u16_eq_0: "k \<le> 32768 \<Longrightarrow> (of_nat k :: u16) = 0 \<longleftrightarrow> k = 0"
  using u16_of_nat [of k] by (cases "k = 0") auto

lemma queue_send_full: "filled n rs q \<Longrightarrow> length rs = n \<Longrightarrow> queue_send addr len flags q = Some (-1, q)"
  by (simp add: filled_def queue_send_def)

lemma queue_send_filled:
  assumes "filled n rs q" "length rs < n" "n \<le> 32768"
  shows "\<exists>q'. queue_send addr len flags q = Some (int (length rs), q') \<and> filled n (rs @ [(addr, len, flags)]) q'"
proof -
  let ?k = "length rs"
  have k: "unat (of_nat ?k :: u16) = ?k" "unat (of_nat n :: u16) = n" using assms by (simp_all add: u16_of_nat)
  then have u: "uint (of_nat ?k :: u16) = int ?k" by (metis uint_nat)
  have free: "(of_nat (n - ?k) :: u16) \<noteq> 0" "(of_nat n :: u16) \<noteq> 0" using assms(2,3) by (simp_all add: u16_eq_0 del: of_nat_diff)
  have dec: "(of_nat (n - ?k) :: u16) - 1 = of_nat (n - Suc ?k)"
    using assms(2) by (simp add: of_nat_diff)
  have slot: "unat ((of_nat ?k :: u16) mod of_nat n) = ?k" using assms(2) by (simp add: unat_mod_distrib k)
  define d where "d = (q_desc q ?k)\<lparr>vd_addr := addr, vd_len := len, vd_flags := flags\<rparr>"
  define q' where "q' = q\<lparr>q_desc := (q_desc q)(?k := d), q_free_head := vd_next d, q_free_count := of_nat (n - Suc ?k),
    q_avail := (q_avail q)\<lparr>va_ring := (va_ring (q_avail q))(?k := of_nat ?k), va_idx := of_nat (Suc ?k)\<rparr>\<rparr>"
  have "queue_send addr len flags q = Some (int ?k, q')"
    using assms(1,2) free by (simp add: queue_send_def Let_def filled_def k u slot dec q'_def d_def add.commute)
  moreover have "filled n (rs @ [(addr, len, flags)]) q'"
    using assms(1,2) by (auto simp: filled_def q'_def d_def desc_of_def nth_append less_Suc_eq add.commute)
  ultimately show ?thesis by blast
qed

fun virtio_sends :: "nat \<Rightarrow> nat \<Rightarrow> request list \<Rightarrow> 'a virtio_t_scheme \<Rightarrow> (int list \<times> 'a virtio_t_scheme) option" where
  "virtio_sends d qid [] s = Some ([], s)"
| "virtio_sends d qid ((addr, len, flags) # rs) s =
     (case virtio_send_desc d qid addr len flags 0 s of None \<Rightarrow> None
      | Some (r, s1) \<Rightarrow> (case virtio_sends d qid rs s1 of None \<Rightarrow> None | Some (xs, s2) \<Rightarrow> Some (r # xs, s2)))"

definition queue_of :: "nat \<Rightarrow> nat \<Rightarrow> 'a virtio_t_scheme \<Rightarrow> virtio_queue_t" where
  "queue_of d qid s = queues (virtio_devices s d) qid"

lemma queue_of_set [simp]: "queue_of d qid (set_queue d qid q s) = q"
  by (simp add: queue_of_def set_queue_def)

lemma set_queue_of: "set_queue d qid (queue_of d qid s) s = s"
  by (simp add: queue_of_def set_queue_def)

lemma sends_filled:
  assumes "filled n dn (queue_of d qid s)" "length dn + length rs \<le> n" "n \<le> 32768"
  shows "\<exists>s'. virtio_sends d qid rs s = Some (map int [length dn..<length dn + length rs], s') \<and> filled n (dn @ rs) (queue_of d qid s')"
  using assms
proof (induction rs arbitrary: dn s)
  case Nil
  then show ?case by simp
next
  case (Cons r rs)
  obtain addr len flags where r: "r = (addr, len, flags)" by (cases r)
  have "length dn < n" using Cons.prems(2) by simp
  from queue_send_filled [OF Cons.prems(1) this Cons.prems(3), of addr len flags] obtain q where
    q: "queue_send addr len flags (queue_of d qid s) = Some (int (length dn), q)" "filled n (dn @ [r]) q" unfolding r by blast
  let ?s = "set_queue d qid q s"
  have "filled n (dn @ [r]) (queue_of d qid ?s)" "length (dn @ [r]) + length rs \<le> n" using q(2) Cons.prems(2) by simp_all
  from Cons.IH [OF this Cons.prems(3)] obtain s' where
    "virtio_sends d qid rs ?s = Some (map int [Suc (length dn)..<Suc (length dn) + length rs], s')" "filled n (dn @ r # rs) (queue_of d qid s')"
    unfolding append_assoc append_Cons append_Nil length_append list.size by (auto simp del: upt_Suc)
  moreover have "[length dn..<length dn + length (r # rs)] = length dn # [Suc (length dn)..<Suc (length dn) + length rs]"
    by (simp add: upt_conv_Cons del: upt_Suc)
  ultimately show ?case using q(1) by (simp add: r virtio_send_desc_def queue_of_def del: upt_Suc)
qed

lemma announce_log: "\<exists>L. snd (run_state (announce_queue cfg qid n phys) s) = s\<lparr>hw_log := L\<rparr>"
  unfolding announce_queue_def io_defs by (cases "cfg = 0") (auto intro: exI [of _ "hw_log s"])

lemma setup_filled:
  assumes "virtio_setup_queue d qid n s = Some (0, s')"
  shows "0 \<le> qid" "0 < n" "filled (nat n) [] (queue_of d (nat qid) s')"
proof -
  from assms obtain phys p where p: "0 \<le> qid" "\<not> 8 \<le> qid" "pmm_alloc_pages (queue_bytes n div PAGE_SIZE) (virtio_pmm s) = Some (phys, p)" "phys \<noteq> 0" "0 < n"
    by (auto simp: virtio_setup_queue_def Let_def split: if_splits option.splits)
  then show "0 \<le> qid" "0 < n" by simp_all
  let ?q = "(queues (virtio_devices s d) (nat qid))\<lparr>q_size := word_of_int n, q_free_count := word_of_int n, q_free_head := 0,
    q_desc_addr := phys + 0xFFFFFFFF80000000, q_avail_addr := phys + 0xFFFFFFFF80000000 + desc_bytes n,
    q_used_addr := phys + 0xFFFFFFFF80000000 + desc_bytes n + avail_bytes n,
    q_desc := link_free (nat n) (\<lambda>_. zero_desc), q_avail := q_avail zero_queue, q_used := q_used zero_queue\<rparr>"
  let ?s = "set_queue d (nat qid) ?q (s\<lparr>virtio_pmm := p\<rparr>)"
  obtain L where "snd (run_state (announce_queue (common_cfg (virtio_devices ?s d)) qid n phys) ?s) = ?s\<lparr>hw_log := L\<rparr>"
    using announce_log by blast
  with assms p have "s' = (?s\<lparr>hw_log := L\<rparr>)\<lparr>virtio_devices := (virtio_devices ?s)(d := (virtio_devices ?s d)
      \<lparr>queue_count := queue_count (virtio_devices ?s d) + 1\<rparr>)\<rparr>"
    by (simp add: virtio_setup_queue_def Let_def)
  then have "queue_of d (nat qid) s' = ?q" by (simp add: queue_of_def set_queue_def)
  then show "filled (nat n) [] (queue_of d (nat qid) s')" using p(5) by (simp add: filled_def link_free_next zero_queue_def)
qed

text \<open>C29: On a queue that was set up with n descriptors, the first up to n requests get the descriptors 0, 1, 2 and so on, each
  its own; request i is found in descriptor i, the ring announces the descriptors in the order of the requests and its
  index counts them, and a request on the full queue is refused and changes nothing.\<close>

theorem virtio_requests_distinct:
  assumes "virtio_setup_queue d qid n s = Some (0, s1)" "n \<le> 32768" "length rs \<le> nat n"
  shows "\<exists>s2. virtio_sends d (nat qid) rs s1 = Some (map int [0..<length rs], s2)
    \<and> (\<forall>i < length rs. desc_of (q_desc (queue_of d (nat qid) s2) i) = rs ! i \<and> va_ring (q_avail (queue_of d (nat qid) s2)) i = of_nat i)
    \<and> va_idx (q_avail (queue_of d (nat qid) s2)) = of_nat (length rs)
    \<and> (length rs = nat n \<longrightarrow> virtio_send_desc d (nat qid) addr len flags next s2 = Some (-1, s2))"
proof -
  note f = setup_filled [OF assms(1)]
  have "length [] + length rs \<le> nat n" "nat n \<le> 32768" using assms(2,3) by simp_all
  from sends_filled [OF f(3) this] obtain s2 where
    s2: "virtio_sends d (nat qid) rs s1 = Some (map int [0..<length rs], s2)" "filled (nat n) rs (queue_of d (nat qid) s2)"
    unfolding list.size add_0 append_Nil by blast
  have "virtio_send_desc d (nat qid) addr len flags next s2 = Some (-1, s2)" if "length rs = nat n"
    using queue_send_full [OF s2(2) that] set_queue_of [of d "nat qid" s2] by (simp add: virtio_send_desc_def queue_of_def)
  with s2 show ?thesis unfolding filled_def by blast
qed

text \<open>A machine with one free page and one device.\<close>

definition virtio_blank :: virtio_t where
  "virtio_blank = \<lparr>hw_log = [], hw_dev = (\<lambda>_. 0), pci_devices = (\<lambda>_. zero_pci_device), pci_count = 0,
     virtio_devices = (\<lambda>_. zero_virtio_device), virtio_count = 1, virtio_pmm = set_free_list 0 0 0x1000000 (pmm_static (\<lambda>_. 0))\<rparr>"

lemma virtio_blank_setup: "\<exists>s1. virtio_setup_queue 0 0 2 virtio_blank = Some (0, s1)"
proof -
  have b: "queue_bytes 2 div PAGE_SIZE = 1"
    by (simp add: queue_bytes_def desc_bytes_def avail_bytes_def used_bytes_def)
  have o: "order_loop 1 0 1 = Some 0" by (subst order_loop.simps) simp
  have "\<exists>p. pmm_alloc_pages 1 (virtio_pmm virtio_blank) = Some (0x1000000, p)"
    by (simp add: pmm_alloc_pages_def o buddy_alloc_def virtio_blank_def set_free_list_def pmm_static_def first_from.simps [of _ 0] Let_def)
  then obtain p where p: "pmm_alloc_pages 1 (virtio_pmm virtio_blank) = Some (0x1000000, p)" ..
  show ?thesis by (simp add: virtio_setup_queue_def b p Let_def)
qed

theorem virtio_requests_distinct_witness:
  "\<exists>s1 s2. virtio_setup_queue 0 0 2 virtio_blank = Some (0, s1) \<and>
     virtio_sends 0 0 [(0x5000, 16, 0), (0x6000, 32, 2)] s1 = Some ([0, 1], s2) \<and> virtio_send_desc 0 0 0x7000 8 0 0 s2 = Some (-1, s2)"
proof -
  obtain s1 where s1: "virtio_setup_queue 0 0 2 virtio_blank = Some (0, s1)" using virtio_blank_setup by blast
  have u: "map int [0..<length [(0x5000, 16, 0), (0x6000, 32, 2)]] = [0, 1]" by simp
  from virtio_requests_distinct [OF s1, of "[(0x5000, 16, 0), (0x6000, 32, 2)]" "0x7000" 8 0 0] s1
  show ?thesis unfolding u by auto
qed

text \<open>The position of the last completion that was taken is not kept. Both descriptors of this queue are in
  flight and the device has completed the first: it is received twice, and of the two requests that follow
  the second gets descriptor 1, which the device still owns.\<close>

definition busy_queue :: virtio_queue_t where
  "busy_queue = zero_queue\<lparr>q_desc := link_free 2 (\<lambda>_. zero_desc), q_size := 2, q_free_count := 0, q_free_head := 0xFFFF,
     q_used := \<lparr>vu_flags = 0, vu_idx = 1, vu_ring = (\<lambda>_. \<lparr>ue_id = 0, ue_len = 4\<rparr>)\<rparr>\<rparr>"

lemma recv_hands_out_busy_descriptor:
  "\<exists>q1 q2 q3 q4. queue_recv busy_queue = Some (0, Some 4, q1) \<and> queue_recv q1 = Some (0, Some 4, q2)
     \<and> queue_send 0x1000 8 0 q2 = Some (0, q3) \<and> queue_send 0x2000 8 0 q3 = Some (1, q4)"
  by (simp add: busy_queue_def queue_recv_def queue_send_def zero_queue_def link_free_def zero_desc_def Let_def)

end
