(* ===== verification/Gdt.thy ===== *)
theory Gdt
  imports Prelude
begin

text \<open>
  The descriptor tables of \<^verbatim>\<open>kernel/arch/x86_64/gdt.c\<close>: the table of 8-byte
  descriptors, the task state segments of the processors, the construction of a descriptor from a base
  and a limit, and the loading of a task state segment for a further processor. The
  registers GDTR and TR are fields of the state; the address of the table and of the
  array of task state segments are parameters, since the linker chooses them.

  The lemmas read the descriptors back as the processor does, and show that the
  table keeps the shape its selectors promise.
\<close>

abbreviation GDT_ENTRIES :: nat where "GDT_ENTRIES \<equiv> 64"
abbreviation GDT_KERNEL_CODE :: u16 where "GDT_KERNEL_CODE \<equiv> 0x08"
abbreviation GDT_KERNEL_DATA :: u16 where "GDT_KERNEL_DATA \<equiv> 0x10"
abbreviation GDT_USER_CODE :: u16 where "GDT_USER_CODE \<equiv> 0x1B"
abbreviation GDT_USER_DATA :: u16 where "GDT_USER_DATA \<equiv> 0x23"
abbreviation GDT_TSS_BASE :: u16 where "GDT_TSS_BASE \<equiv> 0x28"
abbreviation GDT_MAX_CPUS :: u32 where "GDT_MAX_CPUS \<equiv> 256"
abbreviation sizeof_tss_t :: u64 where "sizeof_tss_t \<equiv> 104"

section \<open>Descriptors\<close>

record gdt_entry_t =
  limit_low :: u16
  base_low :: u16
  base_mid :: u8
  access :: u8
  flags_limit :: u8
  base_high :: u8

definition zero_entry :: gdt_entry_t where
  "zero_entry = \<lparr>limit_low = 0, base_low = 0, base_mid = 0, access = 0, flags_limit = 0, base_high = 0\<rparr>"

record gdt_ptr_t =
  gdt_limit :: u16
  gdt_base :: u64

record tss_t =
  tss_reserved0 :: u32
  tss_rsp0 :: u64
  tss_rsp1 :: u64
  tss_rsp2 :: u64
  tss_reserved1 :: u64
  tss_ist :: "nat \<Rightarrow> u64"
  tss_reserved2 :: u64
  tss_reserved3 :: u16
  tss_iomap_base :: u16

definition zero_tss :: tss_t where
  "zero_tss = \<lparr>tss_reserved0 = 0, tss_rsp0 = 0, tss_rsp1 = 0, tss_rsp2 = 0, tss_reserved1 = 0, tss_ist = (\<lambda>_. 0),
     tss_reserved2 = 0, tss_reserved3 = 0, tss_iomap_base = 0\<rparr>"

record gdt_state =
  gdt :: "nat \<Rightarrow> gdt_entry_t"
  tss_entries :: "nat \<Rightarrow> tss_t"
  gdtr :: gdt_ptr_t
  tr :: u16

text \<open>The entry that \<^verbatim>\<open>gdt_set_entry\<close> stores.\<close>

definition gdt_entry :: "u32 \<Rightarrow> u32 \<Rightarrow> u8 \<Rightarrow> u8 \<Rightarrow> gdt_entry_t" where
  "gdt_entry base limit acc flags =
     \<lparr>limit_low = ucast (limit AND 0xFFFF),
      base_low = ucast (base AND 0xFFFF),
      base_mid = ucast (drop_bit 16 base AND 0xFF),
      access = acc,
      flags_limit = ucast ((drop_bit 16 limit AND 0x0F) OR (ucast flags AND 0xF0)),
      base_high = ucast (drop_bit 24 base AND 0xFF)\<rparr>"

definition gdt_set_entry :: "nat \<Rightarrow> u32 \<Rightarrow> u32 \<Rightarrow> u8 \<Rightarrow> u8 \<Rightarrow> gdt_state \<Rightarrow> gdt_state" where
  "gdt_set_entry i base limit acc flags s = s\<lparr>gdt := (gdt s)(i := gdt_entry base limit acc flags)\<rparr>"

text \<open>The second half of a task state segment descriptor is written through a pointer to
  two 32-bit words; the little-endian layout of the packed descriptor splits them into its fields.\<close>

definition entry_of_words :: "u32 \<Rightarrow> u32 \<Rightarrow> gdt_entry_t" where
  "entry_of_words hi0 hi1 =
     \<lparr>limit_low = ucast hi0, base_low = ucast (drop_bit 16 hi0), base_mid = ucast hi1, access = ucast (drop_bit 8 hi1),
      flags_limit = ucast (drop_bit 16 hi1), base_high = ucast (drop_bit 24 hi1)\<rparr>"

definition gdt_set_tss_entry :: "nat \<Rightarrow> u64 \<Rightarrow> u64 \<Rightarrow> gdt_state \<Rightarrow> gdt_state" where
  "gdt_set_tss_entry i tss_addr tss_size s =
     (let base = ucast (tss_addr AND 0xFFFFFFFF) :: u32;
          limit = ucast (tss_size - 1) :: u32;
          lo = \<lparr>limit_low = ucast (limit AND 0xFFFF), base_low = ucast (base AND 0xFFFF),
                base_mid = ucast (drop_bit 16 base AND 0xFF), access = 0x89,
                flags_limit = ucast (drop_bit 16 limit AND 0x0F), base_high = ucast (drop_bit 24 base AND 0xFF)\<rparr>;
          base_upper = drop_bit 32 tss_addr;
          hi = entry_of_words (ucast (base_upper AND 0xFFFFFFFF)) 0
      in s\<lparr>gdt := (gdt s)(i := lo, i + 1 := hi)\<rparr>)"

section \<open>Building the table\<close>

text \<open>The address of \<^verbatim>\<open>tss_entries[cpu]\<close>, the array being at \<open>tss_base\<close>.\<close>

definition tss_addr_of :: "u64 \<Rightarrow> nat \<Rightarrow> u64" where
  "tss_addr_of tss_base cpu = tss_base + of_nat cpu * sizeof_tss_t"

definition gdt_init :: "u64 \<Rightarrow> u64 \<Rightarrow> gdt_state \<Rightarrow> gdt_state" where
  "gdt_init gdt_addr tss_base s =
     (let s = s\<lparr>gdt := (\<lambda>i. if i < GDT_ENTRIES then zero_entry else gdt s i)\<rparr>;
          s = gdt_set_entry 0 0 0 0 0 s;
          s = gdt_set_entry 1 0 0xFFFFF 0x9A 0xA0 s;
          s = gdt_set_entry 2 0 0xFFFFF 0x92 0xA0 s;
          s = gdt_set_entry 3 0 0xFFFFF 0xFA 0xA0 s;
          s = gdt_set_entry 4 0 0xFFFFF 0xF2 0xA0 s;
          s = s\<lparr>tss_entries := (tss_entries s)(0 := zero_tss\<lparr>tss_iomap_base := ucast sizeof_tss_t\<rparr>)\<rparr>;
          s = gdt_set_tss_entry (unat (GDT_TSS_BASE div 8)) (tss_addr_of tss_base 0) sizeof_tss_t s
      in s\<lparr>gdtr := \<lparr>gdt_limit = of_nat (GDT_ENTRIES * 8 - 1), gdt_base = gdt_addr\<rparr>, tr := GDT_TSS_BASE\<rparr>)"

definition gdt_load_tss :: "u64 \<Rightarrow> u32 \<Rightarrow> u64 \<Rightarrow> u64 \<Rightarrow> gdt_state \<Rightarrow> gdt_state" where
  "gdt_load_tss tss_base cpu_index tss_addr tss_size s =
     (if cpu_index \<ge> GDT_MAX_CPUS then s
      else let entry = unat (GDT_TSS_BASE div 8) + unat (cpu_index * 2) in
        if entry + 1 \<ge> GDT_ENTRIES then s
        else let cpu = unat cpu_index;
                 tss = zero_tss\<lparr>tss_iomap_base := ucast sizeof_tss_t\<rparr>;
                 tss = (if tss_addr \<noteq> 0 then tss\<lparr>tss_rsp0 := tss_addr + tss_size\<rparr> else tss);
                 s = s\<lparr>tss_entries := (tss_entries s)(cpu := tss)\<rparr>
             in gdt_set_tss_entry entry (tss_addr_of tss_base cpu) sizeof_tss_t s)"

section \<open>Reading the table as the processor does\<close>

definition seg_base :: "gdt_entry_t \<Rightarrow> u32" where
  "seg_base e = ucast (base_low e) OR push_bit 16 (ucast (base_mid e)) OR push_bit 24 (ucast (base_high e))"

definition seg_limit :: "gdt_entry_t \<Rightarrow> u32" where
  "seg_limit e = ucast (limit_low e) OR push_bit 16 (ucast (flags_limit e) AND 0x0F)"

definition seg_upper :: "gdt_entry_t \<Rightarrow> u32" where
  "seg_upper e = ucast (limit_low e) OR push_bit 16 (ucast (base_low e))"

datatype seg_kind =
    NullSeg
  | CodeSeg nat u32 u32 bool
  | DataSeg nat u32 u32
  | TssSeg u64 u32
  | OtherSeg

text \<open>What entry \<open>i\<close> describes: privilege level, base, limit, and for code whether it runs in 64-bit mode.\<close>

definition seg_at :: "gdt_state \<Rightarrow> nat \<Rightarrow> seg_kind" where
  "seg_at s i =
     (let e = gdt s i; dpl = unat (drop_bit 5 (access e) AND 3) in
      if \<not> bit (access e) 7 then NullSeg
      else if bit (access e) 4 then
        (if bit (access e) 3 then CodeSeg dpl (seg_base e) (seg_limit e) (bit (flags_limit e) 5)
         else DataSeg dpl (seg_base e) (seg_limit e))
      else if access e AND 0x0F = 9 then TssSeg (ucast (seg_base e) OR push_bit 32 (ucast (seg_upper (gdt s (i + 1))))) (seg_limit e)
      else OtherSeg)"

definition selector_index :: "u16 \<Rightarrow> nat" where
  "selector_index sel = unat (drop_bit 3 sel)"

lemma mask_literals:
  "(0xFF :: u32) = mask 8" "(0x0F :: u32) = mask 4" "(0xFFFF :: u32) = mask 16" "(0xFFFFF :: u32) = mask 20"
  "(0xF0 :: u32) = push_bit 4 (mask 4)" "(0xFFFFFFFF :: u64) = mask 32"
  by (simp_all add: mask_eq_exp_minus_1)

lemma seg_base_entry: "seg_base (gdt_entry base limit acc flags) = base"
proof (rule bit_word_eqI)
  fix n
  assume "n < LENGTH(32)"
  then show "bit (seg_base (gdt_entry base limit acc flags)) n = bit base n"
    unfolding seg_base_def gdt_entry_def mask_literals
    by (cases "n < 16"; cases "n < 24") (auto simp: bit_simps simp del: mask_numeral)
qed

lemma seg_limit_entry: "seg_limit (gdt_entry base limit acc flags) = limit AND 0xFFFFF"
proof (rule bit_word_eqI)
  fix n
  assume "n < LENGTH(32)"
  then show "bit (seg_limit (gdt_entry base limit acc flags)) n = bit (limit AND 0xFFFFF) n"
    unfolding seg_limit_def gdt_entry_def mask_literals
    by (cases "n < 16"; cases "n < 20") (auto simp: bit_simps simp del: mask_numeral)
qed

lemma seg_upper_words: "seg_upper (entry_of_words w v) = w"
proof (rule bit_word_eqI)
  fix n
  assume "n < LENGTH(32)"
  then show "bit (seg_upper (entry_of_words w v)) n = bit w n"
    by (cases "n < 16") (auto simp: seg_upper_def entry_of_words_def bit_simps)
qed

lemma tss_halves: "ucast (ucast (a AND 0xFFFFFFFF) :: u32) OR push_bit 32 (ucast (ucast (drop_bit 32 a AND 0xFFFFFFFF) :: u32)) = (a :: u64)"
proof (rule bit_word_eqI)
  fix n
  assume "n < LENGTH(64)"
  then show "bit (ucast (ucast (a AND 0xFFFFFFFF) :: u32) OR push_bit 32 (ucast (ucast (drop_bit 32 a AND 0xFFFFFFFF) :: u32)) :: u64) n = bit a n"
    unfolding mask_literals by (cases "n < 32") (auto simp: bit_simps simp del: mask_numeral)
qed

lemma gdt_set_tss_entry_eq:
  "gdt_set_tss_entry i a n s = s\<lparr>gdt := (gdt s)(i := gdt_entry (ucast (a AND 0xFFFFFFFF)) (ucast (n - 1)) 0x89 0,
     i + 1 := entry_of_words (ucast (drop_bit 32 a AND 0xFFFFFFFF)) 0)\<rparr>"
  by (simp add: gdt_set_tss_entry_def gdt_entry_def Let_def)

lemma seg_at_tss: "seg_at (gdt_set_tss_entry i a sizeof_tss_t s) i = TssSeg a 103"
proof -
  have e: "access (gdt_entry b l 0x89 0) = 0x89" for b l by (simp add: gdt_entry_def)
  show ?thesis
    unfolding seg_at_def gdt_set_tss_entry_eq
    by (simp add: e seg_base_entry seg_limit_entry seg_upper_words Let_def) (simp add: tss_halves [simplified])
qed

lemma seg_at_tss_other:
  assumes "j \<noteq> i" "j \<noteq> i + 1" "j + 1 \<noteq> i"
  shows "seg_at (gdt_set_tss_entry i a n s) j = seg_at s j"
  using assms unfolding seg_at_def gdt_set_tss_entry_eq by (simp add: Let_def)

lemma seg_at_cong: "gdt s = gdt t \<Longrightarrow> seg_at s = seg_at t"
  by (simp add: seg_at_def Let_def fun_eq_iff)

section \<open>The selectors keep their meaning\<close>

text \<open>The four segments, and one task state segment for each processor of the set \<open>L\<close>, each on its own pair of entries.\<close>

definition gdt_typed :: "u64 \<Rightarrow> nat set \<Rightarrow> gdt_state \<Rightarrow> bool" where
  "gdt_typed tss_base L s \<longleftrightarrow>
     seg_at s 0 = NullSeg \<and>
     seg_at s (selector_index GDT_KERNEL_CODE) = CodeSeg 0 0 0xFFFFF True \<and>
     seg_at s (selector_index GDT_KERNEL_DATA) = DataSeg 0 0 0xFFFFF \<and>
     seg_at s (selector_index GDT_USER_CODE) = CodeSeg 3 0 0xFFFFF True \<and>
     seg_at s (selector_index GDT_USER_DATA) = DataSeg 3 0 0xFFFFF \<and>
     (\<forall>cpu < 29. seg_at s (selector_index GDT_TSS_BASE + 2 * cpu) =
        (if cpu \<in> L then TssSeg (tss_addr_of tss_base cpu) 103 else NullSeg))"

lemma selector_index_values:
  "selector_index GDT_KERNEL_CODE = 1" "selector_index GDT_KERNEL_DATA = 2" "selector_index GDT_USER_CODE = 3"
  "selector_index GDT_USER_DATA = 4" "selector_index GDT_TSS_BASE = 5"
  by (simp_all add: selector_index_def)

lemma seg_at_entry:
  assumes "gdt s i = gdt_entry 0 0xFFFFF acc 0xA0"
  shows "acc = 0x9A \<Longrightarrow> seg_at s i = CodeSeg 0 0 0xFFFFF True" "acc = 0x92 \<Longrightarrow> seg_at s i = DataSeg 0 0 0xFFFFF"
    "acc = 0xFA \<Longrightarrow> seg_at s i = CodeSeg 3 0 0xFFFFF True" "acc = 0xF2 \<Longrightarrow> seg_at s i = DataSeg 3 0 0xFFFFF"
proof -
  have e: "access (gdt_entry b l a f) = a" for b l a f by (simp add: gdt_entry_def)
  have f: "flags_limit (gdt_entry 0 0xFFFFF a 0xA0) = 0xAF" for a by (simp add: gdt_entry_def)
  note d = seg_at_def Let_def assms e f seg_base_entry seg_limit_entry
  show "acc = 0x9A \<Longrightarrow> seg_at s i = CodeSeg 0 0 0xFFFFF True" by (simp add: d)
  show "acc = 0x92 \<Longrightarrow> seg_at s i = DataSeg 0 0 0xFFFFF" by (simp add: d)
  show "acc = 0xFA \<Longrightarrow> seg_at s i = CodeSeg 3 0 0xFFFFF True" by (simp add: d)
  show "acc = 0xF2 \<Longrightarrow> seg_at s i = DataSeg 3 0 0xFFFFF" by (simp add: d)
qed

lemma gdt_init_typed: "gdt_typed tss_base {0} (gdt_init gdt_addr tss_base s)"
proof -
  define s1 where "s1 = s\<lparr>gdt := (\<lambda>i. if i < GDT_ENTRIES then zero_entry else gdt s i)
      (0 := gdt_entry 0 0 0 0, 1 := gdt_entry 0 0xFFFFF 0x9A 0xA0, 2 := gdt_entry 0 0xFFFFF 0x92 0xA0,
       3 := gdt_entry 0 0xFFFFF 0xFA 0xA0, 4 := gdt_entry 0 0xFFFFF 0xF2 0xA0),
      tss_entries := (tss_entries s)(0 := zero_tss\<lparr>tss_iomap_base := ucast sizeof_tss_t\<rparr>)\<rparr>"
  let ?i = "gdt_set_tss_entry 5 (tss_addr_of tss_base 0) sizeof_tss_t s1"
  have i: "gdt (gdt_init gdt_addr tss_base s) = gdt ?i"
    by (simp add: gdt_init_def Let_def gdt_set_entry_def gdt_set_tss_entry_def s1_def)
  have null: "seg_at s1 j = NullSeg" if "5 \<le> j" "j < GDT_ENTRIES" for j
    using that by (simp add: seg_at_def s1_def zero_entry_def)
  have "seg_at ?i (5 + 2 * cpu) = (if cpu \<in> {0} then TssSeg (tss_addr_of tss_base cpu) 103 else NullSeg)" if "cpu < 29" for cpu
  proof (cases "cpu = 0")
    case True
    then show ?thesis by (simp add: seg_at_tss)
  next
    case False
    then have "seg_at ?i (5 + 2 * cpu) = seg_at s1 (5 + 2 * cpu)" by (intro seg_at_tss_other) auto
    with that False show ?thesis by (simp add: null)
  qed
  moreover have "seg_at ?i 0 = NullSeg" by (simp add: seg_at_tss_other) (simp add: seg_at_def s1_def gdt_entry_def)
  moreover have "seg_at ?i 1 = CodeSeg 0 0 0xFFFFF True" "seg_at ?i 2 = DataSeg 0 0 0xFFFFF" "seg_at ?i 3 = CodeSeg 3 0 0xFFFFF True"
    by (simp_all add: seg_at_tss_other seg_at_entry s1_def)
  moreover have "seg_at ?i 4 = DataSeg 3 0 0xFFFFF"
    by (rule seg_at_entry(4) [OF _ refl]) (simp add: gdt_set_tss_entry_eq s1_def)
  ultimately show ?thesis unfolding gdt_typed_def selector_index_values seg_at_cong [OF i] by simp
qed

lemma gdt_load_tss_eq:
  "gdt_load_tss tss_base c a n s =
     (if unat c < 29 then gdt_set_tss_entry (5 + 2 * unat c) (tss_addr_of tss_base (unat c)) sizeof_tss_t
        (s\<lparr>tss_entries := (tss_entries s)(unat c := zero_tss\<lparr>tss_iomap_base := ucast sizeof_tss_t,
           tss_rsp0 := (if a \<noteq> 0 then a + n else 0)\<rparr>)\<rparr>)
      else s)"
proof (cases "c < GDT_MAX_CPUS")
  case True
  then have "unat (c * 2) = 2 * unat c" by (simp add: word_less_nat_alt unat_word_ariths)
  with True show ?thesis by (auto simp: gdt_load_tss_def Let_def zero_tss_def not_le)
next
  case False
  then have "\<not> unat c < 29" by (simp add: word_less_nat_alt)
  with False show ?thesis by (simp add: gdt_load_tss_def not_less)
qed

lemma gdt_load_tss_typed:
  assumes "gdt_typed tss_base L s"
  shows "gdt_typed tss_base (if unat c < 29 then insert (unat c) L else L) (gdt_load_tss tss_base c a n s)"
proof (cases "unat c < 29")
  case True
  define s1 where "s1 = s\<lparr>tss_entries := (tss_entries s)(unat c := zero_tss\<lparr>tss_iomap_base := ucast sizeof_tss_t,
      tss_rsp0 := (if a \<noteq> 0 then a + n else 0)\<rparr>)\<rparr>"
  let ?t = "gdt_set_tss_entry (5 + 2 * unat c) (tss_addr_of tss_base (unat c)) sizeof_tss_t s1"
  have s1: "seg_at s1 = seg_at s" by (rule seg_at_cong) (simp add: s1_def)
  have "seg_at ?t (5 + 2 * cpu) = (if cpu = unat c then TssSeg (tss_addr_of tss_base cpu) 103 else seg_at s (5 + 2 * cpu))" for cpu
    using seg_at_tss_other [of "5 + 2 * cpu" "5 + 2 * unat c"] by (auto simp: seg_at_tss s1)
  moreover have "seg_at ?t j = seg_at s j" if "j < 4" for j
    using that by (simp add: seg_at_tss_other s1)
  moreover have "seg_at ?t 4 = seg_at s 4" if "seg_at s 4 = DataSeg 3 0 0xFFFFF"
    using that unfolding seg_at_def gdt_set_tss_entry_eq s1_def by (auto simp: Let_def split: if_splits)
  ultimately show ?thesis
    using assms True unfolding gdt_load_tss_eq s1_def [symmetric] gdt_typed_def selector_index_values by simp
next
  case False
  with assms show ?thesis by (simp add: gdt_load_tss_eq)
qed

text \<open>The task state segments of the processors that start later, in the order they start.\<close>

definition load_all :: "u64 \<Rightarrow> (u32 \<times> u64 \<times> u64) list \<Rightarrow> gdt_state \<Rightarrow> gdt_state" where
  "load_all tss_base calls s = fold (\<lambda>(c, a, n). gdt_load_tss tss_base c a n) calls s"

lemma load_all_typed:
  "gdt_typed tss_base L s \<Longrightarrow>
   gdt_typed tss_base (L \<union> {cpu \<in> unat ` fst ` set calls. cpu < 29}) (load_all tss_base calls s)"
proof (induction calls arbitrary: L s)
  case Nil
  then show ?case by (simp add: load_all_def)
next
  case (Cons call calls)
  obtain c a n where call: "call = (c, a, n)" by (cases call)
  let ?L = "if unat c < 29 then insert (unat c) L else L"
  let ?A = "{cpu \<in> unat ` fst ` set calls. cpu < 29}"
  have "?L \<union> ?A = L \<union> {cpu \<in> unat ` fst ` set (call # calls). cpu < 29}"
    by (auto simp: call)
  moreover have "load_all tss_base (call # calls) s = load_all tss_base calls (gdt_load_tss tss_base c a n s)"
    by (simp add: load_all_def call)
  ultimately show ?case using Cons.IH [OF gdt_load_tss_typed [OF Cons.prems, of c a n]] by metis
qed

lemma load_all_regs: "gdtr (load_all tss_base calls s) = gdtr s \<and> tr (load_all tss_base calls s) = tr s"
  by (induction calls arbitrary: s) (auto simp: load_all_def gdt_load_tss_eq gdt_set_tss_entry_eq)

text \<open>After the table is built and processors have loaded their task state segments, in any order and any
  number of times, every selector of the header still names a descriptor of its kind: 64-bit code and data of privilege level 0
  and 3 over the whole address space, and for each processor below 29 its own task state segment when it was
  loaded and an absent descriptor when it was not; the task register selects the boot
  processor's task state segment and the table limit covers all of these entries. Calls for processors from 29 on change nothing.\<close>

theorem gdt_selectors_typed:
  fixes calls :: "(u32 \<times> u64 \<times> u64) list" and tss_base gdt_addr :: u64 and s :: gdt_state
  defines "s' \<equiv> load_all tss_base calls (gdt_init gdt_addr tss_base s)"
  shows "gdt_typed tss_base ({0} \<union> {cpu \<in> unat ` fst ` set calls. cpu < 29}) s'
    \<and> seg_at s' (selector_index (tr s')) = TssSeg (tss_addr_of tss_base 0) 103
    \<and> 8 * (selector_index GDT_TSS_BASE + 2 * 28 + 1) + 7 \<le> unat (gdt_limit (gdtr s'))
    \<and> (\<forall>c a n. 29 \<le> unat c \<longrightarrow> gdt_load_tss tss_base c a n s' = s')"
proof -
  have t: "gdt_typed tss_base ({0} \<union> {cpu \<in> unat ` fst ` set calls. cpu < 29}) s'"
    unfolding s'_def by (rule load_all_typed [OF gdt_init_typed])
  moreover have "tr s' = GDT_TSS_BASE" "gdt_limit (gdtr s') = 511"
    by (simp_all add: s'_def load_all_regs) (simp_all add: gdt_init_def Let_def gdt_set_tss_entry_eq)
  moreover have "seg_at s' 5 = TssSeg (tss_addr_of tss_base 0) 103"
    using t unfolding gdt_typed_def selector_index_values by (auto dest: spec [of _ 0])
  ultimately show ?thesis unfolding gdt_load_tss_eq selector_index_values(5) by (auto simp: selector_index_def)
qed

definition gdt_blank :: gdt_state where
  "gdt_blank = \<lparr>gdt = (\<lambda>_. zero_entry), tss_entries = (\<lambda>_. zero_tss), gdtr = \<lparr>gdt_limit = 0, gdt_base = 0\<rparr>, tr = 0\<rparr>"

theorem gdt_selectors_typed_witness:
  "gdt_load_tss 0x9000 40 0 0 (load_all 0x9000 [(3, 0x20000, 0x1000)] (gdt_init 0x8000 0x9000 gdt_blank))
     = load_all 0x9000 [(3, 0x20000, 0x1000)] (gdt_init 0x8000 0x9000 gdt_blank)
   \<and> seg_at (load_all 0x9000 [(3, 0x20000, 0x1000)] (gdt_init 0x8000 0x9000 gdt_blank)) 11 = TssSeg 0x9138 103"
proof -
  note t = gdt_selectors_typed [of "0x9000" "[(3, 0x20000, 0x1000)]" "0x8000" gdt_blank]
  let ?s = "load_all 0x9000 [(3, 0x20000, 0x1000)] (gdt_init 0x8000 0x9000 gdt_blank)"
  have "\<forall>c a n. 29 \<le> unat c \<longrightarrow> gdt_load_tss 0x9000 c a n ?s = ?s" using t by blast
  then have "gdt_load_tss 0x9000 40 0 0 ?s = ?s" by (rule allE [of _ 40]) simp
  moreover have "\<forall>cpu < 29. seg_at ?s (5 + 2 * cpu) =
      (if cpu \<in> {0} \<union> {cpu \<in> unat ` fst ` set [(3 :: u32, 0x20000 :: u64, 0x1000 :: u64)]. cpu < 29}
       then TssSeg (tss_addr_of 0x9000 cpu) 103 else NullSeg)"
    using conjunct1 [OF t] unfolding gdt_typed_def selector_index_values by blast
  then have "seg_at ?s 11 = TssSeg 0x9138 103"
    by (rule allE [of _ 3]) (simp add: tss_addr_of_def)
  ultimately show ?thesis by blast
qed

end
