(* ===== verification/Apic.thy ===== *)
theory Apic
  imports Io
begin

text \<open>
  The local interrupt controller and the I/O interrupt controller, \<^verbatim>\<open>kernel/arch/x86_64/apic.c\<close>.
  The three static variables and the address of the I/O controller extend the state of
  the accesses. The wait for an inter-processor interrupt to leave the controller is a loop
  on a device register, so the functions that send one return no state when it never ends.
\<close>

abbreviation LAPIC_ID_REG :: u32 where "LAPIC_ID_REG \<equiv> 0x020"
abbreviation LAPIC_VER_REG :: u32 where "LAPIC_VER_REG \<equiv> 0x030"
abbreviation LAPIC_TPR :: u32 where "LAPIC_TPR \<equiv> 0x080"
abbreviation LAPIC_EOI :: u32 where "LAPIC_EOI \<equiv> 0x0B0"
abbreviation LAPIC_SPURIOUS :: u32 where "LAPIC_SPURIOUS \<equiv> 0x0F0"
abbreviation LAPIC_ESR :: u32 where "LAPIC_ESR \<equiv> 0x280"
abbreviation LAPIC_ICR_LOW :: u32 where "LAPIC_ICR_LOW \<equiv> 0x300"
abbreviation LAPIC_ICR_HIGH :: u32 where "LAPIC_ICR_HIGH \<equiv> 0x310"
abbreviation LAPIC_LVT_TIMER :: u32 where "LAPIC_LVT_TIMER \<equiv> 0x320"
abbreviation LAPIC_LVT_LINT0 :: u32 where "LAPIC_LVT_LINT0 \<equiv> 0x350"
abbreviation LAPIC_LVT_LINT1 :: u32 where "LAPIC_LVT_LINT1 \<equiv> 0x360"
abbreviation LAPIC_LVT_ERROR :: u32 where "LAPIC_LVT_ERROR \<equiv> 0x370"
abbreviation LAPIC_TIMER_INIT :: u32 where "LAPIC_TIMER_INIT \<equiv> 0x380"
abbreviation LAPIC_TIMER_CUR :: u32 where "LAPIC_TIMER_CUR \<equiv> 0x390"
abbreviation LAPIC_TIMER_DIV :: u32 where "LAPIC_TIMER_DIV \<equiv> 0x3E0"
abbreviation LAPIC_SPURIOUS_ENABLE :: u32 where "LAPIC_SPURIOUS_ENABLE \<equiv> 0x100"
abbreviation LAPIC_SPURIOUS_FOCUS :: u32 where "LAPIC_SPURIOUS_FOCUS \<equiv> 0x200"
abbreviation LAPIC_ICR_ALL :: u32 where "LAPIC_ICR_ALL \<equiv> 0x80000"
abbreviation LAPIC_ICR_ALL_EXCL_SELF :: u32 where "LAPIC_ICR_ALL_EXCL_SELF \<equiv> 0xC0000"
abbreviation LAPIC_LVT_MASKED :: u32 where "LAPIC_LVT_MASKED \<equiv> 0x10000"
abbreviation LAPIC_LVT_DM_FIXED :: u32 where "LAPIC_LVT_DM_FIXED \<equiv> 0"
abbreviation LAPIC_TIMER_ONESHOT :: u32 where "LAPIC_TIMER_ONESHOT \<equiv> 0"
abbreviation LAPIC_TIMER_PERIODIC :: u32 where "LAPIC_TIMER_PERIODIC \<equiv> 0x20000"
abbreviation MSR_APIC_BASE :: u32 where "MSR_APIC_BASE \<equiv> 0x01B"
abbreviation MSR_X2APIC_ICR :: u32 where "MSR_X2APIC_ICR \<equiv> 0x830"
abbreviation MSR_X2APIC_EOI :: u32 where "MSR_X2APIC_EOI \<equiv> 0x80B"
abbreviation IOAPIC_IOREGSEL :: u64 where "IOAPIC_IOREGSEL \<equiv> 0x00"
abbreviation IOAPIC_IOWIN :: u64 where "IOAPIC_IOWIN \<equiv> 0x10"
abbreviation IOAPIC_ID :: u8 where "IOAPIC_ID \<equiv> 0x00"
abbreviation IOAPIC_VER :: u8 where "IOAPIC_VER \<equiv> 0x01"
abbreviation IOAPIC_REDIR_TBL :: u32 where "IOAPIC_REDIR_TBL \<equiv> 0x10"
abbreviation IOAPIC_ADDR :: u64 where "IOAPIC_ADDR \<equiv> 0xFEC00000"

record apic_t = hw_t +
  lapic_base :: u64
  x2apic_mode :: bool
  lapic_freq_hz :: u32
  ioapic_base :: u64

section \<open>Local controller\<close>

definition lapic_read :: "u32 \<Rightarrow> ('a apic_t_scheme, u32) state" where
  "lapic_read reg = do {
     s \<leftarrow> State_Monad.get;
     if x2apic_mode s then do { v \<leftarrow> read_msr (0x800 + reg div 16); State_Monad.return (ucast v) }
     else mmio_read32 (lapic_base s + ucast reg) }"

definition lapic_write :: "u32 \<Rightarrow> u32 \<Rightarrow> ('a apic_t_scheme, unit) state" where
  "lapic_write reg val = do {
     s \<leftarrow> State_Monad.get;
     if x2apic_mode s then write_msr (0x800 + reg div 16) (ucast val)
     else mmio_write32 (lapic_base s + ucast reg) val }"

definition apic_is_x2apic :: "('a apic_t_scheme, bool) state" where
  "apic_is_x2apic = do { s \<leftarrow> State_Monad.get; State_Monad.return (x2apic_mode s) }"

definition apic_get_id :: "('a apic_t_scheme, u32) state" where
  "apic_get_id = do {
     i \<leftarrow> lapic_read LAPIC_ID_REG;
     s \<leftarrow> State_Monad.get;
     if x2apic_mode s then State_Monad.return (drop_bit 24 i) else State_Monad.return (drop_bit 24 i) }"

text \<open>The two bytes of a read of the timer chip, taken in the order they are written.\<close>

definition pit_read :: "('a hw_t_scheme, u32) state" where
  "pit_read = do { lo \<leftarrow> inb 0x40; hi \<leftarrow> inb 0x40; State_Monad.return (ucast lo OR push_bit 8 (ucast hi)) }"

definition apic_calibrate :: "('a apic_t_scheme, unit) state" where
  "apic_calibrate = do {
     let initial = 0xFFFFFFFF;
     lapic_write LAPIC_TIMER_DIV 3;
     lapic_write LAPIC_TIMER_INIT initial;
     lapic_write LAPIC_LVT_TIMER (LAPIC_TIMER_ONESHOT OR LAPIC_LVT_MASKED);
     outb 0x43 0x30;
     outb 0x40 0x9C;
     outb 0x40 0x2E;
     start \<leftarrow> pit_read;
     stop \<leftarrow> pit_read;
     elapsed \<leftarrow> lapic_read LAPIC_TIMER_CUR;
     let pit_ticks = (ucast (ucast (start - stop) :: u16) :: u32);
     if pit_ticks > 0
     then State_Monad.update (\<lambda>s. s\<lparr>lapic_freq_hz := (initial - elapsed) * 100 div (pit_ticks * 16)\<rparr>)
     else State_Monad.return () }"

definition apic_init :: "('a apic_t_scheme, unit) state" where
  "apic_init = do {
     apic_base_msr \<leftarrow> read_msr MSR_APIC_BASE;
     (if bit apic_base_msr 10 then State_Monad.update (\<lambda>s. s\<lparr>x2apic_mode := True\<rparr>)
      else State_Monad.update (\<lambda>s. s\<lparr>lapic_base := apic_base_msr AND 0xFFFFFF000\<rparr>));
     lapic_write LAPIC_SPURIOUS (0xFF OR LAPIC_SPURIOUS_ENABLE OR LAPIC_SPURIOUS_FOCUS);
     lapic_write LAPIC_TPR 0;
     lapic_write LAPIC_ESR 0;
     _ \<leftarrow> lapic_read LAPIC_ESR;
     ver \<leftarrow> lapic_read LAPIC_VER_REG;
     s \<leftarrow> State_Monad.get;
     (if \<not> x2apic_mode s then do {
        lapic_write LAPIC_LVT_LINT0 LAPIC_LVT_MASKED;
        lapic_write LAPIC_LVT_LINT1 LAPIC_LVT_MASKED }
      else State_Monad.return ());
     lapic_write LAPIC_LVT_ERROR (LAPIC_LVT_DM_FIXED OR 0x37);
     apic_calibrate }"

definition apic_eoi :: "('a apic_t_scheme, unit) state" where
  "apic_eoi = do {
     s \<leftarrow> State_Monad.get;
     if x2apic_mode s then write_msr MSR_X2APIC_EOI 0 else lapic_write LAPIC_EOI 0 }"

section \<open>Inter-processor interrupts\<close>

partial_function (option) wait_delivery :: "'a apic_t_scheme \<Rightarrow> 'a apic_t_scheme option" where
  "wait_delivery s =
     (let r = run_state (lapic_read LAPIC_ICR_LOW) s in
      if bit (fst r) 12 then wait_delivery (snd r) else Some (snd r))"

definition apic_send_ipi :: "u32 \<Rightarrow> u8 \<Rightarrow> 'a apic_t_scheme \<Rightarrow> 'a apic_t_scheme option" where
  "apic_send_ipi apic_id vector s =
     (if x2apic_mode s
      then Some (snd (run_state (write_msr MSR_X2APIC_ICR (push_bit 32 (ucast apic_id) OR ucast vector)) s))
      else wait_delivery (snd (run_state (do {
        lapic_write LAPIC_ICR_HIGH (push_bit 24 apic_id);
        lapic_write LAPIC_ICR_LOW (ucast vector) }) s)))"

definition apic_send_ipi_all :: "u8 \<Rightarrow> 'a apic_t_scheme \<Rightarrow> 'a apic_t_scheme option" where
  "apic_send_ipi_all vector s =
     (if x2apic_mode s
      then Some (snd (run_state (write_msr MSR_X2APIC_ICR (push_bit 18 (ucast LAPIC_ICR_ALL) OR ucast vector)) s))
      else wait_delivery (snd (run_state (do {
        lapic_write LAPIC_ICR_HIGH 0;
        lapic_write LAPIC_ICR_LOW (LAPIC_ICR_ALL OR ucast vector) }) s)))"

definition apic_send_ipi_all_except_self :: "u8 \<Rightarrow> 'a apic_t_scheme \<Rightarrow> 'a apic_t_scheme option" where
  "apic_send_ipi_all_except_self vector s =
     (if x2apic_mode s
      then Some (snd (run_state (write_msr MSR_X2APIC_ICR (push_bit 18 (ucast LAPIC_ICR_ALL_EXCL_SELF) OR ucast vector)) s))
      else wait_delivery (snd (run_state (do {
        lapic_write LAPIC_ICR_HIGH 0;
        lapic_write LAPIC_ICR_LOW (LAPIC_ICR_ALL_EXCL_SELF OR ucast vector) }) s)))"

section \<open>Timer\<close>

definition apic_timer_start :: "u32 \<Rightarrow> u8 \<Rightarrow> bool \<Rightarrow> ('a apic_t_scheme, unit) state" where
  "apic_timer_start ticks vector periodic = do {
     lapic_write LAPIC_TIMER_DIV 3;
     lapic_write LAPIC_TIMER_INIT ticks;
     let mode = (if periodic then LAPIC_TIMER_PERIODIC else LAPIC_TIMER_ONESHOT);
     lapic_write LAPIC_LVT_TIMER (mode OR ucast vector) }"

definition apic_timer_stop :: "('a apic_t_scheme, unit) state" where
  "apic_timer_stop = do {
     lapic_write LAPIC_LVT_TIMER LAPIC_LVT_MASKED;
     lapic_write LAPIC_TIMER_INIT 0 }"

section \<open>I/O controller\<close>

definition ioapic_read :: "u8 \<Rightarrow> ('a apic_t_scheme, u32) state" where
  "ioapic_read reg = do {
     s \<leftarrow> State_Monad.get;
     mmio_write32 (ioapic_base s + IOAPIC_IOREGSEL) (ucast reg);
     mmio_read32 (ioapic_base s + IOAPIC_IOWIN) }"

definition ioapic_write :: "u8 \<Rightarrow> u32 \<Rightarrow> ('a apic_t_scheme, unit) state" where
  "ioapic_write reg val = do {
     s \<leftarrow> State_Monad.get;
     mmio_write32 (ioapic_base s + IOAPIC_IOREGSEL) (ucast reg);
     mmio_write32 (ioapic_base s + IOAPIC_IOWIN) val }"

definition ioapic_init :: "('a apic_t_scheme, unit) state" where
  "ioapic_init = do {
     State_Monad.update (\<lambda>s. s\<lparr>ioapic_base := IOAPIC_ADDR\<rparr>);
     i \<leftarrow> ioapic_read IOAPIC_ID;
     ver \<leftarrow> ioapic_read IOAPIC_VER;
     let max_redir = drop_bit 16 ver AND 0xFF;
     for_each [0..<Suc (unat max_redir)] (\<lambda>i. do {
       ioapic_write (ucast (IOAPIC_REDIR_TBL + of_nat i * 2)) 0x10000;
       ioapic_write (ucast (IOAPIC_REDIR_TBL + of_nat i * 2 + 1)) 0 }) }"

definition ioapic_redirect_irq :: "u8 \<Rightarrow> u8 \<Rightarrow> u32 \<Rightarrow> ('a apic_t_scheme, unit) state" where
  "ioapic_redirect_irq irq vector apic_id = do {
     let idx = IOAPIC_REDIR_TBL + ucast irq * 2;
     let low = ucast vector OR push_bit 0 apic_id;
     let high = push_bit 24 apic_id;
     ioapic_write (ucast idx) low;
     ioapic_write (ucast (idx + 1)) high }"

section \<open>What the controller is told\<close>

lemmas apic_defs = lapic_read_def lapic_write_def apic_get_id_def apic_eoi_def

text \<open>The state after the status register has been read \<open>n\<close> times.\<close>

fun polls :: "nat \<Rightarrow> 'a apic_t_scheme \<Rightarrow> 'a apic_t_scheme" where
  "polls 0 s = s"
| "polls (Suc n) s = polls n (snd (run_state (lapic_read LAPIC_ICR_LOW) s))"

text \<open>Sending returns as soon as one of the polls finds the delivery bit clear.\<close>

lemma wait_delivery_returns:
  assumes "\<And>k. k < n \<Longrightarrow> bit (fst (run_state (lapic_read LAPIC_ICR_LOW) (polls k s))) 12"
    and "\<not> bit (fst (run_state (lapic_read LAPIC_ICR_LOW) (polls n s))) 12"
  shows "wait_delivery s = Some (polls (Suc n) s)"
  using assms
proof (induction n arbitrary: s)
  case 0
  then show ?case by (subst wait_delivery.simps) simp
next
  case (Suc n)
  let ?t = "snd (run_state (lapic_read LAPIC_ICR_LOW) s)"
  have "bit (fst (run_state (lapic_read LAPIC_ICR_LOW) (polls k ?t))) 12" if "k < n" for k
    using Suc.prems(1) [of "Suc k"] that by simp
  moreover have "\<not> bit (fst (run_state (lapic_read LAPIC_ICR_LOW) (polls n ?t))) 12" using Suc.prems(2) by simp
  ultimately have "wait_delivery ?t = Some (polls (Suc n) ?t)" by (rule Suc.IH)
  with Suc.prems(1) [of 0] show ?case by (subst wait_delivery.simps) simp
qed

text \<open>In x2APIC mode the destination shorthand is shifted twice: bits 18 and 19 of the command, which select
  all processors, stay clear, and the command is a plain interrupt with a destination field of \<open>0x20\<close>.\<close>

lemma x2apic_broadcast_has_no_shorthand:
  assumes "x2apic_mode s"
  shows "\<exists>s' v. apic_send_ipi_all vector s = Some s' \<and> hw_log s' = WrMsr MSR_X2APIC_ICR v # hw_log s
    \<and> \<not> bit v 18 \<and> \<not> bit v 19 \<and> drop_bit 32 v = 0x20"
proof -
  let ?v = "push_bit 18 (ucast LAPIC_ICR_ALL) OR ucast vector :: u64"
  have "drop_bit 32 ?v = 0x20"
    by (rule bit_word_eqI) (auto simp: bit_simps drop_bit_or dest: bit_imp_le_length)
  moreover have "\<not> bit ?v 18" "\<not> bit ?v 19" by (auto simp: bit_simps dest: bit_imp_le_length)
  ultimately show ?thesis using assms by (simp add: apic_send_ipi_all_def write_msr_def)
qed

text \<open>The vector and the destination share the low word of a redirection entry: the vector that
  is stored is the requested one exactly when the destination adds no bit to it.\<close>

lemma ioapic_redirect_log:
  "hw_log (snd (run_state (ioapic_redirect_irq irq vector apic_id) s)) =
     [Store32 (ioapic_base s + IOAPIC_IOWIN) (push_bit 24 apic_id),
      Store32 (ioapic_base s + IOAPIC_IOREGSEL) (ucast (ucast (IOAPIC_REDIR_TBL + ucast irq * 2 + 1) :: u8)),
      Store32 (ioapic_base s + IOAPIC_IOWIN) (ucast vector OR apic_id),
      Store32 (ioapic_base s + IOAPIC_IOREGSEL) (ucast (ucast (IOAPIC_REDIR_TBL + ucast irq * 2) :: u8))] @ hw_log s"
  by (simp add: ioapic_redirect_irq_def ioapic_write_def mmio_write32_def Let_def)

end
