(* ===== verification/Irq.thy ===== *)
theory Irq
  imports Apic
begin

text \<open>
  Interrupts on x86-64: the descriptor table and the exception report of \<^verbatim>\<open>kernel/arch/x86_64/idt.c\<close> and the
  interrupt dispatch of \<^verbatim>\<open>interrupts.c\<close>. Handlers are code addresses, 0 being the null pointer; what
  calling one does is a parameter of the dispatch. Printing is the value of the exception report.
\<close>

section \<open>Interrupt descriptor table\<close>

abbreviation IST_DOUBLE_FAULT :: u8 where "IST_DOUBLE_FAULT \<equiv> 1"
abbreviation IST_NMI :: u8 where "IST_NMI \<equiv> 2"
abbreviation IST_MCE :: u8 where "IST_MCE \<equiv> 3"
abbreviation IRQ_BASE :: u8 where "IRQ_BASE \<equiv> 0x20"
abbreviation LVT_TIMER :: u8 where "LVT_TIMER \<equiv> 0x32"

record idt_entry_t =
  offset_low :: u16
  idt_selector :: u16
  ist :: u8
  type_attr :: u8
  offset_mid :: u16
  offset_high :: u32
  idt_reserved :: u32

definition zero_gate :: idt_entry_t where
  "zero_gate = \<lparr>offset_low = 0, idt_selector = 0, ist = 0, type_attr = 0, offset_mid = 0, offset_high = 0, idt_reserved = 0\<rparr>"

record idt_ptr_t =
  idt_limit :: u16
  idt_base :: u64

record interrupt_frame_t =
  f_r15 :: u64
  f_r14 :: u64
  f_r13 :: u64
  f_r12 :: u64
  f_r11 :: u64
  f_r10 :: u64
  f_r9 :: u64
  f_r8 :: u64
  f_rbp :: u64
  f_rdi :: u64
  f_rsi :: u64
  f_rdx :: u64
  f_rcx :: u64
  f_rbx :: u64
  f_rax :: u64
  f_vector :: u64
  f_error_code :: u64
  f_rip :: u64
  f_cs :: u64
  f_rflags :: u64
  f_rsp :: u64
  f_ss :: u64

record idt_state =
  idt :: "u8 \<Rightarrow> idt_entry_t"
  idt_handlers :: "u8 \<Rightarrow> u64"
  idtr :: idt_ptr_t

definition exception_names :: "string list" where
  "exception_names =
    [''Divide-by-zero'', ''Debug'', ''Non-maskable Interrupt'', ''Breakpoint'', ''Overflow'', ''Bound Range Exceeded'',
     ''Invalid Opcode'', ''Device Not Available'', ''Double Fault'', ''Coprocessor Segment Overrun'', ''Invalid TSS'',
     ''Segment Not Present'', ''Stack-Segment Fault'', ''General Protection Fault'', ''Page Fault'', ''Reserved'',
     ''x87 FPU Floating-Point Error'', ''Alignment Check'', ''Machine Check'', ''SIMD Floating-Point Exception'',
     ''Virtualization Exception'', ''Control Protection Exception'']"

definition idt_set_handler :: "u8 \<Rightarrow> u64 \<Rightarrow> u8 \<Rightarrow> bool \<Rightarrow> idt_state \<Rightarrow> idt_state" where
  "idt_set_handler vec addr i user s =
     s\<lparr>idt := (idt s)(vec := \<lparr>offset_low = ucast (addr AND 0xFFFF), idt_selector = 0x08, ist = i,
              type_attr = 0x8E OR (if user then 0x60 else 0), offset_mid = ucast (drop_bit 16 addr AND 0xFFFF),
              offset_high = ucast (drop_bit 32 addr AND 0xFFFFFFFF), idt_reserved = 0\<rparr>),
       idt_handlers := (idt_handlers s)(vec := addr)\<rparr>"

text \<open>The report of an exception before the processor halts: the name, the frame, and the fault address of a page fault.\<close>

definition default_handler :: "interrupt_frame_t \<Rightarrow> u64 \<Rightarrow> string \<times> interrupt_frame_t \<times> u64 option" where
  "default_handler frame cr2 =
     (let name = (if f_vector frame < of_nat (length exception_names) then exception_names ! unat (f_vector frame) else ''Unknown'')
      in (name, frame, if f_vector frame = 14 then Some cr2 else None))"

definition idt_install :: "u64 \<Rightarrow> idt_state \<Rightarrow> idt_state" where
  "idt_install idt_addr s = s\<lparr>idtr := \<lparr>idt_limit = 256 * 16 - 1, idt_base = idt_addr\<rparr>\<rparr>"

definition exception_ist :: "nat \<Rightarrow> u8" where
  "exception_ist i = (if i = 18 then IST_MCE else if i = 2 then IST_NMI else if i = 8 then IST_DOUBLE_FAULT else 0)"

definition idt_init :: "u64 \<Rightarrow> u64 \<Rightarrow> idt_state \<Rightarrow> idt_state" where
  "idt_init handler idt_addr s =
     (let s = s\<lparr>idt := (\<lambda>_. zero_gate), idt_handlers := (\<lambda>_. 0)\<rparr>;
          s = fold (\<lambda>i. idt_set_handler (of_nat i) handler (exception_ist i) False) [0..<32] s
      in idt_install idt_addr s)"

section \<open>Interrupt dispatch\<close>

record irq_t = apic_t +
  irq_handlers :: "u8 \<Rightarrow> u64"
  irq_counts :: "u8 \<Rightarrow> u64"

definition pic_remap :: "('a irq_t_scheme, unit) state" where
  "pic_remap = do {
     outb 0x20 0x11; outb 0xA0 0x11;
     outb 0x21 0x20; outb 0xA1 0x28;
     outb 0x21 0x04; outb 0xA1 0x02;
     outb 0x21 0x01; outb 0xA1 0x01;
     outb 0x21 0xFF; outb 0xA1 0xFF;
     io_wait }"

definition irq_end_of_interrupt :: "u8 \<Rightarrow> ('a irq_t_scheme, unit) state" where
  "irq_end_of_interrupt irq = do {
     (if irq \<ge> 8 then outb 0xA0 0x20 else State_Monad.return ());
     outb 0x20 0x20 }"

definition irq_dispatch ::
  "(u64 \<Rightarrow> u8 \<Rightarrow> interrupt_frame_t \<Rightarrow> ('a irq_t_scheme, unit) state) \<Rightarrow> interrupt_frame_t \<Rightarrow> ('a irq_t_scheme, unit) state" where
  "irq_dispatch call frame = do {
     let vec = (ucast (f_vector frame) :: u8);
     State_Monad.update (\<lambda>s. s\<lparr>irq_counts := (irq_counts s)(vec := irq_counts s vec + 1)\<rparr>);
     s \<leftarrow> State_Monad.get;
     if vec \<ge> IRQ_BASE \<and> vec < IRQ_BASE + 16 then do {
       let h = irq_handlers s (vec - IRQ_BASE);
       (if h \<noteq> 0 then call h (vec - IRQ_BASE) frame else State_Monad.return ());
       irq_end_of_interrupt (vec - IRQ_BASE) }
     else do {
       let h = irq_handlers s vec;
       (if h \<noteq> 0 then call h vec frame else State_Monad.return ());
       apic_eoi } }"

definition irq_init :: "('a irq_t_scheme, unit) state" where
  "irq_init = do {
     State_Monad.update (\<lambda>s. s\<lparr>irq_handlers := (\<lambda>_. 0), irq_counts := (\<lambda>_. 0)\<rparr>);
     pic_remap }"

definition irq_register :: "u8 \<Rightarrow> u64 \<Rightarrow> ('a irq_t_scheme, unit) state" where
  "irq_register irq handler = do {
     State_Monad.update (\<lambda>s. s\<lparr>irq_handlers := (irq_handlers s)(irq := handler)\<rparr>);
     if irq < 16 then do {
       (if irq < 8 then do { m \<leftarrow> inb 0x21; outb 0x21 (m AND NOT (push_bit (unat irq) 1)) }
        else do { m \<leftarrow> inb 0xA1; outb 0xA1 (m AND NOT (push_bit (unat (irq - 8)) 1)) });
       ioapic_redirect_irq irq (IRQ_BASE + irq) 0 }
     else State_Monad.return () }"

definition irq_unregister :: "u8 \<Rightarrow> ('a irq_t_scheme, unit) state" where
  "irq_unregister irq = do {
     State_Monad.update (\<lambda>s. s\<lparr>irq_handlers := (irq_handlers s)(irq := 0)\<rparr>);
     if irq < 16 then
       (if irq < 8 then do { m \<leftarrow> inb 0x21; outb 0x21 (m OR push_bit (unat irq) 1) }
        else do { m \<leftarrow> inb 0xA1; outb 0xA1 (m OR push_bit (unat (irq - 8)) 1) })
     else State_Monad.return () }"

section \<open>Descriptors read back\<close>

definition gate_offset :: "idt_entry_t \<Rightarrow> u64" where
  "gate_offset g = ucast (offset_low g) OR push_bit 16 (ucast (offset_mid g)) OR push_bit 32 (ucast (offset_high g))"

lemma mask_literals64: "(0xFFFF :: u64) = mask 16" "(0xFFFFFFFF :: u64) = mask 32"
  by (simp_all add: mask_eq_exp_minus_1)

text \<open>The processor enters the handler that was installed, with the privilege that was asked for.\<close>

lemma idt_gate_roundtrip:
  "gate_offset (idt (idt_set_handler vec addr i user s) vec) = addr"
  "drop_bit 5 (type_attr (idt (idt_set_handler vec addr i user s) vec)) AND 3 = (if user then 3 else 0)"
  "v \<noteq> vec \<Longrightarrow> idt (idt_set_handler vec addr i user s) v = idt s v"
proof -
  show "gate_offset (idt (idt_set_handler vec addr i user s) vec) = addr"
  proof (rule bit_word_eqI)
    fix n
    assume "n < LENGTH(64)"
    then show "bit (gate_offset (idt (idt_set_handler vec addr i user s) vec)) n = bit addr n"
      unfolding gate_offset_def idt_set_handler_def mask_literals64
      by (cases "n < 16"; cases "n < 32") (auto simp: bit_simps simp del: mask_numeral)
  qed
qed (simp_all add: idt_set_handler_def)

lemma idt_set_handler_handlers [simp]:
  "idt_handlers (idt_set_handler vec addr i user s) = (idt_handlers s)(vec := addr)"
  by (simp add: idt_set_handler_def)

lemma idt_fill:
  "n \<le> 256 \<Longrightarrow>
   idt_handlers (fold (\<lambda>i. idt_set_handler (of_nat i) handler (exception_ist i) False) [0..<n] s) v =
     (if unat v < n then handler else idt_handlers s v)
   \<and> gate_offset (idt (fold (\<lambda>i. idt_set_handler (of_nat i) handler (exception_ist i) False) [0..<n] s) v) =
     (if unat v < n then handler else gate_offset (idt s v))"
proof (induction n)
  case 0
  then show ?case by simp
next
  case (Suc n)
  then have "of_nat n = v \<longleftrightarrow> unat v = n" by (auto simp: word_unat_eq_iff unat_of_nat take_bit_nat_eq_self)
  then have "v = of_nat n \<longleftrightarrow> unat v = n" by auto
  with Suc show ?case
    by (cases "unat v = n") (auto simp: idt_gate_roundtrip(1) idt_gate_roundtrip(3) less_Suc_eq)
qed

lemma idt_init_exceptions:
  "gate_offset (idt (idt_init handler idt_addr s) v) = (if v < 32 then handler else 0)"
  "idt_handlers (idt_init handler idt_addr s) v = (if v < 32 then handler else 0)"
  using idt_fill [of 32 handler "s\<lparr>idt := (\<lambda>_. zero_gate), idt_handlers := (\<lambda>_. 0)\<rparr>" v]
  by (simp_all add: idt_init_def idt_install_def Let_def word_less_nat_alt zero_gate_def gate_offset_def)

section \<open>The mask registers follow the registered handlers\<close>

text \<open>The byte written last to a port; a controller whose mask registers read back as they were written.\<close>

fun last_outb :: "u16 \<Rightarrow> hw_event list \<Rightarrow> u8" where
  "last_outb p (OutB q v # l) = (if q = p then v else last_outb p l)"
| "last_outb p (_ # l) = last_outb p l"
| "last_outb p [] = 0"

definition pic_readback :: "(hw_event list \<Rightarrow> u64) \<Rightarrow> bool" where
  "pic_readback dev \<longleftrightarrow> (\<forall>p l. p = 0x21 \<or> p = 0xA1 \<longrightarrow> ucast (dev (InB p # l)) = last_outb p l)"

definition lines_match :: "'a irq_t_scheme \<Rightarrow> bool" where
  "lines_match s \<longleftrightarrow> pic_readback (hw_dev s) \<and>
     (\<forall>k < 8. (bit (last_outb 0x21 (hw_log s)) k \<longleftrightarrow> irq_handlers s (of_nat k) = 0) \<and>
              (bit (last_outb 0xA1 (hw_log s)) k \<longleftrightarrow> irq_handlers s (of_nat (k + 8)) = 0))"

text \<open>What registering and unregistering do to the two mask registers and the table.\<close>

definition unmask :: "u8 \<Rightarrow> u8 \<Rightarrow> u8" where "unmask k m = m AND NOT (push_bit (unat k) 1)"
definition mask_line :: "u8 \<Rightarrow> u8 \<Rightarrow> u8" where "mask_line k m = m OR push_bit (unat k) 1"

lemma irq_register_run:
  fixes irq :: u8 and h :: u64 and s :: "'a irq_t_scheme"
  assumes "pic_readback (hw_dev s)"
  defines "s' \<equiv> snd (run_state (irq_register irq h) s)"
  shows "irq_handlers s' = (irq_handlers s)(irq := h)" "hw_dev s' = hw_dev s"
    "last_outb 0x21 (hw_log s') = (if irq < 8 then unmask irq else (\<lambda>m. m)) (last_outb 0x21 (hw_log s))"
    "last_outb 0xA1 (hw_log s') = (if 8 \<le> irq \<and> irq < 16 then unmask (irq - 8) else (\<lambda>m. m)) (last_outb 0xA1 (hw_log s))"
proof -
  have r: "ucast (hw_dev s (InB 0x21 # hw_log s)) = last_outb 0x21 (hw_log s)"
    "ucast (hw_dev s (InB 0xA1 # hw_log s)) = last_outb 0xA1 (hw_log s)"
    using assms(1) by (simp_all add: pic_readback_def)
  note d = s'_def irq_register_def ioapic_redirect_irq_def ioapic_write_def io_defs Let_def
  consider "irq < 8" "irq < 16" | "\<not> irq < 8" "irq < 16" | "\<not> irq < 16" "\<not> irq < 8"
    using less_trans [of irq 8 16] by fastforce
  then have "irq_handlers s' = (irq_handlers s)(irq := h) \<and> hw_dev s' = hw_dev s
    \<and> last_outb 0x21 (hw_log s') = (if irq < 8 then unmask irq else (\<lambda>m. m)) (last_outb 0x21 (hw_log s))
    \<and> last_outb 0xA1 (hw_log s') = (if \<not> irq < 8 \<and> irq < 16 then unmask (irq - 8) else (\<lambda>m. m)) (last_outb 0xA1 (hw_log s))"
    unfolding d by cases (simp_all add: r unmask_def)
  then show "irq_handlers s' = (irq_handlers s)(irq := h)" "hw_dev s' = hw_dev s"
    "last_outb 0x21 (hw_log s') = (if irq < 8 then unmask irq else (\<lambda>m. m)) (last_outb 0x21 (hw_log s))"
    "last_outb 0xA1 (hw_log s') = (if 8 \<le> irq \<and> irq < 16 then unmask (irq - 8) else (\<lambda>m. m)) (last_outb 0xA1 (hw_log s))"
    by (simp_all add: not_less)
qed

lemma irq_unregister_run:
  fixes irq :: u8 and s :: "'a irq_t_scheme"
  assumes "pic_readback (hw_dev s)"
  defines "s' \<equiv> snd (run_state (irq_unregister irq) s)"
  shows "irq_handlers s' = (irq_handlers s)(irq := 0)" "hw_dev s' = hw_dev s"
    "last_outb 0x21 (hw_log s') = (if irq < 8 then mask_line irq else (\<lambda>m. m)) (last_outb 0x21 (hw_log s))"
    "last_outb 0xA1 (hw_log s') = (if 8 \<le> irq \<and> irq < 16 then mask_line (irq - 8) else (\<lambda>m. m)) (last_outb 0xA1 (hw_log s))"
proof -
  have r: "ucast (hw_dev s (InB 0x21 # hw_log s)) = last_outb 0x21 (hw_log s)"
    "ucast (hw_dev s (InB 0xA1 # hw_log s)) = last_outb 0xA1 (hw_log s)"
    using assms(1) by (simp_all add: pic_readback_def)
  note d = s'_def irq_unregister_def io_defs Let_def
  consider "irq < 8" "irq < 16" | "\<not> irq < 8" "irq < 16" | "\<not> irq < 16" "\<not> irq < 8"
    using less_trans [of irq 8 16] by fastforce
  then have "irq_handlers s' = (irq_handlers s)(irq := 0) \<and> hw_dev s' = hw_dev s
    \<and> last_outb 0x21 (hw_log s') = (if irq < 8 then mask_line irq else (\<lambda>m. m)) (last_outb 0x21 (hw_log s))
    \<and> last_outb 0xA1 (hw_log s') = (if \<not> irq < 8 \<and> irq < 16 then mask_line (irq - 8) else (\<lambda>m. m)) (last_outb 0xA1 (hw_log s))"
    unfolding d by cases (simp_all add: r mask_line_def)
  then show "irq_handlers s' = (irq_handlers s)(irq := 0)" "hw_dev s' = hw_dev s"
    "last_outb 0x21 (hw_log s') = (if irq < 8 then mask_line irq else (\<lambda>m. m)) (last_outb 0x21 (hw_log s))"
    "last_outb 0xA1 (hw_log s') = (if 8 \<le> irq \<and> irq < 16 then mask_line (irq - 8) else (\<lambda>m. m)) (last_outb 0xA1 (hw_log s))"
    by (simp_all add: not_less)
qed

lemma bit_unmask: "k < 8 \<Longrightarrow> unat i < 8 \<Longrightarrow> bit (unmask i m) k \<longleftrightarrow> bit m k \<and> k \<noteq> unat i"
  by (auto simp: unmask_def bit_simps)

lemma bit_mask_line: "k < 8 \<Longrightarrow> unat i < 8 \<Longrightarrow> bit (mask_line i m) k \<longleftrightarrow> bit m k \<or> k = unat i"
  by (auto simp: mask_line_def bit_simps)

text \<open>A value of a table changed at one line, seen at the lines of the two controllers.\<close>

lemma line_of_nat:
  assumes "k < 8"
  shows "(of_nat k :: u8) = irq \<longleftrightarrow> irq < 8 \<and> k = unat irq"
    "(of_nat (k + 8) :: u8) = irq \<longleftrightarrow> 8 \<le> irq \<and> irq < 16 \<and> k = unat (irq - 8)"
proof -
  have "unat (of_nat k :: u8) = k" "unat (of_nat (k + 8) :: u8) = k + 8"
    using assms by (simp_all add: unat_of_nat take_bit_nat_eq_self del: of_nat_add)
  moreover have "8 \<le> irq \<Longrightarrow> unat (irq - 8) = unat irq - 8" by (simp add: unat_sub word_le_nat_alt)
  ultimately show "(of_nat k :: u8) = irq \<longleftrightarrow> irq < 8 \<and> k = unat irq"
    "(of_nat (k + 8) :: u8) = irq \<longleftrightarrow> 8 \<le> irq \<and> irq < 16 \<and> k = unat (irq - 8)"
    using assms unfolding word_unat_eq_iff [where 'a = 8] word_less_nat_alt word_le_nat_alt by auto
qed

lemma lines_match_update:
  assumes "lines_match s" "hw_dev s' = hw_dev s" "irq_handlers s' = (irq_handlers s)(irq := h)"
    and "\<And>k. k < 8 \<Longrightarrow> bit (last_outb 0x21 (hw_log s')) k \<longleftrightarrow>
      (if irq < 8 \<and> k = unat irq then h = 0 else bit (last_outb 0x21 (hw_log s)) k)"
    and "\<And>k. k < 8 \<Longrightarrow> bit (last_outb 0xA1 (hw_log s')) k \<longleftrightarrow>
      (if 8 \<le> irq \<and> irq < 16 \<and> k = unat (irq - 8) then h = 0 else bit (last_outb 0xA1 (hw_log s)) k)"
  shows "lines_match s'"
proof -
  have "(bit (last_outb 0x21 (hw_log s')) k \<longleftrightarrow> irq_handlers s' (of_nat k) = 0) \<and>
      (bit (last_outb 0xA1 (hw_log s')) k \<longleftrightarrow> irq_handlers s' (of_nat (k + 8)) = 0)" if "k < 8" for k
  proof -
    have "irq_handlers s' (of_nat k) = (if irq < 8 \<and> k = unat irq then h else irq_handlers s (of_nat k))"
      "irq_handlers s' (of_nat (k + 8)) =
         (if 8 \<le> irq \<and> irq < 16 \<and> k = unat (irq - 8) then h else irq_handlers s (of_nat (k + 8)))"
      unfolding assms(3) fun_upd_apply line_of_nat [OF that] by (rule refl)+
    with assms(1) assms(4,5) [OF that] that show ?thesis unfolding lines_match_def by presburger
  qed
  with assms(1,2) show ?thesis unfolding lines_match_def by metis
qed

lemma lines_match_register:
  assumes "lines_match s" "h \<noteq> 0"
  shows "lines_match (snd (run_state (irq_register irq h) s))"
proof -
  have d: "pic_readback (hw_dev s)" using assms by (simp add: lines_match_def)
  have "irq < 8 \<Longrightarrow> unat irq < 8" "8 \<le> irq \<Longrightarrow> irq < 16 \<Longrightarrow> unat (irq - 8) < 8"
    by (simp_all add: word_less_nat_alt word_le_nat_alt unat_sub)
  then show ?thesis
    by (intro lines_match_update [OF assms(1) irq_register_run(2,1) [OF d]])
      (auto simp: irq_register_run(3,4) [OF d] bit_unmask assms(2))
qed

lemma lines_match_unregister:
  assumes "lines_match s"
  shows "lines_match (snd (run_state (irq_unregister irq) s))"
proof -
  have d: "pic_readback (hw_dev s)" using assms by (simp add: lines_match_def)
  have "irq < 8 \<Longrightarrow> unat irq < 8" "8 \<le> irq \<Longrightarrow> irq < 16 \<Longrightarrow> unat (irq - 8) < 8"
    by (simp_all add: word_less_nat_alt word_le_nat_alt unat_sub)
  then show ?thesis
    by (intro lines_match_update [OF assms(1) irq_unregister_run(2,1) [OF d]])
      (auto simp: irq_unregister_run(3,4) [OF d] bit_mask_line)
qed

lemma lines_match_init: "pic_readback (hw_dev s) \<Longrightarrow> lines_match (snd (run_state irq_init s))"
  by (simp add: irq_init_def pic_remap_def io_defs lines_match_def) (simp add: bit_simps numeral_eq_Suc less_Suc_eq)

section \<open>Registering, unregistering and dispatching\<close>

datatype irq_op = Register u8 u64 | Unregister u8

fun run_op :: "irq_op \<Rightarrow> 'a irq_t_scheme \<Rightarrow> 'a irq_t_scheme" where
  "run_op (Register irq h) s = snd (run_state (irq_register irq h) s)"
| "run_op (Unregister irq) s = snd (run_state (irq_unregister irq) s)"

fun table_op :: "irq_op \<Rightarrow> (u8 \<Rightarrow> u64) \<Rightarrow> u8 \<Rightarrow> u64" where
  "table_op (Register irq h) t = t(irq := h)"
| "table_op (Unregister irq) t = t(irq := 0)"

lemma lines_match_ops:
  assumes "lines_match s" "\<And>irq. Register irq 0 \<notin> set ops"
  shows "lines_match (fold run_op ops s) \<and> irq_handlers (fold run_op ops s) = fold table_op ops (irq_handlers s)"
  using assms
proof (induction ops arbitrary: s)
  case Nil
  then show ?case by simp
next
  case (Cons op ops)
  then have d: "pic_readback (hw_dev s)" by (simp add: lines_match_def)
  have "lines_match (run_op op s) \<and> irq_handlers (run_op op s) = table_op op (irq_handlers s)"
  proof (cases op)
    case (Register irq h)
    with Cons.prems(2) [of irq] have "h \<noteq> 0" by auto
    with Register show ?thesis by (simp add: lines_match_register [OF Cons.prems(1)] irq_register_run(1) [OF d])
  next
    case (Unregister irq)
    then show ?thesis by (simp add: lines_match_unregister [OF Cons.prems(1)] irq_unregister_run(1) [OF d])
  qed
  with Cons.IH [of "run_op op s"] Cons.prems(2) show ?case by simp
qed

text \<open>The end-of-interrupt commands for a line, and the state the handler runs in.\<close>

definition line_eoi :: "u8 \<Rightarrow> 'a irq_t_scheme \<Rightarrow> 'a irq_t_scheme" where
  "line_eoi k s = s\<lparr>hw_log := OutB 0x20 0x20 # (if 8 \<le> k then [OutB 0xA0 0x20] else []) @ hw_log s\<rparr>"

definition counted :: "u8 \<Rightarrow> 'a irq_t_scheme \<Rightarrow> 'a irq_t_scheme" where
  "counted vec s = s\<lparr>irq_counts := (irq_counts s)(vec := irq_counts s vec + 1)\<rparr>"

lemma irq_dispatch_line:
  assumes "k < 16" "f_vector frame = 0x20 + ucast k"
  shows "snd (run_state (irq_dispatch call frame) s) =
    line_eoi k (if irq_handlers s k \<noteq> 0 then snd (run_state (call (irq_handlers s k) k frame) (counted (0x20 + k) s))
                else counted (0x20 + k) s)"
proof -
  have k: "unat k < 16" using assms(1) by (simp add: word_less_nat_alt)
  have v: "ucast (f_vector frame) = 0x20 + k"
    unfolding assms(2) using k by (simp add: word_unat_eq_iff unat_word_ariths unsigned_ucast_eq take_bit_nat_eq_self)
  have "IRQ_BASE \<le> 0x20 + k" "0x20 + k < IRQ_BASE + 16" using k by (simp_all add: word_le_nat_alt word_less_nat_alt unat_word_ariths)
  then show ?thesis
    by (simp add: irq_dispatch_def v Let_def counted_def line_eoi_def irq_end_of_interrupt_def outb_def split: prod.splits)
qed

text \<open>C26: With interrupt controllers whose mask registers read back what was written, after the interrupts are
  initialised and handlers are registered and unregistered in any order, the table holds exactly the handler
  registered last for each line, a legacy line is unmasked exactly when it has a handler, and the interrupt of a
  legacy line is counted, calls that handler once with the number of the line, and is then acknowledged, at the second
  controller too for lines 8 to 15.\<close>

theorem irq_lines_follow_handlers:
  fixes s :: "'a irq_t_scheme" and ops :: "irq_op list"
  assumes "pic_readback (hw_dev s)" and "\<And>irq. Register irq 0 \<notin> set ops"
  defines "s' \<equiv> fold run_op ops (snd (run_state irq_init s))" and "table \<equiv> fold table_op ops (\<lambda>_. 0)"
  shows "irq_handlers s' = table
    \<and> (\<forall>k < 8. bit (last_outb 0x21 (hw_log s')) k = (table (of_nat k) = 0)
             \<and> bit (last_outb 0xA1 (hw_log s')) k = (table (of_nat (k + 8)) = 0))
    \<and> (\<forall>k frame. k < 16 \<and> f_vector frame = 0x20 + ucast k \<longrightarrow>
         snd (run_state (irq_dispatch call frame) s') =
           line_eoi k (if table k \<noteq> 0 then snd (run_state (call (table k) k frame) (counted (0x20 + k) s'))
                       else counted (0x20 + k) s'))"
proof -
  have h: "irq_handlers (snd (run_state irq_init s)) = (\<lambda>_. 0)"
    by (simp add: irq_init_def pic_remap_def io_defs)
  have m: "lines_match s'" and t: "irq_handlers s' = table"
    using lines_match_ops [OF lines_match_init [OF assms(1)] assms(2)] by (simp_all add: s'_def table_def h)
  show ?thesis using m irq_dispatch_line [of _ _ call s'] unfolding lines_match_def t by blast
qed

text \<open>A controller that remembers the byte last written to each port, and a machine with it.\<close>

definition readback_dev :: "hw_event list \<Rightarrow> u64" where
  "readback_dev l = (case l of InB p # l' \<Rightarrow> ucast (last_outb p l') | _ \<Rightarrow> 0)"

definition irq_blank :: irq_t where
  "irq_blank = \<lparr>hw_log = [], hw_dev = readback_dev, lapic_base = 0xFEE00000, x2apic_mode = False, lapic_freq_hz = 0,
     ioapic_base = 0xFEC00000, irq_handlers = (\<lambda>_. 5), irq_counts = (\<lambda>_. 0)\<rparr>"

theorem irq_lines_follow_handlers_witness:
  "bit (last_outb 0xA1 (hw_log (fold run_op [Register 1 0x1000, Register 12 0x2000, Unregister 1] (snd (run_state irq_init irq_blank))))) 4 = False
   \<and> bit (last_outb 0x21 (hw_log (fold run_op [Register 1 0x1000, Register 12 0x2000, Unregister 1] (snd (run_state irq_init irq_blank))))) 1 = True"
proof -
  let ?ops = "[Register 1 0x1000, Register 12 0x2000, Unregister 1]"
  have "pic_readback (hw_dev irq_blank)"
    unfolding pic_readback_def irq_blank_def readback_dev_def by (auto intro!: bit_word_eqI simp: bit_simps)
  moreover have "Register irq 0 \<notin> set ?ops" for irq by simp
  ultimately have "\<forall>k < 8. bit (last_outb 0x21 (hw_log (fold run_op ?ops (snd (run_state irq_init irq_blank))))) k = (fold table_op ?ops (\<lambda>_. 0) (of_nat k) = 0)
    \<and> bit (last_outb 0xA1 (hw_log (fold run_op ?ops (snd (run_state irq_init irq_blank))))) k = (fold table_op ?ops (\<lambda>_. 0) (of_nat (k + 8)) = 0)"
    by (rule conjunct1 [OF conjunct2 [OF irq_lines_follow_handlers]])
  from spec [OF this, of 4] spec [OF this, of 1] show ?thesis by simp
qed

text \<open>The kernel starts the local timer on vector \<open>0x32\<close> and registers its tick handler on line 0: the
  timer's interrupt finds an empty slot of the table and calls nothing.\<close>

lemma local_timer_has_no_handler:
  assumes "irq_handlers s = (\<lambda>_. 0)(0 := pit, 1 := kbd)" "f_vector frame = ucast LVT_TIMER"
  shows "snd (run_state (irq_dispatch call frame) s) = snd (run_state apic_eoi (counted LVT_TIMER s))"
  using assms by (simp add: irq_dispatch_def counted_def Let_def)

end
