(* ===== verification/Acpi.thy ===== *)
theory Acpi
  imports Io Elf
begin

text \<open>
  The firmware tables, \<^verbatim>\<open>kernel/arch/x86_64/acpi.c\<close>, read from byte memory at the offsets of the packed
  structures of \<^verbatim>\<open>acpi.h\<close>. The header structure declared there has no \<^verbatim>\<open>length\<close> member although the code
  reads one: where a table keeps its length is the parameter \<open>tlen\<close> of the definitions.

  The walk over the entries of the interrupt controller table advances by a length that comes from the
  table, so the functions that walk it return \<open>None\<close> when they do not return.
\<close>

abbreviation MADT_LAPIC :: u8 where "MADT_LAPIC \<equiv> 0"
abbreviation MADT_IOAPIC :: u8 where "MADT_IOAPIC \<equiv> 1"
abbreviation sizeof_sdt_header :: u64 where "sizeof_sdt_header \<equiv> 35"
abbreviation sizeof_madt :: u64 where "sizeof_madt \<equiv> 43"

definition RSD_PTR :: "u8 list" where "RSD_PTR = [0x52, 0x53, 0x44, 0x20, 0x50, 0x54, 0x52, 0x20]"
definition SIG_FACP :: "u8 list" where "SIG_FACP = [0x46, 0x41, 0x43, 0x50]"
definition SIG_APIC :: "u8 list" where "SIG_APIC = [0x41, 0x50, 0x49, 0x43]"

record acpi_t = hw_t +
  acpi_mem :: byte_mem
  rsdp :: u64
  fadt :: u64

section \<open>Finding tables\<close>

definition mem_is :: "byte_mem \<Rightarrow> u64 \<Rightarrow> u8 list \<Rightarrow> bool" where
  "mem_is m a bs \<longleftrightarrow> map (\<lambda>i. m (a + of_nat i)) [0..<length bs] = bs"

definition find_rsdp :: "byte_mem \<Rightarrow> u64" where
  "find_rsdp m =
     (let ebda = push_bit 4 (load_le m 0x40E 2) in
      case first_idx (\<lambda>k. mem_is m (ebda + of_nat (16 * k)) RSD_PTR) 64 of
        Some k \<Rightarrow> ebda + of_nat (16 * k)
      | None \<Rightarrow>
          (case first_idx (\<lambda>k. mem_is m (0xE0000 + of_nat (16 * k)) RSD_PTR) 8192 of
             Some k \<Rightarrow> 0xE0000 + of_nat (16 * k)
           | None \<Rightarrow> 0))"

definition acpi_checksum :: "byte_mem \<Rightarrow> u64 \<Rightarrow> u64 \<Rightarrow> bool" where
  "acpi_checksum m table len = (fold (\<lambda>i sum. sum + m (table + of_nat i)) [0..<unat len] 0 = 0)"

definition rsdt_entry :: "byte_mem \<Rightarrow> u64 \<Rightarrow> nat \<Rightarrow> u64" where
  "rsdt_entry m rsdt i = ucast (load_le m (rsdt + sizeof_sdt_header + of_nat (4 * i)) 4 :: u32)"

definition find_table :: "(byte_mem \<Rightarrow> u64 \<Rightarrow> u32) \<Rightarrow> u8 list \<Rightarrow> 'a acpi_t_scheme \<Rightarrow> u64" where
  "find_table tlen sig s =
     (let m = acpi_mem s in
      if rsdp s = 0 then 0
      else
        let rsdt = ucast (load_le m (rsdp s + 16) 4 :: u32) in
        if \<not> acpi_checksum m rsdt (ucast (tlen m rsdt)) then 0
        else
          let cnt = sint (ucast ((ucast (tlen m rsdt) - sizeof_sdt_header) div 4) :: u32) in
          case first_idx (\<lambda>i. mem_is m (rsdt_entry m rsdt i) sig
                 \<and> acpi_checksum m (rsdt_entry m rsdt i) (ucast (tlen m (rsdt_entry m rsdt i)))) (nat cnt) of
            None \<Rightarrow> 0 | Some i \<Rightarrow> rsdt_entry m rsdt i)"

section \<open>The interrupt controller table\<close>

text \<open>The loops over the entries: each starts with a byte for its type and one for its length.\<close>

partial_function (option) madt_walk :: "byte_mem \<Rightarrow> u64 \<Rightarrow> u64 \<Rightarrow> u32 \<Rightarrow> u32 \<Rightarrow> (u32 \<times> u32) option" where
  "madt_walk m p stop lapics ioapics =
     (if p < stop then
        madt_walk m (p + ucast (m (p + 1))) stop
          (if m p = MADT_LAPIC then lapics + 1 else lapics)
          (if m p = MADT_LAPIC then ioapics else if m p = MADT_IOAPIC then ioapics + 1 else ioapics)
      else Some (lapics, ioapics))"

partial_function (option) madt_count :: "byte_mem \<Rightarrow> u8 \<Rightarrow> u64 \<Rightarrow> u64 \<Rightarrow> u32 \<Rightarrow> u32 option" where
  "madt_count m ty p stop cnt =
     (if p < stop then madt_count m ty (p + ucast (m (p + 1))) stop (if m p = ty then cnt + 1 else cnt) else Some cnt)"

definition acpi_init :: "(byte_mem \<Rightarrow> u64 \<Rightarrow> u32) \<Rightarrow> 'a acpi_t_scheme \<Rightarrow> (int \<times> 'a acpi_t_scheme) option" where
  "acpi_init tlen s =
     (let rsdp_addr = find_rsdp (acpi_mem s) in
      if rsdp_addr = 0 then Some (-1, s)
      else
        let s = s\<lparr>rsdp := rsdp_addr\<rparr>;
            s = s\<lparr>fadt := find_table tlen SIG_FACP s\<rparr>
        in if fadt s = 0 then Some (-1, s)
           else
             let madt = find_table tlen SIG_APIC s in
             if madt = 0 then Some (0, s)
             else (case madt_walk (acpi_mem s) (madt + sizeof_madt) (madt + ucast (tlen (acpi_mem s) madt)) 0 0 of
                     None \<Rightarrow> None | Some counts \<Rightarrow> Some (0, s)))"

definition acpi_get_madt :: "(byte_mem \<Rightarrow> u64 \<Rightarrow> u32) \<Rightarrow> 'a acpi_t_scheme \<Rightarrow> (u64 \<times> u64) option" where
  "acpi_get_madt tlen s =
     (let m = find_table tlen SIG_APIC s in if m = 0 then None else Some (m, ucast (tlen (acpi_mem s) m)))"

definition acpi_get_lapic_count :: "(byte_mem \<Rightarrow> u64 \<Rightarrow> u32) \<Rightarrow> 'a acpi_t_scheme \<Rightarrow> u32 option" where
  "acpi_get_lapic_count tlen s =
     (case acpi_get_madt tlen s of None \<Rightarrow> Some 0
      | Some (addr, sz) \<Rightarrow> madt_count (acpi_mem s) MADT_LAPIC (addr + sizeof_madt) (addr + sz) 0)"

definition acpi_get_ioapic_count :: "(byte_mem \<Rightarrow> u64 \<Rightarrow> u32) \<Rightarrow> 'a acpi_t_scheme \<Rightarrow> u32 option" where
  "acpi_get_ioapic_count tlen s =
     (case acpi_get_madt tlen s of None \<Rightarrow> Some 0
      | Some (addr, sz) \<Rightarrow> madt_count (acpi_mem s) MADT_IOAPIC (addr + sizeof_madt) (addr + sz) 0)"

section \<open>Power\<close>

text \<open>The control register of the fixed description table is at offset 63 of the packed structure.
  The result says whether the processor halts after the write.\<close>

definition acpi_poweroff :: "('a acpi_t_scheme, bool) state" where
  "acpi_poweroff = do {
     s \<leftarrow> State_Monad.get;
     if fadt s = 0 then State_Monad.return False
     else do {
       let pm1a_cnt = (ucast (load_le (acpi_mem s) (fadt s + 63) 4 :: u32) :: u16);
       let slp_typa = (0 :: u16);
       outw pm1a_cnt (slp_typa OR push_bit 10 5 OR push_bit 13 1);
       State_Monad.return True } }"

definition acpi_reboot :: "('a acpi_t_scheme, bool) state" where
  "acpi_reboot = do { outb 0x64 0xFE; State_Monad.return True }"

section \<open>Walking well-formed and malformed tables\<close>

type_synonym madt_entry = "u8 \<times> u8 list"

definition entry_bytes :: "madt_entry \<Rightarrow> u8 list" where
  "entry_bytes e = fst e # of_nat (length (snd e) + 2) # snd e"

definition entry_ok :: "madt_entry \<Rightarrow> bool" where
  "entry_ok e \<longleftrightarrow> length (snd e) + 2 < 256"

definition madt_bytes :: "madt_entry list \<Rightarrow> u8 list" where
  "madt_bytes es = concat (map entry_bytes es)"

definition count_type :: "u8 \<Rightarrow> madt_entry list \<Rightarrow> nat" where
  "count_type ty es = length (filter (\<lambda>e. fst e = ty) es)"

lemma mem_is_append: "mem_is m a (xs @ ys) \<longleftrightarrow> mem_is m a xs \<and> mem_is m (a + of_nat (length xs)) ys"
proof -
  have "map (\<lambda>i. m (a + of_nat i)) [length xs..<length xs + length ys] = map (\<lambda>i. m (a + of_nat (length xs) + of_nat i)) [0..<length ys]"
    by (rule nth_equalityI) (simp_all add: algebra_simps)
  moreover have "[0..<length xs + length ys] = [0..<length xs] @ [length xs..<length xs + length ys]"
    by (rule upt_add_eq_append) simp
  ultimately show ?thesis by (simp add: mem_is_def)
qed

lemma mem_is_Cons: "mem_is m a (x # xs) \<longleftrightarrow> m a = x \<and> mem_is m (a + 1) xs"
  using mem_is_append [of m a "[x]" xs] by (simp add: mem_is_def)

lemma entry_step:
  assumes "mem_is m p (madt_bytes (e # es))" "entry_ok e" "unat p + length (madt_bytes (e # es)) < 2 ^ 64"
  defines "n \<equiv> length (snd e) + 2"
  shows "m p = fst e" "p + ucast (m (p + 1)) = p + of_nat n" "mem_is m (p + of_nat n) (madt_bytes es)"
    "unat (p + of_nat n) = unat p + n" "length (madt_bytes (e # es)) = n + length (madt_bytes es)"
proof -
  have l: "length (entry_bytes e) = n" by (simp add: entry_bytes_def n_def)
  then show len: "length (madt_bytes (e # es)) = n + length (madt_bytes es)" by (simp add: madt_bytes_def)
  have "mem_is m p (entry_bytes e)" "mem_is m (p + of_nat n) (madt_bytes es)"
    using assms(1) l by (simp_all add: madt_bytes_def mem_is_append)
  then show "m p = fst e" "mem_is m (p + of_nat n) (madt_bytes es)" and "p + ucast (m (p + 1)) = p + of_nat n"
    using assms(2) by (simp_all add: entry_bytes_def mem_is_Cons entry_ok_def n_def word_unat_eq_iff unsigned_ucast_eq unat_of_nat
        take_bit_nat_eq_self unat_word_ariths del: of_nat_add)
  have "n < 256" using assms(2) by (simp add: entry_ok_def n_def)
  then have "unat (of_nat n :: u64) = n" by (simp add: unat_of_nat take_bit_nat_eq_self)
  then show "unat (p + of_nat n) = unat p + n" using assms(3) len by (simp add: unat_word_ariths)
qed

lemma madt_count_prefix:
  assumes "mem_is m p (madt_bytes es)" "\<And>e. e \<in> set es \<Longrightarrow> entry_ok e" "unat p + length (madt_bytes es) < 2 ^ 64"
    "unat p + length (madt_bytes es) \<le> unat stop"
  shows "madt_count m ty p stop c = madt_count m ty (p + of_nat (length (madt_bytes es))) stop (c + of_nat (count_type ty es))"
  using assms
proof (induction es arbitrary: p c)
  case Nil
  then show ?case by (simp add: count_type_def madt_bytes_def)
next
  case (Cons e es)
  let ?n = "length (snd e) + 2"
  note st = entry_step [OF Cons.prems(1) Cons.prems(2) [of e] Cons.prems(3), simplified]
  let ?one = "if fst e = ty then 1 else 0"
  have "p < stop" using Cons.prems(4) st(5) by (simp add: word_less_nat_alt)
  then have "madt_count m ty p stop c = madt_count m ty (p + of_nat ?n) stop (c + ?one)"
    using st(1,2) by (subst madt_count.simps) simp
  also have "\<dots> = madt_count m ty (p + of_nat ?n + of_nat (length (madt_bytes es))) stop (c + ?one + of_nat (count_type ty es))"
    using Cons.prems(2,3,4) st by (intro Cons.IH) auto
  also have "p + of_nat ?n + of_nat (length (madt_bytes es)) = p + of_nat (length (madt_bytes (e # es)))"
    unfolding st(5) by simp
  also have "c + ?one + of_nat (count_type ty es) = c + of_nat (count_type ty (e # es))" by (simp add: count_type_def)
  finally show ?case .
qed

text \<open>A table with an entry of length 0 is never left.\<close>

lemma madt_count_zero_length:
  assumes "madt_count m ty p stop c = Some v"
  shows "\<not> (p < stop \<and> m (p + 1) = 0)"
proof (rule madt_count.raw_induct [where P = "\<lambda>m ty p stop c v. \<not> (p < stop \<and> m (p + 1) = 0)", OF _ assms])
  fix f :: "byte_mem \<Rightarrow> u8 \<Rightarrow> u64 \<Rightarrow> u64 \<Rightarrow> u32 \<Rightarrow> u32 option" and m ty p stop c v
  assume IH: "\<And>m ty p stop c v. f m ty p stop c = Some v \<Longrightarrow> \<not> (p < stop \<and> m (p + 1) = 0)"
    and b: "(if p < stop then f m ty (p + ucast (m (p + 1))) stop (if m p = ty then c + 1 else c) else Some c) = Some v"
  show "\<not> (p < stop \<and> m (p + 1) = 0)"
  proof
    assume z: "p < stop \<and> m (p + 1) = 0"
    with b have "f m ty p stop (if m p = ty then c + 1 else c) = Some v" by simp
    from IH [OF this] z show False by blast
  qed
qed

lemma madt_count_table:
  assumes "mem_is m p (madt_bytes es)" "\<And>e. e \<in> set es \<Longrightarrow> entry_ok e"
    "unat p + length (madt_bytes es) + rest < 2 ^ 64" "unat stop = unat p + length (madt_bytes es) + rest"
    "0 < rest \<Longrightarrow> m (p + of_nat (length (madt_bytes es)) + 1) = 0"
  shows "madt_count m ty p stop 0 = (if rest = 0 then Some (of_nat (count_type ty es)) else None)"
proof -
  let ?q = "p + of_nat (length (madt_bytes es))"
  have q: "unat ?q = unat p + length (madt_bytes es)"
    using assms(3) by (simp add: unat_word_ariths unat_of_nat take_bit_nat_eq_self)
  have "madt_count m ty p stop 0 = madt_count m ty ?q stop (of_nat (count_type ty es))"
    using madt_count_prefix [OF assms(1,2), of stop ty 0] assms(3,4) by simp
  moreover have "madt_count m ty ?q stop c = Some c" if "rest = 0" for c
    by (subst madt_count.simps) (simp add: word_less_nat_alt q assms(4) that)
  moreover have "madt_count m ty ?q stop c = None" if "rest \<noteq> 0" for c
  proof -
    have "?q < stop \<and> m (?q + 1) = 0" using that assms(5) by (simp add: word_less_nat_alt q assms(4))
    then show ?thesis using madt_count_zero_length by (metis not_Some_eq)
  qed
  ultimately show ?thesis by simp
qed

text \<open>C37: When the interrupt controller table holds a sequence of well-formed entries, the two counting functions return the
  number of local and of I/O interrupt controllers among them; when such a sequence is followed, inside the table, by an
  entry whose length byte is 0, neither of them ever returns.\<close>

theorem acpi_counts_controllers:
  assumes "acpi_get_madt tlen s = Some (addr, sz)" "mem_is (acpi_mem s) (addr + sizeof_madt) (madt_bytes es)"
    "list_all entry_ok es" "unat addr + 43 + length (madt_bytes es) + rest < 2 ^ 64" "unat sz = 43 + length (madt_bytes es) + rest"
    "0 < rest \<Longrightarrow> acpi_mem s (addr + sizeof_madt + of_nat (length (madt_bytes es)) + 1) = 0"
  shows "acpi_get_lapic_count tlen s = (if rest = 0 then Some (of_nat (count_type MADT_LAPIC es)) else None)
    \<and> acpi_get_ioapic_count tlen s = (if rest = 0 then Some (of_nat (count_type MADT_IOAPIC es)) else None)"
proof -
  have p: "unat (addr + sizeof_madt) = unat addr + 43" using assms(4) by (simp add: unat_word_ariths)
  have "unat (addr + sz) = unat (addr + sizeof_madt) + length (madt_bytes es) + rest"
    using assms(4,5) unfolding p by (simp add: unat_word_ariths)
  moreover have "unat (addr + sizeof_madt) + length (madt_bytes es) + rest < 2 ^ 64" using assms(4) unfolding p .
  ultimately have "madt_count (acpi_mem s) ty (addr + sizeof_madt) (addr + sz) 0 = (if rest = 0 then Some (of_nat (count_type ty es)) else None)" for ty
    using assms(3) by (intro madt_count_table [OF assms(2) _ _ _ assms(6)]) (simp_all add: list_all_iff)
  with assms(1) show ?thesis by (simp add: acpi_get_lapic_count_def acpi_get_ioapic_count_def)
qed

text \<open>A root table at \<open>0x2000\<close> with one entry, the interrupt controller table at \<open>0x3000\<close>, which has one
  controller of each kind.\<close>

definition demo_acpi_mem :: byte_mem where
  "demo_acpi_mem a =
     (if a = 0x1011 then 0x20 else if a = 0x2000 then 0xD0 else if a = 0x2024 then 0x30
      else if a = 0x3000 then 0x41 else if a = 0x3001 then 0x50 else if a = 0x3002 then 0x49 else if a = 0x3003 then 0x43
      else if a = 0x3004 then 0xCE else if a = 0x302C then 8 else if a = 0x3033 then 1 else if a = 0x3034 then 12 else 0)"

definition demo_tlen :: "byte_mem \<Rightarrow> u64 \<Rightarrow> u32" where
  "demo_tlen m a = (if a = 0x2000 then 39 else if a = 0x3000 then 63 else 0)"

definition demo_acpi :: acpi_t where
  "demo_acpi = \<lparr>hw_log = [], hw_dev = (\<lambda>_. 0), acpi_mem = demo_acpi_mem, rsdp = 0x1000, fadt = 0\<rparr>"

theorem acpi_counts_controllers_witness:
  "acpi_get_lapic_count demo_tlen demo_acpi = Some 1 \<and> acpi_get_ioapic_count demo_tlen demo_acpi = Some 1"
proof -
  let ?es = "[(0, [0, 0, 0, 0, 0, 0]), (1, [0, 0, 0, 0, 0, 0, 0, 0, 0, 0])] :: madt_entry list"
  have a: "acpi_get_madt demo_tlen demo_acpi = Some (0x3000, 63)" by code_simp
  have m: "mem_is (acpi_mem demo_acpi) (0x3000 + sizeof_madt) (madt_bytes ?es)" by code_simp
  have l: "length (madt_bytes ?es) = 20" "list_all entry_ok ?es"
    by (simp_all add: madt_bytes_def entry_bytes_def entry_ok_def)
  have "count_type MADT_LAPIC ?es = 1" "count_type MADT_IOAPIC ?es = 1" by (simp_all add: count_type_def)
  with acpi_counts_controllers [OF a m l(2), of 0] l(1) show ?thesis by simp
qed

end
