(* ===== verification/Cpu.thy ===== *)
theory Cpu
  imports Io
begin

text \<open>
  Processor detection (\<^verbatim>\<open>src/kernel/arch/x86_64/cpu.c\<close>, \<^verbatim>\<open>cpu.h\<close>).  The answers of the
  \<^verbatim>\<open>cpuid\<close> instruction are a function of leaf and subleaf; the model-specific register that
  holds the x2APIC identifier is read through the device history of \<^theory_text>\<open>Io\<close>.
\<close>

section \<open>The feature structure\<close>

text \<open>\<^verbatim>\<open>cpu_features_t\<close>, one extension for each of the groups the structure has.\<close>

record ft_standard_t =
  ft_fpu :: bool
  ft_mmx :: bool
  ft_sse :: bool
  ft_sse2 :: bool
  ft_sse3 :: bool
  ft_ssse3 :: bool
  ft_sse4_1 :: bool
  ft_sse4_2 :: bool
  ft_avx :: bool
  ft_avx2 :: bool
  ft_avx512f :: bool
  ft_avx512bw :: bool
  ft_avx512dq :: bool
  ft_avx512vl :: bool
  ft_aes :: bool
  ft_sha :: bool
  ft_rdrand :: bool
  ft_rdseed :: bool

record ft_guard_t = ft_standard_t +
  ft_svm :: bool
  ft_vmx :: bool
  ft_smep :: bool
  ft_smap :: bool
  ft_umip :: bool
  ft_pku :: bool
  ft_ospke :: bool
  ft_nx :: bool

record ft_memory_t = ft_guard_t +
  ft_pae :: bool
  ft_pse :: bool
  ft_pge :: bool
  ft_pcid :: bool
  ft_invpcid :: bool
  ft_fsgsbase :: bool
  ft_mtrr :: bool
  ft_pat :: bool
  ft_x2apic :: bool

record ft_power_t = ft_memory_t +
  ft_acpi :: bool
  ft_hwp :: bool
  ft_eist :: bool
  ft_turbo :: bool

record cpu_features_t = ft_power_t +
  ft_cache_line_size :: u32
  ft_l1d_cache_kb :: u32
  ft_l1i_cache_kb :: u32
  ft_l2_cache_kb :: u32
  ft_l3_cache_kb :: u32
  ft_apic_id :: u32
  ft_x2apic_id :: u32
  ft_package_id :: u32
  ft_core_id :: u32
  ft_thread_id :: u32
  ft_core_count :: u32
  ft_thread_count :: u32

definition zero_features :: cpu_features_t where
  "zero_features =
    \<lparr>ft_fpu = False, ft_mmx = False, ft_sse = False, ft_sse2 = False, ft_sse3 = False, ft_ssse3 = False,
     ft_sse4_1 = False, ft_sse4_2 = False, ft_avx = False, ft_avx2 = False, ft_avx512f = False, ft_avx512bw = False,
     ft_avx512dq = False, ft_avx512vl = False, ft_aes = False, ft_sha = False, ft_rdrand = False, ft_rdseed = False,
     ft_svm = False, ft_vmx = False, ft_smep = False, ft_smap = False, ft_umip = False, ft_pku = False,
     ft_ospke = False, ft_nx = False, ft_pae = False, ft_pse = False, ft_pge = False, ft_pcid = False,
     ft_invpcid = False, ft_fsgsbase = False, ft_mtrr = False, ft_pat = False, ft_x2apic = False,
     ft_acpi = False, ft_hwp = False, ft_eist = False, ft_turbo = False,
     ft_cache_line_size = 0, ft_l1d_cache_kb = 0, ft_l1i_cache_kb = 0, ft_l2_cache_kb = 0, ft_l3_cache_kb = 0,
     ft_apic_id = 0, ft_x2apic_id = 0, ft_package_id = 0, ft_core_id = 0, ft_thread_id = 0,
     ft_core_count = 0, ft_thread_count = 0\<rparr>"

record percpu_t =
  pc_apic_id :: u32
  pc_cpu_index :: u32
  pc_online :: bool
  pc_boot_cpu :: bool
  pc_idle_ticks :: u64
  pc_irq_count :: u64
  pc_context_switches :: u64
  pc_kernel_stack :: u64
  pc_kernel_stack_top :: u64
  pc_features :: cpu_features_t
  pc_sched_data :: u64
  pc_tss_addr :: u64
  pc_next :: u32

definition zero_percpu :: percpu_t where
  "zero_percpu =
    \<lparr>pc_apic_id = 0, pc_cpu_index = 0, pc_online = False, pc_boot_cpu = False, pc_idle_ticks = 0, pc_irq_count = 0,
     pc_context_switches = 0, pc_kernel_stack = 0, pc_kernel_stack_top = 0, pc_features = zero_features,
     pc_sched_data = 0, pc_tss_addr = 0, pc_next = 0\<rparr>"

abbreviation MAX_CPU_BLOCKS :: u32 where "MAX_CPU_BLOCKS \<equiv> 256"

record cpu_t = hw_t +
  percpu_array :: "u32 \<Rightarrow> percpu_t"
  cpu_count :: u32

type_synonym cpuid_fun = "u32 \<Rightarrow> u32 \<Rightarrow> u32 \<times> u32 \<times> u32 \<times> u32"

section \<open>Detection\<close>

text \<open>The feature bits of leaf 1.\<close>

definition leaf1_features :: "u32 \<Rightarrow> u32 \<Rightarrow> u32 \<Rightarrow> cpu_features_t \<Rightarrow> cpu_features_t" where
  "leaf1_features b c d feat = feat\<lparr>
     ft_fpu := bit d 0, ft_pse := bit d 3, ft_pae := bit d 6, ft_pge := bit d 13, ft_mtrr := bit d 12,
     ft_pat := bit d 16, ft_mmx := bit d 23, ft_nx := bit d 20, ft_sse := bit d 25, ft_sse2 := bit d 26,
     ft_sse3 := bit c 0, ft_ssse3 := bit c 9, ft_sse4_1 := bit c 19, ft_sse4_2 := bit c 20, ft_aes := bit c 25,
     ft_avx := bit c 28, ft_rdrand := bit c 30, ft_vmx := bit c 5, ft_svm := bit c 2, ft_smep := bit c 7,
     ft_smap := bit c 20, ft_umip := bit c 2, ft_pcid := bit c 17, ft_x2apic := bit c 21, ft_fsgsbase := bit c 24,
     ft_pku := bit c 22, ft_ospke := bit c 23, ft_invpcid := bit c 10,
     ft_apic_id := drop_bit 24 b AND 0xFF\<rparr>"

text \<open>One round of the loop over the cache descriptors of leaf 4.\<close>

definition cache_round :: "u32 \<Rightarrow> u32 \<Rightarrow> cpu_features_t \<Rightarrow> cpu_features_t" where
  "cache_round a b feat =
     (let cache_type = a AND 0x1F;
          cnt = drop_bit 14 a AND 0xFFF;
          size_kb = (drop_bit 12 b AND 0xFFFFF) * (a AND 0xFFF) * cnt div 1024
      in if cache_type = 1 then feat\<lparr>ft_l1d_cache_kb := size_kb\<rparr>
         else if cache_type = 2 then feat\<lparr>ft_l1i_cache_kb := size_kb\<rparr>
         else if cache_type = 3 then feat\<lparr>ft_l2_cache_kb := size_kb\<rparr>
         else if cache_type = 4 then feat\<lparr>ft_l3_cache_kb := size_kb\<rparr>
         else feat)"

definition cache_features :: "cpuid_fun \<Rightarrow> cpu_features_t \<Rightarrow> cpu_features_t" where
  "cache_features cpuid feat =
     (let round = (\<lambda>i f. let (a, b, c, d) = cpuid 4 i in cache_round a b f);
          f = round 3 (round 2 (round 1 (round 0 feat)));
          (a, b, c, d) = cpuid 4 3
      in f\<lparr>ft_cache_line_size := (b AND 0xFFF) + 1\<rparr>)"

definition leaf7_features :: "u32 \<Rightarrow> cpu_features_t \<Rightarrow> cpu_features_t" where
  "leaf7_features b feat = feat\<lparr>
     ft_avx2 := bit b 5, ft_avx512f := bit b 16, ft_avx512bw := bit b 30, ft_avx512dq := bit b 17,
     ft_avx512vl := bit b 31, ft_sha := bit b 29, ft_rdseed := bit b 18, ft_hwp := bit b 7\<rparr>"

text \<open>The two blocks on the extended leaves.\<close>

definition extended_features :: "cpuid_fun \<Rightarrow> cpu_features_t \<Rightarrow> cpu_features_t" where
  "extended_features cpuid feat =
     (let (max_ext, b, c, d) = cpuid 0x80000000 0;
          f1 = (if max_ext \<ge> 0x80000001 then
                  let (a, b, c, d) = cpuid 0x80000001 0 in feat\<lparr>ft_eist := bit d 7, ft_turbo := bit d 7\<rparr>
                else feat)
      in if max_ext \<ge> 0x80000008 then
           let (a, b, c, d) = cpuid 0x80000008 0
           in f1\<lparr>ft_core_count := (a AND 0xFF) + 1, ft_thread_count := (drop_bit 12 b AND 0xF) + 1\<rparr>
         else f1)"

definition cpu_detect_features :: "cpuid_fun \<Rightarrow> ('a hw_t_scheme, cpu_features_t) state" where
  "cpu_detect_features cpuid = do {
     let max_basic = fst (cpuid 0 0);
     f1 \<leftarrow> (if max_basic \<ge> 1 then do {
              let (a, b, c, d) = cpuid 1 0;
              let f = leaf1_features b c d zero_features;
              if ft_x2apic f then do { m \<leftarrow> read_msr 0x802; State_Monad.return (f\<lparr>ft_x2apic_id := ucast m\<rparr>) }
              else State_Monad.return (f\<lparr>ft_x2apic_id := ft_apic_id f\<rparr>) }
            else State_Monad.return zero_features);
     let f2 = (if max_basic \<ge> 4 then cache_features cpuid f1 else f1);
     let f3 = (if max_basic \<ge> 7 then (let (a, b, c, d) = cpuid 7 0 in leaf7_features b f2) else f2);
     State_Monad.return (extended_features cpuid f3) }"

definition cpu_detect_all :: "cpuid_fun \<Rightarrow> ('a cpu_t_scheme, unit) state" where
  "cpu_detect_all cpuid = do {
     bsp_feat \<leftarrow> cpu_detect_features cpuid;
     State_Monad.update (\<lambda>s. s\<lparr>percpu_array := (percpu_array s)(0 := zero_percpu\<lparr>
        pc_apic_id := ft_apic_id bsp_feat, pc_cpu_index := 0, pc_online := True, pc_boot_cpu := True,
        pc_features := bsp_feat\<rparr>)\<rparr>);
     State_Monad.update (\<lambda>s. s\<lparr>cpu_count := 1\<rparr>);
     State_Monad.update (\<lambda>s. s\<lparr>cpu_count := ft_core_count bsp_feat\<rparr>);
     State_Monad.update (\<lambda>s. if cpu_count s > MAX_CPU_BLOCKS then s\<lparr>cpu_count := MAX_CPU_BLOCKS\<rparr> else s) }"

definition cpu_get_apic_id :: "u32 \<Rightarrow> 'a cpu_t_scheme \<Rightarrow> u32" where
  "cpu_get_apic_id idx s = (if idx \<ge> cpu_count s then 0xFFFFFFFF else pc_apic_id (percpu_array s idx))"

definition cpu_get_percpu :: "u32 \<Rightarrow> 'a cpu_t_scheme \<Rightarrow> percpu_t option" where
  "cpu_get_percpu idx s = (if idx \<ge> cpu_count s then None else Some (percpu_array s idx))"

section \<open>What detection reports\<close>

lemma cache_round_core [simp]:
  "ft_core_count (cache_round a b f) = ft_core_count f"
  "ft_apic_id (cache_round a b f) = ft_apic_id f"
  "ft_smap (cache_round a b f) = ft_smap f" "ft_sse4_2 (cache_round a b f) = ft_sse4_2 f"
  "ft_nx (cache_round a b f) = ft_nx f"
  by (simp_all add: cache_round_def Let_def)

lemma cache_features_core [simp]:
  "ft_core_count (cache_features cpuid f) = ft_core_count f"
  "ft_apic_id (cache_features cpuid f) = ft_apic_id f"
  "ft_smap (cache_features cpuid f) = ft_smap f" "ft_sse4_2 (cache_features cpuid f) = ft_sse4_2 f"
  "ft_nx (cache_features cpuid f) = ft_nx f"
  by (simp_all add: cache_features_def Let_def split: prod.splits)

lemma leaf7_core [simp]:
  "ft_core_count (leaf7_features b f) = ft_core_count f" "ft_apic_id (leaf7_features b f) = ft_apic_id f"
  "ft_smap (leaf7_features b f) = ft_smap f" "ft_sse4_2 (leaf7_features b f) = ft_sse4_2 f"
  "ft_nx (leaf7_features b f) = ft_nx f"
  by (simp_all add: leaf7_features_def)

lemma extended_core [simp]:
  "ft_apic_id (extended_features cpuid f) = ft_apic_id f" "ft_smap (extended_features cpuid f) = ft_smap f"
  "ft_sse4_2 (extended_features cpuid f) = ft_sse4_2 f" "ft_nx (extended_features cpuid f) = ft_nx f"
  by (simp_all add: extended_features_def Let_def split: prod.splits)

lemma extended_count:
  "ft_core_count (extended_features cpuid f) =
     (if fst (cpuid 0x80000000 0) \<ge> 0x80000008 then (fst (cpuid 0x80000008 0) AND 0xFF) + 1 else ft_core_count f)"
  by (simp add: extended_features_def Let_def split: prod.splits)

text \<open>The core count comes from the byte of leaf 0x80000008 that holds the width of a physical address; without that
  leaf it is zero.\<close>

lemma detect_core_count:
  "ft_core_count (fst (run_state (cpu_detect_features cpuid) s)) =
     (if fst (cpuid 0x80000000 0) \<ge> 0x80000008 then (fst (cpuid 0x80000008 0) AND 0xFF) + 1 else 0)"
  by (simp add: cpu_detect_features_def Let_def extended_count read_msr_def leaf1_features_def zero_features_def
      split: prod.splits)

text \<open>SMAP is reported exactly when SSE4.2 is, whatever leaf 7 says; NX is a bit of leaf 1.\<close>

lemma smap_is_sse4_2:
  "ft_smap (fst (run_state (cpu_detect_features cpuid) s)) = ft_sse4_2 (fst (run_state (cpu_detect_features cpuid) s))"
  by (simp add: cpu_detect_features_def Let_def read_msr_def leaf1_features_def zero_features_def split: prod.splits)

lemma nx_from_leaf1:
  "ft_nx (fst (run_state (cpu_detect_features cpuid) s)) \<longleftrightarrow>
     fst (cpuid 0 0) \<ge> 1 \<and> bit (snd (snd (snd (cpuid 1 0)))) 20"
  by (simp add: cpu_detect_features_def Let_def read_msr_def leaf1_features_def zero_features_def split: prod.splits)

lemma byte_plus_one: "((a :: u32) AND 0xFF) + 1 \<le> 256"
proof -
  have "(a AND 0xFF) \<le> 0xFF" by (rule word_and_le1)
  then show ?thesis by (simp add: word_le_nat_alt unat_word_ariths)
qed

text \<open>The registered processors are blocks of the array; the boot processor's block is filled in, but it is handed out
  only when the core count was found.\<close>

lemma cpu_detect_all_spec:
  fixes s :: "'a cpu_t_scheme" and cpuid :: cpuid_fun
  defines "t \<equiv> snd (run_state (cpu_detect_all cpuid) s)"
  shows "cpu_count t = (if fst (cpuid 0x80000000 0) \<ge> 0x80000008 then (fst (cpuid 0x80000008 0) AND 0xFF) + 1 else 0)"
    and "cpu_count t \<le> MAX_CPU_BLOCKS"
    and "pc_online (percpu_array t 0) \<and> pc_boot_cpu (percpu_array t 0) \<and> pc_cpu_index (percpu_array t 0) = 0"
    and "cpu_get_percpu idx t = Some p \<Longrightarrow> idx < MAX_CPU_BLOCKS"
proof -
  let ?c = "ft_core_count (fst (run_state (cpu_detect_features cpuid) s))"
  have "?c \<le> MAX_CPU_BLOCKS" by (simp add: detect_core_count byte_plus_one)
  moreover have "cpu_count t = (if ?c > MAX_CPU_BLOCKS then MAX_CPU_BLOCKS else ?c)"
    by (simp add: t_def cpu_detect_all_def split: prod.splits)
  ultimately show "cpu_count t =
      (if fst (cpuid 0x80000000 0) \<ge> 0x80000008 then (fst (cpuid 0x80000008 0) AND 0xFF) + 1 else 0)"
    by (simp only: leD if_False) (rule detect_core_count)
  then show le: "cpu_count t \<le> MAX_CPU_BLOCKS" by (simp add: byte_plus_one)
  show "pc_online (percpu_array t 0) \<and> pc_boot_cpu (percpu_array t 0) \<and> pc_cpu_index (percpu_array t 0) = 0"
    by (simp add: t_def cpu_detect_all_def split: prod.splits)
  show "cpu_get_percpu idx t = Some p \<Longrightarrow> idx < MAX_CPU_BLOCKS"
    using le by (simp add: cpu_get_percpu_def linorder_not_le split: if_splits)
qed

end
