(* ===== verification/Smp.thy ===== *)
theory Smp
  imports Cpu Apic Elf
begin

text \<open>
  Starting the other processors (\<^verbatim>\<open>src/kernel/arch/x86_64/smp.c\<close>).  The static variables extend the state of
  the interrupt controller.  A started processor ends in an idle loop: the model of its entry point is the state in
  which it idles, and none when its index falls outside the block array.  The value of the ready counter that the
  boot processor sees in each round of its waiting loop is an argument, since other processors write it.
\<close>

record smp_t = apic_t +
  percpu_blocks :: "nat \<Rightarrow> percpu_t"
  cpu_index_map :: "nat \<Rightarrow> u32"
  online_cpus :: nat
  ap_ready_count :: nat
  smp_mem :: byte_mem

abbreviation SMP_CPUS :: nat where "SMP_CPUS \<equiv> 256"
abbreviation AP_TRAMPOLINE_ADDR :: u64 where "AP_TRAMPOLINE_ADDR \<equiv> 0x8000"
abbreviation MSR_GS_BASE :: u32 where "MSR_GS_BASE \<equiv> 0xC0000101"
abbreviation percpu_size :: u64 where "percpu_size \<equiv> 168"

section \<open>Operations\<close>

definition index_of_apic :: "u32 \<Rightarrow> 'a smp_t_scheme \<Rightarrow> nat" where
  "index_of_apic apic_id s =
     (case first_idx (\<lambda>i. cpu_index_map s i = apic_id) SMP_CPUS of Some i \<Rightarrow> i | None \<Rightarrow> 0)"

definition smp_current_cpu :: "('a smp_t_scheme, nat) state" where
  "smp_current_cpu = do {
     apic_id \<leftarrow> apic_get_id;
     s \<leftarrow> State_Monad.get;
     State_Monad.return (index_of_apic apic_id s) }"

text \<open>The four assignments to a block and the write of its address to the GS base register.\<close>

definition set_block :: "u64 \<Rightarrow> nat \<Rightarrow> u32 \<Rightarrow> bool \<Rightarrow> ('a smp_t_scheme, unit) state" where
  "set_block blocks cpu_index apic_id boot = do {
     State_Monad.update (\<lambda>s. s\<lparr>percpu_blocks := (percpu_blocks s)(cpu_index := (percpu_blocks s cpu_index)\<lparr>
        pc_apic_id := apic_id, pc_cpu_index := of_nat cpu_index, pc_online := True, pc_boot_cpu := boot\<rparr>)\<rparr>);
     write_msr MSR_GS_BASE (blocks + percpu_size * of_nat cpu_index) }"

definition ap_register :: "u64 \<Rightarrow> nat \<Rightarrow> u32 \<Rightarrow> ('a smp_t_scheme, unit) state" where
  "ap_register blocks cpu_index apic_id = do {
     set_block blocks cpu_index apic_id False;
     apic_init;
     State_Monad.update (\<lambda>s. s\<lparr>cpu_index_map := (cpu_index_map s)(cpu_index := apic_id)\<rparr>);
     State_Monad.update (\<lambda>s. s\<lparr>ap_ready_count := ap_ready_count s + 1\<rparr>) }"

definition ap_entry :: "u64 \<Rightarrow> u32 \<Rightarrow> 'a smp_t_scheme \<Rightarrow> 'a smp_t_scheme option" where
  "ap_entry blocks apic_id s =
     (let cpu_index = online_cpus s;
          s1 = s\<lparr>online_cpus := online_cpus s + 1\<rparr>
      in if cpu_index < SMP_CPUS then Some (snd (run_state (ap_register blocks cpu_index apic_id) s1)) else None)"

text \<open>The waiting loop: \<open>ready i\<close> is the counter as round \<open>i\<close> reads it.\<close>

fun boot_rounds :: "(nat \<Rightarrow> nat) \<Rightarrow> nat \<Rightarrow> nat \<Rightarrow> 'a smp_t_scheme \<Rightarrow> 'a smp_t_scheme option" where
  "boot_rounds ready i 0 s = Some s"
| "boot_rounds ready i (Suc n) s =
     (if ready i \<ge> SMP_CPUS - 1 then Some s
      else case apic_send_ipi_all (ucast (AP_TRAMPOLINE_ADDR div 4096)) s of None \<Rightarrow> None
           | Some s' \<Rightarrow> boot_rounds ready (Suc i) n s')"

definition smp_boot_aps :: "u64 \<Rightarrow> u64 \<Rightarrow> (nat \<Rightarrow> nat) \<Rightarrow> 'a smp_t_scheme \<Rightarrow> 'a smp_t_scheme option" where
  "smp_boot_aps tramp_start tramp_end ready s =
     (let tramp_size = tramp_end - tramp_start
      in if tramp_size > 0x1000 then Some s
         else
           let s1 = s\<lparr>smp_mem := memcpy AP_TRAMPOLINE_ADDR tramp_start tramp_size (smp_mem s)\<rparr>
           in case apic_send_ipi_all 0 s1 of None \<Rightarrow> None
              | Some s2 \<Rightarrow>
                  (case apic_send_ipi_all (ucast (AP_TRAMPOLINE_ADDR div 4096)) (snd (run_state io_wait s2)) of
                     None \<Rightarrow> None
                   | Some s3 \<Rightarrow> boot_rounds ready 0 100 (snd (run_state io_wait s3))))"

definition smp_send_ipi :: "nat \<Rightarrow> u8 \<Rightarrow> 'a smp_t_scheme \<Rightarrow> 'a smp_t_scheme option" where
  "smp_send_ipi cpu vector s = (if cpu < SMP_CPUS then apic_send_ipi (cpu_index_map s cpu) vector s else Some s)"

definition smp_send_broadcast :: "u8 \<Rightarrow> 'a smp_t_scheme \<Rightarrow> 'a smp_t_scheme option" where
  "smp_send_broadcast vector s = apic_send_ipi_all_except_self vector s"

definition smp_percpu_init :: "u64 \<Rightarrow> nat \<Rightarrow> ('a smp_t_scheme, unit) state" where
  "smp_percpu_init blocks cpu_index = do {
     apic_id \<leftarrow> apic_get_id;
     set_block blocks cpu_index apic_id True;
     State_Monad.update (\<lambda>s. s\<lparr>cpu_index_map := (cpu_index_map s)(cpu_index := apic_id)\<rparr>) }"

definition smp_init :: "u64 \<Rightarrow> u64 \<Rightarrow> u64 \<Rightarrow> (nat \<Rightarrow> nat) \<Rightarrow> 'a smp_t_scheme \<Rightarrow> 'a smp_t_scheme option" where
  "smp_init blocks tramp_start tramp_end ready s =
     smp_boot_aps tramp_start tramp_end ready
       (snd (run_state (smp_percpu_init blocks 0) (s\<lparr>cpu_index_map := (\<lambda>_. 0xFFFFFFFF)\<rparr>)))"

section \<open>Frame of the controller\<close>

definition keeps :: "('s \<Rightarrow> 'b) \<Rightarrow> ('s, 'c) state \<Rightarrow> bool" where
  "keeps f m \<longleftrightarrow> (\<forall>s. f (snd (run_state m s)) = f s)"

named_theorems keep_intros

lemma keeps_run: "keeps f m \<Longrightarrow> f (snd (run_state m s)) = f s" by (simp add: keeps_def)

lemma keeps_bind [keep_intros]: "keeps f m \<Longrightarrow> (\<And>x. keeps f (g x)) \<Longrightarrow> keeps f (State_Monad.bind m g)"
  by (simp add: keeps_def split: prod.split) (metis snd_conv)

lemma keeps_basic [keep_intros]:
  "keeps f (State_Monad.return x)" "keeps f State_Monad.get" by (simp_all add: keeps_def)

lemma keeps_if [keep_intros]: "keeps f m \<Longrightarrow> keeps f n \<Longrightarrow> keeps f (if b then m else n)" by simp

text \<open>What the boot code of this component observes of a state, besides the controller.\<close>

definition smp_part :: "'a smp_t_scheme \<Rightarrow> (nat \<Rightarrow> u32) \<times> nat \<times> (nat \<Rightarrow> percpu_t) \<times> nat" where
  "smp_part s = (cpu_index_map s, online_cpus s, percpu_blocks s, ap_ready_count s)"

lemma keeps_io [keep_intros]:
  "keeps smp_part (hw_put e)" "keeps smp_part (hw_ask e)"
  "keeps smp_part (State_Monad.update (\<lambda>s. s\<lparr>x2apic_mode := x\<rparr>))"
  "keeps smp_part (State_Monad.update (\<lambda>s. s\<lparr>lapic_base := b\<rparr>))"
  "keeps smp_part (State_Monad.update (\<lambda>s. s\<lparr>lapic_freq_hz := h\<rparr>))"
  by (simp_all add: keeps_def smp_part_def)

lemma keeps_apic_init: "keeps smp_part apic_init"
  unfolding apic_init_def apic_calibrate_def pit_read_def lapic_read_def lapic_write_def io_defs Let_def
  by (intro keep_intros)

lemma keeps_apic_get_id: "keeps smp_part apic_get_id"
  unfolding apic_get_id_def lapic_read_def io_defs by (intro keep_intros)

section \<open>Processors that start one at a time\<close>

lemma smp_part_fields:
  "smp_part t = smp_part s \<Longrightarrow> cpu_index_map t = cpu_index_map s \<and> online_cpus t = online_cpus s
     \<and> percpu_blocks t = percpu_blocks s \<and> ap_ready_count t = ap_ready_count s"
  by (simp add: smp_part_def)

lemma ap_register_effect:
  fixes s :: "'a smp_t_scheme" and blocks :: u64 and v :: nat and a :: u32
  defines "t \<equiv> snd (run_state (ap_register blocks v a) s)"
  shows "cpu_index_map t = (cpu_index_map s)(v := a)" "online_cpus t = online_cpus s"
    "ap_ready_count t = ap_ready_count s + 1"
    "percpu_blocks t = (percpu_blocks s)(v := (percpu_blocks s v)\<lparr>
        pc_apic_id := a, pc_cpu_index := of_nat v, pc_online := True, pc_boot_cpu := False\<rparr>)"
proof -
  let ?s1 = "snd (run_state (set_block blocks v a False) s)"
  let ?s2 = "snd (run_state apic_init ?s1)"
  have f: "cpu_index_map ?s2 = cpu_index_map ?s1 \<and> online_cpus ?s2 = online_cpus ?s1
     \<and> percpu_blocks ?s2 = percpu_blocks ?s1 \<and> ap_ready_count ?s2 = ap_ready_count ?s1"
    by (rule smp_part_fields [OF keeps_run [OF keeps_apic_init]])
  have t: "t = ?s2\<lparr>cpu_index_map := (cpu_index_map ?s2)(v := a), ap_ready_count := ap_ready_count ?s2 + 1\<rparr>"
    by (simp add: t_def ap_register_def split: prod.split)
  show "cpu_index_map t = (cpu_index_map s)(v := a)" "online_cpus t = online_cpus s"
    "ap_ready_count t = ap_ready_count s + 1"
    "percpu_blocks t = (percpu_blocks s)(v := (percpu_blocks s v)\<lparr>
        pc_apic_id := a, pc_cpu_index := of_nat v, pc_online := True, pc_boot_cpu := False\<rparr>)"
    unfolding t using f by (simp_all add: set_block_def write_msr_def)
qed

fun start_aps :: "u64 \<Rightarrow> u32 list \<Rightarrow> 'a smp_t_scheme \<Rightarrow> 'a smp_t_scheme option" where
  "start_aps blocks [] s = Some s"
| "start_aps blocks (a # as) s = (case ap_entry blocks a s of None \<Rightarrow> None | Some s' \<Rightarrow> start_aps blocks as s')"

lemma start_aps_effect:
  assumes "online_cpus s + length as \<le> SMP_CPUS"
  shows "\<exists>s'. start_aps blocks as s = Some s' \<and> online_cpus s' = online_cpus s + length as
    \<and> ap_ready_count s' = ap_ready_count s + length as
    \<and> (\<forall>i. cpu_index_map s' i =
          (if online_cpus s \<le> i \<and> i < online_cpus s + length as then as ! (i - online_cpus s) else cpu_index_map s i))"
  using assms
proof (induction as arbitrary: s)
  case (Cons a as)
  let ?s1 = "s\<lparr>online_cpus := online_cpus s + 1\<rparr>"
  obtain u where u: "u = snd (run_state (ap_register blocks (online_cpus s) a) ?s1)" by blast
  have e: "ap_entry blocks a s = Some u" using Cons.prems by (simp add: ap_entry_def Let_def u)
  have m: "cpu_index_map u = (cpu_index_map s)(online_cpus s := a)" and o: "online_cpus u = online_cpus s + 1"
    and r: "ap_ready_count u = ap_ready_count s + 1"
    unfolding u by (simp_all only: ap_register_effect) simp_all
  from Cons.prems o have "online_cpus u + length as \<le> SMP_CPUS" by simp
  from Cons.IH [OF this] obtain w where w: "start_aps blocks as u = Some w" "online_cpus w = online_cpus u + length as"
    "ap_ready_count w = ap_ready_count u + length as"
    "\<And>i. cpu_index_map w i =
       (if online_cpus u \<le> i \<and> i < online_cpus u + length as then as ! (i - online_cpus u) else cpu_index_map u i)"
    by blast
  have "start_aps blocks (a # as) s = Some w" using e w(1) by simp
  moreover have "cpu_index_map w i =
      (if online_cpus s \<le> i \<and> i < online_cpus s + length (a # as) then (a # as) ! (i - online_cpus s)
       else cpu_index_map s i)" for i
    using w(4) [of i] by (auto simp: m o nth_Cons' le_Suc_eq)
  ultimately show ?case using w(2,3) o r by auto
qed auto

text \<open>Each processor then finds its own index from its controller's identifier.\<close>

lemma index_of_started:
  assumes "online_cpus s = 1" "length as < SMP_CPUS" "distinct (cpu_index_map s 0 # as)"
    and "start_aps blocks as s = Some s'" "k < length as"
  shows "index_of_apic (as ! k) s' = Suc k" and "index_of_apic (cpu_index_map s 0) s' = 0"
proof -
  have m: "cpu_index_map s' i = (if 1 \<le> i \<and> i < 1 + length as then as ! (i - 1) else cpu_index_map s i)" for i
    using start_aps_effect [of s as blocks] assms by simp
  have "first_idx (\<lambda>i. cpu_index_map s' i = as ! k) SMP_CPUS = Some (Suc k)"
    unfolding first_idx_Some_iff
  proof (intro conjI allI impI)
    fix j assume "j < Suc k"
    then show "cpu_index_map s' j \<noteq> as ! k"
      using assms(3,5) m [of j] by (cases j) (auto simp: nth_eq_iff_index_eq)
  qed (use assms m [of "Suc k"] in auto)
  then show "index_of_apic (as ! k) s' = Suc k" by (simp add: index_of_apic_def)
  show "index_of_apic (cpu_index_map s 0) s' = 0" using m [of 0] by (simp add: index_of_apic_def)
qed

section \<open>Processors that start together\<close>

text \<open>
  The increment of \<^verbatim>\<open>online_cpus\<close> is a read and a write of a volatile variable, so entry points that run at
  the same time interleave there.  A configuration is the point each processor has reached and the shared state.
\<close>

datatype ap_pc = Fetch | Bump nat | Register nat | Halted

inductive ap_step :: "u64 \<Rightarrow> u32 list \<Rightarrow> (nat \<Rightarrow> ap_pc) \<times> smp_t \<Rightarrow> (nat \<Rightarrow> ap_pc) \<times> smp_t \<Rightarrow> bool"
  for blocks :: u64 and ids :: "u32 list"
where
  fetch: "i < length ids \<Longrightarrow> pcs i = Fetch \<Longrightarrow>
    ap_step blocks ids (pcs, s) (pcs(i := Bump (online_cpus s)), s)"
| bump: "i < length ids \<Longrightarrow> pcs i = Bump v \<Longrightarrow>
    ap_step blocks ids (pcs, s) (pcs(i := Register v), s\<lparr>online_cpus := v + 1\<rparr>)"
| register: "i < length ids \<Longrightarrow> pcs i = Register v \<Longrightarrow> v < SMP_CPUS \<Longrightarrow>
    ap_step blocks ids (pcs, s) (pcs(i := Halted), snd (run_state (ap_register blocks v (ids ! i)) s))"

inductive_simps ap_step_simps: "ap_step blocks ids c c'"

definition bumped :: "nat \<Rightarrow> (nat \<Rightarrow> ap_pc) \<Rightarrow> nat set" where
  "bumped n pcs = {i. i < n \<and> (pcs i = Halted \<or> (\<exists>v. pcs i = Register v))}"

definition ap_inv :: "u32 list \<Rightarrow> u32 \<Rightarrow> (nat \<Rightarrow> ap_pc) \<times> smp_t \<Rightarrow> bool" where
  "ap_inv ids bsp c \<longleftrightarrow>
     (let (pcs, s) = c; n = length ids in
      1 \<le> online_cpus s \<and> online_cpus s \<le> 1 + card (bumped n pcs)
      \<and> (\<forall>i<n. \<forall>v. pcs i = Bump v \<longrightarrow> 1 \<le> v \<and> v \<le> 1 + card (bumped n pcs))
      \<and> (\<forall>i<n. \<forall>v. pcs i = Register v \<longrightarrow> 1 \<le> v \<and> v \<le> n)
      \<and> cpu_index_map s 0 = bsp
      \<and> (\<forall>k. 1 \<le> k \<longrightarrow> cpu_index_map s k = 0xFFFFFFFF \<or> k \<le> n \<and> cpu_index_map s k \<in> set ids))"

lemma finite_bumped [simp]: "finite (bumped n pcs)" by (simp add: bumped_def)

lemma bumped_upd:
  "i < n \<Longrightarrow> pcs i = Fetch \<Longrightarrow> bumped n (pcs(i := Bump w)) = bumped n pcs"
  "i < n \<Longrightarrow> bumped n (pcs(i := Register w)) = insert i (bumped n pcs)"
  "i < n \<Longrightarrow> pcs i = Register v \<Longrightarrow> bumped n (pcs(i := Halted)) = bumped n pcs"
  by (auto simp: bumped_def)

lemma bumped_less: "i < n \<Longrightarrow> pcs i = Bump v \<Longrightarrow> i \<notin> bumped n pcs \<and> card (bumped n pcs) < n"
proof -
  assume i: "i < n" "pcs i = Bump v"
  have "bumped n pcs \<subseteq> {..<n} - {i}" using i by (auto simp: bumped_def)
  then have "card (bumped n pcs) \<le> card ({..<n} - {i})" by (intro card_mono) auto
  with i show ?thesis by (auto simp: bumped_def)
qed

lemma ap_step_inv: "ap_step blocks ids c c' \<Longrightarrow> ap_inv ids bsp c \<Longrightarrow> ap_inv ids bsp c'"
proof (induction rule: ap_step.induct)
  case (fetch i pcs s)
  then show ?case by (simp add: ap_inv_def bumped_upd Let_def)
next
  case (bump i pcs v s)
  have "i \<notin> bumped (length ids) pcs" "card (bumped (length ids) pcs) < length ids"
    using bumped_less [of i "length ids" pcs v] bump by auto
  moreover from this bump have "1 \<le> v" "v \<le> 1 + card (bumped (length ids) pcs)" "v \<le> length ids"
    by (auto simp: ap_inv_def Let_def)
  ultimately show ?case using bump by (auto simp: ap_inv_def bumped_upd Let_def le_Suc_eq)
next
  case (register i pcs v s)
  then show ?case by (auto simp: ap_inv_def bumped_upd ap_register_effect Let_def)
qed

lemma ap_steps_inv: "(ap_step blocks ids)\<^sup>*\<^sup>* c c' \<Longrightarrow> ap_inv ids bsp c \<Longrightarrow> ap_inv ids bsp c'"
  by (induction rule: rtranclp_induct) (auto intro: ap_step_inv)

lemma ap_inv_start:
  assumes "online_cpus s = 1" "cpu_index_map s = (\<lambda>_. 0xFFFFFFFF)(0 := bsp)"
  shows "ap_inv ids bsp (\<lambda>_. Fetch, s)"
  using assms by (simp add: ap_inv_def bumped_def)

text \<open>C34: However the entry points of at most 255 processors interleave, the boot processor keeps index 0 and
  finds it again from its identifier, the count of processors never exceeds the number there are, every other
  entry of the index map is unset or holds the identifier of a started processor, and each
  index a processor has fetched lies inside the block array, so that no processor gets stuck before it idles.\<close>

theorem aps_interleaved:
  assumes run: "(ap_step blocks ids)\<^sup>*\<^sup>* (\<lambda>_. Fetch, s) (pcs, t)"
    and start: "online_cpus s = 1" "cpu_index_map s = (\<lambda>_. 0xFFFFFFFF)(0 := bsp)"
    and few: "length ids < SMP_CPUS"
  shows "cpu_index_map t 0 = bsp \<and> index_of_apic bsp t = 0 \<and> online_cpus t \<le> 1 + length ids
    \<and> (\<forall>k. 1 \<le> k \<longrightarrow> cpu_index_map t k = 0xFFFFFFFF \<or> k \<le> length ids \<and> cpu_index_map t k \<in> set ids)
    \<and> (\<forall>i<length ids. pcs i \<noteq> Halted \<longrightarrow> (\<exists>pc u. pc \<noteq> pcs i \<and> ap_step blocks ids (pcs, t) (pcs(i := pc), u)))"
proof -
  have inv: "ap_inv ids bsp (pcs, t)" using ap_steps_inv [OF run] ap_inv_start [OF start] by blast
  have "card (bumped (length ids) pcs) \<le> card {..<length ids}" by (intro card_mono) (auto simp: bumped_def)
  moreover have "\<exists>pc u. pc \<noteq> pcs i \<and> ap_step blocks ids (pcs, t) (pcs(i := pc), u)"
    if "i < length ids" "pcs i \<noteq> Halted" for i
  proof (cases "pcs i")
    case Fetch
    with that show ?thesis using ap_step.fetch [of i ids pcs blocks t] by (metis ap_pc.distinct(1))
  next
    case (Bump v)
    with that show ?thesis using ap_step.bump [of i ids pcs v blocks t] by (metis ap_pc.distinct(7))
  next
    case (Register v)
    with that inv few have "v < SMP_CPUS" by (force simp: ap_inv_def Let_def)
    with Register that show ?thesis using ap_step.register [of i ids pcs v blocks t] by (metis ap_pc.distinct(11))
  qed (use that in simp)
  ultimately show ?thesis using inv by (simp add: ap_inv_def index_of_apic_def Let_def)
qed

text \<open>Two processors that both read the counter before either writes it share an index: both idle, the count is
  one short, and the first one takes itself for the boot processor.\<close>

lemma aps_race:
  assumes "online_cpus s = 1" "cpu_index_map s = (\<lambda>_. 0xFFFFFFFF)(0 := bsp)"
    and "distinct [bsp, a, b, 0xFFFFFFFF]"
  shows "\<exists>t. (ap_step blocks [a, b])\<^sup>*\<^sup>* (\<lambda>_. Fetch, s) ((\<lambda>_. Fetch)(0 := Halted, 1 := Halted), t)
    \<and> online_cpus t = 2 \<and> ap_ready_count t = ap_ready_count s + 2 \<and> index_of_apic a t = 0"
proof -
  let ?F = "\<lambda>_. Fetch" and ?step = "ap_step blocks [a, b]"
  let ?u = "s\<lparr>online_cpus := 2\<rparr>"
  let ?v = "snd (run_state (ap_register blocks 1 a) ?u)"
  let ?t = "snd (run_state (ap_register blocks 1 b) ?v)"
  have "?step (?F, s) (?F(0 := Bump 1), s)" using ap_step.fetch [of 0 "[a, b]" ?F blocks s] assms(1) by simp
  moreover have "?step (?F(0 := Bump 1), s) (?F(0 := Bump 1, 1 := Bump 1), s)"
    using ap_step.fetch [of 1 "[a, b]" "?F(0 := Bump 1)" blocks s] assms(1) by simp
  moreover have "?step (?F(0 := Bump 1, 1 := Bump 1), s) (?F(0 := Register 1, 1 := Bump 1), ?u)"
    using ap_step.bump [of 0 "[a, b]" "?F(0 := Bump 1, 1 := Bump 1)" 1 blocks s]
    by (simp add: fun_upd_twist numeral_2_eq_2)
  moreover have "?step (?F(0 := Register 1, 1 := Bump 1), ?u) (?F(0 := Register 1, 1 := Register 1), ?u)"
    using ap_step.bump [of 1 "[a, b]" "?F(0 := Register 1, 1 := Bump 1)" 1 blocks ?u] by (simp add: numeral_2_eq_2)
  moreover have "?step (?F(0 := Register 1, 1 := Register 1), ?u) (?F(0 := Halted, 1 := Register 1), ?v)"
    using ap_step.register [of 0 "[a, b]" "?F(0 := Register 1, 1 := Register 1)" 1 blocks ?u]
    by (simp add: fun_upd_twist)
  moreover have "?step (?F(0 := Halted, 1 := Register 1), ?v) (?F(0 := Halted, 1 := Halted), ?t)"
    using ap_step.register [of 1 "[a, b]" "?F(0 := Halted, 1 := Register 1)" 1 blocks ?v] by simp
  ultimately have "?step\<^sup>*\<^sup>* (?F, s) (?F(0 := Halted, 1 := Halted), ?t)"
    by (meson converse_rtranclp_into_rtranclp rtranclp.rtrancl_refl)
  moreover have "first_idx (\<lambda>i. ((\<lambda>_. 0xFFFFFFFF)(0 := bsp, Suc 0 := b)) i = a) SMP_CPUS = None"
    using assms(3) by (auto simp: first_idx_None_iff)
  then have "index_of_apic a ?t = 0" using assms(2) by (simp add: index_of_apic_def ap_register_effect)
  ultimately show ?thesis by (intro exI [of _ ?t]) (simp add: ap_register_effect)
qed

definition demo_smp :: smp_t where
  "demo_smp =
    \<lparr>hw_log = [], hw_dev = (\<lambda>_. 0), lapic_base = 0xFEE00000, x2apic_mode = False, lapic_freq_hz = 0, ioapic_base = 0,
     percpu_blocks = (\<lambda>_. zero_percpu), cpu_index_map = (\<lambda>_. 0xFFFFFFFF)(0 := 3), online_cpus = 1,
     ap_ready_count = 0, smp_mem = (\<lambda>_. 0)\<rparr>"

definition demo_pcs :: "nat \<Rightarrow> ap_pc" where
  "demo_pcs = (\<lambda>_. Fetch)(1 := Bump 1)"

theorem aps_interleaved_witness:
  "(ap_step 0x1000 [7, 9])\<^sup>*\<^sup>* (\<lambda>_. Fetch, demo_smp) (demo_pcs, demo_smp) \<and> index_of_apic 3 demo_smp = 0
    \<and> (\<exists>pc u. pc \<noteq> demo_pcs 1 \<and> ap_step 0x1000 [7, 9] (demo_pcs, demo_smp) (demo_pcs(1 := pc), u))"
proof -
  have run: "(ap_step 0x1000 [7, 9])\<^sup>*\<^sup>* (\<lambda>_. Fetch, demo_smp) (demo_pcs, demo_smp)"
    using ap_step.fetch [of 1 "[7, 9]" "\<lambda>_. Fetch" "0x1000" demo_smp] by (auto simp: demo_smp_def demo_pcs_def)
  have start: "online_cpus demo_smp = 1" "cpu_index_map demo_smp = (\<lambda>_. 0xFFFFFFFF)(0 := 3)"
    by (simp_all add: demo_smp_def)
  have few: "length [7, 9 :: u32] < SMP_CPUS" by simp
  have "(1 :: nat) < length [7, 9 :: u32]" "demo_pcs 1 \<noteq> Halted" by (simp_all add: demo_pcs_def)
  with aps_interleaved [OF run start few] run show ?thesis by blast
qed

section \<open>The interrupts that are to start them\<close>

definition sent :: "(hw_event \<Rightarrow> bool) \<Rightarrow> 'a apic_t_scheme \<Rightarrow> 'a apic_t_scheme \<Rightarrow> bool" where
  "sent P s t \<longleftrightarrow> lapic_base t = lapic_base s \<and> x2apic_mode t = x2apic_mode s
     \<and> (\<exists>es. hw_log t = es @ hw_log s \<and> list_all P es)"

lemma sent_refl: "sent P s s" by (simp add: sent_def)

lemma sent_trans: "sent P s t \<Longrightarrow> sent P t u \<Longrightarrow> sent P s u"
  unfolding sent_def by (metis append_assoc list_all_append)

lemma sent_event: "P e \<Longrightarrow> sent P s (s\<lparr>hw_log := e # hw_log s\<rparr>)"
  by (auto simp: sent_def intro!: exI [of _ "[e]"])

text \<open>The writes of the command register that select no delivery mode other than a plain interrupt.\<close>

fun plain_command :: "u64 \<Rightarrow> hw_event \<Rightarrow> bool" where
  "plain_command b (Store32 a v) \<longleftrightarrow> a = b + 0x310 \<or> a = b + 0x300 \<and> v AND 0x700 = 0"
| "plain_command b (Load32 a) \<longleftrightarrow> True"
| "plain_command b (OutB p v) \<longleftrightarrow> True"
| "plain_command b _ \<longleftrightarrow> False"

lemma wait_delivery_sent:
  assumes "wait_delivery s = Some t"
  shows "\<not> x2apic_mode s \<longrightarrow> sent (plain_command (lapic_base s)) s t"
proof (rule wait_delivery.raw_induct [where P = "\<lambda>s t. \<not> x2apic_mode s \<longrightarrow> sent (plain_command (lapic_base s)) s t",
        OF _ assms], intro impI)
  fix w :: "'a apic_t_scheme \<Rightarrow> 'a apic_t_scheme option" and s t :: "'a apic_t_scheme"
  assume IH: "\<And>s t. w s = Some t \<Longrightarrow> \<not> x2apic_mode s \<longrightarrow> sent (plain_command (lapic_base s)) s t"
    and eq: "(let r = run_state (lapic_read LAPIC_ICR_LOW) s in if bit (fst r) 12 then w (snd r) else Some (snd r)) = Some t"
    and m: "\<not> x2apic_mode s"
  let ?s1 = "snd (run_state (lapic_read LAPIC_ICR_LOW) s)"
  have s1: "?s1 = s\<lparr>hw_log := Load32 (lapic_base s + 0x300) # hw_log s\<rparr>" using m by (simp add: lapic_read_def mmio_read32_def)
  have step: "sent (plain_command (lapic_base s)) s ?s1" unfolding s1 by (rule sent_event) simp
  show "sent (plain_command (lapic_base s)) s t"
  proof (cases "bit (fst (run_state (lapic_read LAPIC_ICR_LOW) s)) 12")
    case True
    with eq have "w ?s1 = Some t" by (simp add: Let_def)
    with IH [OF this] m have "sent (plain_command (lapic_base s)) ?s1 t" by (simp add: s1)
    with step show ?thesis by (rule sent_trans)
  qed (use eq step in \<open>simp add: Let_def\<close>)
qed

lemma ipi_all_sent:
  assumes "apic_send_ipi_all vector s = Some t" "\<not> x2apic_mode s"
  shows "sent (plain_command (lapic_base s)) s t"
proof -
  let ?v = "LAPIC_ICR_ALL OR ucast vector :: u32"
  have lit: "(0x700 :: u32) = push_bit 8 (mask 3)" by code_simp
  have no: "\<not> bit (0x80000 :: u32) n" if "8 \<le> n" "n - 8 < 3" for n
  proof -
    have "n = 8 \<or> n = 9 \<or> n = 10" using that by linarith
    then show ?thesis by auto
  qed
  have "?v AND 0x700 = 0" unfolding lit
    by (rule bit_word_eqI) (auto simp: bit_simps simp del: mask_numeral dest: bit_imp_le_length no [THEN notE])
  let ?s1 = "s\<lparr>hw_log := Store32 (lapic_base s + 0x310) 0 # hw_log s\<rparr>"
  let ?s2 = "?s1\<lparr>hw_log := Store32 (lapic_base s + 0x300) ?v # hw_log ?s1\<rparr>"
  have "sent (plain_command (lapic_base s)) s ?s1" by (rule sent_event) simp
  moreover have "sent (plain_command (lapic_base s)) ?s1 ?s2" using \<open>?v AND 0x700 = 0\<close> by (intro sent_event) simp
  moreover have "wait_delivery ?s2 = Some t" using assms by (simp add: apic_send_ipi_all_def lapic_write_def mmio_write32_def)
  from wait_delivery_sent [OF this] assms(2) have "sent (plain_command (lapic_base s)) ?s2 t" by simp
  ultimately show ?thesis by (meson sent_trans)
qed

lemma boot_rounds_sent:
  "boot_rounds ready i n s = Some t \<Longrightarrow> \<not> x2apic_mode s \<Longrightarrow> sent (plain_command (lapic_base s)) s t"
proof (induction ready i n s rule: boot_rounds.induct)
  case (2 ready i n s)
  show ?case
  proof (cases "ready i \<ge> SMP_CPUS - 1")
    case False
    with 2 obtain u where u: "apic_send_ipi_all (ucast (AP_TRAMPOLINE_ADDR div 4096)) s = Some u"
      "boot_rounds ready (Suc i) n u = Some t" by (auto split: option.splits)
    have su: "sent (plain_command (lapic_base s)) s u" using u(1) "2.prems"(2) by (rule ipi_all_sent)
    with "2.IH" [OF False u] "2.prems"(2) have "sent (plain_command (lapic_base s)) u t" by (simp add: sent_def)
    with su show ?thesis by (rule sent_trans)
  qed (use 2 in \<open>simp add: sent_refl\<close>)
qed (simp add: sent_refl)

text \<open>Every command that is sent to start the processors is a plain interrupt: the delivery mode is
  neither the one that resets a processor nor the one that starts it.\<close>

lemma smp_boot_sends_plain_interrupts:
  assumes "smp_boot_aps tramp_start tramp_end ready s = Some t" "\<not> x2apic_mode s"
  shows "sent (plain_command (lapic_base s)) s t"
proof (cases "tramp_end - tramp_start > 0x1000")
  case False
  let ?s1 = "s\<lparr>smp_mem := memcpy AP_TRAMPOLINE_ADDR tramp_start (tramp_end - tramp_start) (smp_mem s)\<rparr>"
  from assms False obtain s2 s3 where
    s2: "apic_send_ipi_all 0 ?s1 = Some s2" and
    s3: "apic_send_ipi_all (ucast (AP_TRAMPOLINE_ADDR div 4096)) (snd (run_state io_wait s2)) = Some s3" and
    t: "boot_rounds ready 0 100 (snd (run_state io_wait s3)) = Some t"
    by (auto simp: smp_boot_aps_def Let_def split: option.splits)
  have io: "sent (plain_command b) u (snd (run_state io_wait u))" for u :: "'a smp_t_scheme" and b
    by (simp add: io_wait_def outb_def sent_event)
  have "sent (plain_command (lapic_base s)) s ?s1" by (simp add: sent_def)
  moreover have "sent (plain_command (lapic_base s)) ?s1 s2" using ipi_all_sent [OF s2] assms(2) by simp
  ultimately have a: "sent (plain_command (lapic_base s)) s (snd (run_state io_wait s2))" using io by (meson sent_trans)
  then have "sent (plain_command (lapic_base s)) (snd (run_state io_wait s2)) s3"
    using ipi_all_sent [OF s3] assms(2) by (simp add: sent_def)
  with a have b: "sent (plain_command (lapic_base s)) s (snd (run_state io_wait s3))" using io by (meson sent_trans)
  then have "sent (plain_command (lapic_base s)) (snd (run_state io_wait s3)) t"
    using boot_rounds_sent [OF t] assms(2) by (simp add: sent_def)
  with b show ?thesis by (rule sent_trans)
qed (use assms in \<open>simp add: smp_boot_aps_def Let_def sent_refl\<close>)

end
