(* ===== verification/Devfs.thy ===== *)
theory Devfs
  imports Prelude
begin

text \<open>
  The device nodes of \<^verbatim>\<open>kernel/fs/devfs.c\<close>: a table of 64 nodes filled from the front, looked up by
  name. A NULL name is \<open>None\<close>. Nodes are never removed.
\<close>

abbreviation DEVFS_MAX_NODES :: nat where "DEVFS_MAX_NODES \<equiv> 64"

record devfs_node_t =
  dn_name :: string
  dn_dev_id :: u32
  dn_type :: int
  dn_in_use :: bool

record devfs_t =
  devfs_nodes :: "nat \<Rightarrow> devfs_node_t"
  devfs_initialized :: bool

definition devfs_mknod :: "string option \<Rightarrow> u32 \<Rightarrow> int \<Rightarrow> int \<Rightarrow> devfs_t \<Rightarrow> int \<times> devfs_t" where
  "devfs_mknod name dev_id ty perms s =
     (case name of
        None \<Rightarrow> (-1, s)
      | Some nm \<Rightarrow>
          if \<not> devfs_initialized s then (-1, s)
          else
            case first_idx (\<lambda>i. \<not> dn_in_use (devfs_nodes s i)) DEVFS_MAX_NODES of
              None \<Rightarrow> (-1, s)
            | Some i \<Rightarrow>
                (int i, s\<lparr>devfs_nodes := (devfs_nodes s)
                   (i := \<lparr>dn_name = strncpy_str 31 nm, dn_dev_id = dev_id, dn_type = ty, dn_in_use = True\<rparr>)\<rparr>))"

definition devfs_empty :: "devfs_t" where
  "devfs_empty = \<lparr>devfs_nodes = (\<lambda>_. \<lparr>dn_name = '''', dn_dev_id = 0, dn_type = 0, dn_in_use = False\<rparr>), devfs_initialized = True\<rparr>"

definition devfs_init :: "devfs_t" where
  "devfs_init =
     (let s = devfs_empty;
          s = snd (devfs_mknod (Some ''null'') 1 3 0 s);
          s = snd (devfs_mknod (Some ''zero'') 1 5 0 s);
          s = snd (devfs_mknod (Some ''console'') 1 5 0 s);
          s = snd (devfs_mknod (Some ''tty0'') 4 0 0 s)
      in snd (devfs_mknod (Some ''kmsg'') 1 11 0 s))"

definition devfs_lookup :: "string option \<Rightarrow> devfs_t \<Rightarrow> int" where
  "devfs_lookup name s =
     (case name of
        None \<Rightarrow> -1
      | Some nm \<Rightarrow>
          if \<not> devfs_initialized s then -1
          else case first_idx (\<lambda>i. dn_in_use (devfs_nodes s i) \<and> dn_name (devfs_nodes s i) = nm) DEVFS_MAX_NODES of
                 None \<Rightarrow> -1 | Some i \<Rightarrow> int i)"

definition devfs_get_dev_id :: "int \<Rightarrow> devfs_t \<Rightarrow> int" where
  "devfs_get_dev_id node s =
     (if node < 0 \<or> node \<ge> int DEVFS_MAX_NODES \<or> \<not> dn_in_use (devfs_nodes s (nat node)) then -1
      else sint (dn_dev_id (devfs_nodes s (nat node))))"

text \<open>The lines printed.\<close>

definition devfs_list :: "devfs_t \<Rightarrow> (string \<times> u32 \<times> string) list" where
  "devfs_list s = map (\<lambda>i. (dn_name (devfs_nodes s i), dn_dev_id (devfs_nodes s i),
       if dn_type (devfs_nodes s i) = 0 then ''char'' else ''block''))
     (filter (\<lambda>i. dn_in_use (devfs_nodes s i)) [0..<DEVFS_MAX_NODES])"

section \<open>The table as a list of nodes\<close>

type_synonym dev_node = "string \<times> u32 \<times> int"

text \<open>The specification: the nodes in the order of their creation, the first 64 of them.\<close>

definition node_of :: "dev_node \<Rightarrow> devfs_node_t" where
  "node_of x = \<lparr>dn_name = fst x, dn_dev_id = fst (snd x), dn_type = snd (snd x), dn_in_use = True\<rparr>"

definition holds_nodes :: "devfs_t \<Rightarrow> dev_node list \<Rightarrow> bool" where
  "holds_nodes s ns \<longleftrightarrow> devfs_initialized s \<and> length ns \<le> DEVFS_MAX_NODES
     \<and> (\<forall>i<length ns. devfs_nodes s i = node_of (ns ! i)) \<and> (\<forall>i\<ge>length ns. \<not> dn_in_use (devfs_nodes s i))"

lemma holds_nodes_in_use: "holds_nodes s ns \<Longrightarrow> dn_in_use (devfs_nodes s i) \<longleftrightarrow> i < length ns"
  by (cases "i < length ns") (simp_all add: holds_nodes_def node_of_def)

lemma holds_nodes_at:
  "holds_nodes s ns \<Longrightarrow> i < length ns \<Longrightarrow> dn_name (devfs_nodes s i) = fst (ns ! i) \<and> dn_dev_id (devfs_nodes s i) = fst (snd (ns ! i))"
  by (simp add: holds_nodes_def node_of_def)

lemma free_slot: "holds_nodes s ns \<Longrightarrow> first_idx (\<lambda>i. \<not> dn_in_use (devfs_nodes s i)) DEVFS_MAX_NODES =
    (if length ns < DEVFS_MAX_NODES then Some (length ns) else None)"
  by (auto simp: holds_nodes_in_use first_idx_Some_iff first_idx_None_iff)

definition add_node :: "dev_node list \<Rightarrow> string \<times> u32 \<times> int \<Rightarrow> dev_node list" where
  "add_node ns = (\<lambda>(n, d, t). if length ns < DEVFS_MAX_NODES then ns @ [(take 31 n, d, t)] else ns)"

lemma mknod_holds:
  assumes "holds_nodes s ns"
  shows "holds_nodes (snd (devfs_mknod (Some n) d t p s)) (add_node ns (n, d, t))"
    "fst (devfs_mknod (Some n) d t p s) = (if length ns < DEVFS_MAX_NODES then int (length ns) else -1)"
proof -
  have i: "devfs_initialized s" using assms by (simp add: holds_nodes_def)
  note f = free_slot [OF assms]
  show "fst (devfs_mknod (Some n) d t p s) = (if length ns < DEVFS_MAX_NODES then int (length ns) else -1)"
    using i f by (simp add: devfs_mknod_def)
  show "holds_nodes (snd (devfs_mknod (Some n) d t p s)) (add_node ns (n, d, t))"
    using i f assms by (auto simp: devfs_mknod_def add_node_def strncpy_str_def holds_nodes_def nth_append node_of_def)
qed

lemma empty_holds: "holds_nodes devfs_empty []"
  by (simp add: holds_nodes_def devfs_empty_def)

abbreviation standard_nodes :: "dev_node list" where
  "standard_nodes \<equiv> [(''null'', 1, 3), (''zero'', 1, 5), (''console'', 1, 5), (''tty0'', 4, 0), (''kmsg'', 1, 11)]"

lemma init_holds: "holds_nodes devfs_init standard_nodes"
proof -
  note m = mknod_holds(1)
  have "holds_nodes devfs_init (add_node (add_node (add_node (add_node (add_node [] (''null'', 1, 3)) (''zero'', 1, 5))
      (''console'', 1, 5)) (''tty0'', 4, 0)) (''kmsg'', 1, 11))"
    unfolding devfs_init_def Let_def by (intro m empty_holds)
  then show ?thesis by (simp add: add_node_def)
qed

lemma first_idx_below:
  assumes "n \<le> m" "\<And>i. Q i \<longleftrightarrow> i < n \<and> P i"
  shows "first_idx Q m = first_idx P n"
proof (cases "first_idx P n")
  case None
  then have "first_idx Q m = None" using assms(2) by (auto simp: first_idx_None_iff)
  with None show ?thesis by simp
next
  case (Some k)
  then have "first_idx Q m = Some k" using assms by (simp add: first_idx_Some_iff)
  with Some show ?thesis by simp
qed

lemma lookup_holds:
  assumes "holds_nodes s ns"
  shows "devfs_lookup (Some n) s = (case first_idx (\<lambda>i. fst (ns ! i) = n) (length ns) of None \<Rightarrow> -1 | Some i \<Rightarrow> int i)"
proof -
  have "length ns \<le> DEVFS_MAX_NODES" "devfs_initialized s" using assms by (simp_all add: holds_nodes_def)
  moreover from this(1) have "first_idx (\<lambda>i. dn_in_use (devfs_nodes s i) \<and> dn_name (devfs_nodes s i) = n) DEVFS_MAX_NODES =
      first_idx (\<lambda>i. fst (ns ! i) = n) (length ns)"
    using holds_nodes_in_use [OF assms] holds_nodes_at [OF assms] by (intro first_idx_below) auto
  ultimately show ?thesis by (simp add: devfs_lookup_def)
qed

definition devfs_after :: "dev_node list \<Rightarrow> devfs_t" where
  "devfs_after ns = foldl (\<lambda>s (n, d, t). snd (devfs_mknod (Some n) d t 0 s)) devfs_init ns"

definition nodes_after :: "dev_node list \<Rightarrow> dev_node list" where
  "nodes_after created = take DEVFS_MAX_NODES (standard_nodes @ map (\<lambda>(n, d, t). (take 31 n, d, t)) created)"

lemma after_holds: "holds_nodes (devfs_after ns) (nodes_after ns)"
unfolding nodes_after_def
proof (induction ns rule: rev_induct)
  case Nil
  then show ?case using init_holds by (simp add: devfs_after_def)
next
  case (snoc x ns)
  obtain n d t where x: "x = (n, d, t)" by (cases x)
  let ?l = "standard_nodes @ map (\<lambda>(n, d, t). (take 31 n, d, t)) ns"
  have "add_node (take 64 ?l) x = take 64 (?l @ [(take 31 n, d, t)])" unfolding x add_node_def by (simp add: not_less min_def)
  with mknod_holds(1) [OF snoc, of n d t 0] x show ?case by (simp add: devfs_after_def)
qed

text \<open>The device table is the list of the nodes created: after devfs_init and any further mknod
  calls, looking a name up gives the position of the first node of that name (names cut to 31
  characters) among the five standard nodes and the created ones, of which the first 64 are kept, its device
  number is the one given at creation, and -1 is returned for every other name.\<close>

theorem devfs_lookup_created:
  "case first_idx (\<lambda>i. fst (nodes_after created ! i) = name) (length (nodes_after created)) of
     None \<Rightarrow> devfs_lookup (Some name) (devfs_after created) = -1
   | Some i \<Rightarrow> devfs_lookup (Some name) (devfs_after created) = int i
       \<and> devfs_get_dev_id (int i) (devfs_after created) = sint (fst (snd (nodes_after created ! i)))"
proof (cases "first_idx (\<lambda>i. fst (nodes_after created ! i) = name) (length (nodes_after created))")
  case None
  with lookup_holds [OF after_holds, of name created] show ?thesis by simp
next
  case (Some i)
  then have i: "i < length (nodes_after created)" by (simp add: first_idx_Some_iff)
  moreover have "length (nodes_after created) \<le> DEVFS_MAX_NODES" by (simp add: nodes_after_def)
  ultimately have "devfs_get_dev_id (int i) (devfs_after created) = sint (fst (snd (nodes_after created ! i)))"
    using holds_nodes_in_use [OF after_holds, of created i] holds_nodes_at [OF after_holds i] by (simp add: devfs_get_dev_id_def)
  with Some lookup_holds [OF after_holds, of name created] show ?thesis by simp
qed

text \<open>Duplicate names are accepted: a second node of a name can never be found.\<close>

lemma mknod_shadowed: "fst (devfs_mknod (Some ''null'') 9 0 0 devfs_init) = 5
    \<and> devfs_lookup (Some ''null'') (snd (devfs_mknod (Some ''null'') 9 0 0 devfs_init)) = 0"
  using mknod_holds [OF init_holds, of "''null''" 9 0 0] lookup_holds [OF mknod_holds(1) [OF init_holds], of "''null''" "''null''" 9 0 0]
  by (simp add: add_node_def)

end
