(* ===== verification/Kernel.thy ===== *)
theory Kernel
  imports Syscall Phone Gdt Irq Acpi Smp Pci Klog Tty Devfs Procfs
begin

text \<open>
  The kernel's entry point (\<^verbatim>\<open>src/kernel/kernel_main.c\<close>) on both builds, composed of the components' own
  initialisers.  On the PC build the devices of all components are one machine: each
  initialiser runs on its own state with the shared access history, controller variables and memory copied in and out.
  \<^verbatim>\<open>sched_create_thread\<close> is declared in \<^verbatim>\<open>omnios_kernel.h\<close> and has no definition in the sources: it is a
  parameter.  \<^verbatim>\<open>kmain\<close> ends in an idle loop; the model is the state it idles in, or none when
  one of its waiting loops never ends.
\<close>

section \<open>Configuration\<close>

text \<open>The configuration that the older entry point \<^verbatim>\<open>kernel_init\<close> stores.  Nothing else reads it.\<close>

datatype sched_policy_t = SCHED_FIFO | SCHED_RR | SCHED_PRIORITY | SCHED_MLFQ

record kernel_config_t =
  max_processes :: u32
  max_threads :: u32
  total_memory_mb :: u32
  heap_size_mb :: u32
  ticks_per_second :: u32
  sched_policy :: sched_policy_t
  quantum_ms :: u32
  hostname :: string
  enable_networking :: bool
  enable_mp :: bool

definition DEFAULT_CONFIG :: kernel_config_t where
  "DEFAULT_CONFIG = \<lparr>max_processes = 256, max_threads = 1024, total_memory_mb = 4096, heap_size_mb = 64, ticks_per_second = 1000,
     sched_policy = SCHED_MLFQ, quantum_ms = 10, hostname = ''omnios'', enable_networking = True, enable_mp = False\<rparr>"

record legacy_t =
  kernel_config :: kernel_config_t
  kernel_running :: bool

definition kernel_init :: "kernel_config_t \<Rightarrow> legacy_t \<Rightarrow> int \<times> legacy_t" where
  "kernel_init config s = (0, s\<lparr>kernel_config := config, kernel_running := True\<rparr>)"

section \<open>Boot memory map and clock\<close>

definition early_regions :: "memory_region_t list" where
  "early_regions = [\<lparr>reg_base = 0x100000, reg_length = 512 * 1024 * 1024, reg_type = PMM_REGION_USABLE\<rparr>]"

record clock_t =
  ck_ticks :: u64
  ck_sys :: sys_t

definition pit_handler :: "nat \<Rightarrow> clock_t \<Rightarrow> clock_t" where
  "pit_handler cpu s = (let s1 = s\<lparr>ck_ticks := ck_ticks s + 1\<rparr>; sys = ck_sys s1
     in s1\<lparr>ck_sys := sys\<lparr>kern := sched_tick cpu (kern sys)\<rparr>\<rparr>)"

definition keyboard_handler :: "('a hw_t_scheme, unit) state" where
  "keyboard_handler = do { scancode \<leftarrow> inb 0x60; State_Monad.return () }"

definition kernel_get_uptime_ms :: "clock_t \<Rightarrow> u64" where
  "kernel_get_uptime_ms s = ck_ticks s * 10"

text \<open>The thread creator: process, entry point, argument and priority.\<close>

type_synonym creator = "nat \<Rightarrow> u64 \<Rightarrow> u64 \<Rightarrow> nat \<Rightarrow> sys_t \<Rightarrow> sys_t"

definition create_threads :: "creator \<Rightarrow> u64 \<Rightarrow> u64 \<Rightarrow> sys_t \<Rightarrow> sys_t" where
  "create_threads create idle_thread init_thread s = create 1 init_thread 0 16 (create 0 idle_thread 0 0 s)"

text \<open>The calls from \<^verbatim>\<open>build_early_regions\<close> to \<^verbatim>\<open>sched_init\<close>, which both builds share.\<close>

definition init_memory :: "bool \<Rightarrow> nat \<Rightarrow> sys_t \<Rightarrow> sys_t option" where
  "init_memory arm ncpus s =
     (case pmm_init early_regions (pmm_st (vm s)) of None \<Rightarrow> None
      | Some p \<Rightarrow>
          let s1 = s\<lparr>vm := (vm s)\<lparr>pmm_st := p\<rparr>\<rparr>;
              s2 = s1\<lparr>vm := vmm_init (vm s1)\<rparr>;
              s3 = s2\<lparr>kern := proc_init arm (kern s2)\<rparr>
          in Some (s3\<lparr>kern := sched_init ncpus (kern s3)\<rparr>))"

section \<open>The PC build\<close>

record x86_t =
  x_irq :: irq_t
  x_gdt :: gdt_state
  x_idt :: idt_state
  x_cpu :: cpu_t
  x_acpi :: acpi_t
  x_smp :: smp_t
  x_pci :: pci_t
  x_mem :: byte_mem
  x_sys :: sys_t
  x_interrupts :: bool

record x86_image =
  gdt_at :: u64
  tss_at :: u64
  idt_at :: u64
  exception_at :: u64
  blocks_at :: u64
  tramp_start :: u64
  tramp_end :: u64
  pit_at :: u64
  keyboard_at :: u64
  idle_at :: u64
  init_at :: u64

definition on_irq :: "(irq_t, unit) state \<Rightarrow> x86_t \<Rightarrow> x86_t" where
  "on_irq m k = k\<lparr>x_irq := snd (run_state m (x_irq k))\<rparr>"

definition on_cpu :: "(cpu_t, unit) state \<Rightarrow> x86_t \<Rightarrow> x86_t" where
  "on_cpu m k =
     (let c = snd (run_state m ((x_cpu k)\<lparr>hw_log := hw_log (x_irq k), hw_dev := hw_dev (x_irq k)\<rparr>))
      in k\<lparr>x_cpu := c, x_irq := (x_irq k)\<lparr>hw_log := hw_log c\<rparr>\<rparr>)"

definition on_pci :: "(pci_t, unit) state \<Rightarrow> x86_t \<Rightarrow> x86_t" where
  "on_pci m k =
     (let c = snd (run_state m ((x_pci k)\<lparr>hw_log := hw_log (x_irq k), hw_dev := hw_dev (x_irq k)\<rparr>))
      in k\<lparr>x_pci := c, x_irq := (x_irq k)\<lparr>hw_log := hw_log c\<rparr>\<rparr>)"

definition on_acpi :: "(acpi_t \<Rightarrow> (int \<times> acpi_t) option) \<Rightarrow> x86_t \<Rightarrow> x86_t option" where
  "on_acpi f k =
     (case f ((x_acpi k)\<lparr>hw_log := hw_log (x_irq k), hw_dev := hw_dev (x_irq k), acpi_mem := x_mem k\<rparr>) of
        None \<Rightarrow> None
      | Some (r, c) \<Rightarrow> Some (k\<lparr>x_acpi := c, x_irq := (x_irq k)\<lparr>hw_log := hw_log c\<rparr>, x_mem := acpi_mem c\<rparr>))"

definition on_smp :: "(smp_t \<Rightarrow> smp_t option) \<Rightarrow> x86_t \<Rightarrow> x86_t option" where
  "on_smp f k =
     (let i = x_irq k in
      case f ((x_smp k)\<lparr>hw_log := hw_log i, hw_dev := hw_dev i, lapic_base := lapic_base i, x2apic_mode := x2apic_mode i,
                lapic_freq_hz := lapic_freq_hz i, ioapic_base := ioapic_base i, smp_mem := x_mem k\<rparr>) of
        None \<Rightarrow> None
      | Some c \<Rightarrow> Some (k\<lparr>x_smp := c, x_mem := smp_mem c,
          x_irq := i\<lparr>hw_log := hw_log c, lapic_base := lapic_base c, x2apic_mode := x2apic_mode c,
                     lapic_freq_hz := lapic_freq_hz c, ioapic_base := ioapic_base c\<rparr>\<rparr>))"

definition on_paging :: "(paging_t \<Rightarrow> paging_t) \<Rightarrow> x86_t \<Rightarrow> x86_t" where
  "on_paging f k = k\<lparr>x_sys := (x_sys k)\<lparr>vm := (vm (x_sys k))\<lparr>paging_st := f (paging_st (vm (x_sys k)))\<rparr>\<rparr>\<rparr>"

definition irq_enable :: "x86_t \<Rightarrow> x86_t" where "irq_enable k = k\<lparr>x_interrupts := True\<rparr>"
definition irq_disable :: "x86_t \<Rightarrow> x86_t" where "irq_disable k = k\<lparr>x_interrupts := False\<rparr>"

text \<open>\<^verbatim>\<open>kernel_panic\<close> and the idle thread end in a halting loop: the model is the state they halt in.\<close>

definition kernel_panic :: "x86_t \<Rightarrow> x86_t" where "kernel_panic k = irq_disable k"
definition idle_thread :: "x86_t \<Rightarrow> x86_t" where "idle_thread k = irq_enable k"

definition kmain_x86 ::
  "creator \<Rightarrow> cpuid_fun \<Rightarrow> (byte_mem \<Rightarrow> u64 \<Rightarrow> u32) \<Rightarrow> (nat \<Rightarrow> nat) \<Rightarrow> x86_image \<Rightarrow> x86_t \<Rightarrow> x86_t option" where
  "kmain_x86 create cpuid tlen ready im k =
     (let k = k\<lparr>x_gdt := gdt_init (gdt_at im) (tss_at im) (x_gdt k)\<rparr>;
          k = k\<lparr>x_idt := idt_init (exception_at im) (idt_at im) (x_idt k)\<rparr>;
          k = on_paging paging_init k;
          k = on_irq irq_init k;
          k = on_cpu (cpu_detect_all cpuid) k
      in Option.bind (on_acpi (acpi_init tlen) k) (\<lambda>k.
         Option.bind (on_smp (smp_init (blocks_at im) (tramp_start im) (tramp_end im) ready) k) (\<lambda>k.
         let k = on_irq apic_init k;
             k = on_irq ioapic_init k
         in Option.bind (init_memory False (online_cpus (x_smp k)) (x_sys k)) (\<lambda>s.
         let k = k\<lparr>x_sys := s\<rparr>;
             k = on_irq (irq_register 0 (pit_at im)) k;
             k = on_irq (apic_timer_start 10000 LVT_TIMER True) k;
             k = on_irq (irq_register 1 (keyboard_at im)) k;
             k = k\<lparr>x_sys := create_threads create (idle_at im) (init_at im) (x_sys k)\<rparr>
         in Some (irq_enable k)))))"

definition init_thread_x86 :: "x86_t \<Rightarrow> x86_t" where
  "init_thread_x86 k = on_pci pci_init k"

section \<open>The phone build\<close>

record arm_kernel_t =
  kn_klog :: klog_t
  kn_sys :: syscall_t
  kn_phone :: phone_t
  kn_devfs :: devfs_t
  kn_procfs :: procfs_t
  kn_tty :: tty_device_t
  kn_vbar :: u64
  kn_interrupts :: bool

definition on_phone :: "(phone_t \<Rightarrow> phone_t) \<Rightarrow> arm_kernel_t \<Rightarrow> arm_kernel_t" where
  "on_phone f k =
     (let p = f ((kn_phone k)\<lparr>ph_mem := sc_mem (kn_sys k)\<rparr>)
      in k\<lparr>kn_phone := p, kn_sys := (kn_sys k)\<lparr>sc_mem := ph_mem p\<rparr>\<rparr>)"

definition kmain_arm64 ::
  "creator \<Rightarrow> nat \<Rightarrow> u64 \<Rightarrow> u64 \<Rightarrow> u64 \<Rightarrow> u64 \<Rightarrow> arm_kernel_t \<Rightarrow> arm_kernel_t option" where
  "kmain_arm64 create ncpus cntfrq vectors idle_fn init_fn k =
     (let k = k\<lparr>kn_klog := klog_init (kn_klog k)\<rparr>;
          k = k\<lparr>kn_sys := (kn_sys k)\<lparr>sc_arm := arm64_paging_init (sc_arm (kn_sys k))\<rparr>\<rparr>;
          k = k\<lparr>kn_vbar := vectors\<rparr>;
          k = on_phone (\<lambda>p. p\<lparr>ph_regs := snd (sm8250_init (ph_regs p))\<rparr>) k
      in Option.bind (init_memory True ncpus (sc_sys (kn_sys k))) (\<lambda>s.
         let k = k\<lparr>kn_sys := (kn_sys k)\<lparr>sc_sys := s\<rparr>\<rparr>;
             k = k\<lparr>kn_sys := (kn_sys k)\<lparr>sc_arm := arm64_timer_init cntfrq (ucast cntfrq) (sc_arm (kn_sys k))\<rparr>\<rparr>;
             k = k\<lparr>kn_sys := (kn_sys k)\<lparr>sc_sys := create_threads create idle_fn init_fn (sc_sys (kn_sys k))\<rparr>\<rparr>
         in Some (k\<lparr>kn_interrupts := True\<rparr>)))"

text \<open>The init thread up to its sleeping loop: the state before the system call, and what the call does.\<close>

definition init_thread_arm64 ::
  "sys_env \<Rightarrow> (nat \<Rightarrow> u32) \<Rightarrow> (nat \<Rightarrow> u32) \<Rightarrow> u64 \<Rightarrow> u64 \<Rightarrow> u64 \<Rightarrow> arm_kernel_t \<Rightarrow> arm_kernel_t \<times> sysres option" where
  "init_thread_arm64 e reset_vals start_vals initramfs_start initramfs_end init_name k =
     (let k = on_phone (on_fb (\<lambda>f. (0, mobile_boot_animation f))) k;
          k = on_phone (mobile_boot_init reset_vals start_vals) k;
          k = k\<lparr>kn_devfs := devfs_init\<rparr>;
          k = k\<lparr>kn_procfs := procfs_init\<rparr>;
          k = k\<lparr>kn_tty := tty_init (kn_tty k)\<rparr>;
          initramfs_size = initramfs_end - initramfs_start
      in if initramfs_size > 0 then
           let k = k\<lparr>kn_sys := syscall_set_initramfs initramfs_start initramfs_size (kn_sys k)\<rparr>
           in (k, Some (syscall_dispatch e 9 [init_name, 0, 0, 0, 0, 0] (kn_sys k)))
         else (k, None))"

section \<open>Memory after boot\<close>

lemma add_region_early: "add_regions early_regions s = Some s"
proof -
  have "page_align_down (0x100000 + PAGE_SIZE - 1) = 0x100000" by (simp add: page_align_down_def)
  then show ?thesis by (simp add: early_regions_def add_region_def region_base_def)
qed

definition no_memory :: "pmm_t \<Rightarrow> bool" where
  "no_memory p \<longleftrightarrow> zones p = (\<lambda>_. zero_zone) \<and> zone_count p = 1"

lemma pmm_init_early: "\<exists>p. pmm_init early_regions s = Some p \<and> no_memory p"
  by (simp add: pmm_init_def add_region_early no_memory_def)

lemma no_memory_panics: "no_memory p \<Longrightarrow> pmm_alloc_page p = KernelPanic"
  by (simp add: no_memory_def pmm_alloc_page_def buddy_alloc_def first_from.simps zero_zone_def first_from_None_iff)

text \<open>The shared part of the boot returns; it leaves no free page, no process, and empty run queues.\<close>

lemma no_memory_writes [simp]:
  "no_memory (pmm_st (zero_mem a n s)) = no_memory (pmm_st s)" "no_memory (pmm_st (wr a v s)) = no_memory (pmm_st s)"
  by (simp_all add: no_memory_def zero_mem_def wr_def)

lemma init_memory_spec:
  assumes "0 < next_pid (kern s)"
  shows "\<exists>t. init_memory arm ncpus s = Some t \<and> no_memory (pmm_st (vm t)) \<and> pid_inv (kern t)
     \<and> (\<forall>i. rq_inv (runqueues (kern t) i) \<and> rq_count (runqueues (kern t) i) = 0)
     \<and> (\<forall>i. \<not> pr_used (processes (kern t) i))"
proof -
  obtain p where p: "pmm_init early_regions (pmm_st (vm s)) = Some p" "no_memory p" using pmm_init_early by blast
  show ?thesis
    using assms by (simp add: init_memory_def p Let_def pid_inv_def proc_init_def sched_init_def vmm_init_def rq_inv_def zero_rq_def
        zero_process_of_def zero_process_def)
qed

section \<open>The interrupt masks during boot\<close>

text \<open>The devices and the last bytes written to the two mask registers; the accesses that do not write these.\<close>

definition masks :: "'a hw_t_scheme \<Rightarrow> (hw_event list \<Rightarrow> u64) \<times> u8 \<times> u8" where
  "masks s = (hw_dev s, last_outb 0x21 (hw_log s), last_outb 0xA1 (hw_log s))"

fun mask_free :: "hw_event \<Rightarrow> bool" where
  "mask_free (OutB p v) \<longleftrightarrow> p \<noteq> 0x21 \<and> p \<noteq> 0xA1"
| "mask_free e \<longleftrightarrow> True"

lemma last_outb_free: "mask_free e \<Longrightarrow> p = 0x21 \<or> p = 0xA1 \<Longrightarrow> last_outb p (e # l) = last_outb p l"
  by (cases e) auto

lemma keeps_masks_io [keep_intros]:
  "mask_free e \<Longrightarrow> keeps masks (hw_put e)" "mask_free e \<Longrightarrow> keeps masks (hw_ask e)"
  by (simp_all add: keeps_def masks_def last_outb_free)

lemma keeps_masks_update [keep_intros]:
  "(\<And>s. hw_log (f s) = hw_log s \<and> hw_dev (f s) = hw_dev s) \<Longrightarrow> keeps masks (State_Monad.update f)"
  by (simp add: keeps_def masks_def)

lemma keeps_for_each [keep_intros]: "(\<And>x. keeps f (m x)) \<Longrightarrow> keeps f (for_each xs m)"
  by (induction xs) (auto intro: keep_intros)

lemma keeps_masks_apic_init: "keeps masks apic_init"
  unfolding apic_init_def apic_calibrate_def pit_read_def lapic_read_def lapic_write_def io_defs Let_def
  by (intro keep_intros) auto

lemma keeps_masks_ioapic_init: "keeps masks ioapic_init"
  unfolding ioapic_init_def ioapic_read_def ioapic_write_def io_defs Let_def by (intro keep_intros) auto

lemma keeps_masks_timer_start: "keeps masks (apic_timer_start n v p)"
  unfolding apic_timer_start_def lapic_write_def io_defs Let_def by (intro keep_intros) auto

lemma keeps_masks_cpu: "keeps masks (cpu_detect_all cpuid)"
  unfolding cpu_detect_all_def cpu_detect_features_def io_defs Let_def case_prod_unfold by (intro keep_intros) auto

lemma keeps_masks_percpu: "keeps masks (smp_percpu_init b i)"
  unfolding smp_percpu_init_def set_block_def apic_get_id_def lapic_read_def io_defs by (intro keep_intros) auto

text \<open>A controller that never reports a delivery as pending lets every command through.\<close>

definition never_busy :: "(hw_event list \<Rightarrow> u64) \<Rightarrow> bool" where
  "never_busy dev \<longleftrightarrow> (\<forall>a l. \<not> bit (dev (Load32 a # l)) 12)"

lemma ipi_all_returns:
  assumes "never_busy (hw_dev s)"
  shows "\<exists>t. apic_send_ipi_all v s = Some t \<and> masks t = masks s"
proof (cases "x2apic_mode s")
  case True
  then show ?thesis by (simp add: apic_send_ipi_all_def masks_def write_msr_def)
next
  case False
  let ?u = "s\<lparr>hw_log := Store32 (lapic_base s + 0x300) (LAPIC_ICR_ALL OR ucast v) # Store32 (lapic_base s + 0x310) 0 # hw_log s\<rparr>"
  have "wait_delivery ?u = Some (?u\<lparr>hw_log := Load32 (lapic_base s + 0x300) # hw_log ?u\<rparr>)"
    using assms False by (subst wait_delivery.simps) (simp add: lapic_read_def mmio_read32_def Let_def never_busy_def bit_simps)
  with False show ?thesis
    by (simp add: apic_send_ipi_all_def lapic_write_def mmio_write32_def masks_def)
qed

lemma masks_dev: "masks t = masks s \<Longrightarrow> hw_dev t = hw_dev s" by (simp add: masks_def)

lemma boot_rounds_returns:
  "never_busy (hw_dev s) \<Longrightarrow> \<exists>t. boot_rounds ready i n s = Some t \<and> masks t = masks s"
proof (induction n arbitrary: i s)
  case (Suc n)
  from ipi_all_returns [OF Suc.prems, of "ucast (AP_TRAMPOLINE_ADDR div 4096)"] obtain u where
    u: "apic_send_ipi_all (ucast (AP_TRAMPOLINE_ADDR div 4096)) s = Some u" "masks u = masks s" by blast
  from Suc.IH [of u "Suc i"] Suc.prems masks_dev [OF u(2)] u show ?case by auto
qed simp

lemma smp_boot_returns:
  assumes "never_busy (hw_dev s)"
  shows "\<exists>t. smp_boot_aps a b ready s = Some t \<and> masks t = masks s"
proof (cases "b - a > 0x1000")
  case False
  let ?s1 = "s\<lparr>smp_mem := memcpy AP_TRAMPOLINE_ADDR a (b - a) (smp_mem s)\<rparr>"
  have io: "masks (snd (run_state io_wait u)) = masks u" for u :: "'a smp_t_scheme"
    by (simp add: io_wait_def outb_def masks_def)
  from ipi_all_returns [of ?s1 0] assms obtain s2 where s2: "apic_send_ipi_all 0 ?s1 = Some s2" "masks s2 = masks s"
    by (auto simp: masks_def)
  from ipi_all_returns [of "snd (run_state io_wait s2)" "ucast (AP_TRAMPOLINE_ADDR div 4096)"] masks_dev [OF s2(2)]
    masks_dev [OF io [of s2]] assms obtain s3 where
    s3: "apic_send_ipi_all (ucast (AP_TRAMPOLINE_ADDR div 4096)) (snd (run_state io_wait s2)) = Some s3" "masks s3 = masks s"
    using io s2(2) by auto
  from boot_rounds_returns [of "snd (run_state io_wait s3)" ready 0 100] masks_dev [OF s3(2)] masks_dev [OF io [of s3]] assms
  show ?thesis using False s2(1) s3 io by (auto simp: smp_boot_aps_def Let_def)
qed (simp add: smp_boot_aps_def Let_def)

text \<open>What the interrupt code observes of a machine: the handler table and the masks.\<close>

definition iview :: "irq_t \<Rightarrow> (u8 \<Rightarrow> u64) \<times> (hw_event list \<Rightarrow> u64) \<times> u8 \<times> u8" where
  "iview s = (irq_handlers s, masks s)"

lemma keeps_iview_io [keep_intros]:
  "mask_free e \<Longrightarrow> keeps iview (hw_put e)" "mask_free e \<Longrightarrow> keeps iview (hw_ask e)"
  by (simp_all add: keeps_def iview_def masks_def last_outb_free)

lemma keeps_iview_update [keep_intros]:
  "(\<And>s. irq_handlers (f s) = irq_handlers s \<and> hw_log (f s) = hw_log s \<and> hw_dev (f s) = hw_dev s) \<Longrightarrow>
   keeps iview (State_Monad.update f)"
  by (simp add: keeps_def iview_def masks_def)

lemma keeps_iview_apic:
  "keeps iview apic_init" "keeps iview ioapic_init" "keeps iview (apic_timer_start n v p)"
  unfolding apic_init_def apic_calibrate_def pit_read_def ioapic_init_def ioapic_read_def ioapic_write_def
    apic_timer_start_def lapic_read_def lapic_write_def io_defs Let_def
  by (intro keep_intros; simp)+

lemma lines_match_iview: "iview t = iview s \<Longrightarrow> lines_match t = lines_match s"
  by (simp add: iview_def masks_def lines_match_def)

lemma iview_on_irq: "keeps iview m \<Longrightarrow> iview (x_irq (on_irq m k)) = iview (x_irq k)"
  by (simp add: on_irq_def keeps_run)

lemma iview_on_cpu: "keeps masks m \<Longrightarrow> iview (x_irq (on_cpu m k)) = iview (x_irq k)"
  using keeps_run [of masks m "(x_cpu k)\<lparr>hw_log := hw_log (x_irq k), hw_dev := hw_dev (x_irq k)\<rparr>"]
  by (simp add: on_cpu_def Let_def iview_def masks_def)

lemma acpi_init_hw: "acpi_init tlen s = Some (r, c) \<Longrightarrow> hw_log c = hw_log s \<and> hw_dev c = hw_dev s \<and> acpi_mem c = acpi_mem s"
  by (auto simp: acpi_init_def Let_def split: if_splits option.splits)

lemma on_acpi_returns:
  assumes "\<And>s :: acpi_t. acpi_mem s = x_mem k \<Longrightarrow> acpi_init tlen s \<noteq> None"
  shows "\<exists>t. on_acpi (acpi_init tlen) k = Some t \<and> iview (x_irq t) = iview (x_irq k) \<and> x_mem t = x_mem k
    \<and> x_gdt t = x_gdt k \<and> x_idt t = x_idt k \<and> x_sys t = x_sys k"
proof -
  let ?s = "(x_acpi k)\<lparr>hw_log := hw_log (x_irq k), hw_dev := hw_dev (x_irq k), acpi_mem := x_mem k\<rparr>"
  obtain r c where rc: "acpi_init tlen ?s = Some (r, c)" using assms [of ?s] by fastforce
  with acpi_init_hw [OF this] show ?thesis by (simp add: on_acpi_def iview_def masks_def)
qed

lemma on_smp_returns:
  assumes "never_busy (hw_dev (x_irq k))"
  shows "\<exists>t. on_smp (smp_init b ts te ready) k = Some t \<and> iview (x_irq t) = iview (x_irq k)
    \<and> x_gdt t = x_gdt k \<and> x_idt t = x_idt k \<and> x_sys t = x_sys k"
proof -
  let ?s = "(x_smp k)\<lparr>hw_log := hw_log (x_irq k), hw_dev := hw_dev (x_irq k), lapic_base := lapic_base (x_irq k),
      x2apic_mode := x2apic_mode (x_irq k), lapic_freq_hz := lapic_freq_hz (x_irq k), ioapic_base := ioapic_base (x_irq k),
      smp_mem := x_mem k\<rparr>"
  let ?u = "snd (run_state (smp_percpu_init b 0) (?s\<lparr>cpu_index_map := (\<lambda>_. 0xFFFFFFFF)\<rparr>))"
  have u: "masks ?u = masks (x_irq k)"
    by (subst keeps_run [OF keeps_masks_percpu]) (simp add: masks_def)
  then have "hw_dev ?u = hw_dev (x_irq k)" by (simp add: masks_def)
  with smp_boot_returns [of ?u ts te ready] assms obtain t where
    t: "smp_boot_aps ts te ready ?u = Some t" "masks t = masks ?u" by auto
  have "smp_init b ts te ready ?s = Some t" using t(1) by (simp add: smp_init_def)
  with t(2) u show ?thesis by (simp add: on_smp_def Let_def iview_def masks_def)
qed

section \<open>The machine after boot\<close>

lemma on_irq_fields [simp]:
  "x_gdt (on_irq m k) = x_gdt k" "x_idt (on_irq m k) = x_idt k" "x_sys (on_irq m k) = x_sys k" "x_mem (on_irq m k) = x_mem k"
  by (simp_all add: on_irq_def)

lemma on_cpu_fields [simp]:
  "x_gdt (on_cpu m k) = x_gdt k" "x_idt (on_cpu m k) = x_idt k" "x_sys (on_cpu m k) = x_sys k" "x_mem (on_cpu m k) = x_mem k"
  by (simp_all add: on_cpu_def Let_def)

lemma lines_match_dev: "lines_match s \<Longrightarrow> pic_readback (hw_dev s)" by (simp add: lines_match_def)

lemma register_handlers:
  fixes s t :: irq_t
  assumes "lines_match s" "irq_handlers s = (\<lambda>_. 0)" "pit \<noteq> 0" "kbd \<noteq> 0"
    and "t = snd (run_state (irq_register 1 kbd)
              (snd (run_state (apic_timer_start n v p) (snd (run_state (irq_register 0 pit) s)))))"
  shows "irq_handlers t = (\<lambda>_. 0)(0 := pit, 1 := kbd) \<and> lines_match t"
proof -
  let ?a = "snd (run_state (irq_register 0 pit) s)"
  let ?b = "snd (run_state (apic_timer_start n v p) ?a)"
  have a: "lines_match ?a" "irq_handlers ?a = (\<lambda>_. 0)(0 := pit)"
    using lines_match_register [OF assms(1,3)] irq_register_run(1) [OF lines_match_dev [OF assms(1)], of 0 pit] assms(2)
    by simp_all
  have i: "iview ?b = iview ?a" by (rule keeps_run [OF keeps_iview_apic(3)])
  then have b: "lines_match ?b" "irq_handlers ?b = (\<lambda>_. 0)(0 := pit)"
    using a lines_match_iview [OF i] i by (simp_all add: iview_def)
  then show ?thesis
    unfolding assms(5)
    using lines_match_register [OF b(1) assms(4), of 1] irq_register_run(1) [OF lines_match_dev [OF b(1)], of 1 kbd]
    by simp
qed

lemma two_lines_open:
  assumes "lines_match s" "irq_handlers s = (\<lambda>_. 0)(0 := pit, 1 := kbd)" "pit \<noteq> 0" "kbd \<noteq> 0" "j < 8"
  shows "bit (last_outb 0x21 (hw_log s)) j = (2 \<le> j) \<and> bit (last_outb 0xA1 (hw_log s)) j"
proof -
  have "bit (last_outb 0x21 (hw_log s)) j = (irq_handlers s (of_nat j) = 0)"
    "bit (last_outb 0xA1 (hw_log s)) j = (irq_handlers s (of_nat (j + 8)) = 0)"
    using assms(1,5) unfolding lines_match_def by blast+
  moreover have "j = 0 \<or> j = 1 \<or> j = 2 \<or> j = 3 \<or> j = 4 \<or> j = 5 \<or> j = 6 \<or> j = 7" using assms(5) by linarith
  ultimately show ?thesis using assms(2-4) by (elim disjE) simp_all
qed


definition demo_image :: x86_image where
  "demo_image = \<lparr>gdt_at = 0x200000, tss_at = 0x201000, idt_at = 0x202000, exception_at = 0x203000, blocks_at = 0x204000,
     tramp_start = 0x205000, tramp_end = 0x205100, pit_at = 0x206000, keyboard_at = 0x206100, idle_at = 0x206200,
     init_at = 0x206300\<rparr>"

definition demo_x86 :: x86_t where
  "demo_x86 =
    \<lparr>x_irq = irq_blank, x_gdt = gdt_blank,
     x_idt = \<lparr>idt = (\<lambda>_. zero_gate), idt_handlers = (\<lambda>_. 0), idtr = \<lparr>idt_limit = 0, idt_base = 0\<rparr>\<rparr>,
     x_cpu = \<lparr>hw_log = [], hw_dev = readback_dev, percpu_array = (\<lambda>_. zero_percpu), cpu_count = 0\<rparr>,
     x_acpi = \<lparr>hw_log = [], hw_dev = readback_dev, acpi_mem = (\<lambda>_. 0), rsdp = 0, fadt = 0\<rparr>,
     x_smp = demo_smp, x_pci = \<lparr>hw_log = [], hw_dev = readback_dev, pci_devices = (\<lambda>_. zero_pci_device), pci_count = 0\<rparr>,
     x_mem = (\<lambda>_. 0), x_sys = demo_sys, x_interrupts = False\<rparr>"

lemma blank_memory_has_no_tables: "acpi_mem s = (\<lambda>_. 0) \<Longrightarrow> acpi_init tlen s = Some (-1, s)"
proof -
  assume m: "acpi_mem s = (\<lambda>_. 0)"
  have "\<not> mem_is (\<lambda>_. 0) a RSD_PTR" for a by (simp add: mem_is_def RSD_PTR_def upt_conv_Cons)
  then have "find_rsdp (\<lambda>_. 0) = 0"
    by (simp add: find_rsdp_def Let_def first_idx_None_iff [THEN iffD2])
  with m show ?thesis by (simp add: acpi_init_def)
qed


section \<open>The phone after boot\<close>

lemma kmain_arm64_boots:
  assumes "0 < next_pid (kern (sc_sys (kn_sys k)))"
  shows "\<exists>k' s. kmain_arm64 create ncpus cntfrq vectors idle_fn init_fn k = Some k'
    \<and> sc_sys (kn_sys k') = create_threads create idle_fn init_fn s \<and> no_memory (pmm_st (vm s)) \<and> pid_inv (kern s)"
proof -
  let ?s0 = "sc_sys (kn_sys (on_phone (\<lambda>p. p\<lparr>ph_regs := snd (sm8250_init (ph_regs p))\<rparr>) k))"
  have "?s0 = sc_sys (kn_sys k)" by (simp add: on_phone_def Let_def)
  with init_memory_spec [OF assms, of True ncpus] show ?thesis
    by (auto simp: kmain_arm64_def Let_def on_phone_def)
qed

text \<open>On an allocator in the state the boot leaves it in, the first program is never entered: whatever the archive holds,
  the call returns an error, does not return, or panics for the first page of the new address space.\<close>

lemma enter_program_panics: "no_memory (sys_pmm s) \<Longrightarrow> enter_program out s = Panic"
  by (simp add: enter_program_def arm64_create_user_pgd_def zeroed_page_def no_memory_panics)

lemma init_never_enters_user_mode:
  assumes "no_memory (sys_pmm (kn_sys k))" "e_arm e"
  shows "snd (init_thread_arm64 e rv sv start stop name k) \<noteq> Some (User pc sp pgd s)"
proof -
  have p: "sys_pmm (kn_sys (on_phone f u)) = sys_pmm (kn_sys u)" for f u
    by (simp add: on_phone_def Let_def sys_pmm_def)
  have x: "sys_execve e name t \<noteq> User pc sp pgd s" if "no_memory (sys_pmm t)" for t
    using that assms(2) enter_program_panics
    by (auto simp: sys_execve_def Let_def sys_pmm_def split: option.splits prod.splits)
  show ?thesis
    by (simp add: init_thread_arm64_def Let_def syscall_dispatch_def syscall_table_def)
      (use assms(1) in \<open>auto intro!: x simp: sys_pmm_def syscall_set_initramfs_def on_phone_def Let_def\<close>)
qed

text \<open>The boot animation runs before the frame buffer is initialised, so it draws nothing.\<close>

lemma animation_needs_display: "\<not> fb_ready f \<Longrightarrow> mobile_boot_animation f = f"
  by (simp add: mobile_boot_animation_def display_fb_get_info_def)

end
