(* ===== verification/EmbedderRun.thy ===== *)
theory EmbedderRun
  imports Embedder
begin

text \<open>
  The rest of the Flutter embedder (\<^verbatim>\<open>src/userspace/flutter-embedder/embedder.c\<close>): the callbacks that the engine and Wayland call, the
  release of all objects at the end of \<^verbatim>\<open>main\<close>, and its second thread, which runs the engine's tasks.  The two threads are a step
  relation over the shared state; the calls into the libraries are recorded in the order in which they happen.
\<close>

section \<open>Calls into the libraries\<close>

datatype lib_call =
    Ack_configure u64 u32
  | Make_current u64 u64 u64 u64
  | Swap_buffers u64 u64
  | Post_dart_task u64 u64
  | Run_expired_tasks u64
  | Engine_deinitialize u64
  | Engine_destroy u64
  | Egl_destroy_surface u64 u64
  | Egl_destroy_context u64 u64
  | Egl_terminate u64
  | Window_destroy u64
  | Toplevel_destroy u64
  | Xdg_surface_destroy u64
  | Surface_destroy u64
  | Display_disconnect u64

datatype engine_result = KSuccess | KInternalInconsistency

section \<open>Callbacks\<close>

definition wl_registry_global_remove :: "u32 \<Rightarrow> flutter_state \<Rightarrow> flutter_state" where
  "wl_registry_global_remove name s = s"

definition xdg_surface_configure :: "u64 \<Rightarrow> u32 \<Rightarrow> lib_call list" where
  "xdg_surface_configure surface serial = [Ack_configure surface serial]"

text \<open>The attribute lists, with the values of the EGL constants.\<close>

definition config_attribs :: "int list" where
  "config_attribs =
     [0x3033, 4,
      0x3024, 8,
      0x3023, 8,
      0x3022, 8,
      0x3021, 8,
      0x3025, 24,
      0x3026, 8,
      0x3040, 0x40,
      0x3038]"

definition context_attribs :: "int list" where
  "context_attribs = [0x3098, 3, 0x3038]"

text \<open>The rendering callbacks: \<open>ok\<close> is what the EGL call returns.\<close>

definition make_current_callback :: "bool \<Rightarrow> flutter_state \<Rightarrow> engine_result \<times> lib_call list" where
  "make_current_callback ok s =
     (if \<not> ok then KInternalInconsistency else KSuccess,
      [Make_current (egl_display s) (egl_surface s) (egl_surface s) (egl_context s)])"

definition clear_current_callback :: "bool \<Rightarrow> flutter_state \<Rightarrow> engine_result \<times> lib_call list" where
  "clear_current_callback ok s =
     (if \<not> ok then KInternalInconsistency else KSuccess, [Make_current (egl_display s) 0 0 0])"

definition present_callback :: "bool \<Rightarrow> flutter_state \<Rightarrow> engine_result \<times> lib_call list" where
  "present_callback ok s =
     (if \<not> ok then KInternalInconsistency else KSuccess, [Swap_buffers (egl_display s) (egl_surface s)])"

record fbo_info =
  fbo_target :: u32
  fbo_name :: u32
  fbo_existing :: u32
  fbo_destruction :: u64
  fbo_user_data :: u64

definition fbo_callback :: "fbo_info \<Rightarrow> engine_result \<times> fbo_info" where
  "fbo_callback i =
     (KSuccess, i\<lparr>fbo_target := 0x0DE1, fbo_name := 0, fbo_existing := 0, fbo_destruction := 0, fbo_user_data := 0\<rparr>)"

definition software_renderer :: "u64 \<Rightarrow> u64 \<Rightarrow> u64 \<Rightarrow> bool" where
  "software_renderer allocation row_bytes height = False"

definition platform_task_runner_init :: "u64 \<Rightarrow> bool" where
  "platform_task_runner_init identifier = True"

definition platform_task_runner_post_task :: "u64 \<Rightarrow> u64 \<Rightarrow> lib_call list" where
  "platform_task_runner_post_task engine task = [Post_dart_task engine task]"

text \<open>The attributes are pairs up to the end mark, as EGL reads them.\<close>

fun attrib_pairs :: "int list \<Rightarrow> (int \<times> int) list option" where
  "attrib_pairs (k # xs) =
     (if k = 0x3038 then Some []
      else case xs of [] \<Rightarrow> None | v # rest \<Rightarrow> map_option (\<lambda>ps. (k, v) # ps) (attrib_pairs rest))"
| "attrib_pairs [] = None"

lemma attribs_end:
  "\<exists>ps. attrib_pairs config_attribs = Some ps \<and> distinct (map fst ps) \<and> length ps = 8"
  "attrib_pairs context_attribs = Some [(0x3098, 3)]"
  by (simp_all add: config_attribs_def context_attribs_def)

section \<open>The end of the main function\<close>

definition teardown :: "u64 \<Rightarrow> flutter_state \<Rightarrow> lib_call list" where
  "teardown engine s =
     [Engine_deinitialize engine,
      Engine_destroy engine,
      Egl_destroy_surface (egl_display s) (egl_surface s),
      Egl_destroy_context (egl_display s) (egl_context s),
      Egl_terminate (egl_display s),
      Window_destroy (egl_window s),
      Toplevel_destroy (xdg_toplevel s),
      Xdg_surface_destroy (xdg_surface s),
      Surface_destroy (wl_surface s),
      Display_disconnect (wl_display s)]"

text \<open>The objects in the order in which \<^verbatim>\<open>init_wayland\<close>, \<^verbatim>\<open>init_egl\<close> and the start of the engine create them, each with the call
  that releases it.\<close>

definition creations :: "u64 \<Rightarrow> wl_lib \<Rightarrow> egl_lib \<Rightarrow> flutter_state \<Rightarrow> lib_call list" where
  "creations engine wl egl s =
     [Display_disconnect (lib_connect wl), Surface_destroy (lib_surface wl), Xdg_surface_destroy (lib_xdg_surface wl),
      Toplevel_destroy (lib_toplevel wl), Window_destroy (egl_window s), Egl_terminate (egl_display s),
      Egl_destroy_context (egl_display s) (lib_context egl), Egl_destroy_surface (egl_display s) (lib_egl_surface egl),
      Engine_destroy engine]"

definition embedder_run ::
  "wl_lib \<Rightarrow> egl_lib \<Rightarrow> u64 \<Rightarrow> bool \<Rightarrow> wl_event list \<Rightarrow> flutter_state \<Rightarrow> (int \<times> lib_call list \<times> flutter_state) option" where
  "embedder_run wl egl engine engine_runs evs s =
     (case embedder_main wl egl engine_runs evs s of
        None \<Rightarrow> None
      | Some (status, s) \<Rightarrow> Some (status, if status = 0 then teardown engine s else [], s))"

definition fixed_objects :: "flutter_state \<Rightarrow> u64 list" where
  "fixed_objects s = [wl_display s, wl_surface s, xdg_surface s, xdg_toplevel s, egl_window s, egl_display s, egl_context s, egl_surface s]"

lemma deliver_keeps: "fixed_objects (deliver ev s) = fixed_objects s"
  by (cases ev) (simp_all add: fixed_objects_def wl_registry_global_def xdg_toplevel_configure_def fold_fullscreen xdg_toplevel_close_def Let_def)

lemma fold_deliver_keeps: "fixed_objects (fold deliver evs s) = fixed_objects s"
  by (induction evs arbitrary: s) (simp_all add: deliver_keeps)

lemma event_loop_keeps: "event_loop evs s = Some t \<Longrightarrow> fixed_objects t = fixed_objects s"
proof (induction evs arbitrary: s)
  case Nil
  then show ?case by (simp add: event_loop.simps [of "[]" s] split: if_splits)
next
  case (Cons ev evs)
  have "event_loop (ev # evs) s = (if fl_running s then event_loop evs (deliver ev s) else Some s)"
    by (simp add: event_loop.simps [of "ev # evs" s])
  with Cons.prems Cons.IH [of "deliver ev s"] show ?case by (simp add: deliver_keeps split: if_splits)
qed

lemma wayland_objects:
  assumes "init_wayland wl s = (True, t)"
  shows "wl_display t = lib_connect wl \<and> wl_surface t = lib_surface wl \<and> xdg_surface t = lib_xdg_surface wl
    \<and> xdg_toplevel t = lib_toplevel wl"
proof -
  note k = fold_deliver_keeps [unfolded fixed_objects_def, simplified]
  show ?thesis using assms k [of "lib_globals wl" "s\<lparr>wl_display := lib_connect wl\<rparr>"]
    by (auto simp: init_wayland_def Let_def k split: if_splits)
qed

lemma egl_objects:
  assumes "init_egl egl s = (True, t)"
  shows "egl_context t = lib_context egl \<and> egl_surface t = lib_egl_surface egl
    \<and> wl_display t = wl_display s \<and> wl_surface t = wl_surface s \<and> xdg_surface t = xdg_surface s \<and> xdg_toplevel t = xdg_toplevel s
    \<and> egl_window t = egl_window s"
  using assms by (auto simp: init_egl_def Let_def split: if_splits)

text \<open>A run that ends normally releases every object it created exactly once, in the reverse order of their creation, after it has
  stopped the engine.\<close>

lemma teardown_reverses:
  assumes "embedder_run wl egl engine True evs s = Some (0, calls, t)"
  shows "calls = Engine_deinitialize engine # rev (creations engine wl egl t)"
proof -
  from assms obtain u v where u: "init_wayland wl (s\<lparr>fl_running := True, fl_width := 1280, fl_height := 720\<rparr>) = (True, u)"
    "init_egl egl u = (True, v)" "event_loop evs v = Some t" "calls = teardown engine t"
    by (auto simp: embedder_run_def embedder_main_def Let_def split: option.splits prod.splits if_splits)
  from event_loop_keeps [OF u(3)] wayland_objects [OF u(1)] egl_objects [OF u(2)] show ?thesis
    unfolding u(4) by (simp add: fixed_objects_def teardown_def creations_def)
qed

section \<open>The two threads\<close>

text \<open>\<^verbatim>\<open>task_runner_thread\<close> tests \<open>running\<close>, runs the expired tasks and sleeps; the main thread stays in its loop while \<open>running\<close> holds and then
  works off the calls of \<open>teardown\<close>.\<close>

datatype runner_pc = Test | Run | Sleep | Ended

record threads_t =
  th_running :: bool
  th_main :: "lib_call list option"
  th_runner :: runner_pc
  th_calls :: "lib_call list"

fun runner_step :: "u64 \<Rightarrow> threads_t \<Rightarrow> threads_t" where
  "runner_step engine s =
     (case th_runner s of
        Test \<Rightarrow> s\<lparr>th_runner := if th_running s then Run else Ended\<rparr>
      | Run \<Rightarrow> s\<lparr>th_calls := th_calls s @ [Run_expired_tasks engine], th_runner := Sleep\<rparr>
      | Sleep \<Rightarrow> s\<lparr>th_runner := Test\<rparr>
      | Ended \<Rightarrow> s)"

fun main_step :: "u64 \<Rightarrow> flutter_state \<Rightarrow> threads_t \<Rightarrow> threads_t" where
  "main_step engine st s =
     (case th_main s of
        None \<Rightarrow> if th_running s then s else s\<lparr>th_main := Some (teardown engine st)\<rparr>
      | Some [] \<Rightarrow> s
      | Some (c # cs) \<Rightarrow> s\<lparr>th_calls := th_calls s @ [c], th_main := Some cs\<rparr>)"

inductive threads :: "u64 \<Rightarrow> flutter_state \<Rightarrow> threads_t \<Rightarrow> bool" for engine st where
  start: "threads engine st \<lparr>th_running = True, th_main = None, th_runner = Test, th_calls = []\<rparr>"
| close: "threads engine st s \<Longrightarrow> th_main s = None \<Longrightarrow> threads engine st (s\<lparr>th_running := False\<rparr>)"
| main: "threads engine st s \<Longrightarrow> threads engine st (main_step engine st s)"
| runner: "threads engine st s \<Longrightarrow> threads engine st (runner_step engine s)"

declare runner_step.simps [simp del] main_step.simps [simp del]

text \<open>Once the main thread releases objects, the other thread calls the engine at most once more.\<close>

definition runs_in :: "u64 \<Rightarrow> lib_call list \<Rightarrow> nat" where
  "runs_in engine cs = length (filter (\<lambda>c. c = Run_expired_tasks engine) cs)"

definition threads_inv :: "u64 \<Rightarrow> flutter_state \<Rightarrow> threads_t \<Rightarrow> bool" where
  "threads_inv engine st s \<longleftrightarrow>
     (th_main s \<noteq> None \<longrightarrow> \<not> th_running s)
     \<and> (case th_main s of
          None \<Rightarrow> set (th_calls s) \<subseteq> {Run_expired_tasks engine}
        | Some rest \<Rightarrow>
            \<exists>before after. th_calls s = before @ after \<and> set before \<subseteq> {Run_expired_tasks engine}
              \<and> filter (\<lambda>c. c \<noteq> Run_expired_tasks engine) after @ rest = teardown engine st
              \<and> runs_in engine after + (if th_runner s = Run then 1 else 0) \<le> 1)"

lemma threads_invI:
  assumes "th_main s = Some rest" "\<not> th_running s" "th_calls s = before @ after" "set before \<subseteq> {Run_expired_tasks engine}"
    "filter (\<lambda>c. c \<noteq> Run_expired_tasks engine) after @ rest = teardown engine st"
    "runs_in engine after + (if th_runner s = Run then 1 else 0) \<le> 1"
  shows "threads_inv engine st s"
proof -
  have "\<exists>b a. th_calls s = b @ a \<and> set b \<subseteq> {Run_expired_tasks engine}
      \<and> filter (\<lambda>c. c \<noteq> Run_expired_tasks engine) a @ rest = teardown engine st
      \<and> runs_in engine a + (if th_runner s = Run then 1 else 0) \<le> 1" using assms(3-6) by blast
  with assms(1,2) show ?thesis by (simp only: threads_inv_def option.case) simp
qed

lemma threads_inv: "threads engine st s \<Longrightarrow> threads_inv engine st s"
proof (induction rule: threads.induct)
  case start
  then show ?case by (simp add: threads_inv_def)
next
  case (close s)
  then show ?case by (simp add: threads_inv_def)
next
  case (main s)
  show ?case
  proof (cases "th_main s")
    case None
    show ?thesis
    proof (cases "th_running s")
      case True
      then show ?thesis using main.IH None by (simp add: main_step.simps)
    next
      case False
      with None main.IH show ?thesis
        by (intro threads_invI [of _ "teardown engine st" "th_calls s" "[]"]) (simp_all add: main_step.simps threads_inv_def runs_in_def)
    qed
  next
    case (Some cs)
    show ?thesis
    proof (cases cs)
      case Nil
      then show ?thesis using main.IH Some by (simp add: main_step.simps)
    next
      case (Cons c rest)
      from main.IH Some obtain before after where i: "th_calls s = before @ after" "set before \<subseteq> {Run_expired_tasks engine}"
        "filter (\<lambda>c. c \<noteq> Run_expired_tasks engine) after @ c # rest = teardown engine st" "\<not> th_running s"
        "runs_in engine after + (if th_runner s = Run then 1 else 0) \<le> 1" by (auto simp: threads_inv_def Cons)
      have "c \<in> set (teardown engine st)" using i(3) by (metis in_set_conv_decomp)
      then have c: "c \<noteq> Run_expired_tasks engine" by (auto simp: teardown_def)
      have s': "main_step engine st s = s\<lparr>th_calls := before @ (after @ [c]), th_main := Some rest\<rparr>"
        using Some Cons i(1) by (simp add: main_step.simps)
      show ?thesis using i c by (intro threads_invI [of _ rest before "after @ [c]"]) (simp_all add: s' runs_in_def)
    qed
  qed
next
  case (runner s)
  show ?case
  proof (cases "th_main s")
    case None
    then show ?thesis using runner.IH by (auto simp: threads_inv_def runner_step.simps split: runner_pc.split)
  next
    case (Some rest)
    from runner.IH Some obtain before after where i: "th_calls s = before @ after" "set before \<subseteq> {Run_expired_tasks engine}"
      "filter (\<lambda>c. c \<noteq> Run_expired_tasks engine) after @ rest = teardown engine st" "\<not> th_running s"
      "runs_in engine after + (if th_runner s = Run then 1 else 0) \<le> 1" by (auto simp: threads_inv_def)
    show ?thesis
    proof (cases "th_runner s = Run")
      case True
      then have "runner_step engine s = s\<lparr>th_calls := before @ (after @ [Run_expired_tasks engine]), th_runner := Sleep\<rparr>"
        using i(1) by (simp add: runner_step.simps)
      with Some i True show ?thesis
        by (intro threads_invI [of _ rest before "after @ [Run_expired_tasks engine]"]) (simp_all add: runs_in_def)
    next
      case False
      with Some i show ?thesis
        by (intro threads_invI [of _ rest before after]) (simp_all add: runner_step.simps split: runner_pc.split)
    qed
  qed
qed

text \<open>The calls of the main thread come in the order of \<open>teardown\<close>; the other thread's calls come before them, but for at most one.\<close>

lemma at_most_one_late_run:
  assumes "threads engine st s" "th_main s = Some rest"
  shows "\<exists>before after. th_calls s = before @ after \<and> set before \<subseteq> {Run_expired_tasks engine}
    \<and> filter (\<lambda>c. c \<noteq> Run_expired_tasks engine) after @ rest = teardown engine st \<and> runs_in engine after \<le> 1"
  using threads_inv [OF assms(1)] assms(2) by (fastforce simp: threads_inv_def)

text \<open>That one call can come after the engine was destroyed: the thread tests \<open>running\<close>, the window is closed, the main thread leaves its loop
  and destroys the engine, and then the thread runs the tasks of the engine that is gone.\<close>

lemma runs_destroyed_engine:
  "\<exists>s. threads engine st s \<and> th_calls s = [Engine_deinitialize engine, Engine_destroy engine, Run_expired_tasks engine]"
proof -
  note [simp] = runner_step.simps main_step.simps
  let ?s0 = "\<lparr>th_running = True, th_main = None, th_runner = Test, th_calls = []\<rparr>"
  have 1: "threads engine st (?s0\<lparr>th_runner := Run\<rparr>)" using threads.runner [OF threads.start, of engine st] by simp
  have "threads engine st (?s0\<lparr>th_runner := Run, th_running := False\<rparr>)" using threads.close [OF 1] by simp
  from threads.main [OF this] have "threads engine st (?s0\<lparr>th_runner := Run, th_running := False, th_main := Some (teardown engine st)\<rparr>)"
    by simp
  from threads.main [OF threads.main [OF this]] have "threads engine st (?s0\<lparr>th_runner := Run, th_running := False,
      th_main := Some (drop 2 (teardown engine st)), th_calls := [Engine_deinitialize engine, Engine_destroy engine]\<rparr>)"
    by (simp add: teardown_def)
  from threads.runner [OF this] show ?thesis by (intro exI) (rule conjI, assumption, simp)
qed

end
