(* ===== verification/Compositor.thy ===== *)
theory Compositor
  imports Prelude
begin

text \<open>
  The Wayland compositor (\<^verbatim>\<open>src/userspace/compositor/omnios-compositor.c\<close>): its lists of windows, outputs, layer surfaces
  and keyboards, and the handlers that the wlroots library calls.  Objects of the library are addresses; the fields of
  them that the code reads are functions of the address, and what the code tells the library about scene nodes, seat and
  cursor is kept in the state.  The addresses of freshly allocated objects are arguments.
\<close>

section \<open>State\<close>

record view_t =
  v_addr :: u64
  v_xdg_surface :: u64
  v_scene_tree :: u64

record layer_t =
  l_addr :: u64
  l_layer_surface :: u64
  l_scene_tree :: u64

record output_t =
  o_addr :: u64
  o_wlr_output :: u64

record keyboard_t =
  kb_addr :: u64
  kb_wlr_keyboard :: u64

text \<open>An element of \<^verbatim>\<open>server->outputs\<close>, which holds outputs and layer surfaces alike.\<close>

datatype out_link = OutputLink output_t | LayerLink layer_t

datatype seat_call =
    SetKeyboard u64 | NotifyModifiers u64 | NotifyKey u32 u32 u32 | SetSelection u64 u32 | SetCapabilities u32

record server_t =
  views :: "view_t list"
  outputs :: "out_link list"
  keyboards :: "keyboard_t list"
  enabled :: "u64 \<Rightarrow> bool"
  position :: "u64 \<Rightarrow> int \<times> int"
  ls_output :: "u64 \<Rightarrow> u64"
  configured :: "u64 \<Rightarrow> (u32 \<times> u32) option"
  maximized :: "u64 \<Rightarrow> bool"
  fullscreen :: "u64 \<Rightarrow> bool"
  seat_calls :: "seat_call list"
  cursor_surface :: "(u64 \<times> int \<times> int) option"
  attached :: "u64 list"
  frames :: "u64 list"
  terminated :: bool
  spawned :: "string list"

text \<open>The fields of library objects that the handlers read.\<close>

record wlr_t =
  out_width :: "u64 \<Rightarrow> u32"
  out_height :: "u64 \<Rightarrow> u32"
  ls_anchor :: "u64 \<Rightarrow> u32"
  ls_desired_width :: "u64 \<Rightarrow> u32"
  ls_desired_height :: "u64 \<Rightarrow> u32"
  requested_maximized :: "u64 \<Rightarrow> bool"
  requested_fullscreen :: "u64 \<Rightarrow> bool"
  anchor_center :: u32

abbreviation ANCHOR_TOP :: u32 where "ANCHOR_TOP \<equiv> 1"
abbreviation ANCHOR_BOTTOM :: u32 where "ANCHOR_BOTTOM \<equiv> 2"
abbreviation ANCHOR_LEFT :: u32 where "ANCHOR_LEFT \<equiv> 4"
abbreviation ANCHOR_RIGHT :: u32 where "ANCHOR_RIGHT \<equiv> 8"
abbreviation EMBEDDER :: string where "EMBEDDER \<equiv> ''/usr/bin/omnios-flutter-embedder''"

section \<open>Windows\<close>

text \<open>The surface under a point and its xdg surface come from the library; the search of the list is the code's.\<close>

definition desktop_view_at :: "u64 option \<Rightarrow> (u64 \<Rightarrow> u64) \<Rightarrow> server_t \<Rightarrow> view_t option" where
  "desktop_view_at surface_at xdg_from_surface s =
     (case surface_at of None \<Rightarrow> None
      | Some surface \<Rightarrow>
          (let xdg = xdg_from_surface surface in
           if xdg = 0 then None else List.find (\<lambda>v. v_xdg_surface v = xdg) (views s)))"

definition xdg_surface_map :: "view_t \<Rightarrow> server_t \<Rightarrow> server_t" where
  "xdg_surface_map view s = s\<lparr>enabled := (enabled s)(v_scene_tree view := True)\<rparr>"

definition xdg_surface_unmap :: "view_t \<Rightarrow> server_t \<Rightarrow> server_t" where
  "xdg_surface_unmap view s = s\<lparr>enabled := (enabled s)(v_scene_tree view := False)\<rparr>"

definition xdg_surface_destroy :: "view_t \<Rightarrow> server_t \<Rightarrow> server_t" where
  "xdg_surface_destroy view s = s\<lparr>views := filter (\<lambda>v. v_addr v \<noteq> v_addr view) (views s)\<rparr>"

definition begin_maximize :: "wlr_t \<Rightarrow> view_t \<Rightarrow> server_t \<Rightarrow> server_t" where
  "begin_maximize w view s =
     s\<lparr>maximized := (maximized s)(v_xdg_surface view := \<not> requested_maximized w (v_xdg_surface view))\<rparr>"

definition begin_fullscreen :: "wlr_t \<Rightarrow> view_t \<Rightarrow> server_t \<Rightarrow> server_t" where
  "begin_fullscreen w view s =
     s\<lparr>fullscreen := (fullscreen s)(v_xdg_surface view := \<not> requested_fullscreen w (v_xdg_surface view))\<rparr>"

definition new_xdg_surface :: "bool \<Rightarrow> u64 \<Rightarrow> u64 \<Rightarrow> u64 \<Rightarrow> server_t \<Rightarrow> server_t" where
  "new_xdg_surface is_toplevel xdg_surface addr tree s =
     (if \<not> is_toplevel then s
      else let view = \<lparr>v_addr = addr, v_xdg_surface = xdg_surface, v_scene_tree = tree\<rparr>;
               s = s\<lparr>enabled := (enabled s)(tree := False)\<rparr>
           in s\<lparr>views := view # views s\<rparr>)"

section \<open>Layer surfaces\<close>

definition layer_surface_map :: "layer_t \<Rightarrow> server_t \<Rightarrow> server_t" where
  "layer_surface_map ls s = s\<lparr>enabled := (enabled s)(l_scene_tree ls := True)\<rparr>"

definition layer_surface_unmap :: "layer_t \<Rightarrow> server_t \<Rightarrow> server_t" where
  "layer_surface_unmap ls s = s\<lparr>enabled := (enabled s)(l_scene_tree ls := False)\<rparr>"

fun link_addr :: "out_link \<Rightarrow> u64" where
  "link_addr (OutputLink out) = o_addr out"
| "link_addr (LayerLink ls) = l_addr ls"

definition layer_surface_destroy :: "layer_t \<Rightarrow> server_t \<Rightarrow> server_t" where
  "layer_surface_destroy ls s = s\<lparr>outputs := filter (\<lambda>l. link_addr l \<noteq> l_addr ls) (outputs s)\<rparr>"

text \<open>The position: the differences are unsigned, since the desired size is, and are then stored in an \<^verbatim>\<open>int\<close>.\<close>

definition layer_position :: "u32 \<Rightarrow> u32 \<Rightarrow> u32 \<Rightarrow> u32 \<Rightarrow> u32 \<Rightarrow> u32 \<Rightarrow> u32 \<times> u32" where
  "layer_position center anchor width height dw dh =
     (let x = (if anchor AND center \<noteq> 0 then (width - dw) div 2
               else
                 let x = (if anchor AND ANCHOR_RIGHT \<noteq> 0 then width - dw else 0)
                 in if anchor AND ANCHOR_LEFT \<noteq> 0 then 0 else x);
          y = (if anchor AND ANCHOR_BOTTOM \<noteq> 0 then height - dh
               else if anchor AND ANCHOR_TOP \<noteq> 0 then 0
               else if anchor AND center \<noteq> 0 then (height - dh) div 2
               else 0)
      in (x, y))"

definition layer_surface_commit :: "wlr_t \<Rightarrow> layer_t \<Rightarrow> server_t \<Rightarrow> server_t" where
  "layer_surface_commit w ls s =
     (let wlr_ls = l_layer_surface ls; out = ls_output s wlr_ls in
      if out = 0 then s
      else let (x, y) = layer_position (anchor_center w) (ls_anchor w wlr_ls) (out_width w out) (out_height w out)
                          (ls_desired_width w wlr_ls) (ls_desired_height w wlr_ls)
           in s\<lparr>position := (position s)(l_scene_tree ls := (sint x, sint y))\<rparr>)"

text \<open>The field after \<^verbatim>\<open>link\<close> and \<^verbatim>\<open>server\<close>, where an output has its \<^verbatim>\<open>wlr_output\<close>: reading an element of the list as an
  output yields the \<^verbatim>\<open>layer_surface\<close> of a layer surface.\<close>

fun as_output :: "out_link \<Rightarrow> u64" where
  "as_output (OutputLink out) = o_wlr_output out"
| "as_output (LayerLink ls) = l_layer_surface ls"

definition new_layer_surface :: "wlr_t \<Rightarrow> u64 \<Rightarrow> u64 \<Rightarrow> u64 \<Rightarrow> server_t \<Rightarrow> server_t" where
  "new_layer_surface w wlr_ls addr tree s =
     (let s = (if ls_output s wlr_ls = 0 then
                 (case outputs s of [] \<Rightarrow> s | l # _ \<Rightarrow> s\<lparr>ls_output := (ls_output s)(wlr_ls := as_output l)\<rparr>)
               else s);
          ls = \<lparr>l_addr = addr, l_layer_surface = wlr_ls, l_scene_tree = tree\<rparr>;
          s = s\<lparr>enabled := (enabled s)(tree := False)\<rparr>;
          s = s\<lparr>outputs := LayerLink ls # outputs s\<rparr>;
          out = ls_output s wlr_ls
      in s\<lparr>configured := (configured s)(wlr_ls \<mapsto>
             (if out \<noteq> 0 then out_width w out else 1280, if out \<noteq> 0 then out_height w out else 720))\<rparr>)"

section \<open>Outputs\<close>

definition output_frame :: "output_t \<Rightarrow> server_t \<Rightarrow> server_t" where
  "output_frame out s = s\<lparr>frames := o_wlr_output out # frames s\<rparr>"

definition output_destroy :: "output_t \<Rightarrow> server_t \<Rightarrow> server_t" where
  "output_destroy out s = s\<lparr>outputs := filter (\<lambda>l. link_addr l \<noteq> o_addr out) (outputs s)\<rparr>"

definition new_output :: "u64 \<Rightarrow> u64 \<Rightarrow> server_t \<Rightarrow> server_t" where
  "new_output wlr_output addr s = s\<lparr>outputs := OutputLink \<lparr>o_addr = addr, o_wlr_output = wlr_output\<rparr> # outputs s\<rparr>"

section \<open>Input\<close>

abbreviation XKB_KEY_Escape :: u32 where "XKB_KEY_Escape \<equiv> 0xFF1B"
abbreviation XKB_KEY_F1 :: u32 where "XKB_KEY_F1 \<equiv> 0xFFBE"
abbreviation KEY_PRESSED :: u32 where "KEY_PRESSED \<equiv> 1"
abbreviation CAP_POINTER :: u32 where "CAP_POINTER \<equiv> 1"
abbreviation CAP_KEYBOARD :: u32 where "CAP_KEYBOARD \<equiv> 2"

definition seat_call :: "seat_call \<Rightarrow> server_t \<Rightarrow> server_t" where
  "seat_call c s = s\<lparr>seat_calls := seat_calls s @ [c]\<rparr>"

definition keyboard_modifiers :: "keyboard_t \<Rightarrow> server_t \<Rightarrow> server_t" where
  "keyboard_modifiers kb s = seat_call (NotifyModifiers (kb_wlr_keyboard kb)) (seat_call (SetKeyboard (kb_wlr_keyboard kb)) s)"

definition handle_keybinding :: "u32 \<Rightarrow> server_t \<Rightarrow> bool \<times> server_t" where
  "handle_keybinding keysym s =
     (if keysym = XKB_KEY_Escape then (True, s\<lparr>terminated := True\<rparr>)
      else if keysym = XKB_KEY_F1 then (True, s\<lparr>spawned := spawned s @ [EMBEDDER]\<rparr>)
      else (False, s))"

fun key_bindings :: "u32 list \<Rightarrow> server_t \<Rightarrow> bool \<times> server_t" where
  "key_bindings [] s = (False, s)"
| "key_bindings (keysym # syms) s =
     (case handle_keybinding keysym s of (True, s') \<Rightarrow> (True, s') | (False, s') \<Rightarrow> key_bindings syms s')"

definition keyboard_key :: "(u32 \<Rightarrow> u32 list) \<Rightarrow> keyboard_t \<Rightarrow> u32 \<Rightarrow> u32 \<Rightarrow> u32 \<Rightarrow> server_t \<Rightarrow> server_t" where
  "keyboard_key get_syms kb time_msec keycode key_state s =
     (let syms = get_syms (keycode + 8);
          (handled, s) = (if key_state = KEY_PRESSED \<and> 0 < length syms then key_bindings syms s else (False, s))
      in if \<not> handled then
           seat_call (NotifyKey time_msec keycode key_state) (seat_call (SetKeyboard (kb_wlr_keyboard kb)) s)
         else s)"

definition keyboard_destroy :: "keyboard_t \<Rightarrow> server_t \<Rightarrow> server_t" where
  "keyboard_destroy kb s = s\<lparr>keyboards := filter (\<lambda>k. kb_addr k \<noteq> kb_addr kb) (keyboards s)\<rparr>"

datatype input_device = KeyboardDevice u64 u64 | PointerDevice u64 | OtherDevice u64

text \<open>A keyboard device has its own address and the keyboard of it; the seat is given the device.\<close>

definition server_new_keyboard :: "u64 \<Rightarrow> u64 \<Rightarrow> u64 \<Rightarrow> server_t \<Rightarrow> server_t" where
  "server_new_keyboard device wlr_keyboard addr s =
     (let s = seat_call (SetKeyboard device) s
      in s\<lparr>keyboards := \<lparr>kb_addr = addr, kb_wlr_keyboard = wlr_keyboard\<rparr> # keyboards s\<rparr>)"

definition server_new_pointer :: "u64 \<Rightarrow> server_t \<Rightarrow> server_t" where
  "server_new_pointer device s = s\<lparr>attached := device # attached s\<rparr>"

definition server_new_input :: "input_device \<Rightarrow> u64 \<Rightarrow> server_t \<Rightarrow> server_t" where
  "server_new_input device addr s =
     (let s = (case device of KeyboardDevice d k \<Rightarrow> server_new_keyboard d k addr s
                 | PointerDevice d \<Rightarrow> server_new_pointer d s | OtherDevice d \<Rightarrow> s);
          caps = (if keyboards s \<noteq> [] then CAP_POINTER OR CAP_KEYBOARD else CAP_POINTER)
      in seat_call (SetCapabilities caps) s)"

definition seat_request_cursor :: "u64 \<Rightarrow> u64 \<Rightarrow> u64 \<Rightarrow> int \<Rightarrow> int \<Rightarrow> server_t \<Rightarrow> server_t" where
  "seat_request_cursor focused_client seat_client surface hotspot_x hotspot_y s =
     (if seat_client = focused_client then s\<lparr>cursor_surface := Some (surface, hotspot_x, hotspot_y)\<rparr> else s)"

definition seat_request_set_selection :: "u64 \<Rightarrow> u32 \<Rightarrow> server_t \<Rightarrow> server_t" where
  "seat_request_set_selection source serial s = seat_call (SetSelection source serial) s"

section \<open>The program\<close>

definition server_init :: "(u64 \<Rightarrow> u64) \<Rightarrow> server_t" where
  "server_init ls_out = \<lparr>views = [], outputs = [], keyboards = [], enabled = (\<lambda>_. False), position = (\<lambda>_. (0, 0)),
     ls_output = ls_out, configured = (\<lambda>_. None), maximized = (\<lambda>_. False), fullscreen = (\<lambda>_. False),
     seat_calls = [], cursor_surface = None, attached = [], frames = [], terminated = False, spawned = []\<rparr>"

datatype event =
    NewXdgSurface bool u64 u64 u64 | MapView view_t | UnmapView view_t | DestroyView view_t
  | MaximizeView view_t | FullscreenView view_t
  | NewLayerSurface u64 u64 u64 | MapLayer layer_t | UnmapLayer layer_t | DestroyLayer layer_t | CommitLayer layer_t
  | NewOutput u64 u64 | Frame output_t | DestroyOutput output_t
  | NewInput input_device u64 | Modifiers keyboard_t | Key keyboard_t u32 u32 u32 | DestroyKeyboard keyboard_t
  | RequestCursor u64 u64 u64 int int | RequestSelection u64 u32

fun handle :: "wlr_t \<Rightarrow> (u32 \<Rightarrow> u32 list) \<Rightarrow> event \<Rightarrow> server_t \<Rightarrow> server_t" where
  "handle w syms (NewXdgSurface is_toplevel xdg addr tree) s = new_xdg_surface is_toplevel xdg addr tree s"
| "handle w syms (MapView v) s = xdg_surface_map v s"
| "handle w syms (UnmapView v) s = xdg_surface_unmap v s"
| "handle w syms (DestroyView v) s = xdg_surface_destroy v s"
| "handle w syms (MaximizeView v) s = begin_maximize w v s"
| "handle w syms (FullscreenView v) s = begin_fullscreen w v s"
| "handle w syms (NewLayerSurface ls addr tree) s = new_layer_surface w ls addr tree s"
| "handle w syms (MapLayer l) s = layer_surface_map l s"
| "handle w syms (UnmapLayer l) s = layer_surface_unmap l s"
| "handle w syms (DestroyLayer l) s = layer_surface_destroy l s"
| "handle w syms (CommitLayer l) s = layer_surface_commit w l s"
| "handle w syms (NewOutput out addr) s = new_output out addr s"
| "handle w syms (Frame out) s = output_frame out s"
| "handle w syms (DestroyOutput out) s = output_destroy out s"
| "handle w syms (NewInput d addr) s = server_new_input d addr s"
| "handle w syms (Modifiers kb) s = keyboard_modifiers kb s"
| "handle w syms (Key kb t code st) s = keyboard_key syms kb t code st s"
| "handle w syms (DestroyKeyboard kb) s = keyboard_destroy kb s"
| "handle w syms (RequestCursor fc c surf x y) s = seat_request_cursor fc c surf x y s"
| "handle w syms (RequestSelection src serial) s = seat_request_set_selection src serial s"

text \<open>\<^verbatim>\<open>main\<close>: the exit status when the backend does not start, or the server after the user interface was started and
  the events handled so far, up to the one that terminates the display.\<close>

fun run_display :: "wlr_t \<Rightarrow> (u32 \<Rightarrow> u32 list) \<Rightarrow> event list \<Rightarrow> server_t \<Rightarrow> server_t" where
  "run_display w syms evs s =
     (if terminated s then s else case evs of [] \<Rightarrow> s | e # rest \<Rightarrow> run_display w syms rest (handle w syms e s))"

declare run_display.simps [simp del]

definition startup_cmds :: "string list" where "startup_cmds = [EMBEDDER]"

definition compositor_main :: "wlr_t \<Rightarrow> (u32 \<Rightarrow> u32 list) \<Rightarrow> (u64 \<Rightarrow> u64) \<Rightarrow> bool \<Rightarrow> event list \<Rightarrow> int + server_t" where
  "compositor_main w syms ls_out backend_starts evs =
     (let s = server_init ls_out in
      if \<not> backend_starts then Inl 1
      else Inr (run_display w syms evs (s\<lparr>spawned := spawned s @ startup_cmds\<rparr>)))"

section \<open>Placement of layer surfaces\<close>

lemma difference_inside:
  fixes a d :: u32
  assumes "a < 2 ^ 31" "d \<le> a"
  shows "0 \<le> sint (a - d) \<and> sint (a - d) + uint d \<le> sint a"
    and "0 \<le> sint ((a - d) div 2) \<and> sint ((a - d) div 2) + uint d \<le> sint a"
proof -
  have u: "uint (a - d) = uint a - uint d" using assms(2) by (simp add: uint_minus_simple_alt word_le_def)
  have s: "sint x = uint x" if "uint x < 2 ^ 31" for x :: u32
    using that signed_take_bit_int_eq_self [of 31 "uint x"] unsigned_greater_eq [of x, where ?'a = int]
    by (simp add: sint_uint)
  have a: "uint a < 2 ^ 31" using assms(1) by (simp add: word_less_def)
  have d: "uint d \<le> uint a" "0 \<le> uint d" using assms(2) by (simp_all add: word_le_def)
  have h: "uint ((a - d) div 2) = (uint a - uint d) div 2" by (simp add: uint_div_distrib u)
  show "0 \<le> sint (a - d) \<and> sint (a - d) + uint d \<le> sint a"
    using a d u s [of "a - d"] s [of a] by linarith
  have "(uint a - uint d) div 2 \<le> uint a - uint d" "0 \<le> (uint a - uint d) div 2" using d by simp_all
  with a d h s [of "(a - d) div 2"] s [of a] show "0 \<le> sint ((a - d) div 2) \<and> sint ((a - d) div 2) + uint d \<le> sint a"
    by linarith
qed

text \<open>A layer surface that is no larger than its output is placed inside it, for every anchor.\<close>

lemma layer_position_inside:
  assumes "width < 2 ^ 31" "height < 2 ^ 31" "dw \<le> width" "dh \<le> height"
    and "layer_position center anchor width height dw dh = (x, y)"
  shows "0 \<le> sint x \<and> sint x + uint dw \<le> sint width \<and> 0 \<le> sint y \<and> sint y + uint dh \<le> sint height"
proof -
  have z: "uint dw \<le> sint width" "uint dh \<le> sint height"
    using difference_inside(1) [OF assms(1,3)] difference_inside(1) [OF assms(2,4)] by linarith+
  have "x = 0 \<or> x = width - dw \<or> x = (width - dw) div 2" "y = 0 \<or> y = height - dh \<or> y = (height - dh) div 2"
    using assms(5) by (auto simp: layer_position_def Let_def split: if_splits)
  then show ?thesis
    using z difference_inside [OF assms(1,3)] difference_inside [OF assms(2,4)] by auto
qed

text \<open>A centred surface that is wider than its output is not placed to the left of it but far outside to the right.\<close>

lemma oversized_layer_position: "center \<noteq> 0 \<Longrightarrow> fst (layer_position center center 1280 720 1282 720) = 0x7FFFFFFF"
  by (simp add: layer_position_def Let_def)

text \<open>A layer surface without an output of its own takes the last layer surface for one.\<close>

lemma layer_taken_for_output:
  assumes "ls_output s b = 0" "a \<noteq> b"
  shows "ls_output (new_layer_surface w b addr2 tree2 (new_layer_surface w a addr1 tree1 s)) b = a"
  using assms by (simp add: new_layer_surface_def Let_def split: list.splits)

section \<open>Windows follow their clients\<close>

text \<open>
  What the library guarantees of the events: new objects have addresses of their own, and the other events concern objects
  that exist.  A trace is a history of such events, newest first, and the server after it.
\<close>

definition layer_trees :: "server_t \<Rightarrow> u64 set" where
  "layer_trees s = {l_scene_tree l | l. LayerLink l \<in> set (outputs s)}"

fun valid :: "event \<Rightarrow> server_t \<Rightarrow> bool" where
  "valid (NewXdgSurface is_toplevel xdg addr tree) s \<longleftrightarrow> xdg \<noteq> 0 \<and> xdg \<notin> v_xdg_surface ` set (views s)
     \<and> addr \<notin> v_addr ` set (views s) \<and> tree \<notin> v_scene_tree ` set (views s) \<and> tree \<notin> layer_trees s"
| "valid (MapView v) s \<longleftrightarrow> v \<in> set (views s)"
| "valid (UnmapView v) s \<longleftrightarrow> v \<in> set (views s)"
| "valid (DestroyView v) s \<longleftrightarrow> v \<in> set (views s)"
| "valid (NewLayerSurface ls addr tree) s \<longleftrightarrow> tree \<notin> v_scene_tree ` set (views s)"
| "valid (MapLayer l) s \<longleftrightarrow> LayerLink l \<in> set (outputs s)"
| "valid (UnmapLayer l) s \<longleftrightarrow> LayerLink l \<in> set (outputs s)"
| "valid _ s \<longleftrightarrow> True"

inductive trace :: "wlr_t \<Rightarrow> (u32 \<Rightarrow> u32 list) \<Rightarrow> event list \<Rightarrow> server_t \<Rightarrow> bool"
  for w :: wlr_t and syms :: "u32 \<Rightarrow> u32 list"
where
  start: "trace w syms [] (server_init f)"
| handled: "trace w syms h s \<Longrightarrow> valid e s \<Longrightarrow> trace w syms (e # h) (handle w syms e s)"

text \<open>Whether the newest event about the visibility of a window showed it.\<close>

fun shown :: "event list \<Rightarrow> u64 \<Rightarrow> bool" where
  "shown [] a = False"
| "shown (MapView v # h) a = (v_addr v = a \<or> shown h a)"
| "shown (UnmapView v # h) a = (v_addr v \<noteq> a \<and> shown h a)"
| "shown (NewXdgSurface is_toplevel xdg addr tree # h) a = (\<not> (is_toplevel \<and> addr = a) \<and> shown h a)"
| "shown (e # h) a = shown h a"

definition views_inv :: "event list \<Rightarrow> server_t \<Rightarrow> bool" where
  "views_inv h s \<longleftrightarrow> distinct (map v_addr (views s)) \<and> distinct (map v_xdg_surface (views s))
     \<and> distinct (map v_scene_tree (views s)) \<and> (\<forall>v \<in> set (views s). v_xdg_surface v \<noteq> 0)
     \<and> v_scene_tree ` set (views s) \<inter> layer_trees s = {}
     \<and> (\<forall>v \<in> set (views s). enabled s (v_scene_tree v) = shown h (v_addr v))"

lemma layer_trees_new: "layer_trees (new_layer_surface w ls addr tree s) = insert tree (layer_trees s)"
proof -
  have "outputs (new_layer_surface w ls addr tree s) =
      LayerLink \<lparr>l_addr = addr, l_layer_surface = ls, l_scene_tree = tree\<rparr> # outputs s"
    by (simp add: new_layer_surface_def Let_def split: list.splits)
  then show ?thesis by (force simp: layer_trees_def)
qed

lemma same_field: "distinct (map f xs) \<Longrightarrow> x \<in> set xs \<Longrightarrow> y \<in> set xs \<Longrightarrow> f x = f y \<longleftrightarrow> x = y"
  by (auto simp: distinct_map inj_on_def)

text \<open>Handlers that leave the windows, their scene nodes and the layer surfaces as they are.\<close>

definition quiet_event :: "event \<Rightarrow> bool" where
  "quiet_event e \<longleftrightarrow> (case e of MaximizeView _ \<Rightarrow> True | FullscreenView _ \<Rightarrow> True | CommitLayer _ \<Rightarrow> True | Frame _ \<Rightarrow> True
     | NewOutput _ _ \<Rightarrow> True | NewInput _ _ \<Rightarrow> True | Modifiers _ \<Rightarrow> True | Key _ _ _ _ \<Rightarrow> True | DestroyKeyboard _ \<Rightarrow> True
     | RequestCursor _ _ _ _ _ \<Rightarrow> True | RequestSelection _ _ \<Rightarrow> True | DestroyOutput _ \<Rightarrow> True | DestroyLayer _ \<Rightarrow> True | _ \<Rightarrow> False)"

lemma key_bindings_frame:
  "views (snd (key_bindings syms s)) = views s \<and> enabled (snd (key_bindings syms s)) = enabled s
   \<and> outputs (snd (key_bindings syms s)) = outputs s"
  by (induction syms arbitrary: s) (auto simp: handle_keybinding_def split: prod.splits bool.splits if_splits)

lemma quiet_frame:
  assumes "quiet_event e"
  shows "views (handle w syms e s) = views s \<and> enabled (handle w syms e s) = enabled s
    \<and> layer_trees (handle w syms e s) \<subseteq> layer_trees s \<and> shown (e # h) a = shown h a"
proof (cases e)
  case (Key kb t code st)
  then show ?thesis using key_bindings_frame [of "syms (code + 8)" s]
    by (auto simp: keyboard_key_def Let_def seat_call_def layer_trees_def split: prod.splits if_splits)
qed (use assms in \<open>auto simp: quiet_event_def layer_trees_def begin_maximize_def begin_fullscreen_def layer_surface_commit_def
    output_frame_def new_output_def output_destroy_def layer_surface_destroy_def server_new_input_def server_new_keyboard_def
    server_new_pointer_def keyboard_modifiers_def keyboard_destroy_def seat_request_cursor_def seat_request_set_selection_def
    seat_call_def Let_def split: input_device.splits prod.splits\<close>)

lemma views_inv_step:
  assumes "views_inv h s" "valid e s"
  shows "views_inv (e # h) (handle w syms e s)"
proof (cases "quiet_event e")
  case True
  note f = quiet_frame [OF True, of w syms s h]
  have "views (handle w syms e s) = views s" "enabled (handle w syms e s) = enabled s" and sh: "\<And>a. shown (e # h) a = shown h a"
    using f by blast+
  moreover have "v_scene_tree ` set (views s) \<inter> layer_trees (handle w syms e s) = {}"
    using f assms(1) unfolding views_inv_def by blast
  ultimately show ?thesis using assms(1) unfolding views_inv_def by simp
next
  case False
  note inv = assms(1) [unfolded views_inv_def]
  show ?thesis
  proof (cases e)
    case (NewXdgSurface is_toplevel xdg addr tree)
    then show ?thesis using inv assms(2)
      by (auto simp: views_inv_def new_xdg_surface_def layer_trees_def)
  next
    case (MapView v)
    then show ?thesis using inv assms(2) same_field [of v_scene_tree "views s" _ v] same_field [of v_addr "views s" v]
      by (auto simp: views_inv_def xdg_surface_map_def layer_trees_def)
  next
    case (UnmapView v)
    then show ?thesis using inv assms(2) same_field [of v_scene_tree "views s" _ v] same_field [of v_addr "views s" v]
      by (auto simp: views_inv_def xdg_surface_unmap_def layer_trees_def)
  next
    case (DestroyView v)
    then show ?thesis using inv
      by (auto simp: views_inv_def xdg_surface_destroy_def layer_trees_def distinct_map_filter)
  next
    case (NewLayerSurface ls addr tree)
    have "views (new_layer_surface w ls addr tree s) = views s"
      "enabled (new_layer_surface w ls addr tree s) = (enabled s)(tree := False)"
      by (simp_all add: new_layer_surface_def Let_def split: list.splits)
    with NewLayerSurface inv assms(2) show ?thesis by (auto simp: views_inv_def layer_trees_new)
  next
    case (MapLayer l)
    with inv assms(2) show ?thesis by (auto simp: views_inv_def layer_surface_map_def layer_trees_def)
  next
    case (UnmapLayer l)
    with inv assms(2) show ?thesis by (auto simp: views_inv_def layer_surface_unmap_def layer_trees_def)
  qed (use False in \<open>simp_all add: quiet_event_def\<close>)
qed

lemma trace_views_inv: "trace w syms h s \<Longrightarrow> views_inv h s"
proof (induction rule: trace.induct)
  case (start f)
  then show ?case by (simp add: views_inv_def server_init_def)
next
  case (handled h s e)
  then show ?case by (intro views_inv_step)
qed


definition demo_wlr :: wlr_t where
  "demo_wlr = \<lparr>out_width = (\<lambda>_. 1280), out_height = (\<lambda>_. 720), ls_anchor = (\<lambda>_. 1), ls_desired_width = (\<lambda>_. 1280),
     ls_desired_height = (\<lambda>_. 40), requested_maximized = (\<lambda>_. False), requested_fullscreen = (\<lambda>_. False), anchor_center = 16\<rparr>"

definition demo_view :: view_t where
  "demo_view = \<lparr>v_addr = 0x20, v_xdg_surface = 0x10, v_scene_tree = 0x30\<rparr>"


end
