(* ===== verification/CompositorSetup.thy ===== *)
theory CompositorSetup
  imports Compositor
begin

text \<open>
  The set-up at the start of the compositor's \<^verbatim>\<open>main\<close> (\<^verbatim>\<open>src/userspace/compositor/omnios-compositor.c\<close>) and the handlers that only pass a
  request on.  The set-up is a straight sequence of calls into the library: the model keeps the sequence and follows which of the
  server's objects exist when each call is made.
\<close>

section \<open>Handlers that call the library\<close>

datatype wlr_call = Set_cursor_image string | Set_output_state u64 u64

definition reset_cursor_mode :: "wlr_call list" where
  "reset_cursor_mode = [Set_cursor_image ''left_ptr'']"

definition begin_interactive :: "view_t \<Rightarrow> u32 \<Rightarrow> bool \<Rightarrow> wlr_call list" where
  "begin_interactive view edge move = reset_cursor_mode"

definition begin_move :: "view_t \<Rightarrow> wlr_call list" where
  "begin_move view = begin_interactive view 0 True"

definition begin_resize :: "view_t \<Rightarrow> u32 \<Rightarrow> wlr_call list" where
  "begin_resize view edges = begin_interactive view edges False"

definition output_request_state :: "u64 \<Rightarrow> u64 \<Rightarrow> wlr_call list" where
  "output_request_state output state = [Set_output_state output state]"

section \<open>The set-up\<close>

datatype obj = Display | Backend | Renderer | Allocator | Scene | Output_layout | Xdg_shell | Layer_shell | Cursor | Xcursor_manager | Seat

text \<open>A statement creates an object of the server from others, calls a function on objects, or adds a listener to an object's signal.\<close>

datatype stmt = Create obj string "obj list" | Apply string "obj list" | Listen obj string

definition setup_program :: "stmt list" where
  "setup_program =
     [Create Display ''wl_display_create'' [],
      Create Backend ''wlr_backend_autocreate'' [Display],
      Create Renderer ''wlr_renderer_autocreate'' [Backend],
      Apply ''wlr_renderer_init_wl_shm'' [Renderer],
      Create Allocator ''wlr_allocator_autocreate'' [Backend, Renderer],
      Create Scene ''wlr_scene_create'' [],
      Apply ''wlr_scene_attach_output_layout'' [Scene, Output_layout],
      Apply ''wlr_compositor_create'' [Display, Renderer],
      Apply ''wlr_subcompositor_create'' [Display],
      Apply ''wlr_data_device_manager_create'' [Display],
      Create Output_layout ''wlr_output_layout_create'' [Display],
      Listen Backend ''new_output'',
      Create Xdg_shell ''wlr_xdg_shell_create'' [Display],
      Listen Xdg_shell ''new_surface'',
      Create Layer_shell ''wlr_layer_shell_v1_create'' [Display],
      Listen Layer_shell ''new_surface'',
      Create Cursor ''wlr_cursor_create'' [],
      Apply ''wlr_cursor_attach_output_layout'' [Cursor, Output_layout],
      Create Xcursor_manager ''wlr_xcursor_manager_create'' [],
      Apply ''wlr_xcursor_manager_load'' [Xcursor_manager],
      Create Seat ''wlr_seat_create'' [Display],
      Listen Backend ''new_input'',
      Listen Seat ''request_set_cursor'',
      Listen Seat ''request_set_selection'']"

text \<open>The server's fields, 0 for NULL, and the calls made so far with the values of their arguments.\<close>

record setup_state =
  objects :: "obj \<Rightarrow> u64"
  calls :: "(string \<times> u64 list) list"
  listeners :: "(u64 \<times> string) list"

fun run_stmt :: "(string \<Rightarrow> u64 list \<Rightarrow> u64) \<Rightarrow> stmt \<Rightarrow> setup_state \<Rightarrow> setup_state" where
  "run_stmt lib (Create x f args) s =
     (let as = map (objects s) args in s\<lparr>calls := calls s @ [(f, as)], objects := (objects s)(x := lib f as)\<rparr>)"
| "run_stmt lib (Apply f args) s = s\<lparr>calls := calls s @ [(f, map (objects s) args)]\<rparr>"
| "run_stmt lib (Listen x sig) s = s\<lparr>listeners := listeners s @ [(objects s x, sig)]\<rparr>"

definition server_setup :: "(string \<Rightarrow> u64 list \<Rightarrow> u64) \<Rightarrow> setup_state" where
  "server_setup lib = fold (run_stmt lib) setup_program \<lparr>objects = (\<lambda>_. 0), calls = [], listeners = []\<rparr>"

section \<open>What exists when it is used\<close>

text \<open>The objects that the statements so far have created, and the uses of an object before its creation.\<close>

fun early_uses :: "obj list \<Rightarrow> stmt list \<Rightarrow> (string \<times> obj) list" where
  "early_uses have [] = []"
| "early_uses have (Create x f args # ss) = map (Pair f) (filter (\<lambda>a. a \<notin> set have) args) @ early_uses (x # have) ss"
| "early_uses have (Apply f args # ss) = map (Pair f) (filter (\<lambda>a. a \<notin> set have) args) @ early_uses have ss"
| "early_uses have (Listen x sig # ss) = (if x \<in> set have then [] else [(sig, x)]) @ early_uses have ss"

text \<open>When the library's constructors succeed, the calls with a null argument are exactly those that use an object early.\<close>

lemma null_arguments:
  assumes "\<And>f as. lib f as \<noteq> 0" "\<And>x. objects s x = 0 \<longleftrightarrow> x \<notin> set have"
  shows "\<exists>cs ls. calls (fold (run_stmt lib) ss s) = calls s @ cs \<and> listeners (fold (run_stmt lib) ss s) = listeners s @ ls
    \<and> ((\<forall>(f, as)\<in>set cs. 0 \<notin> set as) \<and> (\<forall>(p, sig)\<in>set ls. p \<noteq> 0) \<longleftrightarrow> early_uses have ss = [])"
  using assms(2)
proof (induction ss arbitrary: s "have")
  case (Cons st ss)
  show ?case
  proof (cases st)
    case (Create x f args)
    let ?s = "run_stmt lib st s"
    have "objects ?s y = 0 \<longleftrightarrow> y \<notin> set (x # have)" for y using assms(1) Cons.prems by (simp add: Create Let_def)
    from Cons.IH [OF this] obtain cs ls where i: "calls (fold (run_stmt lib) ss ?s) = calls ?s @ cs"
      "listeners (fold (run_stmt lib) ss ?s) = listeners ?s @ ls"
      "(\<forall>(f, as)\<in>set cs. 0 \<notin> set as) \<and> (\<forall>(p, sig)\<in>set ls. p \<noteq> 0) \<longleftrightarrow> early_uses (x # have) ss = []" by blast
    have "0 \<notin> set (map (objects s) args) \<longleftrightarrow> filter (\<lambda>a. a \<notin> set have) args = []"
      using Cons.prems by (auto simp: filter_empty_conv)
    with i show ?thesis
      by (intro exI [of _ "(f, map (objects s) args) # cs"] exI [of _ ls]) (simp add: Create Let_def)
  next
    case (Apply f args)
    let ?s = "run_stmt lib st s"
    have "objects ?s y = 0 \<longleftrightarrow> y \<notin> set have" for y using Cons.prems by (simp add: Apply)
    from Cons.IH [OF this] obtain cs ls where i: "calls (fold (run_stmt lib) ss ?s) = calls ?s @ cs"
      "listeners (fold (run_stmt lib) ss ?s) = listeners ?s @ ls"
      "(\<forall>(f, as)\<in>set cs. 0 \<notin> set as) \<and> (\<forall>(p, sig)\<in>set ls. p \<noteq> 0) \<longleftrightarrow> early_uses have ss = []" by blast
    have "0 \<notin> set (map (objects s) args) \<longleftrightarrow> filter (\<lambda>a. a \<notin> set have) args = []"
      using Cons.prems by (auto simp: filter_empty_conv)
    with i show ?thesis
      by (intro exI [of _ "(f, map (objects s) args) # cs"] exI [of _ ls]) (simp add: Apply)
  next
    case (Listen x sig)
    let ?s = "run_stmt lib st s"
    have "objects ?s y = 0 \<longleftrightarrow> y \<notin> set have" for y using Cons.prems by (simp add: Listen)
    from Cons.IH [OF this] obtain cs ls where i: "calls (fold (run_stmt lib) ss ?s) = calls ?s @ cs"
      "listeners (fold (run_stmt lib) ss ?s) = listeners ?s @ ls"
      "(\<forall>(f, as)\<in>set cs. 0 \<notin> set as) \<and> (\<forall>(p, sig)\<in>set ls. p \<noteq> 0) \<longleftrightarrow> early_uses have ss = []" by blast
    with Cons.prems show ?thesis
      by (intro exI [of _ cs] exI [of _ "(objects s x, sig) # ls"]) (simp add: Listen)
  qed
qed simp

text \<open>The program has one such use: the scene is attached to an output layout that does not exist yet.  Without that statement every
  call gets only objects that were created before.\<close>

lemma setup_uses_layout_early: "early_uses [] setup_program = [(''wlr_scene_attach_output_layout'', Output_layout)]"
  by (simp add: setup_program_def)

lemma attach_gets_null:
  "(''wlr_scene_attach_output_layout'', [lib ''wlr_scene_create'' [], 0]) \<in> set (calls (server_setup lib))"
  by (simp add: server_setup_def setup_program_def Let_def)

end
