(* ===== verification/Waydroid.thy ===== *)
theory Waydroid
  imports Capd
begin

text \<open>
  The start of the Android container (\<^verbatim>\<open>src/userspace/security/waydroid_binder.c\<close>).  The results of \<^verbatim>\<open>open\<close> and of the
  version query, the connection to the capability daemon and the pid that \<^verbatim>\<open>fork\<close> returns to the parent are arguments; the
  capability request is the client library's.
\<close>

record binder_node =
  bn_fd :: int
  bn_path :: string

record waydroid_t =
  binder_nodes :: "nat \<Rightarrow> binder_node"
  binder_node_count :: nat
  open_fds :: "int list"
  started :: "string list list"

abbreviation BINDER_SLOTS :: nat where "BINDER_SLOTS \<equiv> 3"
abbreviation CAP_IPC_SEND :: u64 where "CAP_IPC_SEND \<equiv> push_bit 3 1"
abbreviation CAP_IPC_RECV :: u64 where "CAP_IPC_RECV \<equiv> push_bit 4 1"
abbreviation BINDER_DEV :: string where "BINDER_DEV \<equiv> ''/dev/binder''"
abbreviation HWBINDER_DEV :: string where "HWBINDER_DEV \<equiv> ''/dev/hwbinder''"
abbreviation VNDBINDER_DEV :: string where "VNDBINDER_DEV \<equiv> ''/dev/vndbinder''"

text \<open>\<open>dev path\<close> is the descriptor and whether the version query succeeds, or the error number; none is
  the result when the node falls outside the array.\<close>

definition open_binder :: "(string \<Rightarrow> int + int \<times> int option) \<Rightarrow> string \<Rightarrow> waydroid_t \<Rightarrow> (int \<times> waydroid_t) option" where
  "open_binder dev path s =
     (case dev path of
        Inl errno \<Rightarrow> Some (- errno, s)
      | Inr (fd, Some errno) \<Rightarrow> Some (- errno, s)
      | Inr (fd, None) \<Rightarrow>
          if binder_node_count s \<ge> BINDER_SLOTS then None
          else Some (fd, s\<lparr>binder_nodes := (binder_nodes s)(binder_node_count s := \<lparr>bn_fd = fd, bn_path = take 63 path\<rparr>),
                  binder_node_count := binder_node_count s + 1, open_fds := fd # open_fds s\<rparr>))"

fun open_all :: "(string \<Rightarrow> int + int \<times> int option) \<Rightarrow> string list \<Rightarrow> waydroid_t \<Rightarrow> waydroid_t option" where
  "open_all dev [] s = Some s"
| "open_all dev (p # ps) s = (case open_binder dev p s of None \<Rightarrow> None | Some (r, s') \<Rightarrow> open_all dev ps s')"

definition create_device_nodes :: "(string \<Rightarrow> int + int \<times> int option) \<Rightarrow> waydroid_t \<Rightarrow> (bool \<times> waydroid_t) option" where
  "create_device_nodes dev s =
     (case open_all dev [BINDER_DEV, HWBINDER_DEV, VNDBINDER_DEV] s of None \<Rightarrow> None
      | Some s' \<Rightarrow> Some (binder_node_count s' \<noteq> 0, s'))"

text \<open>The request goes to the daemon \<open>d\<close> over \<open>net\<close>, on the context if the connection succeeded; the context is
  dropped with the connection afterwards.\<close>

definition register_binder_capability ::
  "int \<Rightarrow> ('d \<Rightarrow> omnios_cap_msg_t \<Rightarrow> (int + omnios_cap_msg_t) \<times> 'd) \<Rightarrow> cap_ctx option \<Rightarrow> 'd \<Rightarrow> int \<times> 'd" where
  "register_binder_capability pid net cap_ctx d =
     (case cap_ctx of None \<Rightarrow> (0, d)
      | Some ctx \<Rightarrow>
          (let (tid, ctx', d') = omnios_cap_request pid net ctx (CAP_IPC_SEND OR CAP_IPC_RECV) (Some ''waydroid-binder'') d
           in (tid, d')))"

definition omnios_waydroid_start ::
  "int \<Rightarrow> ('d \<Rightarrow> omnios_cap_msg_t \<Rightarrow> (int + omnios_cap_msg_t) \<times> 'd) \<Rightarrow> cap_ctx option \<Rightarrow> (string \<Rightarrow> int + int \<times> int option) \<Rightarrow>
   'd \<Rightarrow> waydroid_t \<Rightarrow> (int \<times> 'd \<times> waydroid_t) option" where
  "omnios_waydroid_start pid net cap_ctx dev d s =
     (case create_device_nodes dev s of None \<Rightarrow> None
      | Some (False, s') \<Rightarrow> Some (1, d, s')
      | Some (True, s') \<Rightarrow>
          let (tid, d') = register_binder_capability pid net cap_ctx d
          in Some (0, d', s'\<lparr>started := [''/usr/bin/waydroid'', ''session'', ''start''] # started s'\<rparr>))"

definition omnios_waydroid_stop :: "waydroid_t \<Rightarrow> int \<times> waydroid_t" where
  "omnios_waydroid_stop s = (0, s\<lparr>started := [''/usr/bin/waydroid'', ''session'', ''stop''] # started s\<rparr>)"

section \<open>Starting\<close>

definition waydroid_static :: waydroid_t where
  "waydroid_static = \<lparr>binder_nodes = (\<lambda>_. \<lparr>bn_fd = 0, bn_path = ''''\<rparr>), binder_node_count = 0, open_fds = [], started = []\<rparr>"

definition works :: "(string \<Rightarrow> int + int \<times> int option) \<Rightarrow> string \<Rightarrow> bool" where
  "works dev p \<longleftrightarrow> (case dev p of Inr (fd, None) \<Rightarrow> True | _ \<Rightarrow> False)"

definition available :: "(string \<Rightarrow> int + int \<times> int option) \<Rightarrow> string list" where
  "available dev = filter (works dev) [BINDER_DEV, HWBINDER_DEV, VNDBINDER_DEV]"

lemma open_binder_ok:
  assumes "binder_node_count s + (if works dev p then 1 else 0) \<le> BINDER_SLOTS"
  shows "\<exists>r s'. open_binder dev p s = Some (r, s') \<and> started s' = started s
    \<and> binder_node_count s' = binder_node_count s + (if works dev p then 1 else 0)"
proof (cases "dev p")
  case (Inr r)
  obtain fd e where "r = (fd, e)" by fastforce
  with Inr assms show ?thesis by (cases e) (simp_all add: open_binder_def works_def)
qed (simp add: open_binder_def works_def)

lemma open_all_ok:
  assumes "binder_node_count s + length (filter (works dev) ps) \<le> BINDER_SLOTS"
  shows "\<exists>s'. open_all dev ps s = Some s' \<and> started s' = started s
    \<and> binder_node_count s' = binder_node_count s + length (filter (works dev) ps)"
  using assms
proof (induction ps arbitrary: s)
  case (Cons p ps)
  then obtain r u where u: "open_binder dev p s = Some (r, u)" "started u = started s"
    "binder_node_count u = binder_node_count s + (if works dev p then 1 else 0)"
    using open_binder_ok [of s dev p] by (auto split: if_splits)
  with Cons.IH [of u] Cons.prems show ?case by (auto split: if_splits)
qed simp

text \<open>The first start opens every available device and starts the container exactly when there is one, whether or not
  the capability was granted.\<close>

lemma first_start:
  "\<exists>d' s. omnios_waydroid_start pid net cap_ctx dev d waydroid_static = Some (if available dev = [] then 1 else 0, d', s)
    \<and> binder_node_count s = length (available dev)
    \<and> started s = (if available dev = [] then [] else [[''/usr/bin/waydroid'', ''session'', ''start'']])"
proof -
  have "length (available dev) \<le> 3"
    unfolding available_def by (rule order_trans [OF length_filter_le]) simp
  then obtain s where "open_all dev [BINDER_DEV, HWBINDER_DEV, VNDBINDER_DEV] waydroid_static = Some s" "started s = []"
    "binder_node_count s = length (available dev)"
    using open_all_ok [of waydroid_static dev "[BINDER_DEV, HWBINDER_DEV, VNDBINDER_DEV]"]
    by (auto simp only: available_def) (auto simp: waydroid_static_def)
  then show ?thesis
    by (cases "available dev = []")
      (simp_all add: omnios_waydroid_start_def create_device_nodes_def del: open_all.simps split: prod.split)
qed

text \<open>Nothing resets the count, and a stop does not close the devices: with all three devices a second
  start writes past the array.\<close>

lemma second_start_overflows:
  assumes "\<And>p. \<exists>fd. dev p = Inr (fd, None)"
  shows "\<exists>d' s. omnios_waydroid_start pid net c dev d waydroid_static = Some (0, d', s)
    \<and> omnios_waydroid_start pid net c' dev d' (snd (omnios_waydroid_stop s)) = None"
proof -
  have "works dev p" for p using assms [of p] by (auto simp: works_def)
  then have a: "available dev = [BINDER_DEV, HWBINDER_DEV, VNDBINDER_DEV]" by (simp add: available_def)
  obtain d' s where s: "omnios_waydroid_start pid net c dev d waydroid_static = Some (0, d', s)" "binder_node_count s = 3"
    using first_start [of pid net c dev d] by (auto simp: a)
  obtain fd where "dev BINDER_DEV = Inr (fd, None)" using assms by blast
  with s show ?thesis by (auto simp: omnios_waydroid_start_def create_device_nodes_def open_binder_def omnios_waydroid_stop_def)
qed

end
