(* ===== verification/UserInit.thy ===== *)
theory UserInit
  imports Procfs Vectors "HOL-Library.Signed_Division"
begin

text \<open>
  The first user program (\<^verbatim>\<open>src/userspace/init/init.c\<close>): its number printing and the text it writes before and in its
  heartbeat loop.  The output is the list of the texts handed to the write system call; the pid is what the system call returned.
  The last section runs the program's system calls on the kernel, through the exception vectors.
\<close>

section \<open>Printing\<close>

text \<open>\<^verbatim>\<open>puts\<close> writes a string up to its NUL.\<close>

definition init_puts :: "string \<Rightarrow> string list \<Rightarrow> string list" where
  "init_puts s out = out @ [takeWhile (\<lambda>c. c \<noteq> CHR 0x00) s]"

text \<open>The two loops of \<^verbatim>\<open>putn\<close>, with the truncating division of C: the digits are stored from the last one
  on and written one by one from the first one on.\<close>

function digits_loop :: "int \<Rightarrow> string" where
  "digits_loop n = (if n = 0 then [] else char_of (nat ((48 + n smod 10) mod 256)) # digits_loop (n sdiv 10))"
  by pat_completeness auto
termination
proof (relation "measure (\<lambda>n. nat \<bar>n\<bar>)")
  fix n :: int
  assume "n \<noteq> 0"
  then have "\<bar>n\<bar> div 10 < \<bar>n\<bar>" by simp
  then show "(n sdiv 10, n) \<in> measure (\<lambda>n. nat \<bar>n\<bar>)"
    by (auto simp: signed_divide_int_def sgn_if abs_mult zdiv_zminus1_eq_if)
qed simp

declare digits_loop.simps [simp del]

definition neg32 :: "int \<Rightarrow> int" where
  "neg32 n = sint (word_of_int (- n) :: u32)"

definition putn :: "int \<Rightarrow> string list \<Rightarrow> string list" where
  "putn n out =
     (let (n, out) = (if n < 0 then (neg32 n, init_puts ''-'' out) else (n, out))
      in if n = 0 then init_puts ''0'' out
         else out @ map (\<lambda>c. [c]) (rev (digits_loop n)))"

section \<open>The program\<close>

abbreviation LF :: char where "LF \<equiv> CHR 0x0A"
abbreviation RULE :: string where "RULE \<equiv> ''========================================''"

definition init_banner :: "int \<Rightarrow> string list" where
  "init_banner pid =
     (let out = fold init_puts [LF # RULE @ [LF], ''  OmniOS init (PID 1) started'' @ [LF], ''  Userspace boot sequence'' @ [LF],
                  RULE @ [LF], ''[INIT] PID: ''] [];
          out = putn pid out
      in fold init_puts [[LF], ''[INIT] Mounting devfs...'' @ [LF], ''[INIT] Mounting procfs...'' @ [LF],
           ''[INIT] Starting service manager...'' @ [LF], ''[INIT] Starting compositor...'' @ [LF],
           ''[INIT] Starting capability daemon...'' @ [LF], ''[INIT] Starting Waydroid...'' @ [LF],
           LF # RULE @ [LF], ''  OmniOS ready'' @ [LF], RULE @ [LF]] out)"

text \<open>The output after \<open>beats\<close> rounds of the endless loop.\<close>

definition init_start :: "int \<Rightarrow> nat \<Rightarrow> string list" where
  "init_start pid beats = fold init_puts (replicate beats (''[INIT] heartbeat'' @ [LF])) (init_banner pid)"

section \<open>Numbers are printed in decimal\<close>

lemma digits_loop_dec: "0 < n \<Longrightarrow> rev (digits_loop (int n)) = dec n"
proof (induction n rule: less_induct)
  case (less n)
  have d: "int n sdiv 10 = int (n div 10)" "int n smod 10 = int (n mod 10)"
    using less.prems by (simp_all add: signed_divide_int_def signed_modulo_int_def of_nat_div of_nat_mod minus_div_mult_eq_mod)
  have c: "nat ((48 + int (n mod 10)) mod 256) = 48 + n mod 10"
    by (simp add: nat_mod_distrib nat_add_distrib)
  show ?case
  proof (cases "n < 10")
    case True
    with less.prems show ?thesis by (simp add: digits_loop.simps [of "int n"] d c dec.simps [of n] digits_loop.simps [of 0])
  next
    case False
    then have "0 < n div 10" "n div 10 < n" by simp_all
    from less.IH [OF this(2,1)] False show ?thesis
      by (simp add: digits_loop.simps [of "int n"] d c dec.simps [of n])
  qed
qed

text \<open>For every number of the C type except the smallest, the text written is its decimal representation.\<close>

lemma putn_decimal:
  assumes "- (2 ^ 31) < n" "n < 2 ^ 31"
  shows "concat (putn n out) = concat out @ fmt_d n"
proof -
  have neg: "neg32 n = - n" if "n < 0"
  proof -
    have "signed_take_bit 31 (- n) = - n" using assms that by (intro signed_take_bit_int_eq_self) simp_all
    then show ?thesis by (simp only: neg32_def signed_of_int) simp
  qed
  have cc: "concat (map (\<lambda>c. [c]) xs) = xs" for xs :: string by (induction xs) simp_all
  consider "n < 0" | "n = 0" | "0 < n" by linarith
  then show ?thesis
  proof cases
    case 1
    then show ?thesis using digits_loop_dec [of "nat (- n)"]
      by (simp add: putn_def neg init_puts_def cc fmt_d_def)
  next
    case 2
    have "fmt_d 0 = ''0''" by code_simp
    with 2 show ?thesis by (simp add: putn_def init_puts_def)
  next
    case 3
    then show ?thesis using digits_loop_dec [of "nat n"] by (simp add: putn_def cc fmt_d_def)
  qed
qed

section \<open>The program on the kernel\<close>

text \<open>The four inline functions: the arguments in x0 to x2, the number of the call in x8, and \<^verbatim>\<open>svc #0\<close>.  The result of the last two is
  x0 cut to 32 bits.\<close>

type_synonym clobber = "(nat \<Rightarrow> u64) \<Rightarrow> nat \<Rightarrow> u64"
type_synonym user = "a64_t \<times> syscall_t"

definition init_sys_exit :: "sys_env \<Rightarrow> clobber \<Rightarrow> u32 \<Rightarrow> user \<Rightarrow> user + sysres" where
  "init_sys_exit e clob code = (\<lambda>(c, s). svc 0 e clob (mov 8 1 (mov 0 (scast code) c), s))"

definition init_sys_write :: "sys_env \<Rightarrow> clobber \<Rightarrow> u32 \<Rightarrow> u64 \<Rightarrow> u32 \<Rightarrow> user \<Rightarrow> (int \<times> user) + sysres" where
  "init_sys_write e clob fd buf cnt = (\<lambda>(c, s).
     case svc 0 e clob (mov 8 2 (mov 2 (scast cnt) (mov 1 buf (mov 0 (scast fd) c))), s) of
       Inr r \<Rightarrow> Inr r
     | Inl (c, s) \<Rightarrow> Inl (sint (ucast (a_x c 0) :: u32), c, s))"

definition init_sys_getpid :: "sys_env \<Rightarrow> clobber \<Rightarrow> user \<Rightarrow> (int \<times> user) + sysres" where
  "init_sys_getpid e clob = (\<lambda>(c, s).
     case svc 0 e clob (mov 8 7 c, s) of Inr r \<Rightarrow> Inr r | Inl (c, s) \<Rightarrow> Inl (sint (ucast (a_x c 0) :: u32), c, s))"

definition init_sys_sleep :: "sys_env \<Rightarrow> clobber \<Rightarrow> u32 \<Rightarrow> user \<Rightarrow> user + sysres" where
  "init_sys_sleep e clob ms = (\<lambda>(c, s). svc 0 e clob (mov 8 6 (mov 0 (scast ms) c), s))"

text \<open>A list of texts written one after the other; \<open>at t\<close> is the address of text \<open>t\<close>.\<close>

fun write_all :: "sys_env \<Rightarrow> clobber \<Rightarrow> (string \<Rightarrow> u64) \<Rightarrow> string list \<Rightarrow> user \<Rightarrow> user + sysres" where
  "write_all e clob at [] u = Inl u"
| "write_all e clob at (t # ts) u =
     (case init_sys_write e clob 1 (at t) (of_nat (length t)) u of
        Inr r \<Rightarrow> Inr r
      | Inl (_, u) \<Rightarrow> write_all e clob at ts u)"

fun heartbeat_loop :: "sys_env \<Rightarrow> clobber \<Rightarrow> (string \<Rightarrow> u64) \<Rightarrow> nat \<Rightarrow> user \<Rightarrow> user + sysres" where
  "heartbeat_loop e clob at 0 u = Inl u"
| "heartbeat_loop e clob at (Suc beats) u =
     (case init_sys_sleep e clob 1000 u of
        Inr r \<Rightarrow> Inr r
      | Inl u \<Rightarrow>
          (case write_all e clob at [''[INIT] heartbeat'' @ [LF]] u of
             Inr r \<Rightarrow> Inr r
           | Inl u \<Rightarrow> heartbeat_loop e clob at beats u))"

text \<open>\<^verbatim>\<open>_start\<close> for \<open>beats\<close> rounds: four texts, the pid, the other texts of the banner, the loop.\<close>

definition init_main :: "sys_env \<Rightarrow> clobber \<Rightarrow> (string \<Rightarrow> u64) \<Rightarrow> nat \<Rightarrow> user \<Rightarrow> user + sysres" where
  "init_main e clob at beats u =
     (case write_all e clob at (take 4 (init_banner 0)) u of
        Inr r \<Rightarrow> Inr r
      | Inl u \<Rightarrow>
          (case init_sys_getpid e clob u of
             Inr r \<Rightarrow> Inr r
           | Inl (pid, u) \<Rightarrow>
               (case write_all e clob at (drop 4 (init_banner pid)) u of
                  Inr r \<Rightarrow> Inr r
                | Inl u \<Rightarrow> heartbeat_loop e clob at beats u)))"

text \<open>The vector takes the number of the call from the operand of \<^verbatim>\<open>svc\<close>, which is 0 in all four functions, and no call has number 0.\<close>

lemma svc_0: "\<exists>c'. svc 0 e clob (c, s) = Inl (c', s) \<and> a_x c' 0 = -1"
proof -
  have "syscall_dispatch e (ucast (0 :: 16 word)) (map (a_x c) [0, 1, 2, 3, 4, 5]) s = Done (-1) s"
    by (simp add: syscall_dispatch_def syscall_table_def)
  from svc_runs [OF this] show ?thesis by blast
qed

lemma result_minus_1 [simp]: "sint (ucast (-1 :: u64) :: u32) = -1"
  by code_simp

lemma init_calls_fail:
  "\<exists>c'. init_sys_write e clob fd buf cnt (c, s) = Inl (-1, c', s)"
  "\<exists>c'. init_sys_getpid e clob (c, s) = Inl (-1, c', s)"
  "\<exists>c'. init_sys_sleep e clob ms (c, s) = Inl (c', s)"
  using svc_0 [of e clob "mov 8 2 (mov 2 (scast cnt) (mov 1 buf (mov 0 (scast fd) c)))" s] svc_0 [of e clob "mov 8 7 c" s]
    svc_0 [of e clob "mov 8 6 (mov 0 (scast ms) c)" s]
  by (auto simp: init_sys_write_def init_sys_getpid_def init_sys_sleep_def)

lemma write_all_lost: "\<exists>c'. write_all e clob at ts (c, s) = Inl (c', s)"
proof (induction ts arbitrary: c)
  case (Cons t ts)
  from init_calls_fail(1) [of e clob 1 "at t" "of_nat (length t)" c s] Cons.IH show ?case by auto
qed simp

text \<open>However long the program runs, it changes nothing in the kernel: its output is lost and it never sleeps.\<close>

lemma init_output_lost: "\<exists>c'. init_main e clob at beats (c, s) = Inl (c', s)"
proof -
  have loop: "\<exists>c'. heartbeat_loop e clob at beats (c, s) = Inl (c', s)" for c
  proof (induction beats arbitrary: c)
    case (Suc n)
    obtain c1 where 1: "init_sys_sleep e clob 1000 (c, s) = Inl (c1, s)" using init_calls_fail(3) by blast
    obtain c2 where 2: "write_all e clob at [''[INIT] heartbeat'' @ [LF]] (c1, s) = Inl (c2, s)" using write_all_lost by blast
    from Suc.IH [of c2] show ?case by (simp only: heartbeat_loop.simps 1 2 sum.case)
  qed simp
  obtain c1 where 1: "write_all e clob at (take 4 (init_banner 0)) (c, s) = Inl (c1, s)" using write_all_lost by blast
  obtain c2 where 2: "init_sys_getpid e clob (c1, s) = Inl (-1, c2, s)" using init_calls_fail(2) by blast
  obtain c3 where 3: "write_all e clob at (drop 4 (init_banner (-1))) (c2, s) = Inl (c3, s)" using write_all_lost by blast
  from loop [of c3] show ?thesis by (simp only: init_main_def 1 2 3 sum.case prod.case)
qed

end
