(* ===== verification/Spec2Isabelle.thy ===== *)
theory Spec2Isabelle
  imports App Bridge Boot CapdMain Context Sensors Pipe Tty Klog InputEv PageBitmap Process Ipc Timer Virtio Kernel EmbedderRun CompositorSetup Waydroid UserInit
begin

text \<open>
  OmniOS: a kernel for the PC (x86-64) and for a Snapdragon 865 phone (ARM64), a capability daemon, a
  Wayland compositor, the embedder of its Flutter user interface, and a launcher for an Android container.  This library
  models the C, assembly and Dart sources under \<^verbatim>\<open>src/\<close> as HOL functions and proves what makes them correct, or how they fail.

  \<^bold>\<open>How the parts interact.\<close>  \<^verbatim>\<open>kmain\<close> (\<^verbatim>\<open>src/kernel/kernel_main.c\<close>) initialises the processor tables,
  interrupts, memory, processes and the scheduler and starts the init thread, which scans the PCI bus on the PC; on the phone
  it boots the drivers, takes the program \<^verbatim>\<open>init\<close> from the archive linked into the image and enters it by a system call.
  The assembly of each processor brings the machine to \<^verbatim>\<open>kmain\<close>; programs come back through the exception vectors and the system calls.
  In user space the compositor starts the embedder, which answers the messages of the Dart application; programs ask the capability
  daemon for tokens.

  \<^bold>\<open>Conventions.\<close>  A C integer is a word of its width (\<open>u8\<close> to \<open>u64\<close>), so that arithmetic wraps as in the code; an \<^verbatim>\<open>int\<close>
  that stays in range is an integer.  A structure is a record, a static array a function from indices, a
  pointer an address, an option, or 0 for NULL.  A function that changes static variables returns the new state.  A kernel panic or an
  access outside an array is a value of the result (\<open>outcome\<close>, \<open>option\<close>).  A loop that can run for ever is a
  \<^theory_text>\<open>partial_function (option)\<close> whose value is \<open>None\<close> when it does not return, and the properties about it prove that it returns.
  No definition has fuel; a wait that the sources bound keeps its bound (100 rounds in \<open>Smp.boot_rounds\<close>).
  Printed messages are left out unless the text is the result.

  \<^bold>\<open>Shared library.\<close>
  \<^item> \<open>Prelude\<close>: types and constants of \<^verbatim>\<open>omnios_kernel.h\<close>, searches of tables, words and alignment.
  \<^item> \<open>Ring\<close>: locales \<open>bounded_queue\<close> and \<open>overwriting_queue\<close>, interpreted for pipes, terminal, log, input events and run queues.
  \<^item> \<open>Packed\<close>: locale \<open>keyed_store\<close>, for tables kept at the front of an array, interpreted for the IPC channels and the capability tokens.
  \<^item> \<open>Radix\<close>: locale \<open>radix_tables\<close>, page tables as trees, interpreted for the tables of both processors.
  \<^item> \<open>Io\<close>: port, memory-mapped and register accesses (\<^verbatim>\<open>arch/x86_64/io.h\<close>) in the state monad.  A device is any function from the
    history of accesses to an answer; what a proof needs of a device is a hypothesis about that function.

  \<^bold>\<open>Memory\<close> (\<^verbatim>\<open>src/kernel/mm\<close>, \<^verbatim>\<open>arch/*/\<close>).
  \<^item> \<open>Pmm\<close> (\<^verbatim>\<open>pmm.c\<close>): the buddy allocator with its free lists inside the free pages; no page is handed out twice, and what
    allocation, release and \<^verbatim>\<open>pmm_init\<close> do.
  \<^item> \<open>Heap\<close>, \<open>PageBitmap\<close> (\<^verbatim>\<open>memory.c\<close>): the kernel heap keeps its blocks tiled and disjoint; the page bitmap.
  \<^item> \<open>Paging\<close> (\<^verbatim>\<open>paging.c\<close>), \<open>Arm64\<close> (\<^verbatim>\<open>arm64.c\<close>), \<open>Vmm\<close> (\<^verbatim>\<open>vmm.c\<close>): a mapping changes the translation of its own pages only; regions and
    page faults.

  \<^bold>\<open>Processes\<close> (\<^verbatim>\<open>src/kernel/proc\<close>, \<^verbatim>\<open>sched\<close>, \<^verbatim>\<open>ipc\<close>, \<^verbatim>\<open>timer.c\<close>, \<^verbatim>\<open>syscall.c\<close>).
  \<^item> \<open>Proc_Types\<close>, \<open>Process\<close>, \<open>Signal\<close>: control blocks, creation, fork, exit and wait; identifiers stay unique; signal delivery.
  \<^item> \<open>Context\<close> (the assembly of \<^verbatim>\<open>context_switch\<close> in \<^verbatim>\<open>process.c\<close>): a switch to a context and back restores every register it saves.
  \<^item> \<open>Sched\<close>: run queues refine lists and every thread of a queue gets its turn.
  \<^item> \<open>Ipc\<close>, \<open>Pipe\<close>, \<open>Timer\<close>: channels refine a multiset of pending messages, pipes are streams, periodic timers fire on time.
  \<^item> \<open>Vectors\<close> (\<^verbatim>\<open>arch/arm64/exceptions.S\<close>): entry, dispatch and return of an exception on a memory of 8-byte cells; a system call returns to the
    instruction after it with its result and every other register kept.
  \<^item> \<open>Initramfs\<close>, \<open>Elf\<close>, \<open>Syscall\<close>: finding a file in the archive, loading it, and entering it; the errors of the system calls.
  \<^item> \<open>Devfs\<close>, \<open>Procfs\<close>, \<open>Tty\<close>, \<open>Klog\<close>: device nodes, process file system, console and log.

  \<^bold>\<open>The PC\<close> (\<^verbatim>\<open>src/kernel/arch/x86_64\<close>, \<^verbatim>\<open>drivers\<close>).
  \<^item> \<open>Gdt\<close>, \<open>Irq\<close>, \<open>Apic\<close>: descriptor tables read back as the processor reads them; interrupt lines are unmasked exactly when they have handlers.
  \<^item> \<open>Acpi\<close>, \<open>Pci\<close>, \<open>Virtio\<close>: the firmware tables are walked to their end, the bus scan finds the functions that answer,
    and requests in flight use different descriptors.
  \<^item> \<open>Cpu\<close>, \<open>Smp\<close>: feature detection from any CPUID function; the entry points of the other processors under every interleaving.

  \<^bold>\<open>The phone\<close> (\<^verbatim>\<open>src/kernel/bsp/sm8250\<close>).
  \<^item> \<open>Sm8250\<close>, \<open>Rtc\<close>, \<open>DisplayFb\<close>, \<open>InputEv\<close>, \<open>Phone\<close>: board registers and power, calendar arithmetic, painting of rectangles, input events, and the
    other drivers with the boot sequence on the shared registers.
  \<^item> \<open>Sensors\<close>: the conversions of the sensor driver, a float being a rational rounded to 24 bits after each operation.

  \<^bold>\<open>Start of the kernel\<close>: \<open>Kernel\<close> composes the initialisers of all of these in the order of \<^verbatim>\<open>kmain\<close> on one machine.  It shows
  that boot reaches the idle loop with tables, handlers and masks in place, and with an allocator that has no page.  \<open>Boot\<close>
  (\<^verbatim>\<open>boot.S\<close> of both processors) leads there: the phone's start code clears its section, leaves the higher exception levels and
  calls \<^verbatim>\<open>kmain\<close>; the PC's start code faults on its empty page tables.

  \<^bold>\<open>User space\<close> (\<^verbatim>\<open>src/userspace\<close>).
  \<^item> \<open>Capd\<close> (\<^verbatim>\<open>security/capability_*.c\<close>): no message gives a process rights that the policy denies; request, verify and revoke; every client is served.
    \<open>CapdMain\<close>: its start, main loop and signals, and that it ends after one.
  \<^item> \<open>Waydroid\<close> (\<^verbatim>\<open>security/waydroid_binder.c\<close>): start and stop of the container, with the client library of \<open>Capd\<close>.
  \<^item> \<open>Compositor\<close> (\<^verbatim>\<open>compositor/omnios-compositor.c\<close>): the handlers as functions on the server's lists; windows follow their clients.
    \<open>CompositorSetup\<close>: the calls that build the server, in order.
  \<^item> \<open>Embedder\<close> (\<^verbatim>\<open>flutter-embedder/embedder.c\<close>): start-up, event loop and the answers to platform messages.
    \<open>EmbedderRun\<close>: callbacks, tear-down, and the interleavings of its two threads.
  \<^item> \<open>UserInit\<close> (\<^verbatim>\<open>init/init.c\<close>): the first program, on the exception vectors of the kernel.
  \<^item> \<open>App\<close> (\<^verbatim>\<open>omnios_app/lib\<close>): catalogue, runtimes, gestures, shared state and phone frame of the Dart application; the state stays
    consistent under every sequence of operations.  \<open>Json\<close> and \<open>Bridge\<close> (\<^verbatim>\<open>platform_bridge.dart\<close>): a call of the application answered by the
    embedder's C code, through the JSON that both sides read.

  \<^bold>\<open>External code.\<close>  Functions that the sources call but do not define are parameters: \<^verbatim>\<open>sched_create_thread\<close>
  (\<open>Kernel\<close>), the length field of a firmware table whose structure is not declared (\<open>Acpi\<close>), three process calls of the system-call table
  (\<open>Syscall\<close>), CPUID, Wayland, wlroots, EGL, Flutter and the C library's system calls.

  \<^bold>\<open>Not modelled.\<close>
  \<^item> In the assembly, descriptor tables and segment loads, which no later step of the model reads; linker scripts, whose
    addresses are arguments.
  \<^item> The texts of diagnostic messages.
  \<^item> The screens and widgets of the Dart application, whose semantics is that of the Flutter framework.
  \<^item> Tests, build files and shell scripts.
  \<^item> Declarations of \<^verbatim>\<open>omnios_kernel.h\<close> that no source implements.
\<close>

end
